(* ===== verification/Prelude.thy ===== *)
theory Prelude imports Main "HOL-Library.Word" "HOL-Library.Monad_Syntax" begin

section \<open>Prelude\<close>

text \<open>
  What the component theories share: the machine types of the target (LP64, little endian),
  memory regions as byte lists with bounds-checked copies, the C string functions on buffers of a
  fixed size, byte encodings of integers, and decimal numbers as \<open>printf\<close> and \<open>scanf\<close> treat them.

  Conventions of the whole development:
  \<^item> the result \<open>None\<close> of an operation means that the C code has no defined behaviour there (an access
    outside an object, a NULL pointer passed to a function that dereferences it); error codes are
    ordinary values;
  \<^item> a C \<open>int\<close> is an \<open>int\<close>, a \<open>size_t\<close> a 64-bit word; \<open>size_of_int\<close> is C's conversion;
  \<^item> a pointer that may be NULL is an \<open>option\<close>.
\<close>

unbundle bit_operations_syntax

type_synonym byte = "8 word"
type_synonym u16 = "16 word"
type_synonym u32 = "32 word"
type_synonym u64 = "64 word"
type_synonym addr = nat

named_theorems codec \<open>encode and decode laws\<close>
named_theorems region \<open>reads and writes of memory regions\<close>

text \<open>The result of a call that may wait for ever.\<close>

datatype 'a call_result = Hangs | Returns 'a

text \<open>
  The result of one step of a thread. \<open>sem_take\<close> is \<open>sem_wait\<close> with the rest of the step: it blocks at 0 and
  crashes on a semaphore that was not initialised (\<open>None\<close>).
\<close>

datatype 'a outcome = Blocked | Crash | Step 'a

fun sem_take :: "nat option \<Rightarrow> (nat \<Rightarrow> 'a outcome) \<Rightarrow> 'a outcome" where
  "sem_take None f = Crash"
| "sem_take (Some 0) f = Blocked"
| "sem_take (Some (Suc v)) f = f v"

lemma sem_take_Step: "sem_take x f = Step y \<longleftrightarrow> (\<exists>v. x = Some (Suc v) \<and> f v = Step y)"
  by (induction x f rule: sem_take.induct) auto

subsection \<open>Integer conversions\<close>

definition size_of_int :: "int \<Rightarrow> u64" where
  "size_of_int i = word_of_int i"

text \<open>A \<open>size_t\<close> assigned to an \<open>int\<close> keeps its low 32 bits.\<close>

definition int_of_size :: "u64 \<Rightarrow> int" where
  "int_of_size w = sint (ucast w :: u32)"

lemma uint_size_of_int: "uint (size_of_int i) = i mod 2 ^ 64"
  by (simp add: size_of_int_def uint_word_of_int)

lemma unat_size_of_int: "0 \<le> i \<Longrightarrow> i < 2 ^ 64 \<Longrightarrow> unat (size_of_int i) = nat i"
  by (simp add: size_of_int_def unat_eq_nat_uint uint_word_of_int)

lemma unat_add_small:
  fixes a b :: u64
  assumes "unat a + unat b < 2 ^ 64"
  shows "unat (a + b) = unat a + unat b"
  using assms by (simp add: unat_word_ariths)

lemma unat_mult_small:
  fixes a b :: u64
  assumes "unat a * unat b < 2 ^ 64"
  shows "unat (a * b) = unat a * unat b"
  using assms by (simp add: unat_word_ariths)

lemma unat_of_nat_small: "n < 2 ^ 64 \<Longrightarrow> unat (of_nat n :: u64) = n"
  by (simp add: unsigned_of_nat take_bit_nat_eq_self)

subsection \<open>Memory regions\<close>

text \<open>
  \<open>region_write m o bs\<close> is \<open>memcpy (m + o, bs, length bs)\<close> and \<open>region_read m o n\<close> reads \<open>n\<close> bytes from
  \<open>m + o\<close>; both are undefined outside the region.
\<close>

definition region_write :: "'b list \<Rightarrow> nat \<Rightarrow> 'b list \<Rightarrow> 'b list option" where
  "region_write m off bs =
     (if off + length bs \<le> length m then Some (take off m @ bs @ drop (off + length bs) m) else None)"

definition region_read :: "'b list \<Rightarrow> nat \<Rightarrow> nat \<Rightarrow> 'b list option" where
  "region_read m off n = (if off + n \<le> length m then Some (take n (drop off m)) else None)"

lemma region_write_length [region]: "region_write m off bs = Some m' \<Longrightarrow> length m' = length m"
  by (auto simp: region_write_def split: if_splits)

lemma region_write_Some [region]:
  "off + length bs \<le> length m \<Longrightarrow> \<exists>m'. region_write m off bs = Some m'"
  by (simp add: region_write_def)

lemma region_read_Some [region]: "off + n \<le> length m \<Longrightarrow> \<exists>bs. region_read m off n = Some bs"
  by (simp add: region_read_def)

lemma region_read_length [region]: "region_read m off n = Some bs \<Longrightarrow> length bs = n"
  by (auto simp: region_read_def split: if_splits)

lemma region_write_nth:
  assumes "region_write m off bs = Some m'" and "i < length m"
  shows "m' ! i = (if off \<le> i \<and> i < off + length bs then bs ! (i - off) else m ! i)"
  using assms by (auto simp: region_write_def nth_append min_def split: if_splits)

lemma region_read_write_same [region]:
  assumes "region_write m off bs = Some m'"
  shows "region_read m' off (length bs) = Some bs"
  using assms by (auto simp: region_write_def region_read_def split: if_splits)

lemma region_read_nth:
  assumes "region_read m off n = Some bs" and "i < n"
  shows "bs ! i = m ! (off + i)"
  using assms by (auto simp: region_read_def split: if_splits)

lemma region_read_write_other [region]:
  assumes w: "region_write m off bs = Some m'" and d: "off' + n \<le> off \<or> off + length bs \<le> off'"
  shows "region_read m' off' n = region_read m off' n"
proof (cases "off' + n \<le> length m")
  case True
  have l: "length m' = length m" using w by (rule region_write_length)
  have "take n (drop off' m') = take n (drop off' m)"
  proof (rule nth_equalityI)
    show "length (take n (drop off' m')) = length (take n (drop off' m))" using l by simp
    fix i assume "i < length (take n (drop off' m'))"
    then have i: "i < n" "off' + i < length m" using l by auto
    then show "take n (drop off' m') ! i = take n (drop off' m) ! i"
      using d l region_write_nth [OF w i(2)] by auto
  qed
  then show ?thesis using True l by (simp add: region_read_def)
next
  case False
  then show ?thesis using region_write_length [OF w] by (simp add: region_read_def)
qed

lemma region_write_take:
  assumes "region_write m k bs = Some m'"
  shows "take (k + length bs) m' = take k m @ bs"
  using assms by (auto simp: region_write_def split: if_splits)

lemma region_write_append:
  assumes "region_write m off a = Some m1" "region_write m1 (off + length a) b = Some m2"
  shows "region_write m off (a @ b) = Some m2"
proof -
  have fit: "off + length a + length b \<le> length m" and m1: "m1 = take off m @ a @ drop (off + length a) m"
    using assms by (auto simp: region_write_def split: if_splits)
  have "m2 = take (off + length a) m1 @ b @ drop (off + length a + length b) m1"
    using assms(2) by (simp add: region_write_def split: if_splits)
  also have "take (off + length a) m1 = take off m @ a" by (rule region_write_take [OF assms(1)])
  also have "drop (off + length a + length b) m1 = drop (off + length a + length b) m" using fit by (simp add: m1 add.commute)
  finally show ?thesis using fit by (simp add: region_write_def add.assoc)
qed

subsection \<open>C strings in buffers of a fixed size\<close>

text \<open>
  A C string is the \<open>string\<close> before its terminating NUL. \<open>strcpy\<close> into a buffer of \<open>n\<close> bytes writes
  \<open>length s + 1\<close> bytes, so it is defined only for \<open>length s < n\<close>; \<open>snprintf\<close> cuts.
\<close>

definition strcpy_buf :: "nat \<Rightarrow> string \<Rightarrow> string option" where
  "strcpy_buf n s = (if length s < n then Some s else None)"

definition snprintf_buf :: "nat \<Rightarrow> string \<Rightarrow> string" where
  "snprintf_buf n s = take (n - 1) s"

lemma strcpy_buf_Some: "strcpy_buf n s = Some t \<longleftrightarrow> t = s \<and> length s < n"
  by (auto simp: strcpy_buf_def)

lemma snprintf_buf_fits: "length s < n \<Longrightarrow> snprintf_buf n s = s"
  by (simp add: snprintf_buf_def)

lemma snprintf_buf_length: "0 < n \<Longrightarrow> length (snprintf_buf n s) < n"
  by (auto simp: snprintf_buf_def min_def)

subsection \<open>Integers as bytes\<close>

text \<open>
  \<open>le_bytes n w\<close> are the \<open>n\<close> low bytes of \<open>w\<close> in the order a little-endian machine stores them;
  \<open>be_bytes\<close> the same in network order, what \<open>htons\<close> and \<open>htonl\<close> leave in memory.
\<close>

fun le_bytes :: "nat \<Rightarrow> 'a::len word \<Rightarrow> byte list" where
  "le_bytes 0 w = []"
| "le_bytes (Suc n) w = ucast w # le_bytes n (drop_bit 8 w)"

fun of_le_bytes :: "byte list \<Rightarrow> 'a::len word" where
  "of_le_bytes [] = 0"
| "of_le_bytes (b # bs) = ucast b OR push_bit 8 (of_le_bytes bs)"

definition be_bytes :: "nat \<Rightarrow> 'a::len word \<Rightarrow> byte list" where
  "be_bytes n w = rev (le_bytes n w)"

definition of_be_bytes :: "byte list \<Rightarrow> 'a::len word" where
  "of_be_bytes bs = of_le_bytes (rev bs)"

lemma le_bytes_length [simp]: "length (le_bytes n w) = n"
  by (induction n arbitrary: w) auto

lemma be_bytes_length [simp]: "length (be_bytes n w) = n"
  by (simp add: be_bytes_def)

lemma low_byte_or_rest: "(ucast (ucast w :: byte) :: 'a::len word) OR push_bit 8 (drop_bit 8 w) = w"
  by (rule bit_word_eqI)
    (use not_less in \<open>fastforce simp: bit_or_iff bit_push_bit_iff bit_drop_bit_eq bit_ucast_iff\<close>)

lemma of_le_bytes_le_bytes_take:
  "of_le_bytes (le_bytes n (w :: 'a::len word)) = take_bit (8 * n) w"
proof (induction n arbitrary: w)
  case 0
  then show ?case by simp
next
  case (Suc n)
  show ?case
  proof (rule bit_word_eqI)
    fix k assume "k < LENGTH('a)"
    then show "bit (of_le_bytes (le_bytes (Suc n) w) :: 'a word) k = bit (take_bit (8 * Suc n) w) k"
      using bit_imp_le_length [of w k]
      by (cases "k < 8")
        (auto simp: Suc.IH bit_or_iff bit_push_bit_iff bit_drop_bit_eq bit_ucast_iff bit_take_bit_iff
          dest: bit_imp_le_length)
  qed
qed

lemma of_le_bytes_le_bytes [codec]:
  "LENGTH('a) \<le> 8 * n \<Longrightarrow> of_le_bytes (le_bytes n (w :: 'a::len word)) = w"
  by (simp add: of_le_bytes_le_bytes_take take_bit_word_eq_self)

lemma of_be_bytes_be_bytes [codec]:
  "LENGTH('a) \<le> 8 * n \<Longrightarrow> of_be_bytes (be_bytes n (w :: 'a::len word)) = w"
  by (simp add: of_be_bytes_def be_bytes_def of_le_bytes_le_bytes)

end
