(* ===== verification/Decimal.thy ===== *)
theory Decimal imports Prelude begin

section \<open>Decimal numbers in strings\<close>

text \<open>
  What the sources use of \<open>printf\<close> and \<open>scanf\<close> on numbers: \<open>%zd\<close> and \<open>%d\<close> print a signed value,
  \<open>%zu\<close> and \<open>%d\<close> read an optional sign and the longest run of digits after leading white space
  (\<open>strtoul\<close> and \<open>strtol\<close>: a value out of range is the largest one, a minus sign negates modulo the
  word). A scan without a digit assigns nothing, which is \<open>None\<close>.
\<close>

definition digit_char :: "nat \<Rightarrow> char" where
  "digit_char d = char_of (48 + d)"

definition is_digit :: "char \<Rightarrow> bool" where
  "is_digit c \<longleftrightarrow> 48 \<le> (of_char c :: nat) \<and> (of_char c :: nat) \<le> 57"

definition digit_val :: "char \<Rightarrow> nat" where
  "digit_val c = of_char c - 48"

definition is_space :: "char \<Rightarrow> bool" where
  "is_space c \<longleftrightarrow> c = CHR '' '' \<or> (9 \<le> (of_char c :: nat) \<and> (of_char c :: nat) \<le> 13)"

fun dec_nat :: "nat \<Rightarrow> string" where
  "dec_nat n = (if n < 10 then [digit_char n] else dec_nat (n div 10) @ [digit_char (n mod 10)])"

declare dec_nat.simps [simp del]

definition dec_int :: "int \<Rightarrow> string" where
  "dec_int i = (if i < 0 then CHR ''-'' # dec_nat (nat (- i)) else dec_nat (nat i))"

fun scan_digits :: "nat \<Rightarrow> string \<Rightarrow> nat" where
  "scan_digits acc [] = acc"
| "scan_digits acc (c # cs) = (if is_digit c then scan_digits (10 * acc + digit_val c) cs else acc)"

definition scan_nat :: "string \<Rightarrow> nat option" where
  "scan_nat s = (case s of [] \<Rightarrow> None | c # _ \<Rightarrow> if is_digit c then Some (scan_digits 0 s) else None)"

definition scan_signed :: "string \<Rightarrow> (bool \<times> nat) option" where
  "scan_signed s =
     (case dropWhile is_space s of
        [] \<Rightarrow> None
      | c # r \<Rightarrow>
          if c = CHR ''-'' then map_option (Pair True) (scan_nat r)
          else if c = CHR ''+'' then map_option (Pair False) (scan_nat r)
          else map_option (Pair False) (scan_nat (c # r)))"

definition print_zd :: "u64 \<Rightarrow> string" where
  "print_zd w = dec_int (sint w)"

definition scan_zu :: "string \<Rightarrow> u64 option" where
  "scan_zu s =
     map_option (\<lambda>(neg, n). if n < 2 ^ 64 then (if neg then - of_nat n else of_nat n) else - 1)
       (scan_signed s)"

definition scan_zd :: "string \<Rightarrow> u64 option" where
  "scan_zd s =
     map_option (\<lambda>(neg, n). word_of_int (if neg then max (- int n) (- (2 ^ 63)) else min (int n) (2 ^ 63 - 1)))
       (scan_signed s)"

definition scan_d :: "string \<Rightarrow> int option" where
  "scan_d s =
     map_option (\<lambda>(neg, n). sint (word_of_int (if neg then max (- int n) (- (2 ^ 63))
                                     else min (int n) (2 ^ 63 - 1)) :: u32))
       (scan_signed s)"

lemma of_char_digit_char: "d < 10 \<Longrightarrow> of_char (digit_char d) = 48 + d"
  by (simp add: digit_char_def)

lemma is_digit_digit_char [simp]: "d < 10 \<Longrightarrow> is_digit (digit_char d)"
  by (simp add: is_digit_def of_char_digit_char)

lemma digit_val_digit_char [simp]: "d < 10 \<Longrightarrow> digit_val (digit_char d) = d"
  by (simp add: digit_val_def of_char_digit_char)

lemma dec_nat_nonempty: "dec_nat n \<noteq> []"
  by (subst dec_nat.simps) simp

lemma dec_nat_digits: "\<forall>c \<in> set (dec_nat n). is_digit c"
proof (induction n rule: dec_nat.induct)
  case (1 n)
  then show ?case by (subst dec_nat.simps) auto
qed

lemma scan_digits_snoc:
  "\<forall>c \<in> set cs. is_digit c \<Longrightarrow> is_digit d \<Longrightarrow>
     scan_digits acc (cs @ [d]) = 10 * scan_digits acc cs + digit_val d"
  by (induction cs arbitrary: acc) auto

lemma scan_digits_dec_nat: "scan_digits 0 (dec_nat n) = n"
proof (induction n rule: dec_nat.induct)
  case (1 n)
  show ?case
  proof (cases "n < 10")
    case True
    then show ?thesis by (subst dec_nat.simps) simp
  next
    case False
    then show ?thesis
      using 1 by (subst dec_nat.simps) (simp add: scan_digits_snoc dec_nat_digits)
  qed
qed

lemma scan_nat_dec_nat: "scan_nat (dec_nat n) = Some n"
  using dec_nat_nonempty [of n] dec_nat_digits [of n] scan_digits_dec_nat [of n]
  by (cases "dec_nat n") (auto simp: scan_nat_def)

lemma digit_not_special: "is_digit c \<Longrightarrow> \<not> is_space c \<and> c \<noteq> CHR ''-'' \<and> c \<noteq> CHR ''+''"
  by (auto simp: is_digit_def is_space_def)

lemma scan_signed_dec_int: "scan_signed (dec_int i) = Some (i < 0, nat \<bar>i\<bar>)"
proof (cases "i < 0")
  case True
  then show ?thesis by (simp add: scan_signed_def dec_int_def is_space_def scan_nat_dec_nat)
next
  case False
  obtain c r where c: "dec_nat (nat i) = c # r" "is_digit c"
    using dec_nat_nonempty [of "nat i"] dec_nat_digits [of "nat i"]
    by (cases "dec_nat (nat i)") auto
  have "scan_nat (c # r) = Some (nat i)" using c scan_nat_dec_nat [of "nat i"] by simp
  then show ?thesis
    using False c digit_not_special [of c] by (simp add: scan_signed_def dec_int_def)
qed

lemma scan_zu_print_zd: "scan_zu (print_zd w) = Some w"
proof -
  have b: "- (2 ^ 63) \<le> sint w" "sint w < 2 ^ 63"
    using sint_greater_eq [of w] sint_less [of w] by simp_all
  show ?thesis
  proof (cases "sint w < 0")
    case True
    then have "(of_nat (nat \<bar>sint w\<bar>) :: u64) = of_int (- sint w)"
      by (simp add: of_nat_nat)
    then have "of_nat (nat \<bar>sint w\<bar>) = - w" by simp
    moreover have "nat \<bar>sint w\<bar> < 2 ^ 64" using b True by simp
    ultimately show ?thesis using True by (simp add: scan_zu_def print_zd_def scan_signed_dec_int)
  next
    case False
    then have "(of_nat (nat \<bar>sint w\<bar>) :: u64) = of_int (sint w)"
      by (simp add: of_nat_nat)
    then have "of_nat (nat \<bar>sint w\<bar>) = w" by simp
    moreover have "nat \<bar>sint w\<bar> < 2 ^ 64" using b False by simp
    ultimately show ?thesis using False by (simp add: scan_zu_def print_zd_def scan_signed_dec_int)
  qed
qed

lemma scan_zd_print_zd: "scan_zd (print_zd w) = Some w"
proof -
  have "- (2 ^ 63) \<le> sint w" "sint w < 2 ^ 63"
    using sint_greater_eq [of w] sint_less [of w] by simp_all
  then show ?thesis
    by (auto simp: scan_zd_def print_zd_def scan_signed_dec_int max_def min_def)
qed

lemma scan_d_dec_int:
  assumes "- (2 ^ 31) \<le> i" "i < 2 ^ 31"
  shows "scan_d (dec_int i) = Some i"
proof -
  have "sint (word_of_int i :: u32) = i"
    using assms by (simp add: sint_sbintrunc' signed_take_bit_int_eq_self)
  then show ?thesis
    using assms by (simp add: scan_d_def scan_signed_dec_int max_def min_def)
qed

text \<open>The text of a 64-bit number fits the buffers the sources format it into.\<close>

lemma dec_nat_length: "n < 10 ^ k \<Longrightarrow> 0 < k \<Longrightarrow> length (dec_nat n) \<le> k"
proof (induction n arbitrary: k rule: dec_nat.induct)
  case (1 n)
  show ?case
  proof (cases "n < 10")
    case True
    then show ?thesis using 1 by (subst dec_nat.simps) simp
  next
    case False
    then obtain k' where k: "k = Suc k'" "0 < k'" using 1 by (cases k; cases "k - 1") auto
    then have "n div 10 < 10 ^ k'" using 1 by (simp add: div_less_iff_less_mult mult.commute)
    then have "length (dec_nat (n div 10)) \<le> k'" using 1 False k by simp
    then show ?thesis using False k by (subst dec_nat.simps) simp
  qed
qed

lemma print_zd_length: "length (print_zd w) < 40"
proof -
  have "nat \<bar>sint w\<bar> < 10 ^ 20"
    using sint_greater_eq [of w] sint_less [of w] by simp
  then have "length (dec_nat (nat \<bar>sint w\<bar>)) \<le> 20" by (rule dec_nat_length) simp
  then show ?thesis by (auto simp: print_zd_def dec_int_def)
qed

end
