(* ===== verification/MemoryMap.thy ===== *)
theory MemoryMap imports Prelude begin

section \<open>The memory map\<close>

text \<open>
  \<^verbatim>\<open>shmem/include/shmem/memory_map.h\<close>: the header at offset 0 of a shared memory segment and the
  offsets of its three parts (process table, data chunks, description zones), each rounded up to 256
  bytes. All sizes are computed in \<open>size_t\<close>, so they wrap; the \<open>int\<close> counts are converted first.
  The layout lemmas hold under \<open>map_fits\<close>, which says that no sum or product wraps.
\<close>

subsection \<open>The functions of the header\<close>

record memory_map =
  process_cnt :: int
  process_size :: u64
  data_cnt :: int
  data_size :: u64
  description_zone_cnt :: int
  description_zone_size :: u64

definition MEMORY_ALIGN :: "u64 \<Rightarrow> u64" where
  "MEMORY_ALIGN sz = push_bit 8 (drop_bit 8 (sz + 255))"

text \<open>\<open>sizeof(memory_map_t)\<close>: six fields of 8 bytes each, the \<open>int\<close>s padded.\<close>

definition sizeof_memory_map :: nat where
  "sizeof_memory_map = 48"

definition MEMORY_MAP_SIZE :: u64 where
  "MEMORY_MAP_SIZE = MEMORY_ALIGN (of_nat sizeof_memory_map)"

definition memory_map_create :: "int \<Rightarrow> u64 \<Rightarrow> int \<Rightarrow> u64 \<Rightarrow> int \<Rightarrow> u64 \<Rightarrow> memory_map" where
  "memory_map_create proc_cnt proc_size d_cnt d_size desc_cnt desc_size =
     \<lparr>process_cnt = proc_cnt, process_size = proc_size, data_cnt = d_cnt, data_size = d_size,
      description_zone_cnt = desc_cnt, description_zone_size = desc_size\<rparr>"

definition memory_get_size :: "memory_map \<Rightarrow> u64" where
  "memory_get_size mp =
     MEMORY_MAP_SIZE +
     MEMORY_ALIGN (process_size mp * size_of_int (process_cnt mp)) +
     MEMORY_ALIGN (data_size mp * size_of_int (data_cnt mp)) +
     MEMORY_ALIGN (size_of_int (description_zone_cnt mp) * description_zone_size mp)"

definition memory_get_process_size :: "memory_map \<Rightarrow> u64" where
  "memory_get_process_size mp = MEMORY_ALIGN (process_size mp * size_of_int (process_cnt mp))"

definition memory_get_data_size :: "memory_map \<Rightarrow> u64" where
  "memory_get_data_size mp = MEMORY_ALIGN (data_size mp * size_of_int (data_cnt mp))"

definition memory_get_description_size :: "memory_map \<Rightarrow> u64" where
  "memory_get_description_size mp =
     MEMORY_ALIGN (size_of_int (description_zone_cnt mp) * description_zone_size mp)"

definition memory_get_map_offset :: "memory_map \<Rightarrow> u64" where
  "memory_get_map_offset mp = 0"

definition memory_get_process_offset :: "memory_map \<Rightarrow> u64" where
  "memory_get_process_offset mp = MEMORY_MAP_SIZE"

definition memory_get_data_offset :: "memory_map \<Rightarrow> u64" where
  "memory_get_data_offset mp =
     MEMORY_MAP_SIZE + MEMORY_ALIGN (process_size mp * size_of_int (process_cnt mp))"

definition memory_get_description_offset :: "memory_map \<Rightarrow> u64" where
  "memory_get_description_offset mp =
     MEMORY_MAP_SIZE +
     MEMORY_ALIGN (size_of_int (process_cnt mp) * process_size mp) +
     MEMORY_ALIGN (size_of_int (data_cnt mp) * data_size mp)"

subsection \<open>Alignment\<close>

lemma unat_MEMORY_ALIGN: "unat (MEMORY_ALIGN s) = unat (s + 255) div 256 * 256"
proof -
  have "unat (push_bit 8 (drop_bit 8 (s + 255))) = (unat (s + 255) div 256 * 256) mod 2 ^ 64"
    by (simp only: unsigned_push_bit_eq unat_drop_bit_eq)
      (simp add: push_bit_eq_mult drop_bit_eq_div take_bit_eq_mod)
  moreover have "unat (s + 255) div 256 * 256 < 2 ^ 64"
    using unsigned_less [of "s + 255", where ?'a = nat] div_times_less_eq_dividend [of "unat (s + 255)" 256]
    by (simp del: div_times_less_eq_dividend)
  ultimately show ?thesis by (simp add: MEMORY_ALIGN_def)
qed

lemma MEMORY_ALIGN_nowrap:
  assumes "unat s + 255 < 2 ^ 64"
  shows "unat (MEMORY_ALIGN s) = (unat s + 255) div 256 * 256"
proof -
  have "unat (s + 255) = unat s + unat (255 :: u64)"
    by (rule unat_add_small) (use assms in simp)
  then show ?thesis by (simp add: unat_MEMORY_ALIGN)
qed

definition align_up :: "nat \<Rightarrow> nat" where
  "align_up n = (n + 255) div 256 * 256"

lemma align_up_ge: "n \<le> align_up n"
  by (simp add: align_up_def)

lemma align_up_less: "align_up n < n + 256"
  by (simp add: align_up_def)

lemma align_up_multiple: "256 dvd align_up n"
  by (simp add: align_up_def)

lemma MEMORY_ALIGN_align_up: "unat s + 255 < 2 ^ 64 \<Longrightarrow> unat (MEMORY_ALIGN s) = align_up (unat s)"
  by (simp add: MEMORY_ALIGN_nowrap align_up_def)

lemma MEMORY_MAP_SIZE_value: "MEMORY_MAP_SIZE = 256"
proof -
  have "unat MEMORY_MAP_SIZE = unat (256 :: u64)"
    by (simp add: MEMORY_MAP_SIZE_def MEMORY_ALIGN_nowrap sizeof_memory_map_def)
  then show ?thesis by (rule word_unat_eq_iff [THEN iffD2])
qed

subsection \<open>The layout without wrap-around\<close>

definition part_size :: "u64 \<Rightarrow> int \<Rightarrow> nat" where
  "part_size sz cnt = unat sz * nat cnt"

definition map_fits :: "memory_map \<Rightarrow> bool" where
  "map_fits mp \<longleftrightarrow>
     0 \<le> process_cnt mp \<and> process_cnt mp < 2 ^ 31 \<and>
     0 \<le> data_cnt mp \<and> data_cnt mp < 2 ^ 31 \<and>
     0 \<le> description_zone_cnt mp \<and> description_zone_cnt mp < 2 ^ 31 \<and>
     part_size (process_size mp) (process_cnt mp) + part_size (data_size mp) (data_cnt mp) +
       part_size (description_zone_size mp) (description_zone_cnt mp) + 1024 < 2 ^ 64"

lemma unat_part:
  assumes "0 \<le> cnt" "cnt < 2 ^ 31" "part_size sz cnt < 2 ^ 64"
  shows "unat (sz * size_of_int cnt) = part_size sz cnt"
proof -
  have c: "unat (size_of_int cnt) = nat cnt" using assms by (simp add: unat_size_of_int)
  have "unat (sz * size_of_int cnt) = unat sz * unat (size_of_int cnt)"
    by (rule unat_mult_small) (use assms c in \<open>simp add: part_size_def\<close>)
  then show ?thesis by (simp add: c part_size_def)
qed

lemma aligned_part:
  assumes "0 \<le> cnt" "cnt < 2 ^ 31" "part_size sz cnt + 255 < 2 ^ 64"
  shows "unat (MEMORY_ALIGN (sz * size_of_int cnt)) = align_up (part_size sz cnt)"
  using assms by (simp add: unat_part MEMORY_ALIGN_align_up)

lemma process_size_fits:
  "map_fits mp \<Longrightarrow>
     unat (memory_get_process_size mp) = align_up (part_size (process_size mp) (process_cnt mp))"
  by (simp add: memory_get_process_size_def map_fits_def aligned_part)

lemma data_size_fits:
  "map_fits mp \<Longrightarrow>
     unat (memory_get_data_size mp) = align_up (part_size (data_size mp) (data_cnt mp))"
  by (simp add: memory_get_data_size_def map_fits_def aligned_part)

lemma description_size_fits:
  "map_fits mp \<Longrightarrow>
     unat (memory_get_description_size mp) =
       align_up (part_size (description_zone_size mp) (description_zone_cnt mp))"
  by (simp add: memory_get_description_size_def map_fits_def aligned_part mult.commute
      [of "size_of_int (description_zone_cnt mp)"])

lemma data_offset_sum: "memory_get_data_offset mp = MEMORY_MAP_SIZE + memory_get_process_size mp"
  by (simp add: memory_get_data_offset_def memory_get_process_size_def)

lemma description_offset_sum:
  "memory_get_description_offset mp =
     MEMORY_MAP_SIZE + memory_get_process_size mp + memory_get_data_size mp"
  by (simp add: memory_get_description_offset_def memory_get_process_size_def
      memory_get_data_size_def mult.commute)

lemma size_sum:
  "memory_get_size mp = memory_get_description_offset mp + memory_get_description_size mp"
  by (simp add: memory_get_size_def memory_get_description_offset_def
      memory_get_description_size_def mult.commute)

lemma parts_bounded:
  assumes "map_fits mp"
  shows "256 + unat (memory_get_process_size mp) + unat (memory_get_data_size mp) +
           unat (memory_get_description_size mp) < 2 ^ 64"
  using assms align_up_less [of "part_size (process_size mp) (process_cnt mp)"]
    align_up_less [of "part_size (data_size mp) (data_cnt mp)"]
    align_up_less [of "part_size (description_zone_size mp) (description_zone_cnt mp)"]
  by (simp add: process_size_fits data_size_fits description_size_fits) (simp add: map_fits_def)

lemma offsets_fit:
  assumes "map_fits mp"
  shows "unat (memory_get_data_offset mp) = 256 + unat (memory_get_process_size mp)"
    and "unat (memory_get_description_offset mp) =
           256 + unat (memory_get_process_size mp) + unat (memory_get_data_size mp)"
    and "unat (memory_get_size mp) =
           256 + unat (memory_get_process_size mp) + unat (memory_get_data_size mp) +
           unat (memory_get_description_size mp)"
  using parts_bounded [OF assms]
  by (simp_all add: size_sum description_offset_sum data_offset_sum MEMORY_MAP_SIZE_value unat_add_small)

subsection \<open>Segments that do not overlap\<close>

text \<open>
  The contract the users of a segment rely on: every segment lies inside the region and two
  segments share no byte. From it alone: a write inside one segment is defined and leaves every
  other segment as it was.
\<close>

locale segment_layout =
  fixes total :: "'m \<Rightarrow> nat"
    and start :: "'m \<Rightarrow> 's \<Rightarrow> nat"
    and extent :: "'m \<Rightarrow> 's \<Rightarrow> nat"
    and valid :: "'m \<Rightarrow> bool"
  assumes inside: "valid m \<Longrightarrow> start m s + extent m s \<le> total m"
    and disjoint: "valid m \<Longrightarrow> s \<noteq> t \<Longrightarrow>
      start m s + extent m s \<le> start m t \<or> start m t + extent m t \<le> start m s"
begin

lemma write_defined:
  assumes "valid m" "length shm = total m" "off + length bs \<le> extent m s"
  shows "\<exists>shm'. region_write shm (start m s + off) bs = Some shm' \<and> length shm' = total m"
  using assms inside [of m s] region_write_Some [of "start m s + off" bs shm]
    region_write_length [of shm "start m s + off" bs]
  by fastforce

lemma read_defined:
  assumes "valid m" "length shm = total m" "off + n \<le> extent m s"
  shows "\<exists>bs. region_read shm (start m s + off) n = Some bs \<and> length bs = n"
  using assms inside [of m s] region_read_Some [of "start m s + off" n shm]
  by (auto dest: region_read_length)

lemma write_keeps_other:
  assumes "valid m" "s \<noteq> t" "off + length bs \<le> extent m s" "off' + n \<le> extent m t"
    and w: "region_write shm (start m s + off) bs = Some shm'"
  shows "region_read shm' (start m t + off') n = region_read shm (start m t + off') n"
  by (rule region_read_write_other [OF w])
    (use disjoint [OF assms(1,2)] assms(3,4) in linarith)

end

datatype segment = MapSegment | ProcessSegment | DataSegment | DescriptionSegment

fun segment_start :: "memory_map \<Rightarrow> segment \<Rightarrow> nat" where
  "segment_start mp MapSegment = unat (memory_get_map_offset mp)"
| "segment_start mp ProcessSegment = unat (memory_get_process_offset mp)"
| "segment_start mp DataSegment = unat (memory_get_data_offset mp)"
| "segment_start mp DescriptionSegment = unat (memory_get_description_offset mp)"

fun segment_extent :: "memory_map \<Rightarrow> segment \<Rightarrow> nat" where
  "segment_extent mp MapSegment = unat MEMORY_MAP_SIZE"
| "segment_extent mp ProcessSegment = unat (memory_get_process_size mp)"
| "segment_extent mp DataSegment = unat (memory_get_data_size mp)"
| "segment_extent mp DescriptionSegment = unat (memory_get_description_size mp)"

lemmas segment_facts =
  offsets_fit memory_get_map_offset_def memory_get_process_offset_def MEMORY_MAP_SIZE_value

interpretation shmem_layout: segment_layout
  "\<lambda>mp. unat (memory_get_size mp)" segment_start segment_extent map_fits
proof (unfold_locales, goal_cases)
  case (1 m s)
  then show ?case by (cases s) (simp_all add: segment_facts)
next
  case (2 m s t)
  then show ?case by (cases s; cases t) (simp_all add: segment_facts)
qed

subsection \<open>The map as bytes\<close>

text \<open>
  \<open>memcpy(shmdata, map, sizeof(memory_map_t))\<close> stores the struct, and a cast of the segment's first
  byte reads it back. The padding after an \<open>int\<close> is never read (stored here as zeros).
\<close>

definition int_field :: "int \<Rightarrow> byte list" where
  "int_field i = le_bytes 4 (word_of_int i :: u32) @ replicate 4 0"

definition map_bytes :: "memory_map \<Rightarrow> byte list" where
  "map_bytes mp =
     int_field (process_cnt mp) @ le_bytes 8 (process_size mp) @
     int_field (data_cnt mp) @ le_bytes 8 (data_size mp) @
     int_field (description_zone_cnt mp) @ le_bytes 8 (description_zone_size mp)"

definition read_int :: "byte list \<Rightarrow> nat \<Rightarrow> int option" where
  "read_int m off = map_option (\<lambda>bs. sint (of_le_bytes bs :: u32)) (region_read m off 4)"

definition read_u64 :: "byte list \<Rightarrow> nat \<Rightarrow> u64 option" where
  "read_u64 m off = map_option of_le_bytes (region_read m off 8)"

definition map_of_bytes :: "byte list \<Rightarrow> memory_map option" where
  "map_of_bytes m = do {
     pc \<leftarrow> read_int m 0; ps \<leftarrow> read_u64 m 8;
     dc \<leftarrow> read_int m 16; ds \<leftarrow> read_u64 m 24;
     zc \<leftarrow> read_int m 32; zs \<leftarrow> read_u64 m 40;
     Some (memory_map_create pc ps dc ds zc zs) }"

definition int_range :: "int \<Rightarrow> bool" where
  "int_range i \<longleftrightarrow> - (2 ^ 31) \<le> i \<and> i < 2 ^ 31"

lemma int_field_length [simp]: "length (int_field i) = 8"
  by (simp add: int_field_def)

lemma map_bytes_length [simp]: "length (map_bytes mp) = sizeof_memory_map"
  by (simp add: map_bytes_def sizeof_memory_map_def)

lemma read_int_field:
  "int_range i \<Longrightarrow> length pre = off \<Longrightarrow> read_int (pre @ int_field i @ rest) off = Some i"
  by (simp add: read_int_def region_read_def int_field_def of_le_bytes_le_bytes int_range_def
      sint_sbintrunc' signed_take_bit_int_eq_self)

lemma read_u64_field: "length pre = off \<Longrightarrow> read_u64 (pre @ le_bytes 8 w @ rest) off = Some w"
  by (simp add: read_u64_def region_read_def of_le_bytes_le_bytes)

lemma map_of_bytes_map_bytes:
  assumes "int_range (process_cnt mp)" "int_range (data_cnt mp)"
    "int_range (description_zone_cnt mp)"
  shows "map_of_bytes (map_bytes mp @ rest) = Some mp"
proof -
  let ?m = "map_bytes mp @ rest"
  let ?p = "int_field (process_cnt mp)" and ?ps = "le_bytes 8 (process_size mp)"
  let ?d = "int_field (data_cnt mp)" and ?ds = "le_bytes 8 (data_size mp)"
  let ?z = "int_field (description_zone_cnt mp)" and ?zs = "le_bytes 8 (description_zone_size mp)"
  have "read_int ?m 0 = Some (process_cnt mp)"
    using read_int_field [of "process_cnt mp" "[]" 0] assms by (simp add: map_bytes_def)
  moreover have "read_u64 ?m 8 = Some (process_size mp)"
    using read_u64_field [of ?p 8] by (simp add: map_bytes_def)
  moreover have "read_int ?m 16 = Some (data_cnt mp)"
    using read_int_field [of "data_cnt mp" "?p @ ?ps" 16] assms by (simp add: map_bytes_def)
  moreover have "read_u64 ?m 24 = Some (data_size mp)"
    using read_u64_field [of "?p @ ?ps @ ?d" 24] by (simp add: map_bytes_def)
  moreover have "read_int ?m 32 = Some (description_zone_cnt mp)"
    using read_int_field [of "description_zone_cnt mp" "?p @ ?ps @ ?d @ ?ds" 32] assms
    by (simp add: map_bytes_def)
  moreover have "read_u64 ?m 40 = Some (description_zone_size mp)"
    using read_u64_field [of "?p @ ?ps @ ?d @ ?ds @ ?z" 40] by (simp add: map_bytes_def)
  ultimately show ?thesis by (simp add: map_of_bytes_def memory_map_create_def)
qed

lemma map_fits_int_range:
  "map_fits mp \<Longrightarrow> int_range (process_cnt mp) \<and> int_range (data_cnt mp) \<and>
     int_range (description_zone_cnt mp)"
  by (simp add: map_fits_def int_range_def)

text \<open>The map depends on the first 48 bytes only, which no write past them changes.\<close>

lemma map_of_bytes_write:
  assumes "region_write m off bs = Some m'" "256 \<le> off"
  shows "map_of_bytes m' = map_of_bytes m"
  using assms by (simp add: map_of_bytes_def read_int_def read_u64_def region_read_write_other)

subsection \<open>Properties\<close>

text \<open>Rounding up to 256 bytes gives the least multiple of 256 that is not below the size, except for the
  255 largest sizes, where the sum wraps and the result is 0.\<close>

theorem MEMORY_ALIGN_spec:
  "256 dvd unat (MEMORY_ALIGN s) \<and>
   (if unat s + 255 < 2 ^ 64 then unat s \<le> unat (MEMORY_ALIGN s) \<and> unat (MEMORY_ALIGN s) < unat s + 256
    else MEMORY_ALIGN s = 0)"
proof (cases "unat s + 255 < 2 ^ 64")
  case True
  then show ?thesis
    using align_up_ge [of "unat s"] align_up_less [of "unat s"] align_up_multiple [of "unat s"]
    by (simp add: MEMORY_ALIGN_align_up)
next
  case False
  have "unat s < 2 ^ 64" using unsigned_less [of s, where ?'a = nat] by simp
  then have "unat (s + 255) < 255" using False by (simp add: unat_word_ariths mod_if) linarith
  then have "unat (MEMORY_ALIGN s) = 0" by (simp add: unat_MEMORY_ALIGN)
  then show ?thesis using False by (simp add: unat_eq_0)
qed

text \<open>C40: When no size wraps, the process table, the data chunks and the description zones follow the map one
  after the other without overlap: each part starts at a multiple of 256, is large enough for all of
  its elements, ends before the next one starts, and the last one ends at the total size.\<close>

theorem memory_layout:
  assumes "map_fits mp"
  shows "unat (memory_get_process_offset mp) = 256 \<and> sizeof_memory_map \<le> 256 \<and>
    256 dvd unat (memory_get_data_offset mp) \<and> 256 dvd unat (memory_get_description_offset mp) \<and>
    unat (memory_get_process_offset mp) + unat (process_size mp) * nat (process_cnt mp)
      \<le> unat (memory_get_data_offset mp) \<and>
    unat (memory_get_data_offset mp) + unat (data_size mp) * nat (data_cnt mp)
      \<le> unat (memory_get_description_offset mp) \<and>
    unat (memory_get_description_offset mp) +
      unat (description_zone_size mp) * nat (description_zone_cnt mp) \<le> unat (memory_get_size mp)"
  using assms align_up_ge [of "part_size (process_size mp) (process_cnt mp)"]
    align_up_ge [of "part_size (data_size mp) (data_cnt mp)"]
    align_up_ge [of "part_size (description_zone_size mp) (description_zone_cnt mp)"]
  by (simp add: segment_facts process_size_fits data_size_fits description_size_fits
      sizeof_memory_map_def align_up_multiple part_size_def dvd_add)

theorem memory_layout_witness:
  "map_fits (memory_map_create 2 510 1000 2040 2 65535) \<and>
   unat (memory_get_data_offset (memory_map_create 2 510 1000 2040 2 65535)) = 1280 \<and>
   unat (memory_get_process_offset (memory_map_create 2 510 1000 2040 2 65535)) + 510 * 2
     \<le> unat (memory_get_data_offset (memory_map_create 2 510 1000 2040 2 65535))"
proof -
  let ?m = "memory_map_create 2 510 1000 2040 2 65535"
  have f: "map_fits ?m" by (simp add: map_fits_def memory_map_create_def part_size_def)
  have "unat (memory_get_data_offset ?m) = 1280"
    using f by (simp add: segment_facts process_size_fits)
      (simp add: memory_map_create_def part_size_def align_up_def)
  then show ?thesis using f memory_layout [OF f] by (simp add: memory_map_create_def)
qed

end
