(* ===== verification/SharedMemory.thy ===== *)
theory SharedMemory imports Decimal MemoryMap begin

section \<open>Shared memory\<close>

text \<open>
  \<^verbatim>\<open>shmem/src/shared_memory.c\<close>. The POSIX state the file works on is a record: the names of shared
  memory objects, the objects' bytes, the process environment. Which system calls fail is an input
  (\<open>shm_faults\<close>). A mapping is the number of the object behind it, so every process that maps a
  segment sees the same bytes, and an unlinked object stays mapped. Bytes outside the object are
  outside the region (\<open>None\<close>).
\<close>

subsection \<open>State and system calls\<close>

record shm_os =
  shm_names :: "string \<Rightarrow> nat option"
  shm_objects :: "nat \<Rightarrow> byte list"
  shm_next :: nat
  environ :: "string \<Rightarrow> string option"

record shm_faults =
  open_fails :: bool
  ftruncate_fails :: bool
  mmap_fails :: bool
  setenv_fails :: "string \<Rightarrow> bool"

definition no_faults :: shm_faults where
  "no_faults = \<lparr>open_fails = False, ftruncate_fails = False, mmap_fails = False,
     setenv_fails = (\<lambda>_. False)\<rparr>"

text \<open>\<open>shm_open\<close> with \<open>O_CREAT|O_EXCL\<close> makes an empty object under a name that was free.\<close>

definition shm_create :: "shm_faults \<Rightarrow> string \<Rightarrow> shm_os \<Rightarrow> (nat \<times> shm_os) option" where
  "shm_create flt path s =
     (if open_fails flt \<or> shm_names s path \<noteq> None then None
      else Some (shm_next s,
        s\<lparr>shm_names := (shm_names s)(path := Some (shm_next s)),
          shm_objects := (shm_objects s)(shm_next s := []), shm_next := Suc (shm_next s)\<rparr>))"

definition shm_unlink :: "string \<Rightarrow> shm_os \<Rightarrow> shm_os" where
  "shm_unlink path s = s\<lparr>shm_names := (shm_names s)(path := None)\<rparr>"

text \<open>\<open>ftruncate\<close> takes a signed length and fills with zeros; \<open>mmap\<close> refuses length 0.\<close>

definition ftruncate_new :: "shm_faults \<Rightarrow> nat \<Rightarrow> u64 \<Rightarrow> shm_os \<Rightarrow> shm_os option" where
  "ftruncate_new flt ob len s =
     (if ftruncate_fails flt \<or> sint len < 0 then None
      else Some (s\<lparr>shm_objects := (shm_objects s)(ob := replicate (unat len) 0)\<rparr>))"

definition mmap_ok :: "shm_faults \<Rightarrow> u64 \<Rightarrow> bool" where
  "mmap_ok flt len \<longleftrightarrow> \<not> mmap_fails flt \<and> len \<noteq> 0"

subsection \<open>Server and client side\<close>

text \<open>
  The result is the mapping (\<open>None\<close> inside the pair: NULL) and the new state. A NULL map is
  reported, but the call goes on and reads its fields once the object is open.
\<close>

definition shared_memory_server_init ::
  "shm_faults \<Rightarrow> string option \<Rightarrow> memory_map option \<Rightarrow> shm_os \<Rightarrow> (nat option \<times> shm_os) option" where
  "shared_memory_server_init flt shmpath shmmap s =
     (case shmpath of
        None \<Rightarrow> Some (None, s)
      | Some path \<Rightarrow>
          (case shm_create flt path s of
             None \<Rightarrow> Some (None, s)
           | Some (ob, s1) \<Rightarrow> do {
               mp \<leftarrow> shmmap;
               (case ftruncate_new flt ob (memory_get_size mp) s1 of
                  None \<Rightarrow> Some (None, shm_unlink path s1)
                | Some s2 \<Rightarrow>
                    if \<not> mmap_ok flt (memory_get_size mp) then Some (None, shm_unlink path s2)
                    else do {
                      shm \<leftarrow> region_write (shm_objects s2 ob) 0 (map_bytes mp);
                      Some (Some ob, s2\<lparr>shm_objects := (shm_objects s2)(ob := shm)\<rparr>) }) }))"

definition shared_memory_client_init ::
  "shm_faults \<Rightarrow> string option \<Rightarrow> u64 \<Rightarrow> shm_os \<Rightarrow> (nat option \<times> shm_os) option" where
  "shared_memory_client_init flt shmpath shmsize s = do {
     path \<leftarrow> shmpath;
     (case (if open_fails flt then None else shm_names s path) of
        None \<Rightarrow> Some (None, s)
      | Some ob \<Rightarrow>
          if mmap_ok flt shmsize then Some (Some ob, s) else Some (None, shm_unlink path s)) }"

definition shared_memory_get_size :: "byte list \<Rightarrow> u64 option" where
  "shared_memory_get_size shm = map_option memory_get_size (map_of_bytes shm)"

definition shared_memory_unlink :: "string \<Rightarrow> shm_os \<Rightarrow> shm_os" where
  "shared_memory_unlink shmpath s = shm_unlink shmpath s"

definition shared_memory_destroy :: "string \<Rightarrow> byte list \<Rightarrow> shm_os \<Rightarrow> shm_os option" where
  "shared_memory_destroy shmpath shm s = do {
     _ \<leftarrow> map_of_bytes shm;
     Some (shm_unlink shmpath s) }"

subsection \<open>The environment of child processes\<close>

definition SHMEM_NAME_ENV :: string where "SHMEM_NAME_ENV = ''SHMEM_DATA_NAME''"
definition SHMEM_SIZE_ENV :: string where "SHMEM_SIZE_ENV = ''SHMEM_DATA_SIZE''"

definition setenv :: "shm_faults \<Rightarrow> string \<Rightarrow> string \<Rightarrow> shm_os \<Rightarrow> shm_os option" where
  "setenv flt name v s =
     (if setenv_fails flt name then None else Some (s\<lparr>environ := (environ s)(name := Some v)\<rparr>))"

definition shared_memory_setenv ::
  "shm_faults \<Rightarrow> string option \<Rightarrow> byte list \<Rightarrow> shm_os \<Rightarrow> (int \<times> shm_os) option" where
  "shared_memory_setenv flt shmpath shm s =
     (case shmpath of
        None \<Rightarrow> Some (- 1, s)
      | Some path \<Rightarrow> do {
          shm_size \<leftarrow> shared_memory_get_size shm;
          (case setenv flt SHMEM_NAME_ENV path s of
             None \<Rightarrow> Some (- 1, s)
           | Some s1 \<Rightarrow>
               (case setenv flt SHMEM_SIZE_ENV (snprintf_buf 40 (print_zd shm_size)) s1 of
                  None \<Rightarrow> Some (- 1, s1)
                | Some s2 \<Rightarrow> Some (0, s2))) })"

text \<open>
  \<open>strdup(getenv(...))\<close> runs before any check, so a missing name variable is a NULL dereference.
  The results are the return code, \<open>*p_shmpath\<close> and \<open>*shmsize\<close>.
\<close>

definition shared_memory_getenv ::
  "string option \<Rightarrow> u64 \<Rightarrow> shm_os \<Rightarrow> (int \<times> string option \<times> u64) option" where
  "shared_memory_getenv p_shmpath shmsize s = do {
     shmpath \<leftarrow> environ s SHMEM_NAME_ENV;
     (case environ s SHMEM_SIZE_ENV of
        None \<Rightarrow> Some (- 1, p_shmpath, shmsize)
      | Some shm_size_str \<Rightarrow>
          Some (0, Some shmpath, (case scan_zu shm_size_str of None \<Rightarrow> shmsize | Some v \<Rightarrow> v))) }"

subsection \<open>Reading and writing the segments\<close>

text \<open>
  Each function takes the segment's offset from the map at the start of the region, adds the
  caller's offset, copies \<open>size\<close> bytes if there is a buffer, and returns the address (as an offset
  from the start of the mapping) of the place.
\<close>

definition copy_in :: "byte list \<Rightarrow> u64 \<Rightarrow> byte list option \<Rightarrow> u64 \<Rightarrow> byte list option" where
  "copy_in shm p buffer size' =
     (case buffer of
        None \<Rightarrow> Some shm
      | Some buf \<Rightarrow>
          if size' > 0 then do { bs \<leftarrow> region_read buf 0 (unat size'); region_write shm (unat p) bs }
          else Some shm)"

definition copy_out :: "byte list \<Rightarrow> u64 \<Rightarrow> byte list option \<Rightarrow> u64 \<Rightarrow> byte list option option" where
  "copy_out shm p buffer size' =
     (case buffer of
        None \<Rightarrow> Some None
      | Some buf \<Rightarrow>
          if size' > 0 then do { bs \<leftarrow> region_read shm (unat p) (unat size');
                                 buf' \<leftarrow> region_write buf 0 bs; Some (Some buf') }
          else Some (Some buf))"

definition shared_memory_write_data_segment ::
  "byte list \<Rightarrow> u64 \<Rightarrow> byte list option \<Rightarrow> u64 \<Rightarrow> (byte list \<times> u64) option" where
  "shared_memory_write_data_segment shm off buffer size' = do {
     mp \<leftarrow> map_of_bytes shm;
     shm' \<leftarrow> copy_in shm (memory_get_data_offset mp + off) buffer size';
     Some (shm', memory_get_data_offset mp + off) }"

definition shared_memory_read_data_segment ::
  "byte list \<Rightarrow> u64 \<Rightarrow> byte list option \<Rightarrow> u64 \<Rightarrow> (byte list option \<times> u64) option" where
  "shared_memory_read_data_segment shm off buffer size' = do {
     mp \<leftarrow> map_of_bytes shm;
     buf \<leftarrow> copy_out shm (memory_get_data_offset mp + off) buffer size';
     Some (buf, memory_get_data_offset mp + off) }"

definition shared_memory_write_descriptions_segment ::
  "byte list \<Rightarrow> u64 \<Rightarrow> byte list option \<Rightarrow> u64 \<Rightarrow> (byte list \<times> u64) option" where
  "shared_memory_write_descriptions_segment shm off buffer size' = do {
     mp \<leftarrow> map_of_bytes shm;
     shm' \<leftarrow> copy_in shm (memory_get_description_offset mp + off) buffer size';
     Some (shm', memory_get_description_offset mp + off) }"

definition shared_memory_read_descriptions_segment ::
  "byte list \<Rightarrow> u64 \<Rightarrow> byte list option \<Rightarrow> u64 \<Rightarrow> (byte list option \<times> u64) option" where
  "shared_memory_read_descriptions_segment shm off buffer size' = do {
     mp \<leftarrow> map_of_bytes shm;
     buf \<leftarrow> copy_out shm (memory_get_description_offset mp + off) buffer size';
     Some (buf, memory_get_description_offset mp + off) }"

definition shared_memory_write_processes_segment ::
  "byte list \<Rightarrow> u64 \<Rightarrow> byte list option \<Rightarrow> u64 \<Rightarrow> (byte list \<times> u64) option" where
  "shared_memory_write_processes_segment shm off buffer size' = do {
     mp \<leftarrow> map_of_bytes shm;
     shm' \<leftarrow> copy_in shm (memory_get_process_offset mp + off) buffer size';
     Some (shm', memory_get_process_offset mp + off) }"

definition shared_memory_read_processes_segment ::
  "byte list \<Rightarrow> u64 \<Rightarrow> byte list option \<Rightarrow> u64 \<Rightarrow> (byte list option \<times> u64) option" where
  "shared_memory_read_processes_segment shm off buffer size' = do {
     mp \<leftarrow> map_of_bytes shm;
     buf \<leftarrow> copy_out shm (memory_get_process_offset mp + off) buffer size';
     Some (buf, memory_get_process_offset mp + off) }"

subsection \<open>A mapped segment and its invariant\<close>

definition valid_shm :: "memory_map \<Rightarrow> byte list \<Rightarrow> bool" where
  "valid_shm mp shm \<longleftrightarrow>
     map_fits mp \<and> map_of_bytes shm = Some mp \<and> length shm = unat (memory_get_size mp)"

fun shm_write :: "segment \<Rightarrow> byte list \<Rightarrow> u64 \<Rightarrow> byte list option \<Rightarrow> u64 \<Rightarrow> (byte list \<times> u64) option" where
  "shm_write DataSegment = shared_memory_write_data_segment"
| "shm_write DescriptionSegment = shared_memory_write_descriptions_segment"
| "shm_write ProcessSegment = shared_memory_write_processes_segment"
| "shm_write MapSegment = (\<lambda>_ _ _ _. None)"

fun shm_read :: "segment \<Rightarrow> byte list \<Rightarrow> u64 \<Rightarrow> byte list option \<Rightarrow> u64 \<Rightarrow> (byte list option \<times> u64) option" where
  "shm_read DataSegment = shared_memory_read_data_segment"
| "shm_read DescriptionSegment = shared_memory_read_descriptions_segment"
| "shm_read ProcessSegment = shared_memory_read_processes_segment"
| "shm_read MapSegment = (\<lambda>_ _ _ _. None)"

fun segment_offset :: "memory_map \<Rightarrow> segment \<Rightarrow> u64" where
  "segment_offset mp DataSegment = memory_get_data_offset mp"
| "segment_offset mp DescriptionSegment = memory_get_description_offset mp"
| "segment_offset mp ProcessSegment = memory_get_process_offset mp"
| "segment_offset mp MapSegment = memory_get_map_offset mp"

lemma segment_start_offset: "segment_start mp seg = unat (segment_offset mp seg)"
  by (cases seg) simp_all

lemma shm_write_eq:
  "map_of_bytes shm = Some mp \<Longrightarrow> seg \<noteq> MapSegment \<Longrightarrow>
     shm_write seg shm off buffer sz =
       map_option (\<lambda>shm'. (shm', segment_offset mp seg + off))
         (copy_in shm (segment_offset mp seg + off) buffer sz)"
  by (cases seg; cases "copy_in shm (segment_offset mp seg + off) buffer sz")
    (simp_all add: shared_memory_write_data_segment_def shared_memory_write_descriptions_segment_def
      shared_memory_write_processes_segment_def)

lemma shm_read_eq:
  "map_of_bytes shm = Some mp \<Longrightarrow> seg \<noteq> MapSegment \<Longrightarrow>
     shm_read seg shm off buffer sz =
       map_option (\<lambda>buf. (buf, segment_offset mp seg + off))
         (copy_out shm (segment_offset mp seg + off) buffer sz)"
  by (cases seg; cases "copy_out shm (segment_offset mp seg + off) buffer sz")
    (simp_all add: shared_memory_read_data_segment_def shared_memory_read_descriptions_segment_def
      shared_memory_read_processes_segment_def)

lemma segment_address:
  assumes "map_fits mp" "unat off \<le> segment_extent mp seg"
  shows "unat (segment_offset mp seg + off) = segment_start mp seg + unat off"
proof -
  have "segment_start mp seg + unat off \<le> unat (memory_get_size mp)"
    using shmem_layout.inside [OF assms(1), of seg] assms(2) by linarith
  then have "unat (segment_offset mp seg) + unat off < 2 ^ 64"
    using unsigned_less [of "memory_get_size mp", where ?'a = nat] by (simp add: segment_start_offset)
  then show ?thesis by (simp add: segment_start_offset unat_add_small)
qed

lemma segment_past_map: "seg \<noteq> MapSegment \<Longrightarrow> map_fits mp \<Longrightarrow> 256 \<le> segment_start mp seg"
  by (cases seg) (simp_all add: segment_facts)

lemma unat_of_nat_length:
  "map_fits mp \<Longrightarrow> length bs \<le> segment_extent mp seg \<Longrightarrow> unat (of_nat (length bs) :: u64) = length bs"
proof (rule unat_of_nat_small)
  assume "map_fits mp" "length bs \<le> segment_extent mp seg"
  then show "length bs < 2 ^ 64"
    using shmem_layout.inside [of mp seg] unsigned_less [of "memory_get_size mp", where ?'a = nat]
    by simp
qed

text \<open>
  A write that stays inside its segment is defined, keeps the map and the size, and puts the bytes
  at the segment's start plus the offset.
\<close>

lemma shm_write_inside:
  assumes v: "valid_shm mp shm" and seg: "seg \<noteq> MapSegment"
    and fit: "unat off + length bs \<le> segment_extent mp seg" and ne: "bs \<noteq> []"
  obtains shm' where
    "shm_write seg shm off (Some bs) (of_nat (length bs)) = Some (shm', segment_offset mp seg + off)"
    "valid_shm mp shm'"
    "region_write shm (segment_start mp seg + unat off) bs = Some shm'"
proof -
  have f: "map_fits mp" and m: "map_of_bytes shm = Some mp" and l: "length shm = unat (memory_get_size mp)"
    using v by (simp_all add: valid_shm_def)
  have n: "unat (of_nat (length bs) :: u64) = length bs"
    using fit by (intro unat_of_nat_length [OF f, of _ seg]) simp
  obtain shm' where w: "region_write shm (segment_start mp seg + unat off) bs = Some shm'"
    and l': "length shm' = unat (memory_get_size mp)"
    using shmem_layout.write_defined [OF f l fit] by blast
  have "(0 :: u64) < of_nat (length bs)" using ne n by (simp add: word_less_nat_alt)
  then have "copy_in shm (segment_offset mp seg + off) (Some bs) (of_nat (length bs)) = Some shm'"
    using w n segment_address [OF f, of off seg] fit by (simp add: copy_in_def region_read_def)
  moreover have "map_of_bytes shm' = map_of_bytes shm"
    using segment_past_map [OF seg f] by (intro map_of_bytes_write [OF w]) simp
  ultimately show ?thesis
    using that [of shm'] f m l' w by (simp add: shm_write_eq [OF m seg] valid_shm_def)
qed

lemma shm_read_inside:
  assumes v: "valid_shm mp shm" and seg: "seg \<noteq> MapSegment"
    and fit: "unat off + length dst \<le> segment_extent mp seg" and ne: "dst \<noteq> []"
  shows "shm_read seg shm off (Some dst) (of_nat (length dst)) =
    Some (region_read shm (segment_start mp seg + unat off) (length dst), segment_offset mp seg + off)"
proof -
  have f: "map_fits mp" and m: "map_of_bytes shm = Some mp" and l: "length shm = unat (memory_get_size mp)"
    using v by (simp_all add: valid_shm_def)
  have n: "unat (of_nat (length dst) :: u64) = length dst"
    using fit by (intro unat_of_nat_length [OF f, of _ seg]) simp
  obtain bs where r: "region_read shm (segment_start mp seg + unat off) (length dst) = Some bs"
    and lb: "length bs = length dst"
    using shmem_layout.read_defined [OF f l fit] by blast
  have "(0 :: u64) < of_nat (length dst)" using ne n by (simp add: word_less_nat_alt)
  then have "copy_out shm (segment_offset mp seg + off) (Some dst) (of_nat (length dst)) = Some (Some bs)"
    using r n lb segment_address [OF f, of off seg] fit by (simp add: copy_out_def region_write_def)
  then show ?thesis using r by (simp add: shm_read_eq [OF m seg])
qed

text \<open>C18: Writing a buffer into a segment and reading it back from the same place returns the buffer, in the
  data, description and process segments alike, as long as the bytes stay inside the segment; the
  write keeps the map at the start of the region, so the next call finds the same layout.\<close>

theorem shm_segment_roundtrip:
  assumes "valid_shm mp shm" "seg \<noteq> MapSegment"
    and "unat off + length bs \<le> segment_extent mp seg" "bs \<noteq> []" "length dst = length bs"
  shows "\<exists>shm' p. shm_write seg shm off (Some bs) (of_nat (length bs)) = Some (shm', p) \<and>
           valid_shm mp shm' \<and> unat p = segment_start mp seg + unat off \<and>
           shm_read seg shm' off (Some dst) (of_nat (length bs)) = Some (Some bs, p)"
proof -
  obtain shm' where w: "shm_write seg shm off (Some bs) (of_nat (length bs)) =
      Some (shm', segment_offset mp seg + off)" "valid_shm mp shm'"
      "region_write shm (segment_start mp seg + unat off) bs = Some shm'"
    using shm_write_inside [OF assms(1-4)] by blast
  have "unat (segment_offset mp seg + off) = segment_start mp seg + unat off"
    using assms(1,3) by (intro segment_address) (simp_all add: valid_shm_def)
  moreover have "shm_read seg shm' off (Some dst) (of_nat (length bs)) =
      Some (Some bs, segment_offset mp seg + off)"
    using shm_read_inside [OF w(2) assms(2), of off dst] region_read_write_same [OF w(3)] assms
    by force
  ultimately show ?thesis using w by blast
qed

text \<open>C14: A write inside one segment never changes what another segment holds: every read of a different
  segment returns the same bytes before and after it.\<close>

theorem shm_segment_isolation:
  assumes "valid_shm mp shm" "seg \<noteq> MapSegment" "seg' \<noteq> MapSegment" "seg \<noteq> seg'"
    and "unat off + length bs \<le> segment_extent mp seg" "bs \<noteq> []"
    and "unat off' + length dst \<le> segment_extent mp seg'" "dst \<noteq> []"
  shows "\<exists>shm' p. shm_write seg shm off (Some bs) (of_nat (length bs)) = Some (shm', p) \<and>
           shm_read seg' shm' off' (Some dst) (of_nat (length dst)) =
           shm_read seg' shm off' (Some dst) (of_nat (length dst))"
proof -
  obtain shm' where w: "shm_write seg shm off (Some bs) (of_nat (length bs)) =
      Some (shm', segment_offset mp seg + off)" "valid_shm mp shm'"
      "region_write shm (segment_start mp seg + unat off) bs = Some shm'"
    using shm_write_inside [OF assms(1,2,5,6)] by blast
  have "region_read shm' (segment_start mp seg' + unat off') (length dst) =
      region_read shm (segment_start mp seg' + unat off') (length dst)"
    using assms by (intro shmem_layout.write_keeps_other [OF _ _ _ _ w(3)]) (simp_all add: valid_shm_def)
  then show ?thesis
    using w shm_read_inside [OF w(2) assms(3,7,8)] shm_read_inside [OF assms(1,3,7,8)] by simp
qed

subsection \<open>Creating, opening and announcing a segment\<close>

lemma map_size_at_least: "map_fits mp \<Longrightarrow> 256 \<le> unat (memory_get_size mp)"
  by (simp add: offsets_fit)

lemma valid_shm_fresh:
  assumes "map_fits mp"
    and "region_write (replicate (unat (memory_get_size mp)) 0) 0 (map_bytes mp) = Some shm"
  shows "valid_shm mp shm"
proof -
  have "shm = map_bytes mp @ drop sizeof_memory_map (replicate (unat (memory_get_size mp)) 0)"
    using assms(2) by (auto simp: region_write_def split: if_splits)
  then show ?thesis
    using assms map_fits_int_range [OF assms(1)] region_write_length [OF assms(2)]
    by (simp add: valid_shm_def map_of_bytes_map_bytes)
qed

text \<open>What a successful server initialisation leaves: a new object, bound to the path, that holds the map.\<close>

lemma server_init_fresh:
  assumes "map_fits mp" "0 \<le> sint (memory_get_size mp)" "shm_names s path = None"
  obtains shm where "valid_shm mp shm" "memory_get_size mp \<noteq> 0"
    "shared_memory_server_init no_faults (Some path) (Some mp) s = Some (Some (shm_next s),
       s\<lparr>shm_names := (shm_names s)(path := Some (shm_next s)),
         shm_objects := (shm_objects s)(shm_next s := shm), shm_next := Suc (shm_next s)\<rparr>)"
proof -
  let ?zeros = "replicate (unat (memory_get_size mp)) (0 :: byte)"
  have big: "256 \<le> unat (memory_get_size mp)" using assms(1) by (rule map_size_at_least)
  then obtain shm where w: "region_write ?zeros 0 (map_bytes mp) = Some shm"
    using region_write_Some [of 0 "map_bytes mp" ?zeros] by (auto simp: sizeof_memory_map_def)
  have "memory_get_size mp \<noteq> 0" using big by auto
  then show ?thesis
    using that [of shm] valid_shm_fresh [OF assms(1) w] assms(2,3) w
    by (simp add: shared_memory_server_init_def shm_create_def ftruncate_new_def mmap_ok_def no_faults_def)
qed

lemma client_init_ok:
  "shm_names s path = Some ob \<Longrightarrow> sz \<noteq> 0 \<Longrightarrow>
     shared_memory_client_init no_faults (Some path) sz s = Some (Some ob, s)"
  by (simp add: shared_memory_client_init_def mmap_ok_def no_faults_def)

lemma setenv_ok:
  "shared_memory_get_size shm = Some sz \<Longrightarrow>
     shared_memory_setenv no_faults (Some path) shm s = Some (0, s\<lparr>environ :=
       (environ s)(SHMEM_NAME_ENV \<mapsto> path, SHMEM_SIZE_ENV \<mapsto> print_zd sz)\<rparr>)"
  by (simp add: shared_memory_setenv_def setenv_def no_faults_def snprintf_buf_fits print_zd_length)

text \<open>When no system call fails, the path is free and the map's sizes do not wrap, the server gets a
  new segment that holds the map and has exactly the computed size, and a client that opens the path
  with that size maps the same object.\<close>

theorem shared_memory_server_client:
  assumes "map_fits mp" "0 \<le> sint (memory_get_size mp)" "shm_names s path = None"
  shows "\<exists>s' shm. shared_memory_server_init no_faults (Some path) (Some mp) s =
           Some (Some (shm_next s), s') \<and>
           shm_objects s' (shm_next s) = shm \<and> valid_shm mp shm \<and>
           shared_memory_get_size shm = Some (memory_get_size mp) \<and>
           shared_memory_client_init no_faults (Some path) (memory_get_size mp) s' =
           Some (Some (shm_next s), s')"
proof -
  obtain shm where "valid_shm mp shm" "memory_get_size mp \<noteq> 0"
    "shared_memory_server_init no_faults (Some path) (Some mp) s = Some (Some (shm_next s),
       s\<lparr>shm_names := (shm_names s)(path := Some (shm_next s)),
         shm_objects := (shm_objects s)(shm_next s := shm), shm_next := Suc (shm_next s)\<rparr>)"
    using server_init_fresh [OF assms] .
  then show ?thesis
    by (auto simp: shared_memory_get_size_def valid_shm_def intro!: client_init_ok)
qed

text \<open>A server initialisation that returns NULL leaves no name behind: the path is bound afterwards only
  if it was bound before, and then to the same object.\<close>

theorem shared_memory_server_init_failure:
  assumes "shared_memory_server_init flt (Some path) (Some mp) s = Some (None, s')"
  shows "shm_names s' = shm_names s"
  using assms
  by (auto simp: shared_memory_server_init_def shm_create_def shm_unlink_def ftruncate_new_def fun_eq_iff
      split: option.splits if_splits bind_splits)

text \<open>What the server announces in the environment is what a child process reads back: the same path and
  the same size, for every size a \<open>size_t\<close> can hold, and the number fits its 40-byte buffer.\<close>

theorem shared_memory_env_roundtrip:
  assumes "shared_memory_get_size shm = Some sz"
  shows "\<exists>s'. shared_memory_setenv no_faults (Some path) shm s = Some (0, s') \<and>
           shared_memory_getenv p_old sz_old s' = Some (0, Some path, sz) \<and>
           (\<forall>name. name \<noteq> SHMEM_NAME_ENV \<longrightarrow> name \<noteq> SHMEM_SIZE_ENV \<longrightarrow> environ s' name = environ s name)"
  using setenv_ok [OF assms, of path s]
  by (simp add: shared_memory_getenv_def SHMEM_NAME_ENV_def SHMEM_SIZE_ENV_def scan_zu_print_zd)

subsection \<open>A concrete segment\<close>

definition example_map :: memory_map where
  "example_map = memory_map_create 1 16 1 16 1 16"

definition example_shm :: "byte list" where
  "example_shm = map_bytes example_map @ replicate 976 0"

lemma example_map_fits: "map_fits example_map"
  by (simp add: map_fits_def example_map_def memory_map_create_def part_size_def)

lemma example_extents:
  "unat (memory_get_process_size example_map) = 256" "unat (memory_get_data_size example_map) = 256"
  "unat (memory_get_description_size example_map) = 256" "unat (memory_get_size example_map) = 1024"
  using example_map_fits
  by (simp_all add: offsets_fit process_size_fits data_size_fits description_size_fits)
    (simp_all add: example_map_def memory_map_create_def part_size_def align_up_def)

lemma example_valid: "valid_shm example_map example_shm"
  using example_map_fits map_fits_int_range [OF example_map_fits]
  by (simp add: valid_shm_def example_shm_def map_of_bytes_map_bytes example_extents sizeof_memory_map_def)

lemma example_size: "memory_get_size example_map = 1024"
  by (rule word_unat_eq_iff [THEN iffD2]) (simp add: example_extents)

theorem shm_segment_roundtrip_witness:
  "\<exists>shm' p. shm_write DataSegment example_shm 3 (Some [7, 8]) 2 = Some (shm', p) \<and>
     unat p = segment_start example_map DataSegment + 3 \<and>
     shm_read DataSegment shm' 3 (Some [0, 0]) 2 = Some (Some [7, 8], p)"
  using shm_segment_roundtrip [OF example_valid, of DataSegment 3 "[7, 8]" "[0, 0]"]
  by (auto simp: example_extents)

theorem shm_segment_isolation_witness:
  "\<exists>shm' p. shm_write DataSegment example_shm 0 (Some [7]) 1 = Some (shm', p) \<and>
     shm_read ProcessSegment shm' 5 (Some [0]) 1 = shm_read ProcessSegment example_shm 5 (Some [0]) 1"
  using shm_segment_isolation [OF example_valid, of DataSegment ProcessSegment 0 "[7]" 5 "[0]"]
  by (auto simp: example_extents)

definition empty_os :: shm_os where
  "empty_os = \<lparr>shm_names = (\<lambda>_. None), shm_objects = (\<lambda>_. []), shm_next = 0, environ = (\<lambda>_. None)\<rparr>"

theorem shared_memory_server_client_witness:
  "\<exists>s'. shared_memory_server_init no_faults (Some ''/seg'') (Some example_map) empty_os = Some (Some 0, s') \<and>
     valid_shm example_map (shm_objects s' 0) \<and>
     shared_memory_client_init no_faults (Some ''/seg'') (memory_get_size example_map) s' = Some (Some 0, s')"
  using shared_memory_server_client [OF example_map_fits, of empty_os "''/seg''"]
  by (auto simp: example_size empty_os_def)

theorem shared_memory_server_init_failure_witness:
  "\<exists>s'. shared_memory_server_init (no_faults\<lparr>mmap_fails := True\<rparr>) (Some ''/seg'') (Some example_map) empty_os =
     Some (None, s') \<and> shm_names s' = shm_names empty_os"
proof -
  have "\<exists>s'. shared_memory_server_init (no_faults\<lparr>mmap_fails := True\<rparr>) (Some ''/seg'') (Some example_map)
      empty_os = Some (None, s')"
    by (simp add: shared_memory_server_init_def shm_create_def empty_os_def no_faults_def
        ftruncate_new_def mmap_ok_def example_size)
  then show ?thesis using shared_memory_server_init_failure by blast
qed

theorem shared_memory_env_roundtrip_witness:
  "\<exists>s'. shared_memory_setenv no_faults (Some ''/seg'') example_shm empty_os = Some (0, s') \<and>
     shared_memory_getenv None 0 s' = Some (0, Some ''/seg'', 1024)"
proof -
  have "shared_memory_get_size example_shm = Some 1024"
    using example_valid by (simp add: shared_memory_get_size_def valid_shm_def example_size)
  from shared_memory_env_roundtrip [OF this] show ?thesis by blast
qed

end
