(* ===== verification/ProcessMngr.thy ===== *)
theory ProcessMngr imports Decimal begin

section \<open>Process manager and signal reactions\<close>

text \<open>
  \<^verbatim>\<open>process/src/process_mngr.c\<close> and \<^verbatim>\<open>process/src/signal_reaction.c\<close>. The table of
  \<open>struct process_info\<close> lives in shared memory; \<open>pm_info\<close> is the static pointer to it (the list behind
  it, \<open>None\<close> for NULL), the other fields of \<open>process_mngr\<close> are the static variables. What the system
  answers (\<open>sem_init\<close>, \<open>access\<close>, \<open>fork\<close>, \<open>setenv\<close>) is an argument. A semaphore is its value, \<open>None\<close> when
  it is not initialised.
\<close>

subsection \<open>Process table\<close>

definition PROCESS_MAX_CNT :: int where "PROCESS_MAX_CNT = 10"
definition PROCESS_CMD_STOP :: int where "PROCESS_CMD_STOP = 0"
definition PROCESS_CMD_JOB :: int where "PROCESS_CMD_JOB = 1"
definition PROCESS_DATA_MAX_LEN :: nat where "PROCESS_DATA_MAX_LEN = 2048"
definition PROCESS_ID_ENV :: string where "PROCESS_ID_ENV = ''SHMEM_PROCESS_ID''"
definition PI_CMD_ERROR :: int where "PI_CMD_ERROR = -1"
definition PI_CMD_OK :: int where "PI_CMD_OK = 0"

record process_info =
  sem_job :: "nat option"
  sem_result :: "nat option"
  pid :: int
  process_state :: int
  process_name :: string
  cmd :: int
  cmd_result :: int
  cmd_data :: "byte list"

text \<open>The union's second member: the first eight bytes of \<open>cmd_data\<close>.\<close>

definition cmd_offs :: "process_info \<Rightarrow> u64" where
  "cmd_offs info = of_le_bytes (take 8 (cmd_data info))"

definition set_cmd_offs :: "u64 \<Rightarrow> process_info \<Rightarrow> process_info" where
  "set_cmd_offs v info = info\<lparr>cmd_data := le_bytes 8 v @ drop 8 (cmd_data info)\<rparr>"

definition zero_info :: process_info where
  "zero_info = \<lparr>sem_job = None, sem_result = None, pid = 0, process_state = 0, process_name = [],
     cmd = 0, cmd_result = 0, cmd_data = replicate PROCESS_DATA_MAX_LEN 0\<rparr>"

text \<open>\<open>job_ok\<close> and \<open>result_ok\<close>: whether the two \<open>sem_init\<close> calls succeed.\<close>

definition process_info_init :: "bool \<Rightarrow> bool \<Rightarrow> process_info \<Rightarrow> int \<times> process_info" where
  "process_info_init job_ok result_ok info =
     (let info = zero_info in
      if \<not> job_ok then (-1, info)
      else let info = info\<lparr>sem_job := Some 0\<rparr> in
        if \<not> result_ok then (-1, info\<lparr>sem_job := None\<rparr>)
        else (0, info\<lparr>sem_result := Some 0, pid := -1\<rparr>))"

definition process_info_destroy :: "process_info \<Rightarrow> process_info" where
  "process_info_destroy info = zero_info\<lparr>pid := -1\<rparr>"

subsection \<open>Subsystem\<close>

record process_mngr =
  pm_cnt :: int
  pm_cnt_max :: int
  pm_usage :: "int list"
  pm_info :: "process_info list option"

definition process_mngr_start :: process_mngr where
  "process_mngr_start = \<lparr>pm_cnt = 0, pm_cnt_max = 0, pm_usage = replicate (nat PROCESS_MAX_CNT) 0,
     pm_info = None\<rparr>"

text \<open>
  The loop of \<open>process_subsystem_init\<close> over the \<open>n\<close> entries from entry \<open>i\<close> on; on a failure the entries
  before \<open>i\<close> are destroyed. \<open>ok k\<close> says which semaphores of entry \<open>k\<close> can be made. \<open>None\<close>: the array has
  fewer than \<open>cnt\<close> entries.
\<close>

fun init_entries ::
  "(nat \<Rightarrow> bool \<times> bool) \<Rightarrow> nat \<Rightarrow> nat \<Rightarrow> process_info list \<Rightarrow> (int \<times> process_info list) option" where
  "init_entries ok i 0 info = Some (0, info)"
| "init_entries ok i (Suc n) info =
     (if i < length info then
        (case process_info_init (fst (ok i)) (snd (ok i)) (info ! i) of (rc, e) \<Rightarrow>
           if rc \<noteq> 0 then Some (-1, map process_info_destroy (take i info) @ e # drop (Suc i) info)
           else init_entries ok (Suc i) n (info[i := e]))
      else None)"

definition process_subsystem_init ::
  "(nat \<Rightarrow> bool \<times> bool) \<Rightarrow> process_info list \<Rightarrow> int \<Rightarrow> process_mngr \<Rightarrow>
     (int \<times> process_info list \<times> process_mngr) option" where
  "process_subsystem_init ok info cnt pm = do {
     r \<leftarrow> init_entries ok 0 (nat cnt) info;
     (case r of (rc, info') \<Rightarrow>
        if rc \<noteq> 0 then Some (-1, info', pm)
        else Some (0, info', pm\<lparr>pm_info := Some info', pm_cnt_max := cnt,
               pm_usage := (pm_usage pm)[0 := -1]\<rparr>)) }"

definition process_subsystem_destroy :: "process_mngr \<Rightarrow> process_mngr option" where
  "process_subsystem_destroy pm =
     (let done = pm\<lparr>pm_info := None, pm_cnt_max := 0, pm_usage := (pm_usage pm)[0 := -1]\<rparr> in
      if pm_cnt_max pm \<le> 0 then Some done
      else do { info \<leftarrow> pm_info pm;
                if nat (pm_cnt_max pm) \<le> length info then Some done else None })"

subsection \<open>Starting processes\<close>

datatype fork_result = ForkError | ForkParent int

text \<open>
  The parent's side of \<open>process_start\<close>: \<open>argv\<close> is the argument vector without its NULL, \<open>access_ok\<close>
  and \<open>fork\<close> are what the two calls answer.
\<close>

definition process_start ::
  "string list option \<Rightarrow> bool \<Rightarrow> fork_result \<Rightarrow> process_mngr \<Rightarrow> (int \<times> process_mngr) option" where
  "process_start argv access_ok fork pm =
     (if pm_cnt pm \<ge> pm_cnt_max pm then Some (-1, pm)
      else let id' = pm_cnt pm; pm = pm\<lparr>pm_cnt := pm_cnt pm + 1\<rparr> in
        (case argv of
           None \<Rightarrow> Some (id', pm)
         | Some args \<Rightarrow>
             if args = [] \<or> \<not> access_ok then Some (-1, pm)
             else (case fork of
                 ForkError \<Rightarrow> Some (-1, pm)
               | ForkParent p \<Rightarrow> do {
                   info \<leftarrow> pm_info pm;
                   if 0 \<le> id' \<and> nat id' < length info
                   then Some (id', pm\<lparr>pm_info := Some (info[nat id' := (info ! nat id')
                      \<lparr>pid := p, process_name := snprintf_buf 80 (hd args)\<rparr>])\<rparr>)
                   else None })))"

text \<open>
  The child's side, from the \<open>fork\<close> on: its environment, its open descriptors and how it ends,
  either in a new program or, when \<open>setenv\<close> or \<open>execv\<close> fails, by returning \<open>-1\<close> to the caller of
  \<open>process_start\<close>, in a second copy of the server.
\<close>

datatype child_result = ChildExec string "string list" | ChildReturn int

definition process_start_child ::
  "int \<Rightarrow> string list \<Rightarrow> bool \<Rightarrow> bool \<Rightarrow> (string \<Rightarrow> string option) \<Rightarrow> int list \<Rightarrow>
     child_result \<times> (string \<Rightarrow> string option) \<times> int list" where
  "process_start_child id' args setenv_ok exec_ok env fds =
     (let id_str = snprintf_buf 10 (dec_int id') in
      if \<not> setenv_ok then (ChildReturn (-1), env, fds)
      else let env = env(PROCESS_ID_ENV \<mapsto> id_str); fds = filter (\<lambda>fd. \<not> (3 \<le> fd \<and> fd < 1024)) fds in
        if exec_ok then (ChildExec (hd args) args, env, fds) else (ChildReturn (-1), env, fds))"

text \<open>A server starts several modules one after the other.\<close>

record start_request =
  rq_argv :: "string list option"
  rq_access :: bool
  rq_fork :: fork_result

fun process_starts :: "start_request list \<Rightarrow> process_mngr \<Rightarrow> (int list \<times> process_mngr) option" where
  "process_starts [] pm = Some ([], pm)"
| "process_starts (r # rs) pm = do {
     (i, pm1) \<leftarrow> process_start (rq_argv r) (rq_access r) (rq_fork r) pm;
     (is, pm2) \<leftarrow> process_starts rs pm1;
     Some (i # is, pm2) }"

subsection \<open>Stopping processes\<close>

text \<open>
  The first loop of \<open>process_kill_all\<close> sets the command of every entry and posts, each time, the
  semaphore of the table's first entry (\<open>process_info->sem_job\<close>); the second loop waits \<open>n\<close> times for
  the first entry's result semaphore. \<open>sem_wait0\<close> is \<open>None\<close> while the call would block.
\<close>

definition sem_post0 :: "process_info list \<Rightarrow> process_info list option" where
  "sem_post0 info =
     (case info of [] \<Rightarrow> None
      | e # es \<Rightarrow> do { v \<leftarrow> sem_job e; Some (e\<lparr>sem_job := Some (Suc v)\<rparr> # es) })"

definition sem_wait0 :: "process_info list \<Rightarrow> process_info list option" where
  "sem_wait0 info =
     (case info of [] \<Rightarrow> None
      | e # es \<Rightarrow> (case sem_result e of
            Some (Suc v) \<Rightarrow> Some (e\<lparr>sem_result := Some v\<rparr> # es) | _ \<Rightarrow> None))"

fun kill_post :: "nat \<Rightarrow> nat \<Rightarrow> process_info list \<Rightarrow> process_info list option" where
  "kill_post i 0 info = Some info"
| "kill_post i (Suc n) info =
     (if i < length info then do {
        info \<leftarrow> sem_post0 (info[i := (info ! i)\<lparr>cmd := PROCESS_CMD_STOP\<rparr>]);
        kill_post (Suc i) n info }
      else None)"

fun kill_wait :: "nat \<Rightarrow> process_info list \<Rightarrow> process_info list option" where
  "kill_wait 0 info = Some info"
| "kill_wait (Suc n) info = do { info \<leftarrow> sem_wait0 info; kill_wait n info }"

text \<open>\<open>answer\<close> is what the children do to the table between the two loops.\<close>

definition process_kill_all ::
  "(process_info list \<Rightarrow> process_info list) \<Rightarrow> process_mngr \<Rightarrow> process_mngr option" where
  "process_kill_all answer pm =
     (if pm_cnt pm \<le> 0 then Some pm
      else do {
        info \<leftarrow> pm_info pm;
        info1 \<leftarrow> kill_post 0 (nat (pm_cnt pm)) info;
        info2 \<leftarrow> kill_wait (nat (pm_cnt pm)) (answer info1);
        Some (pm\<lparr>pm_info := Some info2\<rparr>) })"

subsection \<open>Reaping children\<close>

text \<open>
  The children of a process: pid and whether it has ended. \<open>waitpid(-1, .., WNOHANG)\<close> takes a child
  that has ended and returns its pid, 0 when all still run, -1 when there is none.
\<close>

type_synonym children = "(int \<times> bool) list"

fun waitpid_nohang :: "children \<Rightarrow> int \<times> children" where
  "waitpid_nohang [] = (-1, [])"
| "waitpid_nohang ((p, ended) # cs) =
     (if ended then (p, cs)
      else (case waitpid_nohang cs of (r, cs') \<Rightarrow> (if r = -1 then 0 else r, (p, ended) # cs')))"

lemma waitpid_nohang_shrinks:
  "waitpid_nohang cs = (r, cs') \<Longrightarrow> 0 < r \<Longrightarrow> length cs' < length cs"
  by (induction cs arbitrary: r cs' rule: waitpid_nohang.induct) (auto split: if_splits prod.splits)

function process_cleanup :: "children \<Rightarrow> children" where
  "process_cleanup cs =
     (case waitpid_nohang cs of (p, cs') \<Rightarrow> if p \<le> 0 then cs' else process_cleanup cs')"
  by pat_completeness auto
termination
  by (relation "measure length") (simp_all, metis not_le waitpid_nohang_shrinks)

declare process_cleanup.simps [simp del]

subsection \<open>Signals\<close>

definition SIGINT :: int where "SIGINT = 2"
definition SIGILL :: int where "SIGILL = 4"
definition SIGABRT :: int where "SIGABRT = 6"
definition SIGFPE :: int where "SIGFPE = 8"
definition SIGSEGV :: int where "SIGSEGV = 11"
definition SIGUSR2 :: int where "SIGUSR2 = 12"
definition SIGTERM :: int where "SIGTERM = 15"
definition SIGCHLD :: int where "SIGCHLD = 17"

datatype handler_result = HandlerReturns | HandlerExits int

definition signal_handler :: "int \<Rightarrow> children \<Rightarrow> handler_result \<times> children" where
  "signal_handler signum cs =
     (if signum = SIGCHLD then (HandlerReturns, process_cleanup cs)
      else if signum = SIGUSR2 then (HandlerReturns, cs)
      else (HandlerExits signum, cs))"

text \<open>
  One round of \<open>signal_thread\<close>: \<open>sigwaitinfo\<close> fails (\<open>None\<close>) or accepts a signal; the state is
  \<open>*exit_flag\<close> and the children.
\<close>

definition signal_thread_round :: "int option \<Rightarrow> int \<times> children \<Rightarrow> int \<times> children" where
  "signal_thread_round sg st =
     (case sg of
        None \<Rightarrow> st
      | Some n \<Rightarrow> if n = SIGCHLD then (fst st, process_cleanup (snd st)) else (1, snd st))"

definition signal_thread :: "int option list \<Rightarrow> int \<times> children \<Rightarrow> int \<times> children" where
  "signal_thread sgs st = foldl (\<lambda>st sg. signal_thread_round sg st) st sgs"

definition watched_signals :: "int list" where
  "watched_signals = [SIGCHLD, SIGINT, SIGTERM]"

record signal_setup =
  handled :: "int list"
  blocked :: "int list"

text \<open>\<open>None\<close>: the process exits because \<open>sigaction\<close> or \<open>pthread_sigmask\<close> fails.\<close>

definition set_signal_reactions ::
  "(int \<Rightarrow> bool) \<Rightarrow> bool \<Rightarrow> signal_setup \<Rightarrow> signal_setup option" where
  "set_signal_reactions sigaction_ok mask_ok s =
     (let signals = [SIGILL, SIGSEGV, SIGABRT, SIGFPE, SIGUSR2] in
      if list_all sigaction_ok signals \<and> mask_ok
      then Some (s\<lparr>handled := handled s @ signals, blocked := blocked s @ [SIGCHLD, SIGINT, SIGTERM]\<rparr>)
      else None)"

subsection \<open>The table after initialisation and the ids of started processes\<close>

definition entry_ready :: "process_info \<Rightarrow> bool" where
  "entry_ready e \<longleftrightarrow> sem_job e = Some 0 \<and> sem_result e = Some 0 \<and> pid e = -1"

definition entry_dead :: "process_info \<Rightarrow> bool" where
  "entry_dead e \<longleftrightarrow> sem_job e = None \<and> sem_result e = None"

lemma process_info_init_ok:
  "process_info_init j r e = (rc, e') \<Longrightarrow> (rc = 0 \<and> entry_ready e') \<or> (rc = -1 \<and> entry_dead e')"
  by (auto simp: process_info_init_def entry_ready_def entry_dead_def zero_info_def Let_def split: if_splits)

lemma process_info_destroy_dead: "entry_dead (process_info_destroy e)"
  by (simp add: process_info_destroy_def entry_dead_def zero_info_def)

text \<open>The loop stops at the end, all entries before it ready, or at a failing entry, all up to it dead.\<close>

lemma init_entries_result:
  assumes "init_entries ok i n info = Some (rc, info')" "\<forall>k < i. entry_ready (info ! k)" "i \<le> length info"
  shows "length info' = length info \<and>
     ((rc = 0 \<and> i + n \<le> length info \<and> (\<forall>k < i + n. entry_ready (info' ! k)) \<and>
         drop (i + n) info' = drop (i + n) info) \<or>
      (rc = -1 \<and> (\<exists>f \<ge> i. f < i + n \<and> f < length info \<and> (\<forall>k \<le> f. entry_dead (info' ! k)) \<and>
         drop (Suc f) info' = drop (Suc f) info)))"
  using assms
proof (induction ok i n info rule: init_entries.induct)
  case (1 ok i info)
  then show ?case by auto
next
  case (2 ok i n info)
  from 2(2) have i: "i < length info" by (auto split: if_splits)
  obtain c e where ce: "process_info_init (fst (ok i)) (snd (ok i)) (info ! i) = (c, e)" by force
  show ?case
  proof (cases "c = 0")
    case True
    have run: "init_entries ok (Suc i) n (info[i := e]) = Some (rc, info')" using 2(2) i ce True by simp
    have "\<forall>k < Suc i. entry_ready (info[i := e] ! k)"
      using 2(3) process_info_init_ok [OF ce] True i by (auto simp: nth_list_update less_Suc_eq)
    then have "length info' = length info \<and>
     ((rc = 0 \<and> Suc i + n \<le> length info \<and> (\<forall>k < Suc i + n. entry_ready (info' ! k)) \<and>
         drop (Suc i + n) info' = drop (Suc i + n) (info[i := e])) \<or>
      (rc = -1 \<and> (\<exists>f \<ge> Suc i. f < Suc i + n \<and> f < length info \<and> (\<forall>k \<le> f. entry_dead (info' ! k)) \<and>
         drop (Suc f) info' = drop (Suc f) (info[i := e]))))"
      using 2(1) [OF i ce [symmetric]] run i True by simp
    moreover have "drop (Suc i + n) (info[i := e]) = drop (Suc i + n) info"
      "i < Suc f \<Longrightarrow> drop (Suc f) (info[i := e]) = drop (Suc f) info" for f by simp_all
    ultimately show ?thesis by (auto dest!: Suc_leD)
  next
    case False
    then have "entry_dead e" "rc = -1" "info' = map process_info_destroy (take i info) @ e # drop (Suc i) info"
      using process_info_init_ok [OF ce] 2(2) i ce by auto
    moreover have "k \<le> i \<Longrightarrow> entry_dead ((map process_info_destroy (take i info) @ e # drop (Suc i) info) ! k)" for k
      using \<open>entry_dead e\<close> i by (cases "k = i") (auto simp: nth_append process_info_destroy_dead)
    ultimately show ?thesis using i by (auto intro!: exI [of _ i])
  qed
qed

text \<open>Initialising the process table is all or nothing: on success every entry has both semaphores at 0 and
  no pid and the table is installed; on failure the return value is -1, the manager is unchanged and every
  entry the call had touched has no live semaphore, while the entries after the failing one are untouched.\<close>

theorem process_subsystem_init_all_or_nothing:
  assumes "process_subsystem_init ok info cnt pm = Some (rc, info', pm')"
  shows "(rc = 0 \<and> (\<forall>k < nat cnt. entry_ready (info' ! k)) \<and> drop (nat cnt) info' = drop (nat cnt) info \<and>
           pm_info pm' = Some info' \<and> pm_cnt_max pm' = cnt) \<or>
         (rc = -1 \<and> pm' = pm \<and> (\<exists>f < nat cnt. (\<forall>k \<le> f. entry_dead (info' ! k)) \<and>
           drop (Suc f) info' = drop (Suc f) info))"
proof -
  obtain c where "init_entries ok 0 (nat cnt) info = Some (c, info')"
    and "(c = 0 \<and> rc = 0 \<and> pm' = pm\<lparr>pm_info := Some info', pm_cnt_max := cnt, pm_usage := (pm_usage pm)[0 := -1]\<rparr>)
       \<or> (c \<noteq> 0 \<and> rc = -1 \<and> pm' = pm)"
    using assms by (auto simp: process_subsystem_init_def split: prod.splits if_splits bind_splits)
  then show ?thesis using init_entries_result [of ok 0 "nat cnt" info c info'] by auto
qed

theorem process_subsystem_init_all_or_nothing_witness:
  "\<exists>info'. process_subsystem_init (\<lambda>k. (k < 1, True)) [zero_info, zero_info, zero_info] 2 process_mngr_start =
       Some (-1, info', process_mngr_start) \<and>
     (\<exists>f < 2. (\<forall>k \<le> f. entry_dead (info' ! k)) \<and> drop (Suc f) info' = drop (Suc f) [zero_info, zero_info, zero_info])"
proof -
  have "\<exists>info'. process_subsystem_init (\<lambda>k. (k < 1, True)) [zero_info, zero_info, zero_info] 2 process_mngr_start =
       Some (-1, info', process_mngr_start)"
    by (simp add: process_subsystem_init_def process_info_init_def numeral_2_eq_2 Let_def)
  then show ?thesis using process_subsystem_init_all_or_nothing by fastforce
qed

definition mngr_ok :: "process_mngr \<Rightarrow> bool" where
  "mngr_ok pm \<longleftrightarrow> 0 \<le> pm_cnt pm \<and>
     (case pm_info pm of None \<Rightarrow> pm_cnt_max pm \<le> 0 | Some info \<Rightarrow> nat (pm_cnt_max pm) \<le> length info)"

lemma process_start_step:
  assumes "mngr_ok pm"
  shows "\<exists>i pm'. process_start argv acc fork pm = Some (i, pm') \<and> mngr_ok pm' \<and>
    pm_cnt_max pm' = pm_cnt_max pm \<and>
    pm_cnt pm' = (if pm_cnt pm < pm_cnt_max pm then pm_cnt pm + 1 else pm_cnt pm) \<and>
    (i = -1 \<or> (i = pm_cnt pm \<and> pm_cnt pm < pm_cnt_max pm))"
proof (cases "pm_cnt pm < pm_cnt_max pm")
  case True
  then obtain info where info: "pm_info pm = Some info" "nat (pm_cnt pm) < length info"
    using assms by (fastforce simp: mngr_ok_def split: option.splits)
  show ?thesis
    using True info assms
    by (cases argv; cases fork) (auto simp: process_start_def mngr_ok_def Let_def)
next
  case False
  then show ?thesis using assms by (simp add: process_start_def)
qed

text \<open>C35: However many modules a server starts, in whatever order and with whichever failures, the calls are
  defined and the ids they return are strictly increasing, each at least the old counter and below the size of
  the table: no two modules share an id or an entry, and no entry outside the table is written.\<close>

theorem process_starts_distinct_ids:
  assumes "mngr_ok pm"
  shows "\<exists>ids pm'. process_starts rs pm = Some (ids, pm') \<and> mngr_ok pm' \<and> length ids = length rs \<and>
     sorted_wrt (<) (filter (\<lambda>i. i \<noteq> -1) ids) \<and>
     (\<forall>i \<in> set ids. i = -1 \<or> (pm_cnt pm \<le> i \<and> i < pm_cnt_max pm))"
  using assms
proof (induction rs arbitrary: pm)
  case Nil
  then show ?case by simp
next
  case (Cons r rs)
  obtain i pm1 where s: "process_start (rq_argv r) (rq_access r) (rq_fork r) pm = Some (i, pm1)" "mngr_ok pm1"
    "pm_cnt_max pm1 = pm_cnt_max pm" "pm_cnt pm1 = (if pm_cnt pm < pm_cnt_max pm then pm_cnt pm + 1 else pm_cnt pm)"
    "i = -1 \<or> (i = pm_cnt pm \<and> pm_cnt pm < pm_cnt_max pm)"
    using process_start_step [OF Cons.prems] by blast
  obtain ids pm2 where "process_starts rs pm1 = Some (ids, pm2)" "mngr_ok pm2" "length ids = length rs"
     "sorted_wrt (<) (filter (\<lambda>i. i \<noteq> -1) ids)"
     "\<forall>i \<in> set ids. i = -1 \<or> (pm_cnt pm1 \<le> i \<and> i < pm_cnt_max pm1)"
    using Cons.IH [OF s(2)] by blast
  then show ?case using s by (fastforce split: if_splits)
qed

theorem process_starts_distinct_ids_witness:
  "\<exists>ids pm'. process_starts [\<lparr>rq_argv = Some [''m''], rq_access = True, rq_fork = ForkParent 7\<rparr>,
        \<lparr>rq_argv = None, rq_access = False, rq_fork = ForkError\<rparr>]
      \<lparr>pm_cnt = 0, pm_cnt_max = 2, pm_usage = [], pm_info = Some [zero_info, zero_info]\<rparr> = Some (ids, pm') \<and>
     ids = [0, 1] \<and> sorted_wrt (<) (filter (\<lambda>i. i \<noteq> -1) ids)"
  using process_starts_distinct_ids [of "\<lparr>pm_cnt = 0, pm_cnt_max = 2, pm_usage = [],
      pm_info = Some [zero_info, zero_info]\<rparr>" "[\<lparr>rq_argv = Some [''m''], rq_access = True, rq_fork = ForkParent 7\<rparr>,
        \<lparr>rq_argv = None, rq_access = False, rq_fork = ForkError\<rparr>]"]
  by (auto simp: mngr_ok_def process_start_def Let_def)

text \<open>The ids of the table fit the buffer they are formatted into.\<close>

lemma child_id_fits:
  assumes "0 \<le> id'" "id' < PROCESS_MAX_CNT + 2"
  shows "snprintf_buf 10 (dec_int id') = dec_int id'"
proof -
  have "length (dec_nat (nat id')) \<le> 2"
    using assms by (intro dec_nat_length) (simp_all add: PROCESS_MAX_CNT_def nat_less_iff)
  then show ?thesis using assms by (simp add: dec_int_def snprintf_buf_fits)
qed

text \<open>A child that is started reads back from its environment the id the server gave it, and keeps of the
  server's descriptors only the standard three and those from 1024 on.\<close>

theorem process_start_child_id:
  assumes "0 \<le> id'" "id' < PROCESS_MAX_CNT + 2"
  shows "\<exists>env' fds'. process_start_child id' args True True env fds = (ChildExec (hd args) args, env', fds') \<and>
     (\<exists>str. env' PROCESS_ID_ENV = Some str \<and> scan_d str = Some id') \<and>
     set fds' = {fd \<in> set fds. fd < 3 \<or> 1024 \<le> fd}"
  using assms
  by (auto simp: process_start_child_def Let_def child_id_fits scan_d_dec_int PROCESS_MAX_CNT_def)

lemma waitpid_nohang_result:
  "waitpid_nohang cs = (r, cs') \<Longrightarrow> list_all (\<lambda>c. 0 < fst c) cs \<Longrightarrow>
     filter (\<lambda>c. \<not> snd c) cs' = filter (\<lambda>c. \<not> snd c) cs \<and> list_all (\<lambda>c. 0 < fst c) cs' \<and>
     (if list_ex snd cs then 0 < r else r \<le> 0 \<and> filter (\<lambda>c. \<not> snd c) cs = cs')"
proof (induction cs arbitrary: r cs' rule: waitpid_nohang.induct)
  case 1
  then show ?case by simp
next
  case (2 p ended cs)
  obtain r0 c0 where w: "waitpid_nohang cs = (r0, c0)" by force
  show ?case
  proof (cases ended)
    case True
    then show ?thesis using 2(2,3) by simp
  next
    case False
    then show ?thesis using 2(1) [OF False w] 2(2,3) w by (auto split: if_splits)
  qed
qed

lemma process_cleanup_filter:
  assumes "list_all (\<lambda>c. 0 < fst c) cs"
  shows "process_cleanup cs = filter (\<lambda>c. \<not> snd c) cs"
  using assms
proof (induction cs rule: process_cleanup.induct)
  case (1 cs)
  obtain r cs' where w: "waitpid_nohang cs = (r, cs')" by force
  then show ?case
    using waitpid_nohang_result [OF w 1(2)] 1(1) [OF w [symmetric]]
    by (cases "r \<le> 0") (auto simp: process_cleanup.simps [of cs] split: if_splits)
qed

lemma signal_thread_simps [simp]:
  "signal_thread [] st = st" "signal_thread (sg # sgs) st = signal_thread sgs (signal_thread_round sg st)"
  by (simp_all add: signal_thread_def)

text \<open>The signal thread stays correct over any sequence of accepted signals: reaping terminates at every
  SIGCHLD and takes exactly the children that have ended, those still running stay in order, and the
  exit flag is raised exactly when a signal other than SIGCHLD was accepted.\<close>

theorem signal_thread_effect:
  assumes "list_all (\<lambda>c. 0 < fst c) cs"
  shows "signal_thread sgs (flag, cs) =
    (if \<exists>n. Some n \<in> set sgs \<and> n \<noteq> SIGCHLD then 1 else flag,
     if Some SIGCHLD \<in> set sgs then filter (\<lambda>c. \<not> snd c) cs else cs)"
  using assms
proof (induction sgs arbitrary: flag cs)
  case Nil
  then show ?case by simp
next
  case (Cons sg sgs)
  have pos: "list_all (\<lambda>c. 0 < fst c) (filter (\<lambda>c. \<not> snd c) cs)"
    using Cons.prems by (simp add: list_all_iff)
  consider "sg = None" | "sg = Some SIGCHLD" | n where "sg = Some n" "n \<noteq> SIGCHLD" by (cases sg) auto
  then show ?case
  proof cases
    case 1
    then show ?thesis using Cons.IH [OF Cons.prems] by (simp add: signal_thread_round_def)
  next
    case 2
    then show ?thesis using Cons.IH [OF pos, of flag] process_cleanup_filter [OF Cons.prems]
      by (auto simp: signal_thread_round_def)
  next
    case 3
    have "\<exists>m. Some m \<in> set (sg # sgs) \<and> m \<noteq> SIGCHLD" using 3 by auto
    moreover have "Some SIGCHLD \<in> set (sg # sgs) \<longleftrightarrow> Some SIGCHLD \<in> set sgs" using 3 by auto
    moreover have "signal_thread (sg # sgs) (flag, cs) =
        (1, if Some SIGCHLD \<in> set sgs then filter (\<lambda>c. \<not> snd c) cs else cs)"
      using 3 Cons.IH [OF Cons.prems, of 1] by (simp add: signal_thread_round_def)
    ultimately show ?thesis by presburger
  qed
qed

theorem signal_thread_effect_witness:
  "signal_thread [Some SIGCHLD, None, Some SIGTERM] (0, [(5, True), (6, False)]) = (1, [(6, False)])"
proof -
  have "\<exists>n. Some n \<in> set [Some SIGCHLD, None, Some SIGTERM] \<and> n \<noteq> SIGCHLD"
    by (rule exI [of _ SIGTERM]) (simp add: SIGCHLD_def SIGTERM_def)
  with signal_thread_effect [of "[(5, True), (6, False)]" "[Some SIGCHLD, None, Some SIGTERM]" 0]
  show ?thesis by (simp only: if_P) simp
qed

theorem process_start_child_id_witness:
  "\<exists>env' fds' str. process_start_child 3 [''mod''] True True (\<lambda>_. None) [0, 1, 2, 7] =
     (ChildExec ''mod'' [''mod''], env', fds') \<and> env' PROCESS_ID_ENV = Some str \<and> scan_d str = Some 3"
  using process_start_child_id [of 3 "[''mod'']" "\<lambda>_. None" "[0, 1, 2, 7]"]
  by (auto simp: PROCESS_MAX_CNT_def)

lemma kill_post_result:
  "kill_post i n info = Some info' \<Longrightarrow>
     length info' = length info \<and> i + n \<le> max i (length info) \<and>
     (\<forall>k. 0 < k \<and> k < length info \<longrightarrow> sem_job (info' ! k) = sem_job (info ! k)) \<and>
     (\<forall>k < length info. sem_result (info' ! k) = sem_result (info ! k) \<and>
        cmd (info' ! k) = (if i \<le> k \<and> k < i + n then PROCESS_CMD_STOP else cmd (info ! k))) \<and>
     (0 < n \<longrightarrow> (\<exists>v. sem_job (info ! 0) = Some v \<and> sem_job (info' ! 0) = Some (v + n)))"
proof (induction n arbitrary: i info)
  case 0
  then show ?case by auto
next
  case (Suc n)
  define info1 where "info1 = info[i := (info ! i)\<lparr>cmd := PROCESS_CMD_STOP\<rparr>]"
  obtain e es v where e: "i < length info" "info1 = e # es" "sem_job e = Some v"
      "kill_post (Suc i) n (e\<lparr>sem_job := Some (Suc v)\<rparr> # es) = Some info'"
    using Suc.prems by (auto simp: sem_post0_def info1_def split: if_splits list.splits bind_splits)
  have len: "length info = Suc (length es)" using e(2) by (metis info1_def length_Cons length_list_update)
  have at: "k < length info \<Longrightarrow> (e # es) ! k = (if k = i then (info ! i)\<lparr>cmd := PROCESS_CMD_STOP\<rparr> else info ! k)" for k
    using e(1) by (simp add: e(2) [symmetric] info1_def nth_list_update)
  have IH: "length info' = length info" "Suc i + n \<le> max (Suc i) (length info)"
     "\<forall>k. 0 < k \<and> k < length info \<longrightarrow> sem_job (info' ! k) = sem_job ((e # es) ! k)"
     "\<forall>k < length info. sem_result (info' ! k) = sem_result ((e\<lparr>sem_job := Some (Suc v)\<rparr> # es) ! k) \<and>
        cmd (info' ! k) = (if Suc i \<le> k \<and> k < Suc i + n then PROCESS_CMD_STOP
          else cmd ((e\<lparr>sem_job := Some (Suc v)\<rparr> # es) ! k))"
     "0 < n \<longrightarrow> sem_job (info' ! 0) = Some (Suc v + n)"
    using Suc.IH [OF e(4)] len by (auto simp: nth_Cons')
  have job: "sem_job (info ! 0) = Some v" using at [of 0] e(3) len by (auto split: if_splits)
  have keep: "k < length info \<Longrightarrow> sem_result ((e\<lparr>sem_job := Some (Suc v)\<rparr> # es) ! k) = sem_result (info ! k) \<and>
      cmd ((e\<lparr>sem_job := Some (Suc v)\<rparr> # es) ! k) = (if k = i then PROCESS_CMD_STOP else cmd (info ! k))" for k
    using at [of k] by (cases k) (auto split: if_splits)
  have zero: "n = 0 \<Longrightarrow> sem_job (info' ! 0) = Some (Suc v)" using e(4) by auto
  have tail: "0 < k \<Longrightarrow> k < length info \<Longrightarrow> sem_job ((e # es) ! k) = sem_job (info ! k)" for k
    using at [of k] by auto
  have jobs: "\<forall>k. 0 < k \<and> k < length info \<longrightarrow> sem_job (info' ! k) = sem_job (info ! k)"
    using IH(3) tail by metis
  have cmds: "sem_result (info' ! k) = sem_result (info ! k) \<and>
      cmd (info' ! k) = (if i \<le> k \<and> k < i + Suc n then PROCESS_CMD_STOP else cmd (info ! k))"
    if "k < length info" for k
  proof -
    define y where "y = cmd ((e\<lparr>sem_job := Some (Suc v)\<rparr> # es) ! k)"
    have "y = (if k = i then PROCESS_CMD_STOP else cmd (info ! k))"
      "cmd (info' ! k) = (if Suc i \<le> k \<and> k < Suc i + n then PROCESS_CMD_STOP else y)"
      using IH(4) keep [OF that] that unfolding y_def by blast+
    then show ?thesis using IH(4) keep that by (auto simp: Suc_le_eq)
  qed
  have "i + Suc n \<le> max i (length info)" using IH(2) e(1) by auto
  moreover have "sem_job (info' ! 0) = Some (v + Suc n)" using IH(5) zero by (cases "n = 0") auto
  ultimately show ?case using IH(1) jobs cmds job by blast
qed

text \<open>Killing all processes sets the stop command in every started entry but wakes only the process of the
  first: entry 0's job semaphore is posted once per process and every other entry's semaphores are untouched.\<close>

theorem process_kill_all_posts_first:
  assumes "kill_post 0 n info = Some info'" "0 < n"
  shows "\<exists>v. sem_job (info ! 0) = Some v \<and> sem_job (info' ! 0) = Some (v + n) \<and>
     (\<forall>i < n. cmd (info' ! i) = PROCESS_CMD_STOP) \<and>
     (\<forall>i. 0 < i \<and> i < length info \<longrightarrow> sem_job (info' ! i) = sem_job (info ! i) \<and>
        sem_result (info' ! i) = sem_result (info ! i))"
  using kill_post_result [OF assms(1)] assms(2) by auto

theorem process_kill_all_posts_first_witness:
  "\<exists>info'. kill_post 0 2 [zero_info\<lparr>sem_job := Some 0\<rparr>, zero_info\<lparr>sem_job := Some 0\<rparr>] = Some info' \<and>
     sem_job (info' ! 0) = Some 2 \<and> sem_job (info' ! 1) = Some 0"
proof -
  let ?t = "[zero_info\<lparr>sem_job := Some 0\<rparr>, zero_info\<lparr>sem_job := Some 0\<rparr>]"
  obtain info' where k: "kill_post 0 2 ?t = Some info'" by (simp add: sem_post0_def numeral_2_eq_2)
  from process_kill_all_posts_first [OF k] show ?thesis using k by force
qed

end
