(* ===== verification/External.thy ===== *)
theory External imports Prelude "HOL-Library.Multiset" begin

section \<open>Interfaces of the libraries the program calls\<close>

text \<open>
  The program uses json-c and a \<open>misc\<close> library (lists, ring buffers, files) whose code is not part of
  the repository. They are parameters of the model: a record of the operations the program calls
  for each, and a predicate with the documented behaviour the properties rely on. The last part
  gives a concrete instance of each that satisfies it.
\<close>

subsection \<open>json-c\<close>

text \<open>
  A \<open>struct json_object *\<close> is a \<open>'j option\<close>. \<open>json_get\<close> is \<open>json_object_object_get_ex\<close>, which sets the
  result to NULL when the value is NULL, not an object, or has no such key; \<open>json_object_add\<close> aborts on
  anything but an object (\<open>json_is_object\<close>), so its callers check; \<open>json_items\<close> are the elements by
  \<open>json_object_array_length\<close> and \<open>json_object_array_get_idx\<close>.
\<close>

record 'j json_ops =
  json_get :: "'j option \<Rightarrow> string \<Rightarrow> 'j option"
  json_get_int :: "'j \<Rightarrow> int"
  json_get_string :: "'j \<Rightarrow> string"
  json_is_array :: "'j option \<Rightarrow> bool"
  json_is_object :: "'j \<Rightarrow> bool"
  json_items :: "'j \<Rightarrow> 'j option list"
  json_new_object :: 'j
  json_new_array :: 'j
  json_new_int :: "int \<Rightarrow> 'j"
  json_new_string :: "string \<Rightarrow> 'j"
  json_object_add :: "'j \<Rightarrow> string \<Rightarrow> 'j option \<Rightarrow> 'j"
  json_array_add :: "'j \<Rightarrow> 'j \<Rightarrow> 'j"
  json_from_file :: "string \<Rightarrow> 'j option"
  json_tokener_parse :: "string \<Rightarrow> 'j option"
  json_to_string :: "'j \<Rightarrow> string"

definition json_laws :: "'j json_ops \<Rightarrow> bool" where
  "json_laws J \<longleftrightarrow>
     (\<forall>k. json_get J None k = None) \<and>
     (\<forall>k. json_get J (Some (json_new_object J)) k = None) \<and>
     (\<forall>j k v k'. json_get J (Some (json_object_add J j k v)) k' =
        (if k' = k then v else json_get J (Some j) k')) \<and>
     (\<forall>i. - (2 ^ 31) \<le> i \<and> i < 2 ^ 31 \<longrightarrow> json_get_int J (json_new_int J i) = i) \<and>
     (\<forall>s. json_get_string J (json_new_string J s) = s) \<and>
     \<not> json_is_array J None \<and> json_is_array J (Some (json_new_array J)) \<and>
     json_items J (json_new_array J) = [] \<and>
     (\<forall>a v. json_is_array J (Some a) \<longrightarrow> json_is_array J (Some (json_array_add J a v))) \<and>
     (\<forall>a v. json_items J (json_array_add J a v) = json_items J a @ [Some v]) \<and>
     json_is_object J (json_new_object J) \<and>
     (\<forall>j k v. json_is_object J j \<longrightarrow> json_is_object J (json_object_add J j k v)) \<and>
     (\<forall>j k. \<not> json_is_object J j \<longrightarrow> json_get J (Some j) k = None)"

lemma json_lawsD:
  assumes "json_laws J"
  shows "json_get J None k = None"
    and "json_get J (Some (json_new_object J)) k = None"
    and "json_get J (Some (json_object_add J j k v)) k' = (if k' = k then v else json_get J (Some j) k')"
    and "- (2 ^ 31) \<le> i \<Longrightarrow> i < 2 ^ 31 \<Longrightarrow> json_get_int J (json_new_int J i) = i"
    and "json_get_string J (json_new_string J s) = s"
    and "\<not> json_is_array J None" "json_is_array J (Some (json_new_array J))"
    and "json_items J (json_new_array J) = []"
    and "json_is_array J (Some a) \<Longrightarrow> json_is_array J (Some (json_array_add J a w))"
    and "json_items J (json_array_add J a w) = json_items J a @ [Some w]"
    and "json_is_object J (json_new_object J)"
    and "json_is_object J j \<Longrightarrow> json_is_object J (json_object_add J j k v)"
    and "\<not> json_is_object J j \<Longrightarrow> json_get J (Some j) k = None"
  using assms by (simp_all add: json_laws_def)

subsection \<open>misc/list\<close>

text \<open>
  An intrusive list: the elements are addresses of the structures that hold the links.
  \<open>list_walk\<close> are the elements met from \<open>list_first_elem\<close> along \<open>next\<close> while \<open>list_is_valid_elem\<close>.
\<close>

record 'l list_ops =
  list_init :: 'l
  list_add_back :: "'l \<Rightarrow> addr \<Rightarrow> 'l"
  list_remove_elem :: "'l \<Rightarrow> addr \<Rightarrow> 'l"
  list_walk :: "'l \<Rightarrow> addr list"

definition list_laws :: "'l list_ops \<Rightarrow> bool" where
  "list_laws L \<longleftrightarrow>
     list_walk L (list_init L) = [] \<and>
     (\<forall>l a. a \<notin> set (list_walk L l) \<longrightarrow> list_walk L (list_add_back L l a) = list_walk L l @ [a]) \<and>
     (\<forall>l a. a \<in> set (list_walk L l) \<longrightarrow> list_walk L (list_remove_elem L l a) = remove1 a (list_walk L l))"

lemma list_lawsD:
  assumes "list_laws L"
  shows "list_walk L (list_init L) = []"
    and "a \<notin> set (list_walk L l) \<Longrightarrow> list_walk L (list_add_back L l a) = list_walk L l @ [a]"
    and "a \<in> set (list_walk L l) \<Longrightarrow> list_walk L (list_remove_elem L l a) = remove1 a (list_walk L l)"
  using assms by (simp_all add: list_laws_def)

text \<open>
  The end of a list whose elements own a descriptor each, as connections, interfaces and devices do: the first element is
  deleted until the list is empty. \<open>elems\<close> are the elements, \<open>own\<close> their descriptors, \<open>fds\<close> the open descriptors.
\<close>

locale descriptor_list =
  fixes ok :: "'s \<Rightarrow> bool"
    and elems :: "'s \<Rightarrow> addr list"
    and own :: "'s \<Rightarrow> addr \<Rightarrow> int"
    and fds :: "'s \<Rightarrow> int set"
    and delete :: "addr \<Rightarrow> 's \<Rightarrow> 's option"
    and drain :: "'s \<Rightarrow> 's option"
  assumes drain_empty: "elems s = [] \<Longrightarrow> drain s = Some s"
    and drain_first: "elems s = a # as \<Longrightarrow> drain s = Option.bind (delete a s) drain"
    and delete_ok: "ok s \<Longrightarrow> elems s = a # as \<Longrightarrow> \<exists>s'. delete a s = Some s' \<and> ok s' \<and> elems s' = as \<and>
      fds s' = fds s - {own s a} \<and> (\<forall>b \<in> set as. own s' b = own s b)"
begin

lemma drained:
  "ok s \<Longrightarrow> \<exists>s'. drain s = Some s' \<and> ok s' \<and> elems s' = [] \<and> fds s' = fds s - own s ` set (elems s)"
proof (induction "elems s" arbitrary: s)
  case Nil
  then show ?case by (simp add: drain_empty)
next
  case (Cons a as)
  obtain s1 where s1: "delete a s = Some s1" "ok s1" "elems s1 = as" "fds s1 = fds s - {own s a}"
      "\<forall>b \<in> set as. own s1 b = own s b"
    using delete_ok [OF Cons.prems] Cons.hyps(2) by metis
  obtain s' where s': "drain s1 = Some s'" "ok s'" "elems s' = []" "fds s' = fds s1 - own s1 ` set as"
    using Cons.hyps(1) [of s1] s1(2,3) by auto
  have "own s1 ` set as = own s ` set as" using s1(5) by auto
  then have "fds s' = fds s - own s ` set (elems s)" using s'(4) s1(4) Cons.hyps(2) [symmetric] by auto
  then show ?case using s' s1(1) drain_first [OF Cons.hyps(2) [symmetric]] by auto
qed

end

text \<open>The same with the log of the calls of \<open>close\<close> and a part of the state that deleting an element leaves alone.\<close>

locale logged_descriptor_list = descriptor_list ok elems own fds delete drain
  for ok :: "'s \<Rightarrow> bool" and elems :: "'s \<Rightarrow> addr list" and own :: "'s \<Rightarrow> addr \<Rightarrow> int" and fds :: "'s \<Rightarrow> int set"
    and delete :: "addr \<Rightarrow> 's \<Rightarrow> 's option" and drain :: "'s \<Rightarrow> 's option" +
  fixes closes :: "'s \<Rightarrow> int list"
    and kept :: "'s \<Rightarrow> 'k"
  assumes delete_closes: "ok s \<Longrightarrow> elems s = a # as \<Longrightarrow> delete a s = Some s' \<Longrightarrow>
      closes s' = closes s @ [own s a] \<and> kept s' = kept s"
begin

lemma drained_closes:
  "ok s \<Longrightarrow> drain s = Some s' \<Longrightarrow> closes s' = closes s @ map (own s) (elems s) \<and> kept s' = kept s"
proof (induction "elems s" arbitrary: s)
  case Nil
  then show ?case by (simp add: drain_empty)
next
  case (Cons a as)
  obtain s1 where s1: "delete a s = Some s1" "ok s1" "elems s1 = as" "\<forall>b \<in> set as. own s1 b = own s b"
    using delete_ok [OF Cons.prems(1)] Cons.hyps(2) by metis
  have "drain s1 = Some s'" using Cons.prems(2) drain_first [OF Cons.hyps(2) [symmetric]] s1(1) by simp
  then have r: "closes s' = closes s1 @ map (own s1) as \<and> kept s' = kept s1" using Cons.hyps(1) s1(2,3) by blast
  have "map (own s1) as = map (own s) as" using s1(4) by simp
  then show ?case
    using r delete_closes [OF Cons.prems(1) Cons.hyps(2) [symmetric] s1(1)] Cons.hyps(2) [symmetric] by simp
qed

end

subsection \<open>misc/ring_buffer\<close>

text \<open>
  The ring of free data chunks. \<open>ring_fill\<close> is \<open>ring_buffer_create(n, 0)\<close> followed by an assignment to each
  \<open>buffer[i]\<close>. \<open>ring_pop\<close> is \<open>None\<close> while \<open>ring_buffer_pop\<close> does not return. The law speaks
  of the multiset of the values in the ring only, not of their order.
\<close>

record 'r ring_ops =
  ring_fill :: "u64 list \<Rightarrow> 'r"
  ring_pop :: "'r \<Rightarrow> (u64 \<times> 'r) option"
  ring_push :: "'r \<Rightarrow> u64 \<Rightarrow> 'r"

definition ring_laws :: "'r ring_ops \<Rightarrow> ('r \<Rightarrow> u64 multiset) \<Rightarrow> bool" where
  "ring_laws R elems \<longleftrightarrow>
     (\<forall>xs. elems (ring_fill R xs) = mset xs) \<and>
     (\<forall>r x r'. ring_pop R r = Some (x, r') \<longrightarrow> elems r = add_mset x (elems r')) \<and>
     (\<forall>r. ring_pop R r = None \<longrightarrow> elems r = {#}) \<and>
     (\<forall>r x. elems (ring_push R r x) = add_mset x (elems r))"

lemma ring_lawsD:
  assumes "ring_laws R elems"
  shows "elems (ring_fill R xs) = mset xs"
    and "ring_pop R r = Some (x, r') \<Longrightarrow> elems r = add_mset x (elems r')"
    and "ring_pop R r = None \<Longrightarrow> elems r = {#}"
    and "elems (ring_push R r x) = add_mset x (elems r)"
  using assms by (simp_all add: ring_laws_def)

subsection \<open>Concrete instances\<close>

datatype json = JNum int | JText string | JArray "json option list" | JObject "(string \<times> json option) list"

fun json_lookup :: "(string \<times> json option) list \<Rightarrow> string \<Rightarrow> json option" where
  "json_lookup [] k = None"
| "json_lookup ((k', v) # kvs) k = (if k = k' then v else json_lookup kvs k)"

fun json_add_key :: "json \<Rightarrow> string \<Rightarrow> json option \<Rightarrow> json" where
  "json_add_key (JObject kvs) k v = JObject ((k, v) # filter (\<lambda>kv. fst kv \<noteq> k) kvs)"
| "json_add_key j k v = JObject ((k, v) # [])"

fun json_add_item :: "json \<Rightarrow> json \<Rightarrow> json" where
  "json_add_item (JArray xs) v = JArray (xs @ [Some v])"
| "json_add_item j v = JArray [Some v]"

fun json_elements :: "json \<Rightarrow> json option list" where
  "json_elements (JArray xs) = xs"
| "json_elements j = []"

fun json_find :: "json option \<Rightarrow> string \<Rightarrow> json option" where
  "json_find (Some (JObject kvs)) k = json_lookup kvs k"
| "json_find j k = None"

text \<open>
  \<open>json_instance files\<close>: json values over a file system. Texts of values are not modelled; the parser
  knows the one text \<open>json_to_string\<close> gives.
\<close>

definition json_instance :: "(string \<Rightarrow> json option) \<Rightarrow> json json_ops" where
  "json_instance files = \<lparr>json_get = json_find,
     json_get_int = (\<lambda>j. case j of JNum i \<Rightarrow> i | _ \<Rightarrow> 0),
     json_get_string = (\<lambda>j. case j of JText s \<Rightarrow> s | _ \<Rightarrow> []),
     json_is_array = (\<lambda>j. case j of Some (JArray _) \<Rightarrow> True | _ \<Rightarrow> False),
     json_is_object = (\<lambda>j. case j of JObject _ \<Rightarrow> True | _ \<Rightarrow> False),
     json_items = json_elements,
     json_new_object = JObject [], json_new_array = JArray [], json_new_int = JNum, json_new_string = JText,
     json_object_add = json_add_key, json_array_add = json_add_item,
     json_from_file = files, json_tokener_parse = (\<lambda>_. None), json_to_string = (\<lambda>_. [])\<rparr>"

lemma json_lookup_filter:
  "k' \<noteq> k \<Longrightarrow> json_lookup (filter (\<lambda>kv. fst kv \<noteq> k) kvs) k' = json_lookup kvs k'"
  by (induction kvs) auto

lemma json_find_add:
  "json_find (Some (json_add_key j k v)) k' = (if k' = k then v else json_find (Some j) k')"
  by (cases j) (auto simp: json_lookup_filter)

lemma json_instance_laws: "json_laws (json_instance files)"
  unfolding json_laws_def
proof (intro conjI allI impI)
  fix a v k w
  show "json_is_object (json_instance files) (json_object_add (json_instance files) a k w)"
    by (cases a) (simp_all add: json_instance_def)
  show "\<not> json_is_object (json_instance files) a \<Longrightarrow> json_get (json_instance files) (Some a) k = None"
    by (cases a) (simp_all add: json_instance_def)
  show "json_items (json_instance files) (json_array_add (json_instance files) a v) =
      json_items (json_instance files) a @ [Some v]"
    by (cases a) (simp_all add: json_instance_def)
  show "json_is_array (json_instance files) (Some (json_array_add (json_instance files) a v))"
    by (cases a) (simp_all add: json_instance_def)
qed (simp_all add: json_instance_def json_find_add)

definition list_instance :: "addr list list_ops" where
  "list_instance = \<lparr>list_init = [], list_add_back = (\<lambda>l a. l @ [a]),
     list_remove_elem = (\<lambda>l a. remove1 a l), list_walk = (\<lambda>l. l)\<rparr>"

lemma list_instance_laws: "list_laws list_instance"
  by (simp add: list_laws_def list_instance_def)

definition ring_instance :: "u64 list ring_ops" where
  "ring_instance = \<lparr>ring_fill = (\<lambda>xs. xs),
     ring_pop = (\<lambda>r. case r of [] \<Rightarrow> None | x # r' \<Rightarrow> Some (x, r')), ring_push = (\<lambda>r x. r @ [x])\<rparr>"

lemma ring_instance_laws: "ring_laws ring_instance mset"
  by (auto simp: ring_laws_def ring_instance_def split: list.splits)

end
