(* ===== verification/ModuleDescription.thy ===== *)
theory ModuleDescription imports External begin

section \<open>Module and pipeline descriptions\<close>

text \<open>
  \<^verbatim>\<open>description/src/pipeline_module_description.c\<close> and \<^verbatim>\<open>description/src/pipeline_description.c\<close>: the
  description of one module (\<open>struct pipeline_module_info\<close>) and of a pipeline, their parsing from JSON
  objects and the printing of a module. A description behind a pointer is an \<open>option\<close>; the outer
  \<open>option\<close> of a result is \<open>None\<close> where the code passes NULL to a string function.
\<close>

subsection \<open>Module description\<close>

definition MT_MODE_INTERNAL :: int where "MT_MODE_INTERNAL = 0"
definition MT_MODE_EXTERNAL :: int where "MT_MODE_EXTERNAL = 1"
definition MT_UNDEFINED :: int where "MT_UNDEFINED = -1"
definition MT_FIRST :: int where "MT_FIRST = 1"
definition MT_MIDDLE :: int where "MT_MIDDLE = 2"
definition MT_LAST :: int where "MT_LAST = 0"

lemmas mt_defs = MT_MODE_INTERNAL_def MT_MODE_EXTERNAL_def MT_UNDEFINED_def MT_FIRST_def MT_MIDDLE_def MT_LAST_def

record pipeline_module_info =
  minfo_id :: int
  minfo_type :: int
  minfo_mode :: int
  minfo_next :: int
  minfo_argv :: "string list option"

definition zero_module_info :: pipeline_module_info where
  "zero_module_info = \<lparr>minfo_id = 0, minfo_type = 0, minfo_mode = 0, minfo_next = 0, minfo_argv = None\<rparr>"

definition get_type_val :: "string \<Rightarrow> int" where
  "get_type_val type_str =
     (if type_str = ''FIRST'' then MT_FIRST
      else if type_str = ''MIDDLE'' then MT_MIDDLE
      else if type_str = ''LAST'' then MT_LAST
      else -1)"

definition get_type_str :: "int \<Rightarrow> string option" where
  "get_type_str ty =
     (if ty = MT_LAST then Some ''LAST''
      else if ty = MT_FIRST then Some ''FIRST''
      else if ty = MT_MIDDLE then Some ''MIDDLE''
      else None)"

text \<open>The copies of the parameters: \<open>strdup(json_object_get_string(param))\<close> needs every \<open>param\<close>.\<close>

fun parse_parameters :: "'j json_ops \<Rightarrow> 'j option list \<Rightarrow> string list option" where
  "parse_parameters J [] = Some []"
| "parse_parameters J (p # ps) = do {
     param \<leftarrow> p;
     rest \<leftarrow> parse_parameters J ps;
     Some (json_get_string J param # rest) }"

definition parse_module_json ::
  "'j json_ops \<Rightarrow> 'j option \<Rightarrow> pipeline_module_info option \<Rightarrow> pipeline_module_info option option" where
  "parse_module_json J module_json p_minfo =
     (if module_json = None then Some p_minfo
      else
        let minfo = zero_module_info;
          minfo = (case json_get J module_json ''id'' of
              None \<Rightarrow> minfo | Some c \<Rightarrow> minfo\<lparr>minfo_id := json_get_int J c\<rparr>);
          minfo = (case json_get J module_json ''type'' of
              None \<Rightarrow> minfo | Some c \<Rightarrow> minfo\<lparr>minfo_type := get_type_val (json_get_string J c)\<rparr>);
          minfo = (case json_get J module_json ''next'' of
              Some c \<Rightarrow> minfo\<lparr>minfo_next := json_get_int J c\<rparr> | None \<Rightarrow> minfo\<lparr>minfo_next := -1\<rparr>);
          minfo = minfo\<lparr>minfo_mode := MT_MODE_INTERNAL\<rparr>
        in
        (case json_get J module_json ''name'' of
           None \<Rightarrow> Some (Some minfo)
         | Some c \<Rightarrow>
             let name = json_get_string J c;
               minfo = minfo\<lparr>minfo_mode := MT_MODE_EXTERNAL, minfo_argv := Some [name]\<rparr>;
               current = json_get J module_json ''parameters''
             in
             (case current of
                None \<Rightarrow> Some (Some minfo)
              | Some arr \<Rightarrow>
                  if json_is_array J current then do {
                    params \<leftarrow> parse_parameters J (json_items J arr);
                    Some (Some (minfo\<lparr>minfo_argv := Some (name # params)\<rparr>)) }
                  else Some (Some minfo))))"

definition add_parameters :: "'j json_ops \<Rightarrow> string list \<Rightarrow> 'j \<Rightarrow> 'j" where
  "add_parameters J args jarr = foldl (\<lambda>a s. json_array_add J a (json_new_string J s)) jarr args"

text \<open>
  The result is \<open>*p_module_json\<close>. With \<open>argv\<close> NULL the function returns before it stores the object;
  a type without a name makes \<open>json_object_new_string(NULL)\<close>.
\<close>

definition fill_module_json ::
  "'j json_ops \<Rightarrow> 'j option \<Rightarrow> pipeline_module_info option \<Rightarrow> 'j option option" where
  "fill_module_json J module_json p_minfo =
     (case p_minfo of
        None \<Rightarrow> Some module_json
      | Some minfo \<Rightarrow> do {
          ty \<leftarrow> get_type_str (minfo_type minfo);
          let jobj = json_object_add J (json_new_object J) ''id'' (Some (json_new_int J (minfo_id minfo)));
              jobj = json_object_add J jobj ''type'' (Some (json_new_string J ty));
              jobj = json_object_add J jobj ''next'' (Some (json_new_int J (minfo_next minfo)))
          in (case minfo_argv minfo of
                None \<Rightarrow> Some module_json
              | Some [] \<Rightarrow> None
              | Some (name # args) \<Rightarrow>
                  let jobj = json_object_add J jobj ''name'' (Some (json_new_string J name));
                      jarr = add_parameters J args (json_new_array J)
                  in Some (Some (json_object_add J jobj ''parameters'' (Some jarr)))) })"

text \<open>\<open>clean_pipeline_module_info\<close> frees the strings of \<open>argv\<close>, not the array; the pointers stay.\<close>

definition clean_pipeline_module_info :: "pipeline_module_info option \<Rightarrow> string list" where
  "clean_pipeline_module_info p_minfo =
     (case p_minfo of
        None \<Rightarrow> []
      | Some minfo \<Rightarrow> (case minfo_argv minfo of None \<Rightarrow> [] | Some argv \<Rightarrow> argv))"

subsection \<open>Pipeline description\<close>

definition DESCRIPTOR_MAX_CNT :: int where "DESCRIPTOR_MAX_CNT = 4"
definition DESCRIPTOR_DATA_MAX_LEN :: int where "DESCRIPTOR_DATA_MAX_LEN = 16384"

record pipeline_description =
  pd_use_common_shmem :: int
  pd_shmpath :: "string option"
  pd_shmsize :: u64
  pd_id_string :: "string option"
  pd_modules_cnt :: int
  pd_minfos :: "pipeline_module_info option list option"
  pd_proc_cnt :: int
  pd_data_cnt :: int
  pd_data_size :: u64
  pd_wait_on_start :: int
  pd_put_to_shmem :: int
  pd_desc_zones_cnt :: int
  pd_desc_zone_size :: u64

definition pipeline_description_create :: pipeline_description where
  "pipeline_description_create = \<lparr>pd_use_common_shmem = 0, pd_shmpath = None, pd_shmsize = 0,
     pd_id_string = None, pd_modules_cnt = 0, pd_minfos = None, pd_proc_cnt = 0, pd_data_cnt = 0,
     pd_data_size = 0, pd_wait_on_start = 0, pd_put_to_shmem = 0, pd_desc_zones_cnt = 0,
     pd_desc_zone_size = 0\<rparr>"

text \<open>\<open>strdup(shmpath)\<close> needs a path; \<open>data_size\<close> is an \<open>int\<close> converted to \<open>size_t\<close>.\<close>

definition pipeline_description_init ::
  "int \<Rightarrow> string option \<Rightarrow> int \<Rightarrow> int \<Rightarrow> int \<Rightarrow> pipeline_description option" where
  "pipeline_description_init wait_on_start shmpath data_cnt data_size' modules_cnt = do {
     path \<leftarrow> shmpath;
     Some (pipeline_description_create\<lparr>pd_wait_on_start := wait_on_start, pd_shmpath := Some path,
       pd_data_cnt := data_cnt, pd_data_size := size_of_int data_size', pd_modules_cnt := modules_cnt,
       pd_proc_cnt := modules_cnt + 1, pd_minfos := Some (replicate (nat modules_cnt) None)\<rparr>) }"

fun parse_module_list ::
  "'j json_ops \<Rightarrow> 'j option list \<Rightarrow> pipeline_module_info option list option" where
  "parse_module_list J [] = Some []"
| "parse_module_list J (m # ms) = do {
     minfo \<leftarrow> parse_module_json J m None;
     rest \<leftarrow> parse_module_list J ms;
     Some (minfo # rest) }"

definition parse_modules_json ::
  "'j json_ops \<Rightarrow> 'j option \<Rightarrow> pipeline_description \<Rightarrow> (int \<times> pipeline_description) option" where
  "parse_modules_json J modules_json desc =
     (case modules_json of
        None \<Rightarrow> Some (0, desc)
      | Some arr \<Rightarrow>
          if json_is_array J modules_json then do {
            minfos \<leftarrow> parse_module_list J (json_items J arr);
            let n = int (length (json_items J arr)) in
            Some (n, desc\<lparr>pd_modules_cnt := n, pd_minfos := Some minfos\<rparr>) }
          else Some (0, desc))"

definition parse_pipeline_json ::
  "'j json_ops \<Rightarrow> 'j option \<Rightarrow> pipeline_description option \<Rightarrow> (int \<times> pipeline_description option) option" where
  "parse_pipeline_json J jobj p_desc =
     (case p_desc of
        None \<Rightarrow> Some (-1, None)
      | Some desc \<Rightarrow>
          let desc = (case json_get J jobj ''id_string'' of
                None \<Rightarrow> desc | Some c \<Rightarrow> desc\<lparr>pd_id_string := Some (json_get_string J c)\<rparr>);
              desc = (case json_get J jobj ''shmem_segment_name'' of
                None \<Rightarrow> desc | Some c \<Rightarrow> desc\<lparr>pd_shmpath := Some (json_get_string J c)\<rparr>);
              desc = (case json_get J jobj ''data_chunk_size'' of
                None \<Rightarrow> desc | Some c \<Rightarrow> desc\<lparr>pd_data_size := size_of_int (json_get_int J c)\<rparr>);
              desc = (case json_get J jobj ''data_chunk_count'' of
                None \<Rightarrow> desc | Some c \<Rightarrow> desc\<lparr>pd_data_cnt := json_get_int J c\<rparr>);
              modules_json = json_get J jobj ''modules''
          in if modules_json = None then Some (0, Some desc)
             else map_option (\<lambda>(n, desc). (0, Some desc)) (parse_modules_json J modules_json desc))"

text \<open>The three loaders; \<open>exists\<close> is \<open>is_exist\<close> of the \<open>misc\<close> library.\<close>

definition load_pipeline_configuration_from_buffer ::
  "'j json_ops \<Rightarrow> string \<Rightarrow> (u64 \<times> pipeline_description option) option" where
  "load_pipeline_configuration_from_buffer J buffer = do {
     (rc, desc) \<leftarrow> parse_pipeline_json J (json_tokener_parse J buffer) (Some pipeline_description_create);
     Some (of_nat (length buffer), desc) }"

definition load_pipeline_configuration_from_object ::
  "'j json_ops \<Rightarrow> 'j option \<Rightarrow> pipeline_description option option" where
  "load_pipeline_configuration_from_object J jobj =
     (if jobj \<noteq> None
      then map_option snd (parse_pipeline_json J jobj (Some pipeline_description_create))
      else Some None)"

definition load_pipeline_configuration_from_file ::
  "'j json_ops \<Rightarrow> (string \<Rightarrow> bool) \<Rightarrow> string \<Rightarrow> pipeline_description option option" where
  "load_pipeline_configuration_from_file J exists' fname =
     (if exists' fname
      then map_option snd (parse_pipeline_json J (json_from_file J fname) (Some pipeline_description_create))
      else Some None)"

text \<open>
  \<open>pipeline_description_destroy\<close> cleans every module it counts; without the array of modules
  (\<open>pd_minfos\<close> NULL) a positive count is a NULL access. The result are the freed strings.
\<close>

definition pipeline_description_destroy :: "pipeline_description option \<Rightarrow> string list option" where
  "pipeline_description_destroy p_desc =
     (case p_desc of
        None \<Rightarrow> Some []
      | Some desc \<Rightarrow>
          if pd_modules_cnt desc \<le> 0 then Some []
          else do {
            ms \<leftarrow> pd_minfos desc;
            if nat (pd_modules_cnt desc) \<le> length ms
            then Some (concat (map clean_pipeline_module_info (take (nat (pd_modules_cnt desc)) ms)))
            else None })"

subsection \<open>Printing and parsing a module\<close>

lemma get_type_val_str: "get_type_str ty = Some s \<Longrightarrow> get_type_val s = ty"
  by (auto simp: get_type_str_def get_type_val_def mt_defs split: if_splits)

lemma add_parameters_items:
  assumes "json_laws J"
  shows "json_is_array J (Some jarr) \<Longrightarrow> json_is_array J (Some (add_parameters J args jarr)) \<and>
    json_items J (add_parameters J args jarr) =
      json_items J jarr @ map (\<lambda>s. Some (json_new_string J s)) args"
proof (induction args arbitrary: jarr)
  case Nil
  then show ?case by (simp add: add_parameters_def)
next
  case (Cons s args)
  have step: "add_parameters J (s # args) jarr = add_parameters J args (json_array_add J jarr (json_new_string J s))"
    by (simp add: add_parameters_def)
  show ?case
    unfolding step
    using Cons.IH [OF json_lawsD(9) [OF assms Cons.prems]] json_lawsD(10) [OF assms] by simp
qed

lemma parse_parameters_strings:
  assumes "json_laws J"
  shows "parse_parameters J (map (\<lambda>s. Some (json_new_string J s)) args) = Some args"
  by (induction args) (simp_all add: json_lawsD(5) [OF assms])

lemma fill_module_json_object:
  assumes "json_laws J" "get_type_str (minfo_type minfo) = Some ty" "minfo_argv minfo = Some (name # args)"
  obtains jobj arr where "fill_module_json J j0 (Some minfo) = Some (Some jobj)"
    "json_get J (Some jobj) ''id'' = Some (json_new_int J (minfo_id minfo))"
    "json_get J (Some jobj) ''type'' = Some (json_new_string J ty)"
    "json_get J (Some jobj) ''next'' = Some (json_new_int J (minfo_next minfo))"
    "json_get J (Some jobj) ''name'' = Some (json_new_string J name)"
    "json_get J (Some jobj) ''parameters'' = Some arr" "json_is_array J (Some arr)"
    "json_items J arr = map (\<lambda>s. Some (json_new_string J s)) args"
proof -
  let ?arr = "add_parameters J args (json_new_array J)"
  have "json_is_array J (Some ?arr)" "json_items J ?arr = map (\<lambda>s. Some (json_new_string J s)) args"
    using add_parameters_items [OF assms(1) json_lawsD(7) [OF assms(1)]] json_lawsD(8) [OF assms(1)]
    by simp_all
  then show ?thesis
    using that [of _ ?arr] assms(2,3)
    by (simp add: fill_module_json_def Let_def json_lawsD(3) [OF assms(1)])
qed

text \<open>A module description that is written to JSON and parsed again comes back the same, for every
  module with a command line, one of the three types and numbers in the range of an int; the parsed mode is
  EXTERNAL, which is what a module with a command line has.\<close>

theorem module_json_roundtrip:
  assumes "json_laws J" "minfo_type minfo \<in> {MT_FIRST, MT_MIDDLE, MT_LAST}"
    and "minfo_argv minfo = Some (name # args)" "minfo_mode minfo = MT_MODE_EXTERNAL"
    and "- (2 ^ 31) \<le> minfo_id minfo" "minfo_id minfo < 2 ^ 31"
    and "- (2 ^ 31) \<le> minfo_next minfo" "minfo_next minfo < 2 ^ 31"
  shows "\<exists>jobj. fill_module_json J None (Some minfo) = Some (Some jobj) \<and>
    parse_module_json J (Some jobj) None = Some (Some minfo)"
proof -
  obtain ty where ty: "get_type_str (minfo_type minfo) = Some ty"
    using assms(2) by (auto simp: get_type_str_def mt_defs)
  obtain jobj arr where j: "fill_module_json J None (Some minfo) = Some (Some jobj)"
    "json_get J (Some jobj) ''id'' = Some (json_new_int J (minfo_id minfo))"
    "json_get J (Some jobj) ''type'' = Some (json_new_string J ty)"
    "json_get J (Some jobj) ''next'' = Some (json_new_int J (minfo_next minfo))"
    "json_get J (Some jobj) ''name'' = Some (json_new_string J name)"
    "json_get J (Some jobj) ''parameters'' = Some arr" "json_is_array J (Some arr)"
    "json_items J arr = map (\<lambda>s. Some (json_new_string J s)) args"
    using fill_module_json_object [OF assms(1) ty assms(3)] by metis
  have "parse_module_json J (Some jobj) None = Some (Some minfo)"
    using assms j get_type_val_str [OF ty]
    by (cases minfo) (simp add: parse_module_json_def Let_def zero_module_info_def json_lawsD(4,5) [OF assms(1)]
        parse_parameters_strings [OF assms(1)])
  then show ?thesis using j(1) by blast
qed

theorem module_json_roundtrip_witness:
  "\<exists>jobj. fill_module_json (json_instance Map.empty) None (Some \<lparr>minfo_id = 1, minfo_type = MT_MIDDLE,
       minfo_mode = MT_MODE_EXTERNAL, minfo_next = 2, minfo_argv = Some [''./mod'', ''-v'']\<rparr>) = Some (Some jobj) \<and>
     parse_module_json (json_instance Map.empty) (Some jobj) None = Some (Some \<lparr>minfo_id = 1, minfo_type = MT_MIDDLE,
       minfo_mode = MT_MODE_EXTERNAL, minfo_next = 2, minfo_argv = Some [''./mod'', ''-v'']\<rparr>)"
  by (rule module_json_roundtrip [OF json_instance_laws]) simp_all

text \<open>What a parsed module is: whatever the JSON object holds, a module is EXTERNAL exactly when it has a
  command line, and then the command line is not empty; without a next module the id -1 is stored; and the
  type is one of the four values of the enumeration.\<close>

theorem parse_module_json_shape:
  assumes "parse_module_json J (Some j) p = Some r"
  shows "\<exists>m. r = Some m \<and> (minfo_mode m = MT_MODE_EXTERNAL \<longleftrightarrow> minfo_argv m \<noteq> None) \<and>
    (minfo_mode m = MT_MODE_INTERNAL \<longleftrightarrow> minfo_argv m = None) \<and> minfo_argv m \<noteq> Some [] \<and>
    (json_get J (Some j) ''next'' = None \<longrightarrow> minfo_next m = -1) \<and>
    minfo_type m \<in> {MT_UNDEFINED, MT_FIRST, MT_MIDDLE, MT_LAST}"
  using assms
  by (auto simp: parse_module_json_def Let_def zero_module_info_def get_type_val_def mt_defs
      split: option.splits if_splits bind_splits)

theorem parse_module_json_shape_witness:
  "\<exists>m. parse_module_json (json_instance Map.empty) (Some (JObject [(''id'', Some (JNum 4))])) None = Some (Some m) \<and>
     minfo_next m = -1 \<and> minfo_mode m = MT_MODE_INTERNAL \<and> minfo_argv m = None"
proof -
  let ?J = "json_instance Map.empty" and ?j = "JObject [(''id'', Some (JNum 4))]"
  obtain m where m: "parse_module_json ?J (Some ?j) None = Some (Some m)" "minfo_argv m = None"
    by (simp add: parse_module_json_def json_instance_def Let_def zero_module_info_def)
  have "json_get ?J (Some ?j) ''next'' = None" by (simp add: json_instance_def)
  then show ?thesis using parse_module_json_shape [OF m(1)] m by auto
qed

end
