(* ===== verification/PipelineModule.thy ===== *)
theory PipelineModule imports ModuleDescription ProcessMngr begin

section \<open>Pipeline modules\<close>

text \<open>
  \<^verbatim>\<open>pipeline/src/pipeline_module.c\<close>: the structures of the modules, kept in a heap from addresses to
  structures, and the list of modules, an intrusive list of their addresses. Operations that would
  read a structure that is not there are \<open>None\<close>. A destroyed semaphore has value 0.
\<close>

subsection \<open>States and structure\<close>

definition MD_STATE_UNKNOWN :: int where "MD_STATE_UNKNOWN = -2"
definition MD_STATE_ERROR :: int where "MD_STATE_ERROR = -1"
definition MD_STATE_INIT :: int where "MD_STATE_INIT = 0"
definition MD_STATE_LIVE :: int where "MD_STATE_LIVE = 1"
definition MD_STATE_PAUSE :: int where "MD_STATE_PAUSE = 2"
definition MD_STATE_STOP :: int where "MD_STATE_STOP = 101"

lemmas md_state_defs = MD_STATE_UNKNOWN_def MD_STATE_ERROR_def MD_STATE_INIT_def MD_STATE_LIVE_def
  MD_STATE_PAUSE_def MD_STATE_STOP_def

definition module_state_string :: "int \<Rightarrow> string" where
  "module_state_string st =
     (if st = MD_STATE_UNKNOWN then ''MD_STATE_UNKNOWN''
      else if st = MD_STATE_ERROR then ''MD_STATE_ERROR''
      else if st = MD_STATE_INIT then ''MD_STATE_INIT''
      else if st = MD_STATE_LIVE then ''MD_STATE_LIVE''
      else if st = MD_STATE_PAUSE then ''MD_STATE_PAUSE''
      else if st = MD_STATE_STOP then ''MD_STATE_STOP''
      else ''MD_STATE_CUSTOM 50%'')"

text \<open>The four functions a module's \<open>thread_method\<close> can point to.\<close>

datatype thread_method = InitialThread | SourceThread | ProcessThread | FinalizationThread

record pipeline_module =
  md_id :: int
  md_minfo :: "pipeline_module_info option"
  md_idx :: int
  md_dataoffset :: u64
  md_method :: "thread_method option"
  md_new_cmd :: nat
  md_cmd :: int
  md_result :: nat
  md_last_cmd_result :: int
  md_next :: "addr option"
  md_state :: int

definition zero_module :: pipeline_module where
  "zero_module = \<lparr>md_id = 0, md_minfo = None, md_idx = 0, md_dataoffset = 0, md_method = None,
     md_new_cmd = 0, md_cmd = 0, md_result = 0, md_last_cmd_result = 0, md_next = None, md_state = 0\<rparr>"

record module_heap =
  mh_store :: "addr \<Rightarrow> pipeline_module option"
  mh_fresh :: addr

subsection \<open>Operations on one module\<close>

definition pipeline_module_init :: "pipeline_module \<Rightarrow> pipeline_module" where
  "pipeline_module_init m = m\<lparr>md_id := -150, md_idx := -200, md_state := MD_STATE_UNKNOWN,
     md_new_cmd := 0, md_result := 1, md_cmd := PROCESS_CMD_JOB, md_last_cmd_result := 0\<rparr>"

definition pipeline_module_destroy :: "pipeline_module \<Rightarrow> pipeline_module" where
  "pipeline_module_destroy m = m\<lparr>md_id := -150, md_idx := -250, md_state := MD_STATE_UNKNOWN,
     md_new_cmd := 0, md_result := 0\<rparr>"

text \<open>The state after the call and the value it returns; \<open>MD_STATE_ERROR\<close> is never left.\<close>

definition pipeline_module_set_state :: "int \<Rightarrow> pipeline_module \<Rightarrow> int \<times> pipeline_module" where
  "pipeline_module_set_state st m =
     (if md_state m = MD_STATE_ERROR then (MD_STATE_ERROR, m)
      else (md_state m, m\<lparr>md_state := st\<rparr>))"

definition module_method :: "pipeline_module_info \<Rightarrow> thread_method option" where
  "module_method minfo =
     (if minfo_type minfo = MT_FIRST then
        (if minfo_mode minfo = MT_MODE_EXTERNAL then Some SourceThread else Some InitialThread)
      else if minfo_type minfo = MT_LAST then Some FinalizationThread
      else if minfo_type minfo = MT_MIDDLE then Some ProcessThread
      else None)"

subsection \<open>The list of modules\<close>

text \<open>
  \<open>pipeline_module_add\<close> allocates (\<open>mem_ok\<close>: \<open>malloc\<close> succeeds), fills and appends a module. The results
  are the module's address, the list, the counter and the heap.
\<close>

definition pipeline_module_add ::
  "'l list_ops \<Rightarrow> bool \<Rightarrow> 'l option \<Rightarrow> int \<Rightarrow> pipeline_module_info option \<Rightarrow> module_heap \<Rightarrow>
     (addr option \<times> 'l option \<times> int \<times> module_heap) option" where
  "pipeline_module_add L mem_ok modules_list modules_cnt p_minfo h =
     (if \<not> mem_ok then Some (None, modules_list, modules_cnt, h)
      else do {
        minfo \<leftarrow> p_minfo;
        let a = mh_fresh h;
            m = zero_module\<lparr>md_state := MD_STATE_UNKNOWN, md_id := minfo_id minfo, md_idx := -1,
                  md_minfo := Some minfo, md_method := module_method minfo, md_next := None\<rparr>;
            h' = h\<lparr>mh_store := (mh_store h)(a \<mapsto> m), mh_fresh := Suc a\<rparr>
        in (case modules_list of
              None \<Rightarrow> Some (Some a, None, modules_cnt, h')
            | Some l \<Rightarrow> Some (Some a, Some (list_add_back L l a), modules_cnt + 1, h')) })"

text \<open>The search of \<open>pipeline_module_get\<close> along the elements; the inner result is the address or NULL.\<close>

fun find_module :: "(addr \<Rightarrow> pipeline_module option) \<Rightarrow> int \<Rightarrow> addr list \<Rightarrow> addr option option" where
  "find_module store i [] = Some None"
| "find_module store i (a # as) = do {
     m \<leftarrow> store a;
     if md_id m = i then Some (Some a) else find_module store i as }"

definition pipeline_module_get ::
  "'l list_ops \<Rightarrow> int \<Rightarrow> 'l \<Rightarrow> module_heap \<Rightarrow> addr option option" where
  "pipeline_module_get L i modules_list h = find_module (mh_store h) i (list_walk L modules_list)"

definition pipeline_module_delete ::
  "'l list_ops \<Rightarrow> 'l option \<Rightarrow> int \<Rightarrow> addr \<Rightarrow> module_heap \<Rightarrow> ('l option \<times> int \<times> module_heap) option" where
  "pipeline_module_delete L modules_list modules_cnt a h = do {
     m \<leftarrow> mh_store h a;
     let h' = h\<lparr>mh_store := (mh_store h)(a := None)\<rparr> in
     (case modules_list of
        None \<Rightarrow> Some (None, modules_cnt, h')
      | Some l \<Rightarrow> Some (Some (list_remove_elem L l a), modules_cnt - 1, h')) }"

text \<open>
  The loop of \<open>pipeline_modules_update\<close>: every module gets the pointer to the module whose id its
  description names; a second module without one ends the loop with an error.
\<close>

fun update_loop ::
  "addr list \<Rightarrow> (addr \<Rightarrow> pipeline_module option) \<Rightarrow> bool \<Rightarrow> addr list \<Rightarrow>
     (int \<times> (addr \<Rightarrow> pipeline_module option)) option" where
  "update_loop all store null_found [] = Some (0, store)"
| "update_loop all store null_found (a # as) = do {
     m \<leftarrow> store a;
     minfo \<leftarrow> md_minfo m;
     next \<leftarrow> find_module store (minfo_next minfo) all;
     let m = m\<lparr>md_next := next\<rparr> in
     (if next = None then
        if \<not> null_found then update_loop all (store(a \<mapsto> m)) True as
        else Some (-1, store(a \<mapsto> m\<lparr>md_state := MD_STATE_ERROR\<rparr>))
      else update_loop all (store(a \<mapsto> m)) null_found as) }"

definition pipeline_modules_update ::
  "'l list_ops \<Rightarrow> 'l \<Rightarrow> module_heap \<Rightarrow> (int \<times> module_heap) option" where
  "pipeline_modules_update L modules_list h = do {
     (rc, store) \<leftarrow> update_loop (list_walk L modules_list) (mh_store h) False (list_walk L modules_list);
     Some (rc, h\<lparr>mh_store := store\<rparr>) }"

fun set_states ::
  "int \<Rightarrow> (addr \<Rightarrow> pipeline_module option) \<Rightarrow> addr list \<Rightarrow> (addr \<Rightarrow> pipeline_module option) option" where
  "set_states st store [] = Some store"
| "set_states st store (a # as) = do {
     m \<leftarrow> store a;
     set_states st (store(a \<mapsto> snd (pipeline_module_set_state st m))) as }"

definition pipeline_modules_set_state ::
  "'l list_ops \<Rightarrow> int \<Rightarrow> 'l \<Rightarrow> module_heap \<Rightarrow> module_heap option" where
  "pipeline_modules_set_state L st modules_list h = do {
     store \<leftarrow> set_states st (mh_store h) (list_walk L modules_list);
     Some (h\<lparr>mh_store := store\<rparr>) }"

subsection \<open>Lists of modules that are there\<close>

definition modules_ok :: "'l list_ops \<Rightarrow> 'l \<Rightarrow> module_heap \<Rightarrow> bool" where
  "modules_ok L l h \<longleftrightarrow> distinct (list_walk L l) \<and>
     (\<forall>a \<in> set (list_walk L l). a < mh_fresh h \<and> (\<exists>m minfo. mh_store h a = Some m \<and> md_minfo m = Some minfo))"

lemma find_module_defined:
  "\<forall>a \<in> set as. store a \<noteq> None \<Longrightarrow>
     find_module store i as = Some (find (\<lambda>a. md_id (the (store a)) = i) as)"
  by (induction as) auto

lemma find_cong_ids:
  "\<forall>a \<in> set as. md_id (the (store' a)) = md_id (the (store a)) \<Longrightarrow>
     find (\<lambda>a. md_id (the (store' a)) = i) as = find (\<lambda>a. md_id (the (store a)) = i) as"
  by (induction as) auto

text \<open>The module a description points to: the first in the list that has the id.\<close>

definition next_of :: "addr list \<Rightarrow> (addr \<Rightarrow> pipeline_module option) \<Rightarrow> addr \<Rightarrow> addr option" where
  "next_of all store a =
     find (\<lambda>b. md_id (the (store b)) = minfo_next (the (md_minfo (the (store a))))) all"

definition linked :: "addr list \<Rightarrow> (addr \<Rightarrow> pipeline_module option) \<Rightarrow> addr \<Rightarrow> pipeline_module" where
  "linked all store a = (the (store a))\<lparr>md_next := next_of all store a\<rparr>"

definition infos_ok :: "addr list \<Rightarrow> (addr \<Rightarrow> pipeline_module option) \<Rightarrow> bool" where
  "infos_ok all store \<longleftrightarrow> (\<forall>a \<in> set all. \<exists>m minfo. store a = Some m \<and> md_minfo m = Some minfo)"

definition ends :: "addr list \<Rightarrow> (addr \<Rightarrow> pipeline_module option) \<Rightarrow> addr list \<Rightarrow> nat" where
  "ends all store as = length (filter (\<lambda>a. next_of all store a = None) as)"

lemma next_of_upd:
  assumes "a \<in> set all" "store a = Some m"
  shows "next_of all (store(a \<mapsto> m\<lparr>md_next := x\<rparr>)) = next_of all store"
proof
  fix b
  have ids: "\<forall>c \<in> set all. md_id (the ((store(a \<mapsto> m\<lparr>md_next := x\<rparr>)) c)) = md_id (the (store c))"
    using assms(2) by simp
  have "md_minfo (the ((store(a \<mapsto> m\<lparr>md_next := x\<rparr>)) b)) = md_minfo (the (store b))"
    using assms(2) by simp
  then show "next_of all (store(a \<mapsto> m\<lparr>md_next := x\<rparr>)) b = next_of all store b"
    unfolding next_of_def using find_cong_ids [OF ids] by simp
qed

lemma update_loop_result:
  assumes "infos_ok all store" "set as \<subseteq> set all" "distinct as"
  shows "\<exists>store'. update_loop all store nf as =
       Some (if (if nf then 1 else 0) + ends all store as \<le> 1 then 0 else -1, store') \<and>
     ((if nf then 1 else 0) + ends all store as \<le> 1 \<longrightarrow>
        store' = (\<lambda>b. if b \<in> set as then Some (linked all store b) else store b))"
  using assms
proof (induction as arbitrary: store nf)
  case Nil
  then show ?case by (simp add: ends_def)
next
  case (Cons a as)
  obtain m minfo where m: "store a = Some m" "md_minfo m = Some minfo" "a \<in> set all"
    using Cons.prems by (auto simp: infos_ok_def)
  let ?n = "next_of all store a"
  define s1 where "s1 = store(a \<mapsto> m\<lparr>md_next := ?n\<rparr>)"
  have "\<forall>b \<in> set all. store b \<noteq> None" using Cons.prems(1) by (auto simp: infos_ok_def)
  from find_module_defined [OF this]
  have find: "find_module store (minfo_next minfo) all = Some ?n"
    using m by (simp add: next_of_def)
  have ok: "infos_ok all s1" using Cons.prems(1) m by (auto simp: infos_ok_def s1_def)
  have nx: "next_of all s1 = next_of all store" using m by (simp add: next_of_upd s1_def)
  have lk: "b \<in> set as \<Longrightarrow> linked all s1 b = linked all store b" for b
    using Cons.prems(3) by (auto simp: linked_def nx) (auto simp: s1_def)
  have glue: "(\<lambda>b. if b \<in> set as then Some (linked all s1 b) else s1 b) =
      (\<lambda>b. if b \<in> set (a # as) then Some (linked all store b) else store b)"
  proof
    fix b
    have "b \<notin> set as \<Longrightarrow> s1 b = (if b = a then Some (linked all store b) else store b)"
      using m by (simp add: s1_def linked_def)
    then show "(if b \<in> set as then Some (linked all s1 b) else s1 b) =
        (if b \<in> set (a # as) then Some (linked all store b) else store b)"
      using lk by auto
  qed
  have IH: "\<exists>store'. update_loop all s1 nf' as =
       Some (if (if nf' then 1 else 0) + ends all store as \<le> 1 then 0 else -1, store') \<and>
     ((if nf' then 1 else 0) + ends all store as \<le> 1 \<longrightarrow>
        store' = (\<lambda>b. if b \<in> set (a # as) then Some (linked all store b) else store b))" for nf'
    using Cons.IH [OF ok, of nf'] Cons.prems(2,3) unfolding glue by (simp add: ends_def nx)
  have step: "update_loop all store nf (a # as) =
      (if ?n = None then
        if \<not> nf then update_loop all s1 True as
        else Some (-1, store(a \<mapsto> m\<lparr>md_next := ?n, md_state := MD_STATE_ERROR\<rparr>))
      else update_loop all s1 nf as)"
    using m find by (simp add: Let_def s1_def)
  have e: "ends all store (a # as) = (if ?n = None then 1 else 0) + ends all store as" by (simp add: ends_def)
  show ?case
  proof (cases "?n = None \<and> nf")
    case True
    then show ?thesis unfolding step e by simp
  next
    case False
    then show ?thesis unfolding step e using IH [of "?n = None \<or> nf"] by (cases ?n; cases nf) simp_all
  qed
qed

text \<open>Linking the modules succeeds exactly when at most one module has no successor in the list, and then
  every module points to the first module with the id its description names, in whatever order the modules
  were added; nothing else of any module changes.\<close>

theorem pipeline_modules_update_links:
  assumes "modules_ok L l h"
  shows "\<exists>h'. pipeline_modules_update L l h =
       Some (if ends (list_walk L l) (mh_store h) (list_walk L l) \<le> 1 then 0 else -1, h') \<and>
     (ends (list_walk L l) (mh_store h) (list_walk L l) \<le> 1 \<longrightarrow>
        mh_store h' = (\<lambda>a. if a \<in> set (list_walk L l) then Some (linked (list_walk L l) (mh_store h) a)
                          else mh_store h a))"
proof -
  have "infos_ok (list_walk L l) (mh_store h)" "distinct (list_walk L l)"
    using assms by (auto simp: modules_ok_def infos_ok_def)
  from update_loop_result [OF this(1) subset_refl this(2), of False]
  show ?thesis by (auto simp: pipeline_modules_update_def)
qed

lemma set_states_result:
  "\<forall>a \<in> set as. store a \<noteq> None \<Longrightarrow> distinct as \<Longrightarrow>
     set_states st store as = Some (\<lambda>a. if a \<in> set as
       then Some (snd (pipeline_module_set_state st (the (store a)))) else store a)"
proof (induction as arbitrary: store)
  case Nil
  then show ?case by (simp add: fun_eq_iff)
next
  case (Cons a as)
  then show ?case by (auto simp: fun_eq_iff)
qed

text \<open>Setting the state of all modules reaches every module of the list and no other: a module that is in
  the error state stays there with all its fields, every other one gets the new state and keeps its other fields.\<close>

theorem pipeline_modules_set_state_effect:
  assumes "modules_ok L l h"
  shows "\<exists>h'. pipeline_modules_set_state L st l h = Some h' \<and>
    (\<forall>a m. mh_store h a = Some m \<longrightarrow>
       mh_store h' a = Some (if a \<in> set (list_walk L l) \<and> md_state m \<noteq> MD_STATE_ERROR then m\<lparr>md_state := st\<rparr> else m))"
proof -
  have "\<forall>a \<in> set (list_walk L l). mh_store h a \<noteq> None" "distinct (list_walk L l)"
    using assms by (auto simp: modules_ok_def)
  from set_states_result [OF this] show ?thesis
    by (auto simp: pipeline_modules_set_state_def pipeline_module_set_state_def)
qed

subsection \<open>Building the list\<close>

text \<open>The loop of \<open>pipeline_init\<close> over the descriptions.\<close>

fun add_modules ::
  "'l list_ops \<Rightarrow> pipeline_module_info option list \<Rightarrow> 'l \<Rightarrow> int \<Rightarrow> module_heap \<Rightarrow> ('l \<times> int \<times> module_heap) option" where
  "add_modules L [] l cnt h = Some (l, cnt, h)"
| "add_modules L (mi # ms) l cnt h = do {
     (a, l', cnt', h') \<leftarrow> pipeline_module_add L True (Some l) cnt mi h;
     l'' \<leftarrow> l';
     add_modules L ms l'' cnt' h' }"

lemma add_modules_result:
  assumes "list_laws L"
  shows "modules_ok L l h \<Longrightarrow>
    \<exists>l' h'. add_modules L (map Some infos) l cnt h = Some (l', cnt + int (length infos), h') \<and> modules_ok L l' h' \<and>
      list_walk L l' = list_walk L l @ [mh_fresh h..<mh_fresh h + length infos] \<and>
      mh_fresh h' = mh_fresh h + length infos \<and>
      (\<forall>a < mh_fresh h. mh_store h' a = mh_store h a) \<and>
      (\<forall>i < length infos. \<exists>m. mh_store h' (mh_fresh h + i) = Some m \<and> md_id m = minfo_id (infos ! i) \<and>
         md_minfo m = Some (infos ! i) \<and> md_method m = module_method (infos ! i) \<and> md_idx m = -1)"
proof (induction infos arbitrary: l cnt h)
  case Nil
  then show ?case by simp
next
  case (Cons mi infos)
  let ?a = "mh_fresh h"
  let ?m = "zero_module\<lparr>md_state := MD_STATE_UNKNOWN, md_id := minfo_id mi, md_idx := -1,
                  md_minfo := Some mi, md_method := module_method mi, md_next := None\<rparr>"
  let ?h = "h\<lparr>mh_store := (mh_store h)(?a \<mapsto> ?m), mh_fresh := Suc ?a\<rparr>"
  have new: "?a \<notin> set (list_walk L l)" using Cons.prems by (auto simp: modules_ok_def)
  note walk = list_lawsD(2) [OF assms new]
  have ok: "modules_ok L (list_add_back L l ?a) ?h"
    using Cons.prems new by (auto simp: modules_ok_def walk)
  obtain l' h' where r: "add_modules L (map Some infos) (list_add_back L l ?a) (cnt + 1) ?h =
      Some (l', cnt + 1 + int (length infos), h')" "modules_ok L l' h'"
      "list_walk L l' = list_walk L (list_add_back L l ?a) @ [mh_fresh ?h..<mh_fresh ?h + length infos]"
      "mh_fresh h' = mh_fresh ?h + length infos" "\<forall>a < mh_fresh ?h. mh_store h' a = mh_store ?h a"
      "\<forall>i < length infos. \<exists>m. mh_store h' (mh_fresh ?h + i) = Some m \<and> md_id m = minfo_id (infos ! i) \<and>
         md_minfo m = Some (infos ! i) \<and> md_method m = module_method (infos ! i) \<and> md_idx m = -1"
    using Cons.IH [OF ok] by blast
  have run: "add_modules L (map Some (mi # infos)) l cnt h = Some (l', cnt + int (length (mi # infos)), h')"
    using r(1) by (simp add: pipeline_module_add_def Let_def)
  have "[?a..<?a + length (mi # infos)] = ?a # [Suc ?a..<Suc ?a + length infos]"
    by (simp add: upt_rec)
  then have w: "list_walk L l' = list_walk L l @ [?a..<?a + length (mi # infos)]"
    using r(3) by (simp add: walk)
  have at: "\<exists>m. mh_store h' (?a + i) = Some m \<and> md_id m = minfo_id ((mi # infos) ! i) \<and>
      md_minfo m = Some ((mi # infos) ! i) \<and> md_method m = module_method ((mi # infos) ! i) \<and> md_idx m = -1"
    if "i < length (mi # infos)" for i
    using that r(5,6) by (cases i) auto
  have keep: "\<forall>a < mh_fresh h. mh_store h' a = mh_store h a" using r(5) by simp
  show ?case using run r(2,4) w at keep by (intro exI conjI) auto
qed

definition two_modules :: "pipeline_module_info list" where
  "two_modules =
     [\<lparr>minfo_id = 5, minfo_type = MT_LAST, minfo_mode = MT_MODE_INTERNAL, minfo_next = -1, minfo_argv = None\<rparr>,
      \<lparr>minfo_id = 3, minfo_type = MT_FIRST, minfo_mode = MT_MODE_EXTERNAL, minfo_next = 5,
        minfo_argv = Some [''./source'']\<rparr>]"

definition empty_heap :: module_heap where
  "empty_heap = \<lparr>mh_store = Map.empty, mh_fresh = 0\<rparr>"

definition two_heap :: module_heap where
  "two_heap = snd (snd (the (add_modules list_instance (map Some two_modules) [] 0 empty_heap)))"

lemma two_heap_ok: "modules_ok list_instance [0, 1] two_heap"
  by (simp add: modules_ok_def two_heap_def two_modules_def empty_heap_def list_instance_def
      pipeline_module_add_def Let_def)

lemma two_heap_ends: "ends [0, 1] (mh_store two_heap) [0, 1] = 1"
  by (simp add: ends_def next_of_def two_heap_def two_modules_def empty_heap_def list_instance_def
      pipeline_module_add_def Let_def zero_module_def)

theorem pipeline_modules_update_links_witness:
  "\<exists>h'. pipeline_modules_update list_instance [0, 1] two_heap = Some (0, h') \<and>
     map_option md_next (mh_store h' 1) = Some (Some 0)"
proof -
  have w: "list_walk list_instance l = l" for l by (simp add: list_instance_def)
  have n: "next_of [0, 1] (mh_store two_heap) 1 = Some 0"
    by (simp add: next_of_def two_heap_def two_modules_def empty_heap_def list_instance_def
        pipeline_module_add_def Let_def zero_module_def)
  show ?thesis
    using pipeline_modules_update_links [OF two_heap_ok] unfolding w two_heap_ends
    using n by (auto simp: linked_def)
qed

theorem pipeline_modules_set_state_effect_witness:
  "\<exists>h'. pipeline_modules_set_state list_instance MD_STATE_LIVE [0, 1] two_heap = Some h' \<and>
     map_option md_state (mh_store h' 0) = Some MD_STATE_LIVE"
proof -
  obtain h' where "pipeline_modules_set_state list_instance MD_STATE_LIVE [0, 1] two_heap = Some h'"
    and e: "\<forall>a m. mh_store two_heap a = Some m \<longrightarrow> mh_store h' a = Some (if a \<in> set (list_walk list_instance [0, 1]) \<and>
       md_state m \<noteq> MD_STATE_ERROR then m\<lparr>md_state := MD_STATE_LIVE\<rparr> else m)"
    using pipeline_modules_set_state_effect [OF two_heap_ok] by blast
  moreover obtain m where "mh_store two_heap 0 = Some m" "md_state m = MD_STATE_UNKNOWN"
    by (simp add: two_heap_def two_modules_def empty_heap_def list_instance_def
        pipeline_module_add_def Let_def zero_module_def)
  ultimately show ?thesis by (auto simp: list_instance_def md_state_defs)
qed

end
