(* ===== verification/PipelineClient.thy ===== *)
theory PipelineClient imports SharedMemory ProcessMngr begin

section \<open>The client side of a pipeline\<close>

text \<open>
  \<^verbatim>\<open>pipeline/src/pipeline_client.c\<close>: how a module's process attaches to the pipeline's shared memory
  and how it serves one command. The loop of \<open>pipeline_process\<close> around one command, with the
  semaphores, is in the theory PipelineServer, where it runs against the server's thread.
\<close>

subsection \<open>Attaching\<close>

text \<open>
  The result is the mapping and the id from the environment; \<open>None\<close> in the sum: the process exits with
  a failure. \<open>sscanf\<close> leaves a variable it cannot convert as it was (\<open>size0\<close>, \<open>id0\<close>: what the stack held).
\<close>

datatype client_init_result = ClientExits | ClientAttached nat int

definition pipeline_process_init ::
  "shm_faults \<Rightarrow> u64 \<Rightarrow> int \<Rightarrow> shm_os \<Rightarrow> (client_init_result \<times> shm_os) option" where
  "pipeline_process_init flt size0 id0 s =
     (case (environ s SHMEM_NAME_ENV, environ s SHMEM_SIZE_ENV, environ s PROCESS_ID_ENV) of
        (Some shm_path, Some shm_size_str, Some shm_id_str) \<Rightarrow>
          let shm_size = (case scan_zd shm_size_str of None \<Rightarrow> size0 | Some v \<Rightarrow> v);
              shm_id = (case scan_d shm_id_str of None \<Rightarrow> id0 | Some v \<Rightarrow> v)
          in (case shared_memory_client_init flt (Some shm_path) shm_size s of
                None \<Rightarrow> None
              | Some (None, s') \<Rightarrow> Some (ClientExits, s')
              | Some (Some ob, s') \<Rightarrow> Some (ClientAttached ob shm_id, s'))
      | _ \<Rightarrow> Some (ClientExits, s))"

subsection \<open>One command\<close>

text \<open>
  A client's action gets the number of its earlier calls (for its internal data), the current status,
  the offset of the data and the shared memory, and returns the memory and the status it leaves;
  \<open>None\<close>: no action was given.
\<close>

type_synonym client_action = "nat \<Rightarrow> int \<Rightarrow> u64 \<Rightarrow> byte list \<Rightarrow> byte list \<times> int"

record client_state =
  cl_exit :: bool
  cl_status :: int
  cl_runs :: nat

definition client_start :: client_state where
  "client_start = \<lparr>cl_exit = False, cl_status = -1, cl_runs = 0\<rparr>"

text \<open>The body of the \<open>switch\<close> of \<open>pipeline_process\<close> between the two semaphore operations.\<close>

definition client_command ::
  "client_action option \<Rightarrow> process_info \<Rightarrow> client_state \<Rightarrow> byte list \<Rightarrow> process_info \<times> client_state \<times> byte list" where
  "client_command act info cl shm =
     (if cmd info = PROCESS_CMD_STOP then (info\<lparr>cmd_result := 0\<rparr>, cl\<lparr>cl_exit := True\<rparr>, shm)
      else (case act of
          None \<Rightarrow> (info\<lparr>cmd_result := 0\<rparr>, cl, shm)
        | Some f \<Rightarrow>
            (case f (cl_runs cl) (cl_status cl) (cmd_offs info) shm of (shm', status) \<Rightarrow>
               let cl' = cl\<lparr>cl_runs := Suc (cl_runs cl)\<rparr> in
               if status = -1
               then (info\<lparr>cmd_result := 0\<rparr>, cl'\<lparr>cl_exit := True, cl_status := 0\<rparr>, shm')
               else (info\<lparr>cmd_result := status\<rparr>, cl'\<lparr>cl_status := status\<rparr>, shm'))))"

subsection \<open>Commands that are not implemented\<close>

definition pipeline_module_attach :: int where "pipeline_module_attach = 0"
definition pipeline_module_detach :: int where "pipeline_module_detach = 0"
definition pipeline_module_kill :: int where "pipeline_module_kill = 0"
definition pipeline_module_start :: int where "pipeline_module_start = 0"
definition pipeline_module_stop :: int where "pipeline_module_stop = 0"

subsection \<open>Attaching to what the server announced\<close>

text \<open>A child process attaches to the right segment: when the server has created a segment, announced it
  in the environment and started the child with an id, the child maps the same object and reads the same id.\<close>

theorem child_attaches_to_server_segment:
  assumes "map_fits mp" "0 \<le> sint (memory_get_size mp)" "shm_names s path = None"
    and "0 \<le> id'" "id' < PROCESS_MAX_CNT + 2"
  shows "\<exists>s1 s2 env' fds'. shared_memory_server_init no_faults (Some path) (Some mp) s = Some (Some (shm_next s), s1) \<and>
     shared_memory_setenv no_faults (Some path) (shm_objects s1 (shm_next s)) s1 = Some (0, s2) \<and>
     process_start_child id' args True True (environ s2) fds = (ChildExec (hd args) args, env', fds') \<and>
     pipeline_process_init no_faults size0 id0 (s2\<lparr>environ := env'\<rparr>) =
       Some (ClientAttached (shm_next s) id', s2\<lparr>environ := env'\<rparr>)"
proof -
  obtain shm where v: "valid_shm mp shm" "memory_get_size mp \<noteq> 0"
    "shared_memory_server_init no_faults (Some path) (Some mp) s = Some (Some (shm_next s),
       s\<lparr>shm_names := (shm_names s)(path := Some (shm_next s)),
         shm_objects := (shm_objects s)(shm_next s := shm), shm_next := Suc (shm_next s)\<rparr>)"
    using server_init_fresh [OF assms(1-3)] .
  define s1 where "s1 = s\<lparr>shm_names := (shm_names s)(path := Some (shm_next s)),
         shm_objects := (shm_objects s)(shm_next s := shm), shm_next := Suc (shm_next s)\<rparr>"
  define s2 where "s2 = s1\<lparr>environ := (environ s1)(SHMEM_NAME_ENV \<mapsto> path,
      SHMEM_SIZE_ENV \<mapsto> print_zd (memory_get_size mp))\<rparr>"
  have "shared_memory_get_size shm = Some (memory_get_size mp)"
    using v(1) by (simp add: valid_shm_def shared_memory_get_size_def)
  then have e: "shared_memory_setenv no_faults (Some path) (shm_objects s1 (shm_next s)) s1 = Some (0, s2)"
    by (simp add: setenv_ok s1_def s2_def)
  have id: "snprintf_buf 10 (dec_int id') = dec_int id'" "scan_d (dec_int id') = Some id'"
    using assms(4,5) by (simp_all add: child_id_fits scan_d_dec_int PROCESS_MAX_CNT_def)
  have c: "process_start_child id' args True True (environ s2) fds = (ChildExec (hd args) args,
      (environ s2)(PROCESS_ID_ENV \<mapsto> dec_int id'), filter (\<lambda>fd. \<not> (3 \<le> fd \<and> fd < 1024)) fds)"
    by (simp add: process_start_child_def Let_def id)
  have "shm_names (s2\<lparr>environ := env\<rparr>) path = Some (shm_next s)" for env
    by (simp add: s2_def s1_def)
  then have "pipeline_process_init no_faults size0 id0
        (s2\<lparr>environ := (environ s2)(PROCESS_ID_ENV \<mapsto> dec_int id')\<rparr>) =
      Some (ClientAttached (shm_next s) id', s2\<lparr>environ := (environ s2)(PROCESS_ID_ENV \<mapsto> dec_int id')\<rparr>)"
    using client_init_ok v(2) id(2)
    by (simp add: pipeline_process_init_def SHMEM_NAME_ENV_def SHMEM_SIZE_ENV_def PROCESS_ID_ENV_def
        scan_zd_print_zd s2_def Let_def)
  then show ?thesis using v(3) e c unfolding s1_def by blast
qed

theorem child_attaches_to_server_segment_witness:
  "\<exists>s1 s2 env' fds'. shared_memory_server_init no_faults (Some ''/seg'') (Some example_map) empty_os = Some (Some 0, s1) \<and>
     shared_memory_setenv no_faults (Some ''/seg'') (shm_objects s1 0) s1 = Some (0, s2) \<and>
     process_start_child 4 [''mod''] True True (environ s2) [0, 1, 2] = (ChildExec ''mod'' [''mod''], env', fds') \<and>
     pipeline_process_init no_faults 0 0 (s2\<lparr>environ := env'\<rparr>) =
       Some (ClientAttached 0 4, s2\<lparr>environ := env'\<rparr>)"
  using child_attaches_to_server_segment [OF example_map_fits, of empty_os "''/seg''" 4 "[''mod'']" "[0, 1, 2]" 0 0]
  by (simp add: example_size empty_os_def PROCESS_MAX_CNT_def)

end
