(* ===== verification/PipelineServer.thy ===== *)
theory PipelineServer imports PipelineModule PipelineClient begin

section \<open>The threads of a running pipeline\<close>

text \<open>
  \<^verbatim>\<open>pipeline/src/pipeline_server.c\<close> with the loop of \<open>pipeline_process\<close> (\<^verbatim>\<open>pipeline/src/pipeline_client.c\<close>):
  one thread per module, one process per external module, interleaved. A step is one semaphore
  operation, one access to a mailbox (\<open>cmd\<close> and \<open>dataoffset\<close> of a module), to the shared process entry or
  to the ring of free chunks, one test of a loop, or one write to the data. The state at the start
  is the one after every module has posted \<open>start_control\<close>.

  A module is at the address of its position in the list. A step that the code would block in is
  \<open>Blocked\<close>, an access through NULL, to an uninitialised semaphore or outside the shared memory \<open>Crash\<close>.
\<close>

subsection \<open>State\<close>

text \<open>
  Where a thread is. \<open>AtTop\<close> is the head of the loop: the test of the exit flag and of the state in
  \<open>initial_thread\<close> and \<open>source_thread\<close>, \<open>sem_wait(&module->new_cmd)\<close> in the two others.
\<close>

datatype thread_pc =
    AtTop | AtRead | AtPostResult | AtDispatch | AtPop | AtFill | AtWriteProc | AtPostJob | AtWaitJob
  | AtCheckResult | AtWaitNext | AtWriteNext | AtPostNext | AtClear | AtPush
  | AtStopWaitNext | AtStopWriteNext | AtStopPostNext | AtStopWriteProc | AtStopPostJob | AtStopWaitJob
  | AtSetState | AtDone

datatype child_pc = NoChild | ChildWait | ChildRun | ChildPost | ChildExit

record running_module = pipeline_module +
  rm_pc :: thread_pc
  rm_cmd :: int
  rm_off :: u64
  rm_info :: process_info
  rm_child :: child_pc
  rm_client :: client_state

record 'r pipeline_state =
  ps_cnt :: nat
  ps_mods :: "addr \<Rightarrow> running_module"
  ps_ring :: 'r
  ps_shm :: "byte list"
  ps_exit :: int

subsection \<open>The step of a thread\<close>

definition goto :: "thread_pc \<Rightarrow> running_module \<Rightarrow> running_module" where
  "goto p m = m\<lparr>rm_pc := p\<rparr>"

text \<open>What a thread's step changes: its module, the next module, the ring and the shared memory.\<close>

type_synonym 'r local_state = "running_module \<times> running_module option \<times> 'r \<times> byte list"

definition top_step ::
  "int \<Rightarrow> running_module \<Rightarrow> running_module outcome" where
  "top_step exit_flag m =
     (case md_method m of
        None \<Rightarrow> Crash
      | Some InitialThread \<Rightarrow>
          if exit_flag \<noteq> 0 then Step (goto AtStopWaitNext m)
          else if md_state m = MD_STATE_STOP then Step (goto AtStopWaitNext m)
          else if md_state m \<noteq> MD_STATE_LIVE then Step m
          else Step (goto AtPop m)
      | Some SourceThread \<Rightarrow>
          if exit_flag \<noteq> 0 then Step (goto AtStopWaitNext m)
          else if md_state m \<noteq> MD_STATE_LIVE then Step m
          else Step (goto AtPop m)
      | Some _ \<Rightarrow> sem_take (Some (md_new_cmd m)) (\<lambda>v. Step (goto AtRead (m\<lparr>md_new_cmd := v\<rparr>))))"

definition test_text :: "byte list" where
  "test_text = map of_char ''test'' @ [0]"

definition thread_local ::
  "'r ring_ops \<Rightarrow> int \<Rightarrow> running_module \<Rightarrow> running_module option \<Rightarrow> 'r \<Rightarrow> byte list \<Rightarrow> 'r local_state outcome" where
  "thread_local R exit_flag m nx ring shm =
     (let keep = (\<lambda>m'. Step (m', nx, ring, shm));
          on_next = (\<lambda>f. case nx of None \<Rightarrow> Crash | Some r \<Rightarrow> f r);
          info = rm_info m
      in case rm_pc m of
        AtTop \<Rightarrow> (case top_step exit_flag m of Blocked \<Rightarrow> Blocked | Crash \<Rightarrow> Crash | Step m' \<Rightarrow> keep m')
      | AtRead \<Rightarrow> keep (goto AtPostResult (m\<lparr>rm_cmd := md_cmd m, rm_off := md_dataoffset m\<rparr>))
      | AtPostResult \<Rightarrow> keep (goto AtDispatch (m\<lparr>md_result := Suc (md_result m)\<rparr>))
      | AtDispatch \<Rightarrow>
          (if md_method m = Some FinalizationThread
           then keep (goto (if rm_cmd m = PROCESS_CMD_STOP then AtSetState else AtClear) m)
           else keep (goto (if rm_cmd m = PROCESS_CMD_STOP then AtStopWaitNext else AtWriteProc) m))
      | AtPop \<Rightarrow>
          (case ring_pop R ring of
             None \<Rightarrow> Blocked
           | Some (off, ring') \<Rightarrow>
               Step (goto (if md_method m = Some InitialThread then AtFill else AtWriteProc)
                 (m\<lparr>rm_cmd := md_cmd m, rm_off := off\<rparr>), nx, ring', shm))
      | AtFill \<Rightarrow>
          (case region_write shm (unat (rm_off m)) test_text of
             None \<Rightarrow> Crash | Some shm' \<Rightarrow> Step (goto AtWriteProc m, nx, ring, shm'))
      | AtWriteProc \<Rightarrow>
          keep (goto (if md_method m = Some InitialThread then AtWaitNext else AtPostJob)
            (m\<lparr>rm_info := set_cmd_offs (rm_off m) (info\<lparr>cmd := rm_cmd m\<rparr>)\<rparr>))
      | AtPostJob \<Rightarrow>
          (case sem_job info of None \<Rightarrow> Crash
           | Some v \<Rightarrow> keep (goto AtWaitJob (m\<lparr>rm_info := info\<lparr>sem_job := Some (Suc v)\<rparr>\<rparr>)))
      | AtWaitJob \<Rightarrow>
          sem_take (sem_result info) (\<lambda>v. keep (goto
            (if md_method m = Some ProcessThread then AtCheckResult else AtWaitNext)
            (m\<lparr>rm_info := info\<lparr>sem_result := Some v\<rparr>\<rparr>)))
      | AtCheckResult \<Rightarrow>
          (if cmd_result info \<noteq> 0 then Step (goto AtTop m, nx, ring_push R ring (rm_off m), shm)
           else keep (goto AtWaitNext m))
      | AtWaitNext \<Rightarrow>
          on_next (\<lambda>r. sem_take (Some (md_result r))
            (\<lambda>v. Step (goto AtWriteNext m, Some (r\<lparr>md_result := v\<rparr>), ring, shm)))
      | AtWriteNext \<Rightarrow>
          on_next (\<lambda>r. Step (goto AtPostNext m,
            Some (r\<lparr>md_cmd := PROCESS_CMD_JOB, md_dataoffset := rm_off m\<rparr>), ring, shm))
      | AtPostNext \<Rightarrow>
          on_next (\<lambda>r. Step (goto AtTop m, Some (r\<lparr>md_new_cmd := Suc (md_new_cmd r)\<rparr>), ring, shm))
      | AtClear \<Rightarrow>
          (case region_write shm (unat (rm_off m)) [0] of
             None \<Rightarrow> Crash | Some shm' \<Rightarrow> Step (goto AtPush m, nx, ring, shm'))
      | AtPush \<Rightarrow> Step (goto AtTop m, nx, ring_push R ring (rm_off m), shm)
      | AtStopWaitNext \<Rightarrow>
          on_next (\<lambda>r. sem_take (Some (md_result r))
            (\<lambda>v. Step (goto AtStopWriteNext m, Some (r\<lparr>md_result := v\<rparr>), ring, shm)))
      | AtStopWriteNext \<Rightarrow>
          on_next (\<lambda>r. Step (goto AtStopPostNext m, Some (r\<lparr>md_cmd := PROCESS_CMD_STOP\<rparr>), ring, shm))
      | AtStopPostNext \<Rightarrow>
          on_next (\<lambda>r. Step
            (goto (if md_method m = Some InitialThread \<and> \<not> md_idx r > 1 then AtSetState else AtStopWriteProc) m,
             Some (r\<lparr>md_new_cmd := Suc (md_new_cmd r)\<rparr>), ring, shm))
      | AtStopWriteProc \<Rightarrow> keep (goto AtStopPostJob (m\<lparr>rm_info := info\<lparr>cmd := PROCESS_CMD_STOP\<rparr>\<rparr>))
      | AtStopPostJob \<Rightarrow>
          (case sem_job info of None \<Rightarrow> Crash
           | Some v \<Rightarrow> keep (goto AtStopWaitJob (m\<lparr>rm_info := info\<lparr>sem_job := Some (Suc v)\<rparr>\<rparr>)))
      | AtStopWaitJob \<Rightarrow>
          sem_take (sem_result info) (\<lambda>v. keep (goto
            (if md_method m = Some ProcessThread then AtDone else AtSetState)
            (m\<lparr>rm_info := info\<lparr>sem_result := Some v\<rparr>\<rparr>)))
      | AtSetState \<Rightarrow>
          keep (goto AtDone (if md_state m = MD_STATE_ERROR then m
            else m\<lparr>md_state := (if md_method m = Some InitialThread then MD_STATE_STOP else MD_STATE_INIT)\<rparr>))
      | AtDone \<Rightarrow> Blocked)"

text \<open>A module is assumed not to be its own successor (\<open>md_next m \<noteq> Some i\<close>).\<close>

definition thread_step :: "'r ring_ops \<Rightarrow> addr \<Rightarrow> 'r pipeline_state \<Rightarrow> 'r pipeline_state outcome" where
  "thread_step R i s =
     (let m = ps_mods s i in
      case thread_local R (ps_exit s) m (map_option (ps_mods s) (md_next m)) (ps_ring s) (ps_shm s) of
        Blocked \<Rightarrow> Blocked
      | Crash \<Rightarrow> Crash
      | Step (m', nx', ring', shm') \<Rightarrow>
          Step (s\<lparr>ps_mods := (case (md_next m, nx') of
                    (Some j, Some r') \<Rightarrow> (ps_mods s)(i := m', j := r')
                  | _ \<Rightarrow> (ps_mods s)(i := m')),
                 ps_ring := ring', ps_shm := shm'\<rparr>))"

subsection \<open>The step of a client process, and of the user\<close>

definition child_local ::
  "client_action option \<Rightarrow> running_module \<Rightarrow> byte list \<Rightarrow> (running_module \<times> byte list) outcome" where
  "child_local act m shm =
     (let info = rm_info m in
      case rm_child m of
        NoChild \<Rightarrow> Blocked
      | ChildWait \<Rightarrow> sem_take (sem_job info)
          (\<lambda>v. Step (m\<lparr>rm_info := info\<lparr>sem_job := Some v\<rparr>, rm_child := ChildRun\<rparr>, shm))
      | ChildRun \<Rightarrow>
          (case client_command act info (rm_client m) shm of (info', cl', shm') \<Rightarrow>
             Step (m\<lparr>rm_info := info', rm_client := cl', rm_child := ChildPost\<rparr>, shm'))
      | ChildPost \<Rightarrow>
          (case sem_result info of None \<Rightarrow> Crash
           | Some v \<Rightarrow> Step (m\<lparr>rm_info := info\<lparr>sem_result := Some (Suc v)\<rparr>,
               rm_child := (if cl_exit (rm_client m) then ChildExit else ChildWait)\<rparr>, shm))
      | ChildExit \<Rightarrow> Blocked)"

definition child_step ::
  "(addr \<Rightarrow> client_action option) \<Rightarrow> addr \<Rightarrow> 'r pipeline_state \<Rightarrow> 'r pipeline_state outcome" where
  "child_step act i s =
     (case child_local (act i) (ps_mods s i) (ps_shm s) of
        Blocked \<Rightarrow> Blocked
      | Crash \<Rightarrow> Crash
      | Step (m', shm') \<Rightarrow> Step (s\<lparr>ps_mods := (ps_mods s)(i := m'), ps_shm := shm'\<rparr>))"

text \<open>
  The other actors: \<open>pipeline_modules_set_state\<close> reaches the modules one after the other, so a step sets
  the state of one; and the exit flag is set by a failing start.
\<close>

datatype actor = ThreadOf addr | ChildOf addr | StateOf addr int | ExitFlag

definition state_step :: "addr \<Rightarrow> int \<Rightarrow> 'r pipeline_state \<Rightarrow> 'r pipeline_state" where
  "state_step i st s = (let m = ps_mods s i in
     if md_state m = MD_STATE_ERROR then s else s\<lparr>ps_mods := (ps_mods s)(i := m\<lparr>md_state := st\<rparr>)\<rparr>)"

definition actor_step ::
  "'r ring_ops \<Rightarrow> (addr \<Rightarrow> client_action option) \<Rightarrow> actor \<Rightarrow> 'r pipeline_state \<Rightarrow> 'r pipeline_state outcome" where
  "actor_step R act a s =
     (case a of
        ThreadOf i \<Rightarrow> if i < ps_cnt s then thread_step R i s else Blocked
      | ChildOf i \<Rightarrow> if i < ps_cnt s then child_step act i s else Blocked
      | StateOf i st \<Rightarrow> if i < ps_cnt s then Step (state_step i st s) else Blocked
      | ExitFlag \<Rightarrow> Step (s\<lparr>ps_exit := 1\<rparr>))"

inductive pipeline_reach ::
  "'r ring_ops \<Rightarrow> (addr \<Rightarrow> client_action option) \<Rightarrow> 'r pipeline_state \<Rightarrow> 'r pipeline_state \<Rightarrow> bool"
  for R act s0 where
  start: "pipeline_reach R act s0 s0"
| step: "pipeline_reach R act s0 s \<Longrightarrow> actor_step R act a s = Step s' \<Longrightarrow> pipeline_reach R act s0 s'"

text \<open>Running a schedule, for examples.\<close>

fun run_schedule ::
  "'r ring_ops \<Rightarrow> (addr \<Rightarrow> client_action option) \<Rightarrow> actor list \<Rightarrow> 'r pipeline_state \<Rightarrow> 'r pipeline_state option" where
  "run_schedule R act [] s = Some s"
| "run_schedule R act (a # as) s =
     (case actor_step R act a s of Step s' \<Rightarrow> run_schedule R act as s' | _ \<Rightarrow> None)"

lemma run_schedule_reach:
  "run_schedule R act as s = Some s' \<Longrightarrow> pipeline_reach R act s0 s \<Longrightarrow> pipeline_reach R act s0 s'"
  by (induction as arbitrary: s) (auto split: outcome.splits intro: pipeline_reach.step)

subsection \<open>Pipelines at the start\<close>

definition started_module :: "addr \<Rightarrow> thread_method \<Rightarrow> addr option \<Rightarrow> running_module" where
  "started_module i meth nx = \<lparr>md_id = -150, md_minfo = None, md_idx = int i, md_dataoffset = 0,
     md_method = Some meth, md_new_cmd = 0, md_cmd = PROCESS_CMD_JOB, md_result = 1, md_last_cmd_result = 0,
     md_next = nx, md_state = MD_STATE_INIT, rm_pc = AtTop, rm_cmd = 0, rm_off = 0,
     rm_info = zero_info\<lparr>sem_job := Some 0, sem_result := Some 0, pid := -1\<rparr>,
     rm_child = (if meth = SourceThread \<or> meth = ProcessThread then ChildWait else NoChild),
     rm_client = client_start\<rparr>"

text \<open>
  The state after the start of a pipeline whose modules are listed in processing order: a first module,
  \<open>n\<close> external modules, a finalization module, all chunks free.
\<close>

definition pipeline_at_start ::
  "'r ring_ops \<Rightarrow> thread_method \<Rightarrow> nat \<Rightarrow> u64 list \<Rightarrow> byte list \<Rightarrow> 'r pipeline_state" where
  "pipeline_at_start R first n chunks shm = \<lparr>ps_cnt = n + 2,
     ps_mods = (\<lambda>i. started_module i
        (if i = 0 then first else if i < n + 1 then ProcessThread else FinalizationThread)
        (if i < n + 1 then Some (Suc i) else None)),
     ps_ring = ring_fill R chunks, ps_shm = shm, ps_exit = 0\<rparr>"

end
