(* ===== verification/PipelineProtocol.thy ===== *)
theory PipelineProtocol imports PipelineServer begin

section \<open>The protocol of the pipeline threads\<close>

text \<open>
  Invariants of \<open>pipeline_reach\<close>. They are stated locally: \<open>module_ok\<close> for a module and its client
  process, \<open>link_ok\<close> for a module and its predecessor, so that a step of one thread needs the
  module, its mailbox and the next module's mailbox only. The properties at the end speak of every
  reachable state of a pipeline started by \<open>pipeline_at_start\<close>.
\<close>

subsection \<open>Phases of a thread\<close>

fun acquired :: "thread_pc \<Rightarrow> bool" where
  "acquired AtWriteNext = True"
| "acquired AtPostNext = True"
| "acquired AtStopWriteNext = True"
| "acquired AtStopPostNext = True"
| "acquired _ = False"

fun reading :: "thread_pc \<Rightarrow> bool" where
  "reading AtRead = True"
| "reading AtPostResult = True"
| "reading _ = False"

fun waits_child :: "thread_pc \<Rightarrow> bool" where
  "waits_child AtWaitJob = True"
| "waits_child AtStopWaitJob = True"
| "waits_child _ = False"

fun posting :: "thread_pc \<Rightarrow> bool" where
  "posting AtPostNext = True"
| "posting AtStopPostNext = True"
| "posting _ = False"

fun after_stop :: "thread_pc \<Rightarrow> bool" where
  "after_stop AtStopWriteProc = True"
| "after_stop AtStopPostJob = True"
| "after_stop AtStopWaitJob = True"
| "after_stop AtSetState = True"
| "after_stop AtDone = True"
| "after_stop _ = False"

fun stop_written :: "thread_pc \<Rightarrow> bool" where
  "stop_written AtStopPostNext = True"
| "stop_written AtStopWriteProc = True"
| "stop_written AtStopPostJob = True"
| "stop_written AtStopWaitJob = True"
| "stop_written AtSetState = True"
| "stop_written AtDone = True"
| "stop_written _ = False"

fun stopping :: "thread_pc \<Rightarrow> bool" where
  "stopping AtStopWaitNext = True"
| "stopping AtStopWriteNext = True"
| "stopping AtStopPostNext = True"
| "stopping AtStopWriteProc = True"
| "stopping AtStopPostJob = True"
| "stopping AtStopWaitJob = True"
| "stopping AtSetState = True"
| "stopping AtDone = True"
| "stopping _ = False"

fun holding :: "thread_pc \<Rightarrow> bool" where
  "holding AtFill = True"
| "holding AtWriteProc = True"
| "holding AtPostJob = True"
| "holding AtWaitJob = True"
| "holding AtCheckResult = True"
| "holding AtWaitNext = True"
| "holding AtWriteNext = True"
| "holding AtClear = True"
| "holding AtPush = True"
| "holding _ = False"

lemma phase_rules:
  "posting p \<Longrightarrow> acquired p" "after_stop p \<Longrightarrow> stop_written p" "stop_written p \<Longrightarrow> stopping p"
  "after_stop p \<Longrightarrow> \<not> acquired p" "stop_written p \<Longrightarrow> posting p \<or> after_stop p"
  "stopping p \<Longrightarrow> \<not> holding p" "stopping p \<Longrightarrow> \<not> reading p"
  by (cases p; simp)+

text \<open>Where a thread has taken a command and not looked at it yet.\<close>

fun deciding :: "thread_pc \<Rightarrow> bool" where
  "deciding AtPostResult = True"
| "deciding AtDispatch = True"
| "deciding _ = False"

fun pcs_of :: "thread_method \<Rightarrow> thread_pc set" where
  "pcs_of InitialThread = {AtTop, AtPop, AtFill, AtWriteProc, AtWaitNext, AtWriteNext, AtPostNext,
     AtStopWaitNext, AtStopWriteNext, AtStopPostNext, AtSetState, AtDone}"
| "pcs_of SourceThread = {AtTop, AtPop, AtWriteProc, AtPostJob, AtWaitJob, AtWaitNext, AtWriteNext, AtPostNext,
     AtStopWaitNext, AtStopWriteNext, AtStopPostNext, AtStopWriteProc, AtStopPostJob, AtStopWaitJob, AtSetState, AtDone}"
| "pcs_of ProcessThread = {AtTop, AtRead, AtPostResult, AtDispatch, AtWriteProc, AtPostJob, AtWaitJob, AtCheckResult,
     AtWaitNext, AtWriteNext, AtPostNext, AtStopWaitNext, AtStopWriteNext, AtStopPostNext, AtStopWriteProc,
     AtStopPostJob, AtStopWaitJob, AtDone}"
| "pcs_of FinalizationThread = {AtTop, AtRead, AtPostResult, AtDispatch, AtClear, AtPush, AtSetState, AtDone}"

subsection \<open>Local invariants\<close>

definition child_busy :: "child_pc \<Rightarrow> bool" where
  "child_busy c \<longleftrightarrow> c \<in> {ChildRun, ChildPost}"

text \<open>The token of the client process: a job posted, the client's turn, or a result posted.\<close>

definition child_token :: "running_module \<Rightarrow> nat" where
  "child_token m = the (sem_job (rm_info m)) + the (sem_result (rm_info m)) + of_bool (child_busy (rm_child m))"

definition module_ok :: "running_module \<Rightarrow> bool" where
  "module_ok m \<longleftrightarrow>
     (\<exists>meth. md_method m = Some meth \<and> rm_pc m \<in> pcs_of meth) \<and>
     sem_job (rm_info m) \<noteq> None \<and> sem_result (rm_info m) \<noteq> None \<and>
     child_token m = of_bool (waits_child (rm_pc m))"

text \<open>The mailbox of \<open>r\<close> holds a command that \<open>r\<close> has not taken yet; \<open>p\<close> is the predecessor's place.\<close>

definition mail_full :: "thread_pc \<Rightarrow> running_module \<Rightarrow> bool" where
  "mail_full p r \<longleftrightarrow> md_new_cmd r > 0 \<or> posting p \<or> rm_pc r = AtRead"

definition stop_taken :: "running_module \<Rightarrow> bool" where
  "stop_taken r \<longleftrightarrow> stopping (rm_pc r) \<or> (deciding (rm_pc r) \<and> rm_cmd r = PROCESS_CMD_STOP)"

definition link_ok :: "thread_pc \<Rightarrow> running_module \<Rightarrow> bool" where
  "link_ok p r \<longleftrightarrow>
     md_new_cmd r + md_result r + of_bool (acquired p) + of_bool (reading (rm_pc r)) = (1 :: nat) \<and>
     (mail_full p r \<and> md_cmd r = PROCESS_CMD_STOP \<longrightarrow> stop_written p) \<and>
     (stop_taken r \<longrightarrow> after_stop p \<and> md_new_cmd r = 0) \<and>
     (stop_written p \<longrightarrow>
        (mail_full p r \<and> md_cmd r = PROCESS_CMD_STOP) \<or> stop_taken r)"

text \<open>What is fixed about the module at position \<open>i\<close> of \<open>n\<close>.\<close>

definition placed :: "nat \<Rightarrow> nat \<Rightarrow> running_module \<Rightarrow> bool" where
  "placed n i m \<longleftrightarrow>
     md_next m = (if Suc i < n then Some (Suc i) else None) \<and> md_idx m = int i \<and>
     (if i = 0 then md_method m \<in> {Some InitialThread, Some SourceThread}
      else md_method m = Some (if Suc i < n then ProcessThread else FinalizationThread))"

definition pred_pc :: "'r pipeline_state \<Rightarrow> nat \<Rightarrow> thread_pc" where
  "pred_pc s i = (case i of 0 \<Rightarrow> AtTop | Suc k \<Rightarrow> rm_pc (ps_mods s k))"

definition pipeline_inv :: "nat \<Rightarrow> 'r pipeline_state \<Rightarrow> bool" where
  "pipeline_inv n s \<longleftrightarrow> ps_cnt s = n \<and> 2 \<le> n \<and> md_new_cmd (ps_mods s 0) = 0 \<and>
     (\<forall>i < n. placed n i (ps_mods s i) \<and> module_ok (ps_mods s i)) \<and>
     (\<forall>i. 0 < i \<and> i < n \<longrightarrow> link_ok (pred_pc s i) (ps_mods s i))"

subsection \<open>A step of a thread, locally\<close>

lemmas step_splits = thread_method.splits option.splits outcome.splits if_splits prod.splits

definition first_method :: "running_module \<Rightarrow> bool" where
  "first_method m \<longleftrightarrow> md_method m = Some InitialThread \<or> md_method m = Some SourceThread"

text \<open>The effect of a step by the place of the thread.\<close>

lemma thread_local_result:
  assumes "thread_local R e m nx ring shm = Step (m', nx', ring', shm')"
  shows "case rm_pc m of
      AtTop \<Rightarrow> nx' = nx \<and> ring' = ring \<and>
        (if first_method m then rm_pc m' \<in> {AtTop, AtPop, AtStopWaitNext} \<and> m' = goto (rm_pc m') m
         else \<exists>v. md_new_cmd m = Suc v \<and> m' = goto AtRead (m\<lparr>md_new_cmd := v\<rparr>))
    | AtRead \<Rightarrow> nx' = nx \<and> ring' = ring \<and> m' = goto AtPostResult (m\<lparr>rm_cmd := md_cmd m, rm_off := md_dataoffset m\<rparr>)
    | AtPostResult \<Rightarrow> nx' = nx \<and> ring' = ring \<and> m' = goto AtDispatch (m\<lparr>md_result := Suc (md_result m)\<rparr>)
    | AtDispatch \<Rightarrow> nx' = nx \<and> ring' = ring \<and> m' = goto (rm_pc m') m \<and>
        (if rm_cmd m = PROCESS_CMD_STOP
         then rm_pc m' = (if md_method m = Some FinalizationThread then AtSetState else AtStopWaitNext)
         else rm_pc m' = (if md_method m = Some FinalizationThread then AtClear else AtWriteProc))
    | AtPop \<Rightarrow> nx' = nx \<and> rm_pc m' \<in> {AtFill, AtWriteProc} \<and>
        (\<exists>off. ring_pop R ring = Some (off, ring') \<and> m' = goto (rm_pc m') (m\<lparr>rm_cmd := md_cmd m, rm_off := off\<rparr>))
    | AtFill \<Rightarrow> nx' = nx \<and> ring' = ring \<and> m' = goto AtWriteProc m
    | AtWriteProc \<Rightarrow> nx' = nx \<and> ring' = ring \<and> rm_pc m' \<in> {AtWaitNext, AtPostJob} \<and>
        m' = goto (rm_pc m') (m\<lparr>rm_info := set_cmd_offs (rm_off m) ((rm_info m)\<lparr>cmd := rm_cmd m\<rparr>)\<rparr>)
    | AtPostJob \<Rightarrow> nx' = nx \<and> ring' = ring \<and> (\<exists>a. sem_job (rm_info m) = Some a \<and>
        m' = goto AtWaitJob (m\<lparr>rm_info := (rm_info m)\<lparr>sem_job := Some (Suc a)\<rparr>\<rparr>))
    | AtWaitJob \<Rightarrow> nx' = nx \<and> ring' = ring \<and> rm_pc m' \<in> {AtCheckResult, AtWaitNext} \<and>
        (\<exists>b. sem_result (rm_info m) = Some (Suc b) \<and>
          m' = goto (rm_pc m') (m\<lparr>rm_info := (rm_info m)\<lparr>sem_result := Some b\<rparr>\<rparr>))
    | AtCheckResult \<Rightarrow> nx' = nx \<and> m' = goto (rm_pc m') m \<and>
        (if cmd_result (rm_info m) \<noteq> 0 then rm_pc m' = AtTop \<and> ring' = ring_push R ring (rm_off m)
         else rm_pc m' = AtWaitNext \<and> ring' = ring)
    | AtWaitNext \<Rightarrow> ring' = ring \<and> m' = goto AtWriteNext m \<and>
        (\<exists>r v. nx = Some r \<and> md_result r = Suc v \<and> nx' = Some (r\<lparr>md_result := v\<rparr>))
    | AtWriteNext \<Rightarrow> ring' = ring \<and> m' = goto AtPostNext m \<and>
        (\<exists>r. nx = Some r \<and> nx' = Some (r\<lparr>md_cmd := PROCESS_CMD_JOB, md_dataoffset := rm_off m\<rparr>))
    | AtPostNext \<Rightarrow> ring' = ring \<and> m' = goto AtTop m \<and>
        (\<exists>r. nx = Some r \<and> nx' = Some (r\<lparr>md_new_cmd := Suc (md_new_cmd r)\<rparr>))
    | AtClear \<Rightarrow> nx' = nx \<and> ring' = ring \<and> m' = goto AtPush m
    | AtPush \<Rightarrow> nx' = nx \<and> ring' = ring_push R ring (rm_off m) \<and> m' = goto AtTop m
    | AtStopWaitNext \<Rightarrow> ring' = ring \<and> m' = goto AtStopWriteNext m \<and>
        (\<exists>r v. nx = Some r \<and> md_result r = Suc v \<and> nx' = Some (r\<lparr>md_result := v\<rparr>))
    | AtStopWriteNext \<Rightarrow> ring' = ring \<and> m' = goto AtStopPostNext m \<and>
        (\<exists>r. nx = Some r \<and> nx' = Some (r\<lparr>md_cmd := PROCESS_CMD_STOP\<rparr>))
    | AtStopPostNext \<Rightarrow> ring' = ring \<and> m' = goto (rm_pc m') m \<and>
        (\<exists>r. nx = Some r \<and> nx' = Some (r\<lparr>md_new_cmd := Suc (md_new_cmd r)\<rparr>) \<and>
           rm_pc m' = (if md_method m = Some InitialThread \<and> \<not> md_idx r > 1 then AtSetState else AtStopWriteProc))
    | AtStopWriteProc \<Rightarrow> nx' = nx \<and> ring' = ring \<and>
        m' = goto AtStopPostJob (m\<lparr>rm_info := (rm_info m)\<lparr>cmd := PROCESS_CMD_STOP\<rparr>\<rparr>)
    | AtStopPostJob \<Rightarrow> nx' = nx \<and> ring' = ring \<and> (\<exists>a. sem_job (rm_info m) = Some a \<and>
        m' = goto AtStopWaitJob (m\<lparr>rm_info := (rm_info m)\<lparr>sem_job := Some (Suc a)\<rparr>\<rparr>))
    | AtStopWaitJob \<Rightarrow> nx' = nx \<and> ring' = ring \<and>
        rm_pc m' = (if md_method m = Some ProcessThread then AtDone else AtSetState) \<and>
        (\<exists>b. sem_result (rm_info m) = Some (Suc b) \<and>
          m' = goto (rm_pc m') (m\<lparr>rm_info := (rm_info m)\<lparr>sem_result := Some b\<rparr>\<rparr>))
    | AtSetState \<Rightarrow> nx' = nx \<and> ring' = ring \<and> (\<exists>st. m' = goto AtDone (m\<lparr>md_state := st\<rparr>))
    | AtDone \<Rightarrow> False"
proof (cases "rm_pc m")
  case AtTop
  then show ?thesis using assms
    by (auto simp: thread_local_def top_step_def Let_def goto_def sem_take_Step first_method_def split: step_splits)
next
  case AtSetState
  then show ?thesis using assms
    by (cases m) (auto simp: thread_local_def Let_def goto_def split: if_splits)
qed (use assms in \<open>auto simp: thread_local_def Let_def goto_def sem_take_Step split: option.splits if_splits prod.splits\<close>)


definition same_frame :: "running_module \<Rightarrow> running_module \<Rightarrow> bool" where
  "same_frame m m' \<longleftrightarrow> md_method m' = md_method m \<and> md_next m' = md_next m \<and> md_idx m' = md_idx m \<and>
     rm_child m' = rm_child m \<and> rm_client m' = rm_client m"

text \<open>The next module keeps everything but its mailbox.\<close>

definition mailbox_only :: "running_module \<Rightarrow> running_module \<Rightarrow> bool" where
  "mailbox_only r r' \<longleftrightarrow> same_frame r r' \<and> rm_pc r' = rm_pc r \<and> rm_cmd r' = rm_cmd r \<and> rm_off r' = rm_off r \<and>
     rm_info r' = rm_info r"

lemma thread_local_frame:
  assumes "thread_local R e m nx ring shm = Step (m', nx', ring', shm')"
  shows "same_frame m m' \<and> md_dataoffset m' = md_dataoffset m \<and> md_cmd m' = md_cmd m"
  using thread_local_result [OF assms]
  by (cases "rm_pc m") (auto simp: same_frame_def goto_def split: if_splits)

lemma thread_local_next:
  assumes "thread_local R e m nx ring shm = Step (m', nx', ring', shm')"
  shows "case nx of None \<Rightarrow> nx' = None | Some r \<Rightarrow> \<exists>r'. nx' = Some r' \<and> mailbox_only r r'"
  using thread_local_result [OF assms]
  by (cases "rm_pc m") (auto simp: mailbox_only_def same_frame_def split: option.splits)

lemma thread_local_pcs:
  assumes "thread_local R e m nx ring shm = Step (m', nx', ring', shm')"
    and "md_method m = Some meth" "rm_pc m \<in> pcs_of meth"
    and "\<And>r. nx = Some r \<Longrightarrow> meth = InitialThread \<Longrightarrow> md_idx r \<le> 1"
  shows "rm_pc m' \<in> pcs_of meth"
  using assms
  by (cases meth; cases "rm_pc m"; cases nx)
    (auto simp: thread_local_def top_step_def Let_def goto_def sem_take_Step
      split: option.splits if_splits prod.splits outcome.splits)

lemma thread_local_sems:
  assumes "thread_local R e m nx ring shm = Step (m', nx', ring', shm')"
    and "sem_job (rm_info m) \<noteq> None" "sem_result (rm_info m) \<noteq> None"
    and "child_token m = of_bool (waits_child (rm_pc m))"
  shows "sem_job (rm_info m') \<noteq> None \<and> sem_result (rm_info m') \<noteq> None \<and>
    child_token m' = of_bool (waits_child (rm_pc m'))"
  using thread_local_result [OF assms(1)] assms(2-4)
  by (cases "rm_pc m") (auto simp: goto_def child_token_def set_cmd_offs_def split: if_splits)

subsection \<open>A step keeps the links\<close>

lemma link_ok_cong:
  assumes "md_new_cmd r' = md_new_cmd r" "md_result r' = md_result r" "md_cmd r' = md_cmd r"
    "reading (rm_pc r') = reading (rm_pc r)" "(rm_pc r' = AtRead) = (rm_pc r = AtRead)" "stop_taken r' = stop_taken r"
  shows "link_ok p r' = link_ok p r"
  using assms by (simp add: link_ok_def mail_full_def)

lemma link_take:
  assumes "link_ok p m" "rm_pc m = AtTop" "md_new_cmd m = Suc v"
  shows "link_ok p (goto AtRead (m\<lparr>md_new_cmd := v\<rparr>))"
  using assms by (auto simp: link_ok_def mail_full_def stop_taken_def goto_def)

lemma link_read:
  assumes "link_ok p m" "rm_pc m = AtRead"
  shows "link_ok p (goto AtPostResult (m\<lparr>rm_cmd := md_cmd m, rm_off := x\<rparr>))"
  using assms phase_rules(1,4,5) [of p]
  by (auto simp: link_ok_def mail_full_def stop_taken_def goto_def)

lemma link_post_result:
  assumes "link_ok p m" "rm_pc m = AtPostResult"
  shows "link_ok p (goto AtDispatch (m\<lparr>md_result := Suc (md_result m)\<rparr>))"
  using assms
  by (auto simp: link_ok_def mail_full_def stop_taken_def goto_def)

lemma link_acquire:
  assumes "link_ok p r" "\<not> acquired p" "\<not> stop_written p" "\<not> posting p" "md_result r = Suc v" 
    "acquired p'" "\<not> posting p'" "\<not> stop_written p'"
  shows "link_ok p' (r\<lparr>md_result := v\<rparr>)"
  using assms phase_rules(2) [of p] 
  by (auto simp: link_ok_def mail_full_def stop_taken_def)
lemma link_write:
  assumes "link_ok AtWriteNext r"
  shows "link_ok AtPostNext (r\<lparr>md_cmd := PROCESS_CMD_JOB, md_dataoffset := x\<rparr>)"
  using assms 
  by (auto simp: link_ok_def mail_full_def stop_taken_def PROCESS_CMD_JOB_def PROCESS_CMD_STOP_def)
lemma link_write_stop:
  assumes "link_ok AtStopWriteNext r"
  shows "link_ok AtStopPostNext (r\<lparr>md_cmd := PROCESS_CMD_STOP\<rparr>)"
  using assms 
  by (auto simp: link_ok_def mail_full_def stop_taken_def)
lemma link_post:
  assumes "link_ok p r" "posting p" "stop_written p' = stop_written p" "\<not> acquired p'" "\<not> posting p'"
     "after_stop p' = stop_written p'"
  shows "link_ok p' (r\<lparr>md_new_cmd := Suc (md_new_cmd r)\<rparr>)"
  using assms phase_rules(1,2,4,5) [of p] 
  by (auto simp: link_ok_def mail_full_def stop_taken_def)

lemma link_ok_pred_cong:
  assumes "acquired p' = acquired p" "posting p' = posting p" "stop_written p' = stop_written p"
    "after_stop p' = after_stop p"
  shows "link_ok p' r = link_ok p r"
  using assms by (simp add: link_ok_def mail_full_def)

lemma link_reader:
  assumes "thread_local R e m nx ring shm = Step (m', nx', ring', shm')" "\<not> first_method m" "link_ok p m"
  shows "link_ok p m'"
proof -
  note res = thread_local_result [OF assms(1)]
  show ?thesis
  proof (cases "rm_pc m \<in> {AtTop, AtRead, AtPostResult}")
    case True
    then show ?thesis using res assms(2) link_take [OF assms(3)] link_read [OF assms(3)] link_post_result [OF assms(3)]
      by auto
  next
    case False
    have "link_ok p m' = link_ok p m"
      using res False by (intro link_ok_cong; cases "rm_pc m") (auto simp: goto_def stop_taken_def split: if_splits)
    then show ?thesis using assms(3) by simp
  qed
qed

lemma link_writer:
  assumes "thread_local R e m (Some r) ring shm = Step (m', Some r', ring', shm')" "link_ok (rm_pc m) r"
    and "md_method m \<noteq> Some FinalizationThread"
  shows "link_ok (rm_pc m') r'"
proof -
  note res = thread_local_result [OF assms(1)]
  consider "rm_pc m \<in> {AtWaitNext, AtStopWaitNext}" | "rm_pc m = AtWriteNext" | "rm_pc m = AtStopWriteNext"
    | "rm_pc m \<in> {AtPostNext, AtStopPostNext}" | "rm_pc m \<notin> {AtWaitNext, AtStopWaitNext, AtWriteNext, AtStopWriteNext, AtPostNext, AtStopPostNext}"
    by blast
  then show ?thesis
  proof cases
    case 1
    then show ?thesis using res assms(2) by (auto simp: goto_def intro!: link_acquire)
  next
    case 2
    then show ?thesis using res assms(2) by (auto simp: goto_def intro!: link_write)
  next
    case 3
    then show ?thesis using res assms(2) by (auto simp: goto_def intro!: link_write_stop)
  next
    case 4
    then show ?thesis using res assms(2) by (auto simp: goto_def intro!: link_post split: if_splits)
  next
    case 5
    have "r' = r" using res 5 by (cases "rm_pc m") auto
    moreover have "link_ok (rm_pc m') r = link_ok (rm_pc m) r"
      using res 5 assms(3) by (intro link_ok_pred_cong; cases "rm_pc m") (auto simp: goto_def split: if_splits)
    ultimately show ?thesis using assms(2) by simp
  qed
qed

subsection \<open>Chunks in flight\<close>

definition carried :: "running_module \<Rightarrow> u64 multiset" where
  "carried m = (if holding (rm_pc m) \<or> (deciding (rm_pc m) \<and> rm_cmd m \<noteq> PROCESS_CMD_STOP) then {#rm_off m#} else {#})"

definition mail :: "thread_pc \<Rightarrow> running_module \<Rightarrow> u64 multiset" where
  "mail p r = (if mail_full p r \<and> md_cmd r \<noteq> PROCESS_CMD_STOP then {#md_dataoffset r#} else {#})"

definition next_mail :: "thread_pc \<Rightarrow> running_module option \<Rightarrow> u64 multiset" where
  "next_mail p nx = (case nx of None \<Rightarrow> {#} | Some r \<Rightarrow> mail p r)"

lemma next_mail_simps [simp]: "next_mail p None = {#}" "next_mail p (Some r) = mail p r"
  by (simp_all add: next_mail_def)

lemma mail_pred_cong: "posting p' = posting p \<Longrightarrow> mail p' r = mail p r"
  by (simp add: mail_def mail_full_def)

lemma next_mail_pred_cong: "posting p' = posting p \<Longrightarrow> next_mail p' nx = next_mail p nx"
  by (simp add: next_mail_def mail_def mail_full_def split: option.split)

lemma mail_goto: "rm_pc m \<noteq> AtRead \<Longrightarrow> q \<noteq> AtRead \<Longrightarrow> mail p (goto q m) = mail p m"
  by (simp add: mail_def mail_full_def goto_def)

lemma own_mail:
  assumes "thread_local R e m nx ring shm = Step (m', nx', ring', shm')" "rm_pc m \<noteq> AtRead"
  shows "mail p m' = mail p m"
  using thread_local_result [OF assms(1)] assms(2)
  by (cases "rm_pc m") (auto simp: goto_def mail_def mail_full_def split: if_splits)

lemma own_ring:
  assumes "thread_local R e m nx ring shm = Step (m', nx', ring', shm')" "ring_laws R elems"
    and "rm_pc m \<noteq> AtRead" "rm_pc m \<noteq> AtWriteNext"
  shows "elems ring' + carried m' = elems ring + carried m"
  using thread_local_result [OF assms(1)] assms(3,4) ring_lawsD(4) [OF assms(2), of ring] ring_lawsD(2) [OF assms(2), of ring]
  by (cases "rm_pc m") (auto simp: goto_def carried_def split: if_splits)

lemma next_mail_step:
  assumes "thread_local R e m nx ring shm = Step (m', nx', ring', shm')"
    and "\<And>r. nx = Some r \<Longrightarrow> link_ok (rm_pc m) r" "rm_pc m \<noteq> AtWriteNext"
  shows "next_mail (rm_pc m') nx' = next_mail (rm_pc m) nx"
proof -
  note res = thread_local_result [OF assms(1)]
  consider "rm_pc m \<in> {AtWaitNext, AtStopWaitNext, AtPostNext}" | "rm_pc m = AtStopWriteNext" | "rm_pc m = AtStopPostNext"
    | "rm_pc m \<notin> {AtWaitNext, AtStopWaitNext, AtStopWriteNext, AtPostNext, AtStopPostNext}"
    by blast
  then show ?thesis
  proof cases
    case 1
    then show ?thesis using res by (auto simp: goto_def mail_def mail_full_def)
  next
    case 2
    then obtain r where r: "nx = Some r" "nx' = Some (r\<lparr>md_cmd := PROCESS_CMD_STOP\<rparr>)" using res by auto
    then have "md_new_cmd r = 0" "rm_pc r \<noteq> AtRead" using assms(2) [of r] 2 by (auto simp: link_ok_def)
    then have "mail AtStopWriteNext r = {#}" by (simp add: mail_def mail_full_def)
    then show ?thesis using r 2 by (simp add: mail_def)
  next
    case 3
    then obtain r where r: "nx = Some r" "nx' = Some (r\<lparr>md_new_cmd := Suc (md_new_cmd r)\<rparr>)" using res by auto
    then have "md_cmd r = PROCESS_CMD_STOP" using assms(2) [of r] 3 by (auto simp: link_ok_def)
    then show ?thesis using r 3 by (simp add: mail_def)
  next
    case 4
    then have "nx' = nx" "posting (rm_pc m') = posting (rm_pc m)"
      using res assms(3) by (cases "rm_pc m"; auto simp: goto_def split: if_splits)+
    then show ?thesis by (metis next_mail_pred_cong)
  qed
qed

lemma thread_local_flight:
  assumes st: "thread_local R e m nx ring shm = Step (m', nx', ring', shm')" and R: "ring_laws R elems"
    and me: "link_ok p m \<or> rm_pc m \<noteq> AtRead" and nx: "\<And>r. nx = Some r \<Longrightarrow> link_ok (rm_pc m) r"
  shows "elems ring' + carried m' + mail p m' + next_mail (rm_pc m') nx' =
         elems ring + carried m + mail p m + next_mail (rm_pc m) nx"
proof -
  note res = thread_local_result [OF st]
  consider "rm_pc m = AtRead" | "rm_pc m = AtWriteNext" | "rm_pc m \<noteq> AtRead" "rm_pc m \<noteq> AtWriteNext" by blast
  then show ?thesis
  proof cases
    case 1
    then have "\<not> posting p" "md_new_cmd m = 0" "nx' = nx" "ring' = ring"
      "m' = goto AtPostResult (m\<lparr>rm_cmd := md_cmd m, rm_off := md_dataoffset m\<rparr>)"
      using me res phase_rules(1) [of p] by (auto simp: link_ok_def)
    then have "mail p m' + carried m' = mail p m + carried m" "next_mail (rm_pc m') nx' = next_mail (rm_pc m) nx"
      using 1 next_mail_pred_cong [of AtPostResult AtRead] by (simp_all add: carried_def mail_def mail_full_def goto_def)
    then show ?thesis using \<open>ring' = ring\<close> by (simp add: add_ac)
  next
    case 2
    then obtain r where r: "nx = Some r" "nx' = Some (r\<lparr>md_cmd := PROCESS_CMD_JOB, md_dataoffset := rm_off m\<rparr>)"
      "m' = goto AtPostNext m" "ring' = ring"
      using res by auto
    then have "md_new_cmd r = 0" "rm_pc r \<noteq> AtRead" using nx [of r] 2 by (auto simp: link_ok_def)
    then have "mail AtWriteNext r = {#}" by (simp add: mail_def mail_full_def)
    moreover have "next_mail (rm_pc m') nx' = {#rm_off m#}"
      using r by (simp add: mail_def mail_full_def goto_def PROCESS_CMD_JOB_def PROCESS_CMD_STOP_def)
    moreover have "carried m = {#rm_off m#}" "carried m' = {#}" using 2 r by (simp_all add: carried_def goto_def)
    ultimately show ?thesis using own_mail [OF st] r 2 by simp
  next
    case 3
    then show ?thesis using own_ring [OF st R] own_mail [OF st, of p] next_mail_step [OF st nx] by simp
  qed
qed

subsection \<open>The invariant of a running pipeline\<close>

lemma pred_pc_simps [simp]: "pred_pc s 0 = AtTop" "pred_pc s (Suc k) = rm_pc (ps_mods s k)"
  by (simp_all add: pred_pc_def)

lemma thread_local_ok:
  assumes st: "thread_local R e m nx ring shm = Step (m', nx', ring', shm')" and ok: "module_ok m"
    and nx: "\<And>r. nx = Some r \<Longrightarrow> md_method m = Some InitialThread \<Longrightarrow> md_idx r \<le> 1"
  shows "module_ok m'"
proof -
  obtain meth where m: "md_method m = Some meth" "rm_pc m \<in> pcs_of meth" using ok by (auto simp: module_ok_def)
  have "rm_pc m' \<in> pcs_of meth" by (rule thread_local_pcs [OF st m]) (use m nx in auto)
  moreover have "md_method m' = Some meth" using thread_local_frame [OF st] m by (simp add: same_frame_def)
  ultimately show ?thesis using thread_local_sems [OF st] ok by (auto simp: module_ok_def)
qed

lemma mailbox_only_ok: "mailbox_only r r' \<Longrightarrow> module_ok r' = module_ok r \<and> placed n i r' = placed n i r"
  by (simp add: mailbox_only_def same_frame_def module_ok_def placed_def child_token_def)

lemma first_keeps_new_cmd:
  assumes "thread_local R e m nx ring shm = Step (m', nx', ring', shm')" "first_method m" "module_ok m"
  shows "md_new_cmd m' = md_new_cmd m"
  using thread_local_result [OF assms(1)] assms(2,3)
  by (cases "rm_pc m") (auto simp: goto_def first_method_def module_ok_def split: if_splits)

text \<open>What a thread's step does to the state, by whether its module is the last.\<close>

lemma thread_step_cases:
  assumes st: "thread_step R i s = Step s'" and pl: "placed n i (ps_mods s i)"
  obtains m' ring' shm' where "\<not> Suc i < n"
      "thread_local R (ps_exit s) (ps_mods s i) None (ps_ring s) (ps_shm s) = Step (m', None, ring', shm')"
      "s' = s\<lparr>ps_mods := (ps_mods s)(i := m'), ps_ring := ring', ps_shm := shm'\<rparr>"
  | m' r' ring' shm' where "Suc i < n"
      "thread_local R (ps_exit s) (ps_mods s i) (Some (ps_mods s (Suc i))) (ps_ring s) (ps_shm s) =
         Step (m', Some r', ring', shm')" "mailbox_only (ps_mods s (Suc i)) r'"
      "s' = s\<lparr>ps_mods := (ps_mods s)(i := m', Suc i := r'), ps_ring := ring', ps_shm := shm'\<rparr>"
proof (cases "Suc i < n")
  case True
  then have nx: "md_next (ps_mods s i) = Some (Suc i)" using pl by (simp add: placed_def)
  then obtain m' nx' ring' shm' where l: "thread_local R (ps_exit s) (ps_mods s i) (Some (ps_mods s (Suc i)))
      (ps_ring s) (ps_shm s) = Step (m', nx', ring', shm')"
    using st by (auto simp: thread_step_def Let_def split: outcome.splits)
  then obtain r' where "nx' = Some r'" "mailbox_only (ps_mods s (Suc i)) r'"
    using thread_local_next [OF l] by auto
  then show ?thesis using that(2) [OF True] l st nx by (simp add: thread_step_def)
next
  case False
  then have nx: "md_next (ps_mods s i) = None" using pl by (simp add: placed_def)
  then obtain m' nx' ring' shm' where l: "thread_local R (ps_exit s) (ps_mods s i) None
      (ps_ring s) (ps_shm s) = Step (m', nx', ring', shm')"
    using st by (auto simp: thread_step_def Let_def split: outcome.splits)
  then have "nx' = None" using thread_local_next [OF l] by auto
  then show ?thesis using that(1) [OF False] l st nx by (simp add: thread_step_def)
qed

lemma placed_first: "placed n i m \<Longrightarrow> first_method m \<longleftrightarrow> i = 0"
  by (auto simp: placed_def first_method_def split: if_splits)

lemma thread_step_inv:
  assumes st: "thread_step R i s = Step s'" and inv: "pipeline_inv n s" and i: "i < n"
  shows "pipeline_inv n s'"
proof -
  let ?m = "ps_mods s i"
  have pl: "placed n i ?m" and ok: "module_ok ?m" using inv i by (auto simp: pipeline_inv_def)
  have lk: "\<And>k. 0 < k \<Longrightarrow> k < n \<Longrightarrow> link_ok (pred_pc s k) (ps_mods s k)" using inv by (auto simp: pipeline_inv_def)
  have base: "ps_cnt s = n" "2 \<le> n" "md_new_cmd (ps_mods s 0) = 0"
    "\<And>k. k < n \<Longrightarrow> placed n k (ps_mods s k)" "\<And>k. k < n \<Longrightarrow> module_ok (ps_mods s k)"
    using inv by (auto simp: pipeline_inv_def)
  from st pl show ?thesis
  proof (cases rule: thread_step_cases)
    case (1 m' ring' shm')
    note fr = thread_local_frame [OF 1(2)]
    have ok': "module_ok m'" using thread_local_ok [OF 1(2) ok] by simp
    have pl': "placed n i m'" using pl fr by (auto simp: placed_def same_frame_def)
    have nz: "0 < i" using base(2) 1(1) by auto
    then have "\<not> first_method ?m" using placed_first [OF pl] by simp
    then have me: "link_ok (pred_pc s i) m'" using link_reader [OF 1(2)] lk [OF nz i] by simp
    have links: "link_ok (pred_pc s' k) (ps_mods s' k)" if "0 < k" "k < n" for k
    proof -
      obtain k' where k: "k = Suc k'" using \<open>0 < k\<close> by (cases k) auto
      then show ?thesis using lk [OF that] me 1 that by (cases "k = i"; cases "k' = i") auto
    qed
    show ?thesis
      using base ok' pl' nz links 1 unfolding pipeline_inv_def by auto
  next
    case (2 m' r' ring' shm')
    note fr = thread_local_frame [OF 2(2)]
    have idx: "md_method ?m = Some InitialThread \<Longrightarrow> md_idx (ps_mods s (Suc i)) \<le> 1"
      using pl base(4) [OF 2(1)] by (auto simp: placed_def split: if_splits)
    have ok': "module_ok m'" using thread_local_ok [OF 2(2) ok] idx by simp
    have pl': "placed n i m'" using pl fr by (auto simp: placed_def same_frame_def)
    have r: "module_ok r'" "placed n (Suc i) r'" "rm_pc r' = rm_pc (ps_mods s (Suc i))"
      using mailbox_only_ok [OF 2(3)] base(4,5) [OF 2(1)] 2(3) by (simp_all add: mailbox_only_def)
    have me: "0 < i \<Longrightarrow> link_ok (pred_pc s i) m'"
      using link_reader [OF 2(2)] lk [of i] i placed_first [OF pl] by simp
    have nxt: "link_ok (rm_pc m') r'"
      using link_writer [OF 2(2)] lk [of "Suc i"] 2(1) pl by (auto simp: placed_def split: if_splits)
    have zero: "i = 0 \<Longrightarrow> md_new_cmd m' = 0"
      using first_keeps_new_cmd [OF 2(2)] placed_first [OF pl] ok base(3) by simp
    have links: "link_ok (pred_pc s' k) (ps_mods s' k)" if "0 < k" "k < n" for k
    proof -
      obtain k' where k: "k = Suc k'" using \<open>0 < k\<close> by (cases k) auto
      show ?thesis using lk [OF that] me nxt r(3) 2 k
        by (cases "k = i"; cases "k = Suc i"; cases "k' = i"; cases "k' = Suc i") (auto simp: pred_pc_def split: nat.splits)
    qed
    show ?thesis
      using base ok' pl' r zero links 2 unfolding pipeline_inv_def by auto
  qed
qed

lemma link_ok_same:
  assumes "md_new_cmd r' = md_new_cmd r" "md_result r' = md_result r" "md_cmd r' = md_cmd r"
    "rm_pc r' = rm_pc r" "rm_cmd r' = rm_cmd r"
  shows "link_ok p r' = link_ok p r"
  using assms by (simp add: link_ok_def mail_full_def stop_taken_def)

text \<open>What the steps of the other actors leave of a module.\<close>

definition thread_same :: "running_module \<Rightarrow> running_module \<Rightarrow> bool" where
  "thread_same m m' \<longleftrightarrow> md_method m' = md_method m \<and> md_next m' = md_next m \<and> md_idx m' = md_idx m \<and>
     md_new_cmd m' = md_new_cmd m \<and> md_result m' = md_result m \<and> md_cmd m' = md_cmd m \<and>
     md_dataoffset m' = md_dataoffset m \<and> rm_pc m' = rm_pc m \<and> rm_cmd m' = rm_cmd m \<and> rm_off m' = rm_off m"

lemma thread_same_inv:
  assumes inv: "pipeline_inv n s" and i: "i < n" and same: "thread_same (ps_mods s i) m'" and ok: "module_ok m'"
    and s': "ps_cnt s' = ps_cnt s" "ps_mods s' = (ps_mods s)(i := m')"
  shows "pipeline_inv n s'"
proof -
  have pc: "rm_pc (ps_mods s' k) = rm_pc (ps_mods s k)" for k using same s' by (simp add: thread_same_def)
  then have pp: "pred_pc s' k = pred_pc s k" for k by (cases k) simp_all
  have "link_ok (pred_pc s' k) (ps_mods s' k) = link_ok (pred_pc s k) (ps_mods s k)" for k
    unfolding pp by (rule link_ok_same) (use same s' in \<open>auto simp: thread_same_def\<close>)
  moreover have "placed n k (ps_mods s' k) = placed n k (ps_mods s k)" for k
    using same s' by (simp add: placed_def thread_same_def)
  moreover have "md_new_cmd (ps_mods s' 0) = md_new_cmd (ps_mods s 0)"
    using same s' by (simp add: thread_same_def)
  ultimately show ?thesis using inv ok s' by (auto simp: pipeline_inv_def)
qed

lemma client_command_frame:
  "client_command act info cl shm = (info', cl', shm') \<Longrightarrow>
     sem_job info' = sem_job info \<and> sem_result info' = sem_result info"
  by (auto simp: client_command_def Let_def split: if_splits option.splits prod.splits)

lemma child_local_result:
  assumes "child_local act m shm = Step (m', shm')" "module_ok m"
  shows "thread_same m m' \<and> module_ok m'"
proof -
  obtain a b where ab: "sem_job (rm_info m) = Some a" "sem_result (rm_info m) = Some b"
    using assms(2) by (auto simp: module_ok_def)
  show ?thesis
  proof (cases "rm_child m")
    case ChildWait
    then show ?thesis using assms ab
      by (auto simp: child_local_def Let_def sem_take_Step thread_same_def module_ok_def child_token_def child_busy_def
          split: split_of_bool_asm)
  next
    case ChildRun
    obtain info' cl' shm'' where c: "client_command act (rm_info m) (rm_client m) shm = (info', cl', shm'')"
      by (cases "client_command act (rm_info m) (rm_client m) shm") auto
    have "m' = m\<lparr>rm_info := info', rm_client := cl', rm_child := ChildPost\<rparr>"
      using assms(1) ChildRun c by (simp add: child_local_def Let_def)
    then show ?thesis using client_command_frame [OF c] ChildRun assms(2)
      by (simp add: thread_same_def module_ok_def child_token_def child_busy_def)
  next
    case ChildPost
    have "m' = m\<lparr>rm_info := (rm_info m)\<lparr>sem_result := Some (Suc b)\<rparr>,
               rm_child := (if cl_exit (rm_client m) then ChildExit else ChildWait)\<rparr>"
      using assms(1) ChildPost ab by (simp add: child_local_def Let_def)
    then show ?thesis using ChildPost ab assms(2)
      by (simp add: thread_same_def module_ok_def child_token_def child_busy_def)
  qed (use assms(1) in \<open>simp_all add: child_local_def Let_def\<close>)
qed

lemma actor_step_inv:
  assumes "actor_step R act a s = Step s'" "pipeline_inv n s"
  shows "pipeline_inv n s'"
proof (cases a)
  case (ThreadOf i)
  then have "i < n" "thread_step R i s = Step s'"
    using assms by (auto simp: actor_step_def pipeline_inv_def split: if_splits)
  then show ?thesis using thread_step_inv assms(2) by blast
next
  case (ChildOf i)
  then have i: "i < n" and st: "child_step act i s = Step s'"
    using assms by (auto simp: actor_step_def pipeline_inv_def split: if_splits)
  then obtain m' shm' where c: "child_local (act i) (ps_mods s i) (ps_shm s) = Step (m', shm')"
    and s': "s' = s\<lparr>ps_mods := (ps_mods s)(i := m'), ps_shm := shm'\<rparr>"
    by (auto simp: child_step_def split: outcome.splits)
  have "module_ok (ps_mods s i)" using assms(2) i by (simp add: pipeline_inv_def)
  then show ?thesis
    using child_local_result [OF c] thread_same_inv [OF assms(2) i, of m' s'] s' by simp
next
  case (StateOf i st)
  then have i: "i < n" and s': "s' = state_step i st s"
    using assms by (auto simp: actor_step_def pipeline_inv_def split: if_splits)
  have "module_ok (ps_mods s i)" using assms(2) i by (simp add: pipeline_inv_def)
  then show ?thesis
    using thread_same_inv [OF assms(2) i, of "(ps_mods s i)\<lparr>md_state := st\<rparr>" s'] s' assms(2)
    by (auto simp: state_step_def Let_def thread_same_def module_ok_def child_token_def split: if_splits)
next
  case ExitFlag
  then show ?thesis using assms by (auto simp: actor_step_def pipeline_inv_def pred_pc_def split: nat.splits)
qed

lemma pipeline_reach_inv:
  "pipeline_reach R act s0 s \<Longrightarrow> pipeline_inv n s0 \<Longrightarrow> pipeline_inv n s"
  by (induction rule: pipeline_reach.induct) (auto intro: actor_step_inv)

lemma started_module_ok: "module_ok (started_module i meth nx)"
  by (cases meth) (auto simp: module_ok_def started_module_def child_token_def child_busy_def)

lemma pipeline_at_start_inv:
  assumes "first \<in> {InitialThread, SourceThread}"
  shows "pipeline_inv (k + 2) (pipeline_at_start R first k chunks shm)"
proof -
  have "link_ok (pred_pc (pipeline_at_start R first k chunks shm) i) (started_module i meth nx)" for i meth nx
    by (cases i) (simp_all add: link_ok_def mail_full_def stop_taken_def started_module_def pipeline_at_start_def)
  moreover have "placed (k + 2) i (started_module i (if i = 0 then first else if i < k + 1 then ProcessThread
      else FinalizationThread) (if i < k + 1 then Some (Suc i) else None))" for i
    using assms by (auto simp: placed_def started_module_def)
  ultimately show ?thesis
    by (auto simp: pipeline_inv_def started_module_ok pipeline_at_start_def started_module_def [of 0])
qed

subsection \<open>Conservation of the chunks\<close>

definition slot :: "'r pipeline_state \<Rightarrow> nat \<Rightarrow> u64 multiset" where
  "slot s k = carried (ps_mods s k) + mail (pred_pc s k) (ps_mods s k)"

definition chunks_of :: "('r \<Rightarrow> u64 multiset) \<Rightarrow> 'r pipeline_state \<Rightarrow> u64 multiset" where
  "chunks_of elems s = elems (ps_ring s) + (\<Sum>k<ps_cnt s. slot s k)"

lemma sum_two:
  fixes f :: "nat \<Rightarrow> 'a :: comm_monoid_add"
  assumes "Suc i < n"
  shows "(\<Sum>k<n. f k) = f i + f (Suc i) + (\<Sum>k \<in> {..<n} - {i, Suc i}. f k)"
proof -
  have "(\<Sum>k<n. f k) = f i + (\<Sum>k \<in> {..<n} - {i}. f k)"
    using assms by (intro sum.remove) auto
  also have "(\<Sum>k \<in> {..<n} - {i}. f k) = f (Suc i) + (\<Sum>k \<in> {..<n} - {i} - {Suc i}. f k)"
    using assms by (intro sum.remove) auto
  also have "{..<n} - {i} - {Suc i} = {..<n} - {i, Suc i}" by auto
  finally show ?thesis by (simp add: add.assoc)
qed

lemma thread_step_chunks:
  assumes st: "thread_step R i s = Step s'" and inv: "pipeline_inv n s" and i: "i < n" and R: "ring_laws R elems"
  shows "chunks_of elems s' = chunks_of elems s"
proof -
  let ?m = "ps_mods s i"
  have pl: "placed n i ?m" and ok: "module_ok ?m" and n: "ps_cnt s = n" "2 \<le> n"
    using inv i by (auto simp: pipeline_inv_def)
  have lk: "\<And>k. 0 < k \<Longrightarrow> k < n \<Longrightarrow> link_ok (pred_pc s k) (ps_mods s k)" using inv by (auto simp: pipeline_inv_def)
  have me: "link_ok (pred_pc s i) ?m \<or> rm_pc ?m \<noteq> AtRead"
  proof (cases "i = 0")
    case True
    then show ?thesis using pl ok by (auto simp: placed_def module_ok_def)
  qed (use lk [of i] i in simp)
  from st pl show ?thesis
  proof (cases rule: thread_step_cases)
    case (1 m' ring' shm')
    have f: "elems ring' + carried m' + mail (pred_pc s i) m' = elems (ps_ring s) + slot s i"
      using thread_local_flight [OF 1(2) R me] by (simp add: slot_def)
    have "slot s' i = carried m' + mail (pred_pc s i) m'" using 1 by (cases i) (simp_all add: slot_def)
    moreover have "k \<in> {..<n} - {i} \<Longrightarrow> slot s' k = slot s k" for k using 1 by (cases k) (auto simp: slot_def)
    then have "(\<Sum>k \<in> {..<n} - {i}. slot s' k) = (\<Sum>k \<in> {..<n} - {i}. slot s k)" by (intro sum.cong) auto
    moreover have "sum g {..<n} = g i + sum g ({..<n} - {i})" for g :: "nat \<Rightarrow> u64 multiset"
      using i by (intro sum.remove) auto
    moreover have "ps_cnt s' = n" "ps_ring s' = ring'" using 1 n by simp_all
    ultimately show ?thesis using f n by (simp add: chunks_of_def) (metis add.assoc)
  next
    case (2 m' r' ring' shm')
    let ?r = "ps_mods s (Suc i)"
    have l: "link_ok (rm_pc ?m) ?r" using lk [of "Suc i"] 2(1) by simp
    have cr: "carried r' = carried ?r" using 2(3) by (simp add: carried_def mailbox_only_def)
    have f: "elems ring' + carried m' + mail (pred_pc s i) m' + mail (rm_pc m') r' =
        elems (ps_ring s) + carried ?m + mail (pred_pc s i) ?m + mail (rm_pc ?m) ?r"
      using thread_local_flight [OF 2(2) R me] l by simp
    have "slot s' i = carried m' + mail (pred_pc s i) m'" using 2 by (cases i) (simp_all add: slot_def)
    moreover have "slot s' (Suc i) = carried ?r + mail (rm_pc m') r'" using 2 cr by (simp add: slot_def)
    ultimately have two: "elems ring' + (slot s' i + slot s' (Suc i)) = elems (ps_ring s) + (slot s i + slot s (Suc i))"
      using f by (simp add: slot_def add_ac)
    have "rm_pc r' = rm_pc ?r" using 2(3) by (simp add: mailbox_only_def)
    then have "k \<in> {..<n} - {i, Suc i} \<Longrightarrow> slot s' k = slot s k" for k
      using 2 by (cases k; cases "k = Suc (Suc i)") (auto simp: slot_def)
    then have rest: "(\<Sum>k \<in> {..<n} - {i, Suc i}. slot s' k) = (\<Sum>k \<in> {..<n} - {i, Suc i}. slot s k)"
      by (intro sum.cong) auto
    have "ps_cnt s' = n" "ps_ring s' = ring'" using 2 n by simp_all
    then have "chunks_of elems s' = elems ring' + (slot s' i + slot s' (Suc i)) +
        (\<Sum>k \<in> {..<n} - {i, Suc i}. slot s' k)"
      by (simp add: chunks_of_def sum_two [OF 2(1)] add.assoc)
    moreover have "chunks_of elems s = elems (ps_ring s) + (slot s i + slot s (Suc i)) +
        (\<Sum>k \<in> {..<n} - {i, Suc i}. slot s k)"
      using n by (simp add: chunks_of_def sum_two [OF 2(1)] add.assoc)
    ultimately show ?thesis by (simp only: two rest)
  qed
qed

lemma thread_same_slots:
  assumes same: "thread_same (ps_mods s i) m'" and s': "ps_cnt s' = ps_cnt s" "ps_mods s' = (ps_mods s)(i := m')"
    "ps_ring s' = ps_ring s"
  shows "chunks_of elems s' = chunks_of elems s"
proof -
  have pc: "rm_pc (ps_mods s' k) = rm_pc (ps_mods s k)" for k using same s' by (simp add: thread_same_def)
  then have pp: "pred_pc s' k = pred_pc s k" for k by (cases k) simp_all
  have "slot s' k = slot s k" for k
    using same s' by (simp add: slot_def pp) (auto simp: carried_def mail_def mail_full_def thread_same_def)
  then show ?thesis using s' by (simp add: chunks_of_def)
qed

lemma actor_step_chunks:
  assumes "actor_step R act a s = Step s'" "pipeline_inv n s" "ring_laws R elems"
  shows "chunks_of elems s' = chunks_of elems s"
proof (cases a)
  case (ThreadOf i)
  then have "i < n" "thread_step R i s = Step s'"
    using assms by (auto simp: actor_step_def pipeline_inv_def split: if_splits)
  then show ?thesis using thread_step_chunks assms(2,3) by blast
next
  case (ChildOf i)
  then have i: "i < n" and st: "child_step act i s = Step s'"
    using assms by (auto simp: actor_step_def pipeline_inv_def split: if_splits)
  then obtain m' shm' where c: "child_local (act i) (ps_mods s i) (ps_shm s) = Step (m', shm')"
    and s': "s' = s\<lparr>ps_mods := (ps_mods s)(i := m'), ps_shm := shm'\<rparr>"
    by (auto simp: child_step_def split: outcome.splits)
  have "module_ok (ps_mods s i)" using assms(2) i by (simp add: pipeline_inv_def)
  then show ?thesis using child_local_result [OF c] s' by (intro thread_same_slots [of s i m']) auto
next
  case (StateOf i st)
  then have s': "s' = state_step i st s" using assms by (auto simp: actor_step_def split: if_splits)
  show ?thesis
  proof (cases "md_state (ps_mods s i) = MD_STATE_ERROR")
    case False
    then show ?thesis using s'
      by (intro thread_same_slots [of s i "(ps_mods s i)\<lparr>md_state := st\<rparr>"])
        (auto simp: state_step_def Let_def thread_same_def)
  qed (use s' in \<open>simp add: state_step_def Let_def\<close>)
next
  case ExitFlag
  then have "s' = s\<lparr>ps_exit := 1\<rparr>" using assms(1) by (simp add: actor_step_def)
  moreover have "slot (s\<lparr>ps_exit := 1\<rparr>) k = slot s k" for k by (cases k) (simp_all add: slot_def)
  ultimately show ?thesis by (simp add: chunks_of_def)
qed

lemma reach_chunks:
  "pipeline_reach R act s0 s \<Longrightarrow> pipeline_inv n s0 \<Longrightarrow> ring_laws R elems \<Longrightarrow>
     chunks_of elems s = chunks_of elems s0"
proof (induction rule: pipeline_reach.induct)
  case start
  then show ?case by simp
next
  case (step s a s')
  then show ?case using actor_step_chunks [of R act a s s' n elems] pipeline_reach_inv by metis
qed

lemma chunks_at_start:
  assumes "ring_laws R elems"
  shows "chunks_of elems (pipeline_at_start R first k chunks shm) = mset chunks"
proof -
  have "slot (pipeline_at_start R first k chunks shm) i = {#}" for i
    by (cases i) (simp_all add: slot_def carried_def mail_def mail_full_def pipeline_at_start_def started_module_def)
  then show ?thesis using ring_lawsD(1) [OF assms] by (simp add: chunks_of_def pipeline_at_start_def)
qed

end
