(* ===== verification/PipelineSafety.thy ===== *)
theory PipelineSafety imports PipelineProtocol begin

section \<open>What holds in every reachable state of a pipeline\<close>

text \<open>
  The properties of the running pipeline, from the invariants of PipelineProtocol, and the invariants
  that only the absence of deadlocks and crashes needs.
\<close>

subsection \<open>Mutual exclusion and ownership\<close>

lemma reach_inv:
  assumes "pipeline_reach R act (pipeline_at_start R first k chunks shm) s" "first \<in> {InitialThread, SourceThread}"
  shows "pipeline_inv (k + 2) s"
  using pipeline_reach_inv [OF assms(1) pipeline_at_start_inv [OF assms(2)]] .

lemma inv_link:
  "pipeline_inv n s \<Longrightarrow> Suc i < n \<Longrightarrow> link_ok (rm_pc (ps_mods s i)) (ps_mods s (Suc i))"
  unfolding pipeline_inv_def by (metis pred_pc_simps(2) zero_less_Suc)

text \<open>C3: In every reachable state the mailbox between two neighbouring modules has one owner: exactly one of the
  two semaphores is free, or the writer holds it, or the reader holds it. So the command and the offset of a module
  are never written while they are read, whatever the interleaving of threads, clients and user commands.\<close>

theorem mailbox_mutual_exclusion:
  assumes "pipeline_reach R act (pipeline_at_start R first k chunks shm) s"
    and "first \<in> {InitialThread, SourceThread}" "Suc i < k + 2"
  shows "md_new_cmd (ps_mods s (Suc i)) + md_result (ps_mods s (Suc i)) +
      of_bool (acquired (rm_pc (ps_mods s i))) + of_bool (reading (rm_pc (ps_mods s (Suc i)))) = (1 :: nat) \<and>
    \<not> (acquired (rm_pc (ps_mods s i)) \<and> reading (rm_pc (ps_mods s (Suc i))))"
proof -
  have "link_ok (rm_pc (ps_mods s i)) (ps_mods s (Suc i))"
    using inv_link [OF reach_inv [OF assms(1,2)]] assms(3) by simp
  then show ?thesis by (auto simp: link_ok_def)
qed

text \<open>C7: A client process works on its entry of the process table only while the server's thread waits for it:
  when the client is in its turn, the thread is blocked in the wait for the result and neither semaphore is free.\<close>

theorem client_mutual_exclusion:
  assumes "pipeline_reach R act (pipeline_at_start R first k chunks shm) s"
    and "first \<in> {InitialThread, SourceThread}" "i < k + 2" "rm_child (ps_mods s i) \<in> {ChildRun, ChildPost}"
  shows "rm_pc (ps_mods s i) \<in> {AtWaitJob, AtStopWaitJob} \<and>
    sem_job (rm_info (ps_mods s i)) = Some 0 \<and> sem_result (rm_info (ps_mods s i)) = Some 0"
proof -
  have "module_ok (ps_mods s i)" using reach_inv [OF assms(1,2)] assms(3) by (simp add: pipeline_inv_def)
  then have "waits_child (rm_pc (ps_mods s i))" "sem_job (rm_info (ps_mods s i)) = Some 0"
    "sem_result (rm_info (ps_mods s i)) = Some 0"
    using assms(4) by (auto simp: module_ok_def child_token_def child_busy_def of_bool_def split: if_splits)
  then show ?thesis by (cases "rm_pc (ps_mods s i)") auto
qed

text \<open>C1: No chunk is lost and none is duplicated: in every reachable state the free chunks of the ring together
  with the chunks the modules carry and those waiting in mailboxes are the chunks the pipeline started with.\<close>

theorem chunks_conserved:
  assumes "pipeline_reach R act (pipeline_at_start R first k chunks shm) s"
    and "first \<in> {InitialThread, SourceThread}" "ring_laws R elems"
  shows "elems (ps_ring s) + (\<Sum>i<k + 2. carried (ps_mods s i) + mail (pred_pc s i) (ps_mods s i)) = mset chunks"
proof -
  have "ps_cnt s = k + 2" using reach_inv [OF assms(1,2)] by (simp add: pipeline_inv_def)
  then show ?thesis
    using reach_chunks [OF assms(1) pipeline_at_start_inv [OF assms(2)] assms(3)] chunks_at_start [OF assms(3)]
    by (simp add: chunks_of_def slot_def)
qed

lemma chunks_at_most_once:
  assumes "pipeline_inv n s" "chunks_of elems s = mset chunks" "distinct chunks" "i < n" "j < n" "i \<noteq> j"
    and "x \<in># carried (ps_mods s i)"
  shows "x \<notin># carried (ps_mods s j)" "x \<notin># elems (ps_ring s)"
proof -
  have n: "ps_cnt s = n" using assms(1) by (simp add: pipeline_inv_def)
  have "sum (slot s) {..<n} = slot s i + (slot s j + sum (slot s) ({..<n} - {i} - {j}))"
    using assms(4-6) sum.remove [of "{..<n}" i "slot s"] sum.remove [of "{..<n} - {i}" j "slot s"] by auto
  then have "count (elems (ps_ring s)) x + (count (carried (ps_mods s i)) x + count (carried (ps_mods s j)) x) \<le>
      count (mset chunks) x"
    using n by (simp add: assms(2) [symmetric] chunks_of_def slot_def)
  moreover have "count (mset chunks) x \<le> 1" using assms(3) by (simp add: distinct_count_atmost_1)
  moreover have "1 \<le> count (carried (ps_mods s i)) x" using assms(7) by (simp add: Suc_le_eq)
  ultimately have "count (carried (ps_mods s j)) x = 0" "count (elems (ps_ring s)) x = 0" by linarith+
  then show "x \<notin># carried (ps_mods s j)" "x \<notin># elems (ps_ring s)" by (simp_all add: not_in_iff)
qed


subsection \<open>Stopping\<close>

lemma stop_reaches_back:
  assumes "pipeline_inv n s" "stop_taken (ps_mods s i)" "j < i" "i < n"
  shows "after_stop (rm_pc (ps_mods s j))"
  using assms(2-4)
proof (induction i)
  case 0
  then show ?case by simp
next
  case (Suc i)
  have a: "after_stop (rm_pc (ps_mods s i))"
    using inv_link [OF assms(1) Suc.prems(3)] Suc.prems(1) by (simp add: link_ok_def)
  show ?case
  proof (cases "j = i")
    case False
    then show ?thesis using Suc a phase_rules(2,3) by (auto simp: stop_taken_def)
  qed (use a in simp)
qed

text \<open>C6: The stop command arrives last: when the finalization thread has ended, every module before it has left
  its loop and passed the stop command on, no chunk is in flight, and the ring holds again exactly the chunks of the
  start.\<close>

theorem finalization_done:
  assumes "pipeline_reach R act (pipeline_at_start R first k chunks shm) s"
    and "first \<in> {InitialThread, SourceThread}" "ring_laws R elems" "rm_pc (ps_mods s (k + 1)) = AtDone"
  shows "(\<forall>i < k + 1. after_stop (rm_pc (ps_mods s i))) \<and> elems (ps_ring s) = mset chunks"
proof -
  note inv = reach_inv [OF assms(1,2)]
  have upstream: "\<forall>i < k + 1. after_stop (rm_pc (ps_mods s i))"
    using stop_reaches_back [OF inv, of "k + 1"] assms(4) by (simp add: stop_taken_def)
  have "slot s i = {#}" if i: "i < k + 2" for i
  proof -
    have st: "stopping (rm_pc (ps_mods s i))"
      using upstream i assms(4) phase_rules(2,3) by (cases "i = k + 1") auto
    then have c: "carried (ps_mods s i) = {#}" by (cases "rm_pc (ps_mods s i)") (simp_all add: carried_def)
    have "\<not> mail_full (pred_pc s i) (ps_mods s i)"
    proof (cases i)
      case 0
      then show ?thesis using inv st by (auto simp: mail_full_def pipeline_inv_def)
    next
      case (Suc i')
      then have "link_ok (rm_pc (ps_mods s i')) (ps_mods s i)" using inv_link [OF inv, of i'] i by simp
      then show ?thesis using st Suc phase_rules(1,4) [of "rm_pc (ps_mods s i')"]
        by (auto simp: mail_full_def link_ok_def stop_taken_def)
    qed
    then show ?thesis using c by (simp add: slot_def mail_def)
  qed
  then have "elems (ps_ring s) = chunks_of elems s" using inv by (simp add: chunks_of_def pipeline_inv_def)
  then show ?thesis
    using upstream reach_chunks [OF assms(1) pipeline_at_start_inv [OF assms(2)] assms(3)] chunks_at_start [OF assms(3)] by simp
qed

subsection \<open>Absence of crashes\<close>

definition actions_keep_size :: "(addr \<Rightarrow> client_action option) \<Rightarrow> bool" where
  "actions_keep_size act \<longleftrightarrow>
     (\<forall>i f c st off shm. act i = Some f \<longrightarrow> length (fst (f c st off shm)) = length shm)"

lemma thread_local_size:
  assumes "thread_local R e m nx ring shm = Step (m', nx', ring', shm')"
  shows "length shm' = length shm"
  using assms
  by (cases "rm_pc m"; cases nx)
    (auto simp: thread_local_def Let_def sem_take_Step dest: region_write_length
      split: option.splits if_splits prod.splits outcome.splits)

lemma child_local_size:
  assumes "child_local (act i) m shm = Step (m', shm')" "actions_keep_size act"
  shows "length shm' = length shm"
proof (cases "rm_child m")
  case ChildRun
  then show ?thesis using assms
    by (auto simp: child_local_def Let_def client_command_def actions_keep_size_def split: prod.splits option.splits if_splits)
      (metis fst_conv)+
qed (use assms(1) in \<open>auto simp: child_local_def Let_def sem_take_Step split: option.splits\<close>)

lemma actor_step_size:
  assumes "actor_step R act a s = Step s'" "actions_keep_size act"
  shows "length (ps_shm s') = length (ps_shm s)"
  using assms
  by (cases a) (auto simp: actor_step_def thread_step_def child_step_def state_step_def Let_def
      dest: thread_local_size child_local_size split: if_splits outcome.splits option.splits prod.splits)

lemma reach_size:
  "pipeline_reach R act s0 s \<Longrightarrow> actions_keep_size act \<Longrightarrow> length (ps_shm s) = length (ps_shm s0)"
  by (induction rule: pipeline_reach.induct) (auto dest: actor_step_size)

text \<open>A thread crashes only where it writes data outside the shared memory.\<close>

lemma sem_take_Crash: "sem_take (Some v) f = Crash \<longleftrightarrow> (\<exists>w. v = Suc w \<and> f w = Crash)"
  by (cases v) auto

lemma thread_local_no_crash:
  assumes ok: "module_ok m" and nx: "nx = None \<Longrightarrow> md_method m = Some FinalizationThread"
    and room: "holding (rm_pc m) \<Longrightarrow> unat (rm_off m) + 5 \<le> length shm"
  shows "thread_local R e m nx ring shm \<noteq> Crash"
proof -
  obtain meth a b where m: "md_method m = Some meth" "rm_pc m \<in> pcs_of meth"
    "sem_job (rm_info m) = Some a" "sem_result (rm_info m) = Some b"
    using ok by (auto simp: module_ok_def)
  show ?thesis
  proof (cases "rm_pc m")
    case AtTop
    then show ?thesis using m
      by (cases meth) (auto simp: thread_local_def top_step_def Let_def sem_take_Crash split: outcome.splits)
  next
    case AtFill
    then obtain shm' where "region_write shm (unat (rm_off m)) test_text = Some shm'"
      using room region_write_Some [of "unat (rm_off m)" test_text shm] by (auto simp: test_text_def)
    then show ?thesis using AtFill by (simp add: thread_local_def)
  next
    case AtClear
    then obtain shm' where "region_write shm (unat (rm_off m)) [0] = Some shm'"
      using room region_write_Some [of "unat (rm_off m)" "[0]" shm] by auto
    then show ?thesis using AtClear by (simp add: thread_local_def)
  next
    case AtWaitJob
    then show ?thesis using m by (auto simp: thread_local_def Let_def sem_take_Crash)
  next
    case AtStopWaitJob
    then show ?thesis using m by (auto simp: thread_local_def Let_def sem_take_Crash)
  next
    case AtPop
    then show ?thesis by (auto simp: thread_local_def Let_def split: option.splits)
  qed (use m nx in \<open>cases meth; cases nx; auto simp: thread_local_def Let_def sem_take_Crash\<close>)+
qed

lemma reach_no_crash:
  assumes "pipeline_reach R act (pipeline_at_start R first k chunks shm) s"
    and "first \<in> {InitialThread, SourceThread}" "ring_laws R elems" "actions_keep_size act"
    and "\<forall>x \<in> set chunks. unat x + 5 \<le> length shm"
  shows "actor_step R act a s \<noteq> Crash"
proof -
  note inv = reach_inv [OF assms(1,2)]
  have total: "chunks_of elems s = mset chunks"
    using reach_chunks [OF assms(1) pipeline_at_start_inv [OF assms(2)] assms(3)] chunks_at_start [OF assms(3)] by simp
  have len: "length (ps_shm s) = length shm"
    using reach_size [OF assms(1,4)] by (simp add: pipeline_at_start_def)
  have n: "ps_cnt s = k + 2" using inv by (simp add: pipeline_inv_def)
  have room: "unat (rm_off (ps_mods s i)) + 5 \<le> length (ps_shm s)" if "i < k + 2" "holding (rm_pc (ps_mods s i))" for i
  proof -
    have "sum (slot s) {..<k + 2} = slot s i + sum (slot s) ({..<k + 2} - {i})"
      using that(1) by (intro sum.remove) auto
    moreover have "rm_off (ps_mods s i) \<in># slot s i" using that(2) by (simp add: slot_def carried_def)
    ultimately have "rm_off (ps_mods s i) \<in># chunks_of elems s" using n by (simp add: chunks_of_def)
    then show ?thesis using total assms(5) len by simp
  qed
  have thr: "thread_step R i s \<noteq> Crash" if i: "i < k + 2" for i
  proof -
    have ok: "module_ok (ps_mods s i)" "placed (k + 2) i (ps_mods s i)" using inv i by (simp_all add: pipeline_inv_def)
    have "thread_local R (ps_exit s) (ps_mods s i) (map_option (ps_mods s) (md_next (ps_mods s i))) (ps_ring s) (ps_shm s) \<noteq> Crash"
      using ok i room [OF i] by (intro thread_local_no_crash) (auto simp: placed_def split: if_splits)
    then show ?thesis by (auto simp: thread_step_def Let_def split: outcome.splits)
  qed
  have chl: "child_step act i s \<noteq> Crash" if i: "i < k + 2" for i
  proof -
    obtain a b where "sem_job (rm_info (ps_mods s i)) = Some a" "sem_result (rm_info (ps_mods s i)) = Some b"
      using inv i by (auto simp: pipeline_inv_def module_ok_def)
    then show ?thesis
      by (cases "rm_child (ps_mods s i)")
        (auto simp: child_step_def child_local_def Let_def sem_take_Crash split: outcome.splits prod.splits)
  qed
  show ?thesis using thr chl n by (cases a) (auto simp: actor_step_def)
qed

text \<open>C5: No reachable state can crash: when every chunk lies inside the shared memory with room for five bytes and
  the clients' actions keep to it, no step of any thread or client dereferences NULL, uses an uninitialised semaphore
  or writes outside the shared memory.\<close>

theorem pipeline_never_crashes:
  assumes "pipeline_reach R act (pipeline_at_start R first k chunks shm) s"
    and "first \<in> {InitialThread, SourceThread}" "ring_laws R elems" "actions_keep_size act"
    and "\<forall>x \<in> set chunks. unat x + 5 \<le> length shm"
  shows "actor_step R act a s \<noteq> Crash"
  using reach_no_crash [OF assms] .

subsection \<open>Absence of deadlocks\<close>

definition actions_go_on :: "(addr \<Rightarrow> client_action option) \<Rightarrow> bool" where
  "actions_go_on act \<longleftrightarrow> (\<forall>i f c st off shm. act i = Some f \<longrightarrow> snd (f c st off shm) \<noteq> -1)"

fun finishing :: "thread_pc \<Rightarrow> bool" where
  "finishing AtStopWaitJob = True"
| "finishing AtSetState = True"
| "finishing AtDone = True"
| "finishing _ = False"

fun with_job :: "thread_pc \<Rightarrow> bool" where
  "with_job AtPostJob = True"
| "with_job AtWaitJob = True"
| "with_job _ = False"

fun job_ahead :: "thread_pc \<Rightarrow> bool" where
  "job_ahead AtFill = True"
| "job_ahead AtWriteProc = True"
| "job_ahead _ = False"

text \<open>A client process ends only for the stop command, and the thread is then past its last job.\<close>

definition exit_ok :: "running_module \<Rightarrow> bool" where
  "exit_ok m \<longleftrightarrow>
     (cl_exit (rm_client m) \<longrightarrow> finishing (rm_pc m) \<and> rm_child m \<in> {NoChild, ChildPost, ChildExit}) \<and>
     (rm_child m = ChildExit \<longrightarrow> cl_exit (rm_client m)) \<and>
     (rm_child m = ChildExit \<and> rm_pc m = AtStopWaitJob \<longrightarrow> sem_result (rm_info m) \<noteq> Some 0)"

definition job_ok :: "running_module \<Rightarrow> bool" where
  "job_ok m \<longleftrightarrow>
     (with_job (rm_pc m) \<longrightarrow> cmd (rm_info m) \<noteq> PROCESS_CMD_STOP) \<and>
     (job_ahead (rm_pc m) \<longrightarrow> rm_cmd m \<noteq> PROCESS_CMD_STOP) \<and>
     (first_method m \<longrightarrow> md_cmd m = PROCESS_CMD_JOB) \<and>
     (md_method m = Some SourceThread \<or> md_method m = Some ProcessThread \<longrightarrow> rm_child m \<noteq> NoChild)"

definition client_ok :: "running_module \<Rightarrow> bool" where
  "client_ok m \<longleftrightarrow> exit_ok m \<and> job_ok m"

lemma thread_local_client_ok:
  assumes st: "thread_local R e m nx ring shm = Step (m', nx', ring', shm')" and c: "client_ok m" and ok: "module_ok m"
  shows "client_ok m'"
proof -
  note res = thread_local_result [OF st]
  have fr: "first_method m' = first_method m" "md_cmd m' = md_cmd m" "md_method m' = md_method m"
    "rm_child m' = rm_child m" "rm_client m' = rm_client m"
    using thread_local_frame [OF st] by (simp_all add: same_frame_def first_method_def)
  have tok: "child_token m = of_bool (waits_child (rm_pc m))" using ok by (simp add: module_ok_def)
  have "exit_ok m'"
  proof (cases "rm_pc m = AtStopPostJob")
    case True
    then have "\<not> cl_exit (rm_client m)" using c by (simp add: client_ok_def exit_ok_def)
    then have "\<not> cl_exit (rm_client m')" "rm_child m' \<noteq> ChildExit" using c fr(4,5) by (auto simp: client_ok_def exit_ok_def)
    then show ?thesis by (simp add: exit_ok_def)
  next
    case False
    then have "finishing (rm_pc m) \<longrightarrow> finishing (rm_pc m')" "rm_pc m' \<noteq> AtStopWaitJob"
      using res by (cases "rm_pc m"; auto simp: goto_def split: if_splits)+
    then show ?thesis using c fr(4,5) by (auto simp: client_ok_def exit_ok_def)
  qed
  moreover have "job_ok m'"
  proof (cases "rm_pc m = AtPop")
    case True
    obtain meth where "md_method m = Some meth" "rm_pc m \<in> pcs_of meth" using ok by (auto simp: module_ok_def)
    then have "first_method m" using True by (cases meth) (simp_all add: first_method_def)
    then have "md_cmd m = PROCESS_CMD_JOB" using c by (simp add: client_ok_def job_ok_def)
    then show ?thesis using res True c fr
      by (auto simp: client_ok_def job_ok_def goto_def PROCESS_CMD_JOB_def PROCESS_CMD_STOP_def)
  next
    case False
    have "with_job (rm_pc m') \<longrightarrow> cmd (rm_info m') \<noteq> PROCESS_CMD_STOP"
      using res c False by (cases "rm_pc m") (auto simp: client_ok_def job_ok_def goto_def set_cmd_offs_def split: if_splits)
    moreover have "job_ahead (rm_pc m') \<longrightarrow> rm_cmd m' \<noteq> PROCESS_CMD_STOP"
      using res c False by (cases "rm_pc m") (auto simp: client_ok_def job_ok_def goto_def split: if_splits)
    ultimately show ?thesis using c fr by (simp add: client_ok_def job_ok_def)
  qed
  ultimately show ?thesis by (simp add: client_ok_def)
qed

lemma mailbox_only_client_ok:
  "mailbox_only r r' \<Longrightarrow> \<not> first_method r \<Longrightarrow> client_ok r \<Longrightarrow> client_ok r'"
  by (simp add: mailbox_only_def same_frame_def client_ok_def exit_ok_def job_ok_def first_method_def)

lemma client_command_cases:
  assumes cc: "client_command (act i) info cl shm = (info', cl', shm')" and go: "actions_go_on act"
  shows "cmd info' = cmd info \<and> sem_result info' = sem_result info \<and>
    (cmd info \<noteq> PROCESS_CMD_STOP \<longrightarrow> cl_exit cl' = cl_exit cl)"
proof (cases "act i")
  case None
  then show ?thesis using cc by (auto simp: client_command_def split: if_splits)
next
  case (Some f)
  obtain shm1 st where f: "f (cl_runs cl) (cl_status cl) (cmd_offs info) shm = (shm1, st)" by force
  have "snd (f (cl_runs cl) (cl_status cl) (cmd_offs info) shm) \<noteq> -1" using go Some unfolding actions_go_on_def by blast
  then show ?thesis using cc Some f by (auto simp: client_command_def Let_def split: if_splits)
qed

lemma child_local_client_ok:
  assumes st: "child_local (act i) m shm = Step (m', shm')" and c: "client_ok m" and ok: "module_ok m"
    and go: "actions_go_on act"
  shows "client_ok m'"
proof (cases "rm_child m")
  case ChildWait
  then show ?thesis using st c
    by (auto simp: child_local_def Let_def sem_take_Step client_ok_def exit_ok_def job_ok_def first_method_def)
next
  case ChildRun
  obtain info' cl' shm'' where cc: "client_command (act i) (rm_info m) (rm_client m) shm = (info', cl', shm'')"
    by (cases "client_command (act i) (rm_info m) (rm_client m) shm") auto
  have m': "m' = m\<lparr>rm_info := info', rm_client := cl', rm_child := ChildPost\<rparr>"
    using st ChildRun cc by (simp add: child_local_def Let_def)
  have "waits_child (rm_pc m)" using ok ChildRun by (auto simp: module_ok_def child_token_def child_busy_def split: split_of_bool_asm)
  then have pc: "rm_pc m \<in> {AtWaitJob, AtStopWaitJob}" by (cases "rm_pc m") auto
  have stays: "cmd info' = cmd (rm_info m)" "sem_result info' = sem_result (rm_info m)"
    "cmd (rm_info m) \<noteq> PROCESS_CMD_STOP \<Longrightarrow> cl_exit cl' = cl_exit (rm_client m)"
    using client_command_cases [OF cc go] by auto
  have nex: "\<not> cl_exit (rm_client m)" using c ChildRun by (auto simp: client_ok_def exit_ok_def)
  have "cl_exit cl' \<Longrightarrow> cmd (rm_info m) = PROCESS_CMD_STOP" using nex stays(3) by auto
  then have "cl_exit cl' \<Longrightarrow> finishing (rm_pc m)" using pc c by (auto simp: client_ok_def job_ok_def)
  then have "exit_ok m'" using m' by (simp add: exit_ok_def)
  moreover have "job_ok m'" using c ChildRun m' stays(1) by (simp add: client_ok_def job_ok_def first_method_def)
  ultimately show ?thesis by (simp add: client_ok_def)
next
  case ChildPost
  obtain b where b: "sem_result (rm_info m) = Some b" using ok by (auto simp: module_ok_def)
  have "m' = m\<lparr>rm_info := (rm_info m)\<lparr>sem_result := Some (Suc b)\<rparr>,
               rm_child := (if cl_exit (rm_client m) then ChildExit else ChildWait)\<rparr>"
    using st ChildPost b by (simp add: child_local_def Let_def)
  then show ?thesis using c ChildPost by (simp add: client_ok_def exit_ok_def job_ok_def first_method_def)
qed (use st in \<open>simp_all add: child_local_def Let_def\<close>)

definition clients_ok :: "nat \<Rightarrow> 'r pipeline_state \<Rightarrow> bool" where
  "clients_ok n s \<longleftrightarrow> (\<forall>i < n. client_ok (ps_mods s i))"

lemma actor_step_clients_ok:
  assumes "actor_step R act a s = Step s'" "pipeline_inv n s" "clients_ok n s" "actions_go_on act"
  shows "clients_ok n s'"
proof (cases a)
  case (ThreadOf i)
  then have i: "i < n" and st: "thread_step R i s = Step s'"
    using assms by (auto simp: actor_step_def pipeline_inv_def split: if_splits)
  have pl: "placed n i (ps_mods s i)" and ok: "module_ok (ps_mods s i)" "client_ok (ps_mods s i)"
    using assms(2,3) i by (auto simp: pipeline_inv_def clients_ok_def)
  from st pl show ?thesis
  proof (cases rule: thread_step_cases)
    case (1 m' ring' shm')
    then show ?thesis using thread_local_client_ok [OF 1(2) ok(2,1)] assms(3) by (simp add: clients_ok_def)
  next
    case (2 m' r' ring' shm')
    have "placed n (Suc i) (ps_mods s (Suc i))" using assms(2) 2(1) by (simp add: pipeline_inv_def)
    then have "client_ok r'"
      using mailbox_only_client_ok [OF 2(3)] placed_first assms(3) 2(1) by (auto simp: clients_ok_def)
    then show ?thesis using 2 thread_local_client_ok [OF 2(2) ok(2,1)] assms(3) by (simp add: clients_ok_def)
  qed
next
  case (ChildOf i)
  then have i: "i < n" and st: "child_step act i s = Step s'"
    using assms by (auto simp: actor_step_def pipeline_inv_def split: if_splits)
  then obtain m' shm' where c: "child_local (act i) (ps_mods s i) (ps_shm s) = Step (m', shm')"
    and s': "s' = s\<lparr>ps_mods := (ps_mods s)(i := m'), ps_shm := shm'\<rparr>"
    by (auto simp: child_step_def split: outcome.splits)
  have "module_ok (ps_mods s i)" "client_ok (ps_mods s i)"
    using assms(2,3) i by (simp_all add: pipeline_inv_def clients_ok_def)
  then show ?thesis using child_local_client_ok [OF c _ _ assms(4)] assms(3) s' by (simp add: clients_ok_def)
next
  case (StateOf i st)
  then have "s' = state_step i st s" using assms by (auto simp: actor_step_def split: if_splits)
  then show ?thesis using assms(3)
    by (simp add: clients_ok_def state_step_def Let_def client_ok_def exit_ok_def job_ok_def first_method_def)
next
  case ExitFlag
  then show ?thesis using assms by (auto simp: actor_step_def clients_ok_def)
qed

lemma reach_clients_ok:
  assumes "pipeline_reach R act s0 s" "pipeline_inv n s0" "clients_ok n s0" "actions_go_on act"
  shows "clients_ok n s"
  using assms
proof (induction rule: pipeline_reach.induct)
  case start
  then show ?case by simp
next
  case (step s a s')
  then show ?case using actor_step_clients_ok [of R act a s s' n] pipeline_reach_inv by metis
qed

lemma clients_ok_at_start: "clients_ok n (pipeline_at_start R first k chunks shm)"
  by (simp add: clients_ok_def client_ok_def exit_ok_def job_ok_def pipeline_at_start_def started_module_def client_start_def)

lemma sem_take_Blocked: "sem_take x f = Blocked \<longleftrightarrow> x = Some 0 \<or> (\<exists>v. x = Some (Suc v) \<and> f v = Blocked)"
  by (induction x f rule: sem_take.induct) auto

text \<open>Where a thread can be blocked.\<close>

lemma thread_local_blocked:
  assumes b: "thread_local R e m nx ring shm = Blocked" and ok: "module_ok m"
  shows "(rm_pc m = AtTop \<and> \<not> first_method m \<and> md_new_cmd m = 0) \<or>
    (rm_pc m = AtPop \<and> ring_pop R ring = None) \<or>
    (waits_child (rm_pc m) \<and> sem_result (rm_info m) = Some 0) \<or>
    ((rm_pc m = AtWaitNext \<or> rm_pc m = AtStopWaitNext) \<and> (\<exists>r. nx = Some r \<and> md_result r = 0)) \<or>
    rm_pc m = AtDone"
proof -
  obtain meth where m: "md_method m = Some meth" "rm_pc m \<in> pcs_of meth" using ok by (auto simp: module_ok_def)
  show ?thesis
  proof (cases "rm_pc m = AtTop")
    case True
    then show ?thesis using b m
      by (cases meth) (auto simp: thread_local_def top_step_def Let_def sem_take_Blocked first_method_def
          split: outcome.splits if_splits)
  next
    case False
    then show ?thesis using b
      by (cases "rm_pc m"; cases nx)
        (auto simp: thread_local_def Let_def sem_take_Blocked split: option.splits if_splits)
  qed
qed

lemma child_not_stuck:
  assumes "module_ok m" "client_ok m" "waits_child (rm_pc m)" "sem_result (rm_info m) = Some 0"
  shows "\<exists>m' shm'. child_local act m shm = Step (m', shm')"
proof -
  obtain meth a where m: "md_method m = Some meth" "rm_pc m \<in> pcs_of meth" "sem_job (rm_info m) = Some a"
    using assms(1) by (auto simp: module_ok_def)
  have "meth = SourceThread \<or> meth = ProcessThread" using m(2) assms(3) by (cases meth; cases "rm_pc m") auto
  then have "rm_child m \<noteq> NoChild" using assms(2) m(1) by (auto simp: client_ok_def job_ok_def)
  moreover have "rm_child m \<noteq> ChildExit"
    using assms(2,3,4) by (cases "rm_pc m") (auto simp: client_ok_def exit_ok_def)
  moreover have "a + of_bool (child_busy (rm_child m)) = (1 :: nat)"
    using assms(1,3,4) m(3) by (simp add: module_ok_def child_token_def)
  ultimately show ?thesis
    using m(3) assms(4)
    by (cases "rm_child m") (auto simp: child_local_def child_busy_def Let_def split: prod.splits)
qed

lemma stuck_not_waiting:
  assumes link: "link_ok p r" and p: "p = AtWaitNext \<or> p = AtStopWaitNext"
    and r: "(rm_pc r = AtTop \<and> md_new_cmd r = 0) \<or> rm_pc r = AtDone"
  shows "md_result r \<noteq> 0"
  using assms by (auto simp: link_ok_def stop_taken_def)

lemma stuck_threads:
  assumes inv: "pipeline_inv n s" and cl: "clients_ok n s"
    and st: "\<And>i. i < n \<Longrightarrow> thread_step R i s = Blocked" and ch: "\<And>i. i < n \<Longrightarrow> child_step act i s = Blocked"
    and i: "i < n"
  shows "(rm_pc (ps_mods s i) = AtTop \<and> \<not> first_method (ps_mods s i) \<and> md_new_cmd (ps_mods s i) = 0) \<or>
    (rm_pc (ps_mods s i) = AtPop \<and> i = 0 \<and> ring_pop R (ps_ring s) = None) \<or> rm_pc (ps_mods s i) = AtDone"
  using i
proof (induction "n - i" arbitrary: i rule: less_induct)
  case less
  let ?m = "ps_mods s i"
  have ok: "module_ok ?m" "client_ok ?m" and pl: "placed n i ?m"
    using inv cl less.prems by (simp_all add: pipeline_inv_def clients_ok_def)
  have b: "thread_local R (ps_exit s) ?m (map_option (ps_mods s) (md_next ?m)) (ps_ring s) (ps_shm s) = Blocked"
    using st [OF less.prems] by (auto simp: thread_step_def Let_def split: outcome.splits)
  have "\<not> (waits_child (rm_pc ?m) \<and> sem_result (rm_info ?m) = Some 0)"
    using child_not_stuck [OF ok, of "act i" "ps_shm s"] ch [OF less.prems] by (auto simp: child_step_def)
  moreover have "\<not> ((rm_pc ?m = AtWaitNext \<or> rm_pc ?m = AtStopWaitNext) \<and>
      (\<exists>r. map_option (ps_mods s) (md_next ?m) = Some r \<and> md_result r = 0))"
  proof
    assume w: "(rm_pc ?m = AtWaitNext \<or> rm_pc ?m = AtStopWaitNext) \<and>
      (\<exists>r. map_option (ps_mods s) (md_next ?m) = Some r \<and> md_result r = 0)"
    then have si: "Suc i < n" "md_result (ps_mods s (Suc i)) = 0" using pl by (auto simp: placed_def split: if_splits)
    have "(rm_pc (ps_mods s (Suc i)) = AtTop \<and> md_new_cmd (ps_mods s (Suc i)) = 0) \<or> rm_pc (ps_mods s (Suc i)) = AtDone"
      using less.hyps [of "Suc i"] si(1) by auto
    from stuck_not_waiting [OF inv_link [OF inv si(1)] _ this] w si(2) show False by blast
  qed
  moreover have "rm_pc ?m = AtPop \<longrightarrow> i = 0"
    using ok(1) pl by (auto simp: module_ok_def placed_def split: if_splits)
  ultimately show ?case using thread_local_blocked [OF b ok(1)] by argo
qed

lemma stuck_is_done:
  assumes inv: "pipeline_inv n s" and cl: "clients_ok n s" and R: "ring_laws R elems"
    and some: "chunks_of elems s \<noteq> {#}"
    and st: "\<And>i. i < n \<Longrightarrow> thread_step R i s = Blocked" and ch: "\<And>i. i < n \<Longrightarrow> child_step act i s = Blocked"
    and i: "i < n"
  shows "rm_pc (ps_mods s i) = AtDone"
proof -
  have stuck: "(rm_pc (ps_mods s j) = AtTop \<and> \<not> first_method (ps_mods s j) \<and> md_new_cmd (ps_mods s j) = 0) \<or>
    (rm_pc (ps_mods s j) = AtPop \<and> j = 0 \<and> ring_pop R (ps_ring s) = None) \<or> rm_pc (ps_mods s j) = AtDone" if "j < n" for j
    using stuck_threads [OF inv cl st ch that] .
  have n: "2 \<le> n" "ps_cnt s = n" using inv by (simp_all add: pipeline_inv_def)
  have "placed n 0 (ps_mods s 0)" using inv n by (simp add: pipeline_inv_def)
  then have "first_method (ps_mods s 0)" using placed_first by blast
  then consider "rm_pc (ps_mods s 0) = AtDone" | "rm_pc (ps_mods s 0) = AtPop" "ring_pop R (ps_ring s) = None"
    using stuck [of 0] n by auto
  then show ?thesis
  proof cases
    case 1
    have "rm_pc (ps_mods s j) = AtDone" if "j < n" for j
      using that
    proof (induction j)
      case (Suc j)
      then have d: "rm_pc (ps_mods s j) = AtDone" by simp
      have "mail_full AtDone (ps_mods s (Suc j)) \<or> stop_taken (ps_mods s (Suc j))"
        using inv_link [OF inv Suc.prems] d by (auto simp: link_ok_def)
      then show ?case using stuck [OF Suc.prems] by (auto simp: mail_full_def stop_taken_def)
    qed (use 1 in simp)
    then show ?thesis using i by simp
  next
    case 2
    have top: "rm_pc (ps_mods s j) = AtTop \<and> md_new_cmd (ps_mods s j) = 0" if "0 < j" "j < n" for j
      using stuck [OF that(2)] stop_reaches_back [OF inv, of j 0] that 2 by (auto simp: stop_taken_def)
    have "slot s j = {#}" if "j < n" for j
    proof (cases j)
      case 0
      then show ?thesis using 2 inv by (simp add: slot_def carried_def mail_def mail_full_def pipeline_inv_def)
    next
      case (Suc j')
      have "\<not> posting (rm_pc (ps_mods s j'))" using top [of j'] 2 Suc that by (cases "j' = 0") auto
      then show ?thesis using top [of j] Suc that by (simp add: slot_def carried_def mail_def mail_full_def)
    qed
    moreover have "elems (ps_ring s) = {#}" using ring_lawsD(3) [OF R 2(2)] .
    ultimately have "chunks_of elems s = {#}" using n by (simp add: chunks_of_def)
    then show ?thesis using some by simp
  qed
qed


subsection \<open>Where the code does not stop\<close>

lemma source_stops_on_exit_only:
  assumes "thread_local R 0 m nx ring shm = Step (m', nx', ring', shm')"
    and "md_method m = Some SourceThread" "rm_pc m \<in> pcs_of SourceThread" "\<not> stopping (rm_pc m)"
  shows "\<not> stopping (rm_pc m')"
  using thread_local_result [OF assms(1)] assms
  by (cases "rm_pc m") (auto simp: goto_def thread_local_def top_step_def Let_def split: if_splits)

lemma reach_source_runs:
  assumes "pipeline_reach R act s0 s" "pipeline_inv n s0" "md_method (ps_mods s0 0) = Some SourceThread"
    and "\<not> stopping (rm_pc (ps_mods s0 0))"
  shows "md_method (ps_mods s 0) = Some SourceThread \<and> (ps_exit s = 0 \<longrightarrow> \<not> stopping (rm_pc (ps_mods s 0)))"
  using assms
proof (induction rule: pipeline_reach.induct)
  case start
  then show ?case by simp
next
  case (step s a s')
  have inv: "pipeline_inv n s" using pipeline_reach_inv [OF step.hyps(1) step.prems(1)] .
  have IH: "md_method (ps_mods s 0) = Some SourceThread" "ps_exit s = 0 \<longrightarrow> \<not> stopping (rm_pc (ps_mods s 0))"
    using step by auto
  show ?case
  proof (cases a)
    case (ThreadOf i)
    then have i: "i < n" and st: "thread_step R i s = Step s'"
      using step.hyps(2) inv by (auto simp: actor_step_def pipeline_inv_def split: if_splits)
    have pl: "placed n i (ps_mods s i)" and ok: "module_ok (ps_mods s i)"
      using inv i by (auto simp: pipeline_inv_def)
    from st pl show ?thesis
    proof (cases rule: thread_step_cases)
      case (1 m' ring' shm')
      then show ?thesis using IH inv by (auto simp: pipeline_inv_def)
    next
      case (2 m' r' ring' shm')
      show ?thesis
      proof (cases "i = 0")
        case True
        then show ?thesis
          using 2 IH ok thread_local_frame [OF 2(2)] source_stops_on_exit_only [of R "ps_mods s 0" _ "ps_ring s" "ps_shm s" m']
          by (auto simp: same_frame_def module_ok_def)
      qed (use 2 IH in auto)
    qed
  next
    case (ChildOf i)
    then obtain m' shm' where c: "child_local (act i) (ps_mods s i) (ps_shm s) = Step (m', shm')"
      and s': "s' = s\<lparr>ps_mods := (ps_mods s)(i := m'), ps_shm := shm'\<rparr>" and i: "i < n"
      using step.hyps(2) inv by (auto simp: actor_step_def child_step_def pipeline_inv_def split: outcome.splits if_splits)
    have "thread_same (ps_mods s i) m'" using child_local_result [OF c] inv i by (simp add: pipeline_inv_def)
    then show ?thesis using IH s' by (auto simp: thread_same_def)
  next
    case (StateOf i st)
    then show ?thesis using IH step.hyps(2) by (auto simp: actor_step_def state_step_def Let_def split: if_splits)
  next
    case ExitFlag
    then show ?thesis using IH step.hyps(2) by (auto simp: actor_step_def)
  qed
qed


text \<open>A client that ends itself (its action returned the status -1) hangs its thread: once the thread has posted
  another job to a client that has left its loop, it waits for the result for ever, whatever the other threads,
  clients and the user do.\<close>

theorem ended_client_hangs_thread:
  assumes "pipeline_reach R act (pipeline_at_start R first k chunks shm) s" "first \<in> {InitialThread, SourceThread}"
    and "i < k + 2" "rm_child (ps_mods s i) = ChildExit" "rm_pc (ps_mods s i) = AtWaitJob"
    and "sem_result (rm_info (ps_mods s i)) = Some 0" "pipeline_reach R act s s'"
  shows "rm_pc (ps_mods s' i) = AtWaitJob \<and> rm_child (ps_mods s' i) = ChildExit"
proof -
  have inv: "pipeline_inv (k + 2) s" using reach_inv [OF assms(1,2)] .
  have "rm_pc (ps_mods s' i) = AtWaitJob \<and> rm_child (ps_mods s' i) = ChildExit \<and>
      sem_result (rm_info (ps_mods s' i)) = Some 0"
    using assms(7)
  proof (induction rule: pipeline_reach.induct)
    case start
    then show ?case using assms(4-6) by simp
  next
    case (step t a t')
    have it: "pipeline_inv (k + 2) t" using pipeline_reach_inv [OF step.hyps(1) inv] .
    let ?P = "\<lambda>m. rm_pc m = AtWaitJob \<and> rm_child m = ChildExit \<and> sem_result (rm_info m) = Some 0"
    show ?case
    proof (cases a)
      case (ThreadOf j)
      then have j: "j < k + 2" and st: "thread_step R j t = Step t'"
        using step.hyps(2) it by (auto simp: actor_step_def pipeline_inv_def split: if_splits)
      have pl: "placed (k + 2) j (ps_mods t j)" using it j by (simp add: pipeline_inv_def)
      have "thread_local R e m nx ring shm \<noteq> Step x" if "?P m" for e m nx ring shm x
        using that by (simp add: thread_local_def Let_def)
      then have "j \<noteq> i" using st step.IH by (auto simp: thread_step_def Let_def split: outcome.splits)
      from st pl show ?thesis
      proof (cases rule: thread_step_cases)
        case (2 m' r' ring' shm')
        then show ?thesis using step.IH \<open>j \<noteq> i\<close> by (auto simp: mailbox_only_def same_frame_def)
      qed (use step.IH \<open>j \<noteq> i\<close> in auto)
    next
      case (ChildOf j)
      then have "j \<noteq> i" using step by (auto simp: actor_step_def child_step_def child_local_def Let_def split: if_splits)
      then show ?thesis using ChildOf step by (auto simp: actor_step_def child_step_def split: outcome.splits if_splits)
    next
      case (StateOf j st)
      then show ?thesis using step by (auto simp: actor_step_def state_step_def Let_def split: if_splits)
    next
      case ExitFlag
      then show ?thesis using step by (auto simp: actor_step_def)
    qed
  qed
  then show ?thesis by simp
qed

subsection \<open>Examples\<close>

definition demo_start :: "thread_method \<Rightarrow> u64 list pipeline_state" where
  "demo_start first = pipeline_at_start ring_instance first 0 [0, 8] (replicate 16 7)"

definition demo_act :: "addr \<Rightarrow> client_action option" where
  "demo_act i = Some (\<lambda>c st off shm. (shm, if i = 0 then -1 else 0))"

lemmas demo_defs = demo_start_def pipeline_at_start_def started_module_def actor_step_def thread_step_def
  thread_local_def top_step_def goto_def child_step_def child_local_def client_command_def demo_act_def client_start_def
  state_step_def ring_instance_def md_state_defs zero_info_def set_cmd_offs_def PROCESS_CMD_JOB_def PROCESS_CMD_STOP_def

text \<open>A source whose client ends itself, run until the second job is posted, and a pipeline that is stopped.\<close>

definition hang_schedule :: "actor list" where
  "hang_schedule = [StateOf 0 MD_STATE_LIVE, ThreadOf 0, ThreadOf 0, ThreadOf 0, ThreadOf 0,
     ChildOf 0, ChildOf 0, ChildOf 0, ThreadOf 0, ThreadOf 0, ThreadOf 0, ThreadOf 0,
     ThreadOf 0, ThreadOf 0, ThreadOf 0, ThreadOf 0]"

definition busy_schedule :: "actor list" where
  "busy_schedule = [StateOf 0 MD_STATE_LIVE, ThreadOf 0, ThreadOf 0, ThreadOf 0, ThreadOf 0, ThreadOf 0, ThreadOf 0,
     ThreadOf 0, ThreadOf 0, ThreadOf 1, ThreadOf 1, ThreadOf 1, ThreadOf 1, ThreadOf 0]"

definition stop_schedule :: "actor list" where
  "stop_schedule = [ExitFlag, ThreadOf 0, ThreadOf 0, ThreadOf 0, ThreadOf 0, ThreadOf 0,
     ThreadOf 1, ThreadOf 1, ThreadOf 1, ThreadOf 1, ThreadOf 1]"

lemma hang_state:
  obtains s where "run_schedule ring_instance demo_act hang_schedule (demo_start SourceThread) = Some s"
    "rm_child (ps_mods s 0) = ChildExit" "rm_pc (ps_mods s 0) = AtWaitJob" "sem_result (rm_info (ps_mods s 0)) = Some 0"
    "ps_exit s = 0"
  by (simp add: hang_schedule_def demo_defs Let_def)

lemma client_state_cases:
  obtains s where "run_schedule ring_instance demo_act (take 6 hang_schedule) (demo_start SourceThread) = Some s"
    "rm_child (ps_mods s 0) = ChildRun"
  by (simp add: hang_schedule_def demo_defs Let_def)

lemma busy_state:
  obtains s where "run_schedule ring_instance demo_act busy_schedule (demo_start InitialThread) = Some s"
    "rm_pc (ps_mods s 0) = AtFill" "rm_pc (ps_mods s 1) = AtClear"
  by (simp add: busy_schedule_def demo_defs Let_def test_text_def region_write_def)

lemma stop_state:
  obtains s where "run_schedule ring_instance demo_act stop_schedule (demo_start InitialThread) = Some s"
    "rm_pc (ps_mods s 1) = AtDone"
  by (simp add: stop_schedule_def demo_defs Let_def)

lemma demo_reach:
  "run_schedule ring_instance demo_act as (demo_start first) = Some s \<Longrightarrow>
     pipeline_reach ring_instance demo_act (pipeline_at_start ring_instance first 0 [0, 8] (replicate 16 7)) s"
  using run_schedule_reach [of ring_instance demo_act as "demo_start first" s "demo_start first"]
  by (simp add: pipeline_reach.start) (simp add: demo_start_def)

theorem mailbox_mutual_exclusion_witness:
  "\<exists>s. run_schedule ring_instance demo_act busy_schedule (demo_start InitialThread) = Some s \<and>
     md_new_cmd (ps_mods s (Suc 0)) + md_result (ps_mods s (Suc 0)) + of_bool (acquired (rm_pc (ps_mods s 0))) +
       of_bool (reading (rm_pc (ps_mods s (Suc 0)))) = (1 :: nat)"
proof -
  obtain s where s: "run_schedule ring_instance demo_act busy_schedule (demo_start InitialThread) = Some s"
    by (rule busy_state)
  then show ?thesis using mailbox_mutual_exclusion [OF demo_reach [OF s], of 0] by auto
qed

theorem client_mutual_exclusion_witness:
  "\<exists>s. run_schedule ring_instance demo_act (take 6 hang_schedule) (demo_start SourceThread) = Some s \<and>
     rm_child (ps_mods s 0) = ChildRun \<and> rm_pc (ps_mods s 0) \<in> {AtWaitJob, AtStopWaitJob} \<and>
     sem_job (rm_info (ps_mods s 0)) = Some 0"
proof -
  obtain s where s: "run_schedule ring_instance demo_act (take 6 hang_schedule) (demo_start SourceThread) = Some s"
    "rm_child (ps_mods s 0) = ChildRun"
    by (rule client_state_cases)
  then show ?thesis using client_mutual_exclusion [OF demo_reach [OF s(1)], of 0] by auto
qed

theorem chunks_conserved_witness:
  "\<exists>s. run_schedule ring_instance demo_act busy_schedule (demo_start InitialThread) = Some s \<and>
     mset (ps_ring s) + (\<Sum>i<2. carried (ps_mods s i) + mail (pred_pc s i) (ps_mods s i)) = {#0, 8#}"
proof -
  obtain s where s: "run_schedule ring_instance demo_act busy_schedule (demo_start InitialThread) = Some s"
    by (rule busy_state)
  then show ?thesis using chunks_conserved [OF demo_reach [OF s] _ ring_instance_laws] by (auto simp: numeral_2_eq_2)
qed


theorem finalization_done_witness:
  "\<exists>s. run_schedule ring_instance demo_act stop_schedule (demo_start InitialThread) = Some s \<and>
     after_stop (rm_pc (ps_mods s 0)) \<and> mset (ps_ring s) = {#0, 8#}"
proof -
  obtain s where s: "run_schedule ring_instance demo_act stop_schedule (demo_start InitialThread) = Some s"
    "rm_pc (ps_mods s 1) = AtDone"
    by (rule stop_state)
  then show ?thesis using finalization_done [OF demo_reach [OF s(1)] _ ring_instance_laws] by auto
qed

lemma demo_act_size: "actions_keep_size demo_act"
  by (simp add: actions_keep_size_def demo_act_def)

theorem pipeline_never_crashes_witness:
  "\<exists>s. run_schedule ring_instance demo_act busy_schedule (demo_start InitialThread) = Some s \<and>
     actor_step ring_instance demo_act (ThreadOf 1) s \<noteq> Crash"
proof -
  obtain s where s: "run_schedule ring_instance demo_act busy_schedule (demo_start InitialThread) = Some s"
    by (rule busy_state)
  then show ?thesis
    using pipeline_never_crashes [OF demo_reach [OF s] _ ring_instance_laws demo_act_size, of "ThreadOf 1"] by auto
qed



theorem ended_client_hangs_thread_witness:
  "\<exists>s. run_schedule ring_instance demo_act hang_schedule (demo_start SourceThread) = Some s \<and>
     rm_pc (ps_mods (s\<lparr>ps_exit := 1\<rparr>) 0) = AtWaitJob"
proof -
  obtain s where s: "run_schedule ring_instance demo_act hang_schedule (demo_start SourceThread) = Some s"
    "rm_child (ps_mods s 0) = ChildExit" "rm_pc (ps_mods s 0) = AtWaitJob" "sem_result (rm_info (ps_mods s 0)) = Some 0"
    by (rule hang_state)
  have "pipeline_reach ring_instance demo_act s (s\<lparr>ps_exit := 1\<rparr>)"
    by (rule pipeline_reach.step [OF pipeline_reach.start, where a = ExitFlag]) (simp add: actor_step_def)
  then show ?thesis
    using ended_client_hangs_thread [OF demo_reach [OF s(1)], of 0 "s\<lparr>ps_exit := 1\<rparr>"] s by auto
qed

end
