(* ===== verification/Pipeline.thy ===== *)
theory Pipeline imports PipelineModule SharedMemory begin

section \<open>The pipeline\<close>

text \<open>
  \<^verbatim>\<open>pipeline/src/pipeline.c\<close>: setting up a pipeline from its description, starting the modules'
  threads, the user's commands and the end. A call that may not return has a result of type
  \<open>call_result\<close>; \<open>None\<close> around it is undefined behaviour. Memory allocation succeeds.
\<close>

definition PL_STATE_UNKNOWN :: int where "PL_STATE_UNKNOWN = -2"
definition PL_STATE_ERROR :: int where "PL_STATE_ERROR = -1"
definition PL_STATE_INIT :: int where "PL_STATE_INIT = 0"
definition PL_STATE_LIVE :: int where "PL_STATE_LIVE = 1"
definition PL_STATE_PAUSE :: int where "PL_STATE_PAUSE = 2"
definition PL_STATE_STOP :: int where "PL_STATE_STOP = 101"

lemmas pl_state_defs = PL_STATE_UNKNOWN_def PL_STATE_ERROR_def PL_STATE_INIT_def PL_STATE_LIVE_def
  PL_STATE_PAUSE_def PL_STATE_STOP_def

definition pipeline_state_string :: "int \<Rightarrow> string" where
  "pipeline_state_string st =
     (if st = PL_STATE_UNKNOWN then ''PL_STATE_UNKNOWN''
      else if st = PL_STATE_ERROR then ''PL_STATE_ERROR''
      else if st = PL_STATE_INIT then ''PL_STATE_INIT''
      else if st = PL_STATE_LIVE then ''PL_STATE_LIVE''
      else if st = PL_STATE_PAUSE then ''PL_STATE_PAUSE''
      else if st = PL_STATE_STOP then ''PL_STATE_STOP''
      else ''NOT_DEFINED'')"

text \<open>\<open>sizeof(struct process_info)\<close>: two semaphores of 32 bytes, four ints, the name and the union.\<close>

definition PROCESS_INFO_SIZE :: u64 where "PROCESS_INFO_SIZE = 2208"

definition pipeline_get_procinfo_size :: u64 where "pipeline_get_procinfo_size = PROCESS_INFO_SIZE"

text \<open>The description is shared with the caller, the modules are in the heap, the segment is an object number.\<close>

record 'l pipeline =
  pl_pdesc :: "pipeline_description option"
  pl_exit_flag :: int
  pl_proc_cnt :: int
  pl_shmpath :: "string option"
  pl_shmem :: "nat option"
  pl_data_cnt :: int
  pl_data_size :: int
  pl_modules_cnt :: int
  pl_modules_list :: 'l
  pl_state :: int
  pl_need_to_free :: int

definition zero_pipeline :: "'l list_ops \<Rightarrow> 'l pipeline" where
  "zero_pipeline L = \<lparr>pl_pdesc = None, pl_exit_flag = 0, pl_proc_cnt = 0, pl_shmpath = None, pl_shmem = None,
     pl_data_cnt = 0, pl_data_size = 0, pl_modules_cnt = 0, pl_modules_list = list_init L, pl_state = 0,
     pl_need_to_free = 0\<rparr>"

subsection \<open>Setting up\<close>

text \<open>
  The map of a new pipeline: the counts and sizes go through the \<open>int\<close> fields of the pipeline, so the
  description's \<open>size_t\<close> data size is cut to 32 bits and extended again.
\<close>

definition pipeline_map :: "pipeline_description \<Rightarrow> memory_map" where
  "pipeline_map pdesc = memory_map_create
     (if pd_proc_cnt pdesc > 0 then pd_proc_cnt pdesc + 2 else PROCESS_MAX_CNT) PROCESS_INFO_SIZE
     (pd_data_cnt pdesc) (size_of_int (int_of_size (pd_data_size pdesc)))
     1 (size_of_int DESCRIPTOR_DATA_MAX_LEN)"

text \<open>
  \<open>pipeline_init\<close> from the descriptions of the modules on. A failing \<open>pipeline_modules_update\<close> calls
  \<open>pipeline_destroy\<close>, which joins a thread that was never created: undefined.
\<close>

definition pipeline_init_modules ::
  "'l list_ops \<Rightarrow> pipeline_description \<Rightarrow> 'l pipeline \<Rightarrow> shm_os \<Rightarrow> module_heap \<Rightarrow>
     (int \<times> 'l pipeline option \<times> shm_os \<times> module_heap) option" where
  "pipeline_init_modules L pdesc pl os h =
     (let minfos = (case pd_minfos pdesc of None \<Rightarrow> [] | Some ms \<Rightarrow> ms) in
      if length minfos < nat (pd_modules_cnt pdesc) then None
      else do {
        (l, cnt, h1) \<leftarrow> add_modules L (take (nat (pd_modules_cnt pdesc)) minfos) (list_init L) (pl_modules_cnt pl) h;
        (rc, h2) \<leftarrow> pipeline_modules_update L l h1;
        if rc \<noteq> 0 then None
        else Some (0, Some (pl\<lparr>pl_modules_list := l, pl_modules_cnt := cnt\<rparr>), os, h2) })"

definition pipeline_init ::
  "'l list_ops \<Rightarrow> shm_faults \<Rightarrow> 'l pipeline option \<Rightarrow> pipeline_description option \<Rightarrow> shm_os \<Rightarrow> module_heap \<Rightarrow>
     (int \<times> 'l pipeline option \<times> shm_os \<times> module_heap) option" where
  "pipeline_init L flt p_pl p_desc os h =
     (case p_desc of
        None \<Rightarrow> Some (-1, p_pl, os, h)
      | Some pdesc \<Rightarrow> do {
          path \<leftarrow> pd_shmpath pdesc;
          let pl = (case p_pl of Some pl \<Rightarrow> pl | None \<Rightarrow> (zero_pipeline L)\<lparr>pl_need_to_free := 1\<rparr>);
              pl = pl\<lparr>pl_pdesc := Some pdesc, pl_state := PL_STATE_UNKNOWN, pl_exit_flag := 0,
                pl_proc_cnt := (if pd_proc_cnt pdesc > 0 then pd_proc_cnt pdesc + 2 else PROCESS_MAX_CNT),
                pl_data_cnt := pd_data_cnt pdesc, pl_data_size := int_of_size (pd_data_size pdesc),
                pl_shmpath := Some path\<rparr>
          in if pd_use_common_shmem pdesc = 0 then do {
               let os1 = shared_memory_unlink path os;
               (shm, os2) \<leftarrow> shared_memory_server_init flt (Some path) (Some (pipeline_map pdesc)) os1;
               (case shm of
                  None \<Rightarrow> Some (-1, None, os2, h)
                | Some ob \<Rightarrow> do {
                    (rc, os3) \<leftarrow> shared_memory_setenv flt (Some path) (shm_objects os2 ob) os2;
                    pipeline_init_modules L pdesc (pl\<lparr>pl_shmem := Some ob\<rparr>) os3 h }) }
             else do {
               (shm, os1) \<leftarrow> shared_memory_client_init flt (Some path) (pd_shmsize pdesc) os;
               (case shm of
                  None \<Rightarrow> Some (-1, None, os1, h)
                | Some ob \<Rightarrow> pipeline_init_modules L pdesc (pl\<lparr>pl_shmem := Some ob\<rparr>) os1 h) } })"

subsection \<open>The data chunks\<close>

definition data_chunks :: "memory_map \<Rightarrow> u64 list" where
  "data_chunks mp = map (\<lambda>i. memory_get_data_offset mp + of_nat i * data_size mp) [0..<nat (data_cnt mp)]"

subsection \<open>Starting the modules\<close>

text \<open>
  What a module's thread does up to \<open>sem_post(module->start_control)\<close>: it takes an id from the process
  manager and posts, or returns without posting (\<open>Hangs\<close> for the pipeline's thread, which waits for
  the post). A failed start sets the exit flag.
\<close>

definition thread_prologue ::
  "pipeline_module \<Rightarrow> bool \<Rightarrow> fork_result \<Rightarrow> process_mngr \<Rightarrow> int \<Rightarrow>
     (pipeline_module \<times> process_mngr \<times> int) call_result option" where
  "thread_prologue m access_ok fork pm exit_flag = do {
     meth \<leftarrow> md_method m;
     (if meth = InitialThread \<or> meth = FinalizationThread then do {
        (idx, pm') \<leftarrow> process_start None access_ok fork pm;
        Some (Returns (m\<lparr>md_idx := idx\<rparr>, pm', exit_flag)) }
      else (case md_minfo m of
          None \<Rightarrow> (if meth = SourceThread then Some Hangs else None)
        | Some minfo \<Rightarrow>
            (case minfo_argv minfo of
               None \<Rightarrow> Some Hangs
             | Some argv \<Rightarrow> do {
                 (idx, pm') \<leftarrow> process_start (Some argv) access_ok fork pm;
                 Some (Returns (m\<lparr>md_idx := idx\<rparr>, pm', if idx < 0 then 1 else exit_flag)) }))) }"

text \<open>
  The start loop of \<open>pipeline_thread\<close>. A module that could not start (idx -1) is joined: a source or
  process thread has returned, an initial or finalization thread is in its loop and never returns.
  The answers of \<open>access\<close> and \<open>fork\<close> for the modules in turn are the list \<open>ans\<close>.
\<close>

record start_state =
  ss_heap :: "addr \<Rightarrow> pipeline_module option"
  ss_pm :: process_mngr
  ss_exit :: int
  ss_state :: int
  ss_started :: nat

fun start_modules ::
  "addr list \<Rightarrow> (bool \<times> fork_result) list \<Rightarrow> start_state \<Rightarrow> start_state call_result option" where
  "start_modules [] ans s = Some (Returns s)"
| "start_modules (a # as) [] s = Some Hangs"
| "start_modules (a # as) ((acc, fork) # ans) s = do {
     m0 \<leftarrow> ss_heap s a;
     r \<leftarrow> thread_prologue (pipeline_module_init m0) acc fork (ss_pm s) (ss_exit s);
     (case r of
        Hangs \<Rightarrow> Some Hangs
      | Returns (m, pm, exit_flag) \<Rightarrow>
          let s' = s\<lparr>ss_pm := pm, ss_exit := exit_flag\<rparr> in
          if md_idx m = -1 then
            (if md_method m = Some InitialThread \<or> md_method m = Some FinalizationThread then Some Hangs
             else Some (Returns (s'\<lparr>ss_state := PL_STATE_ERROR,
                    ss_heap := (ss_heap s)(a \<mapsto> snd (pipeline_module_set_state MD_STATE_ERROR m))\<rparr>)))
          else start_modules as ans (s'\<lparr>ss_started := Suc (ss_started s),
                 ss_heap := (ss_heap s)(a \<mapsto> snd (pipeline_module_set_state MD_STATE_INIT m))\<rparr>)) }"

text \<open>\<open>pipeline_thread\<close> up to the joins: the process table is set up, the modules are started, the state is set.\<close>

definition pipeline_thread_start ::
  "(nat \<Rightarrow> bool \<times> bool) \<Rightarrow> process_info list \<Rightarrow> memory_map \<Rightarrow> addr list \<Rightarrow> (bool \<times> fork_result) list \<Rightarrow>
     (addr \<Rightarrow> pipeline_module option) \<Rightarrow> process_mngr \<Rightarrow> int \<Rightarrow> start_state call_result option" where
  "pipeline_thread_start ok table mp mods ans heap pm exit_flag = do {
     (rc, table', pm') \<leftarrow> process_subsystem_init ok table (process_cnt mp) pm;
     r \<leftarrow> start_modules mods ans \<lparr>ss_heap = heap, ss_pm = pm', ss_exit = exit_flag,
            ss_state = PL_STATE_UNKNOWN, ss_started = 0\<rparr>;
     (case r of
        Hangs \<Rightarrow> Some Hangs
      | Returns s \<Rightarrow> Some (Returns (s\<lparr>ss_state :=
          (if ss_started s \<ge> 2 then PL_STATE_INIT else PL_STATE_ERROR)\<rparr>))) }"

text \<open>
  The end of \<open>pipeline_thread\<close>: every module that was started is joined (\<open>ended\<close> says whose thread has
  returned) and destroyed, and the process table with them.
\<close>

fun join_modules ::
  "(addr \<Rightarrow> bool) \<Rightarrow> addr list \<Rightarrow> (addr \<Rightarrow> pipeline_module option) \<Rightarrow>
     (addr \<Rightarrow> pipeline_module option) call_result option" where
  "join_modules ended [] heap = Some (Returns heap)"
| "join_modules ended (a # as) heap = do {
     m \<leftarrow> heap a;
     if md_idx m \<noteq> -1 \<and> \<not> ended a then Some Hangs
     else join_modules ended as (heap(a \<mapsto> pipeline_module_destroy m)) }"

definition pipeline_thread_end ::
  "(addr \<Rightarrow> bool) \<Rightarrow> addr list \<Rightarrow> (addr \<Rightarrow> pipeline_module option) \<Rightarrow> process_mngr \<Rightarrow>
     ((addr \<Rightarrow> pipeline_module option) \<times> process_mngr) call_result option" where
  "pipeline_thread_end ended mods heap pm = do {
     r \<leftarrow> join_modules ended mods heap;
     (case r of
        Hangs \<Rightarrow> Some Hangs
      | Returns heap' \<Rightarrow> do { pm' \<leftarrow> process_subsystem_destroy pm; Some (Returns (heap', pm')) }) }"

subsection \<open>Commands\<close>

text \<open>
  \<open>pipeline_start\<close> polls the state until it is \<open>PL_STATE_INIT\<close>; \<open>obs\<close> are the values the polls read
  (the pipeline's thread sets the state), and the call has not returned when they are used up.
\<close>

fun poll_init :: "int list \<Rightarrow> bool" where
  "poll_init [] = False"
| "poll_init (st # obs) = (st = PL_STATE_INIT \<or> poll_init obs)"

definition set_all ::
  "'l list_ops \<Rightarrow> int \<Rightarrow> int \<Rightarrow> 'l pipeline \<Rightarrow> module_heap \<Rightarrow> ('l pipeline \<times> module_heap) option" where
  "set_all L md st pl h = do {
     h' \<leftarrow> pipeline_modules_set_state L md (pl_modules_list pl) h;
     Some (pl\<lparr>pl_state := st\<rparr>, h') }"

definition pipeline_start ::
  "'l list_ops \<Rightarrow> int list \<Rightarrow> 'l pipeline \<Rightarrow> module_heap \<Rightarrow> ('l pipeline \<times> module_heap) call_result option" where
  "pipeline_start L obs pl h =
     (if poll_init obs then map_option Returns (set_all L MD_STATE_PAUSE PL_STATE_PAUSE pl h) else Some Hangs)"

definition pipeline_live :: "'l list_ops \<Rightarrow> 'l pipeline \<Rightarrow> module_heap \<Rightarrow> ('l pipeline \<times> module_heap) option" where
  "pipeline_live L pl h =
     (if pl_state pl = PL_STATE_PAUSE then set_all L MD_STATE_LIVE PL_STATE_LIVE pl h else Some (pl, h))"

definition pipeline_pause :: "'l list_ops \<Rightarrow> 'l pipeline \<Rightarrow> module_heap \<Rightarrow> ('l pipeline \<times> module_heap) option" where
  "pipeline_pause L pl h =
     (if pl_state pl = PL_STATE_LIVE then set_all L MD_STATE_PAUSE PL_STATE_PAUSE pl h else Some (pl, h))"

definition pipeline_stop :: "'l list_ops \<Rightarrow> 'l pipeline \<Rightarrow> module_heap \<Rightarrow> ('l pipeline \<times> module_heap) option" where
  "pipeline_stop L pl h = set_all L MD_STATE_STOP PL_STATE_STOP pl h"

text \<open>
  The end: the pipeline's thread is joined first (\<open>ended\<close>: it has returned), then the segment is given
  back and every module is deleted, and then its freed structure is passed to
  \<open>pipeline_module_destroy\<close>, which writes to it: undefined as soon as there is a module.
\<close>

definition pipeline_destroy ::
  "'l list_ops \<Rightarrow> bool \<Rightarrow> 'l pipeline \<Rightarrow> shm_os \<Rightarrow> module_heap \<Rightarrow> (shm_os \<times> module_heap) call_result option" where
  "pipeline_destroy L ended pl os h =
     (if \<not> ended then Some Hangs
      else do {
        (pl1, h1) \<leftarrow> set_all L MD_STATE_UNKNOWN PL_STATE_UNKNOWN pl h;
        os1 \<leftarrow> (if (case pl_pdesc pl of None \<Rightarrow> True | Some d \<Rightarrow> pd_use_common_shmem d = 0)
                then do { path \<leftarrow> pl_shmpath pl; ob \<leftarrow> pl_shmem pl;
                          shared_memory_destroy path (shm_objects os ob) os }
                else Some os);
        (case list_walk L (pl_modules_list pl) of
           [] \<Rightarrow> Some (Returns (os1, h1))
         | a # _ \<Rightarrow> do {
             (l, cnt, h2) \<leftarrow> pipeline_module_delete L (Some (pl_modules_list pl)) (pl_modules_cnt pl) a h1;
             m \<leftarrow> mh_store h2 a;
             Some Hangs }) })"

subsection \<open>The commands as a state machine\<close>

datatype command = CmdStart | CmdLive | CmdPause | CmdStop

text \<open>What the commands promise: the state after a command that returns.\<close>

fun command_spec :: "command \<Rightarrow> int \<Rightarrow> int" where
  "command_spec CmdStart st = PL_STATE_PAUSE"
| "command_spec CmdLive st = (if st = PL_STATE_PAUSE then PL_STATE_LIVE else st)"
| "command_spec CmdPause st = (if st = PL_STATE_LIVE then PL_STATE_PAUSE else st)"
| "command_spec CmdStop st = PL_STATE_STOP"

definition command_step ::
  "'l list_ops \<Rightarrow> command \<Rightarrow> 'l pipeline \<times> module_heap \<Rightarrow> ('l pipeline \<times> module_heap) call_result option" where
  "command_step L c s = (case s of (pl, h) \<Rightarrow>
     (case c of
        CmdStart \<Rightarrow> pipeline_start L [pl_state pl] pl h
      | CmdLive \<Rightarrow> map_option Returns (pipeline_live L pl h)
      | CmdPause \<Rightarrow> map_option Returns (pipeline_pause L pl h)
      | CmdStop \<Rightarrow> map_option Returns (pipeline_stop L pl h)))"

fun run_commands ::
  "'l list_ops \<Rightarrow> command list \<Rightarrow> 'l pipeline \<times> module_heap \<Rightarrow> ('l pipeline \<times> module_heap) call_result option" where
  "run_commands L [] s = Some (Returns s)"
| "run_commands L (c # cs) s = do {
     r \<leftarrow> command_step L c s;
     (case r of Hangs \<Rightarrow> Some Hangs | Returns s' \<Rightarrow> run_commands L cs s') }"

subsection \<open>The commands follow one state machine\<close>

definition modules_in_step :: "'l list_ops \<Rightarrow> 'l pipeline \<Rightarrow> module_heap \<Rightarrow> bool" where
  "modules_in_step L pl h \<longleftrightarrow> modules_ok L (pl_modules_list pl) h \<and>
     (\<forall>a \<in> set (list_walk L (pl_modules_list pl)).
        md_state (the (mh_store h a)) = MD_STATE_ERROR \<or> md_state (the (mh_store h a)) = pl_state pl)"

fun spec_run :: "command list \<Rightarrow> int \<Rightarrow> int call_result" where
  "spec_run [] st = Returns st"
| "spec_run (c # cs) st =
     (if c = CmdStart \<and> st \<noteq> PL_STATE_INIT then Hangs else spec_run cs (command_spec c st))"

lemma set_all_in_step:
  assumes "modules_in_step L pl h"
  shows "\<exists>h'. set_all L st st pl h = Some (pl\<lparr>pl_state := st\<rparr>, h') \<and> modules_in_step L (pl\<lparr>pl_state := st\<rparr>) h'"
proof -
  let ?as = "list_walk L (pl_modules_list pl)"
  have ok: "modules_ok L (pl_modules_list pl) h" using assms by (simp add: modules_in_step_def)
  then have "\<forall>a \<in> set ?as. mh_store h a \<noteq> None" "distinct ?as" by (auto simp: modules_ok_def)
  from set_states_result [OF this, of st] ok show ?thesis
    by (fastforce simp: set_all_def pipeline_modules_set_state_def modules_in_step_def modules_ok_def
        pipeline_module_set_state_def)
qed

lemma command_step_result:
  assumes "modules_in_step L pl h"
  shows "if c = CmdStart \<and> pl_state pl \<noteq> PL_STATE_INIT then command_step L c (pl, h) = Some Hangs
    else \<exists>pl' h'. command_step L c (pl, h) = Some (Returns (pl', h')) \<and> modules_in_step L pl' h' \<and>
      pl_state pl' = command_spec c (pl_state pl)"
proof -
  have same: "MD_STATE_PAUSE = PL_STATE_PAUSE" "MD_STATE_LIVE = PL_STATE_LIVE" "MD_STATE_STOP = PL_STATE_STOP"
    by (simp_all add: md_state_defs pl_state_defs)
  note set = set_all_in_step [OF assms]
  show ?thesis
    using assms set [of PL_STATE_PAUSE] set [of PL_STATE_LIVE] set [of PL_STATE_STOP]
    by (cases c) (auto simp: command_step_def pipeline_start_def pipeline_live_def pipeline_pause_def
        pipeline_stop_def same)
qed

lemma run_commands_result:
  "modules_in_step L pl h \<Longrightarrow> \<exists>r. run_commands L cs (pl, h) = Some r \<and>
    (case r of
       Hangs \<Rightarrow> spec_run cs (pl_state pl) = Hangs
     | Returns (pl', h') \<Rightarrow> spec_run cs (pl_state pl) = Returns (pl_state pl') \<and> modules_in_step L pl' h')"
proof (induction cs arbitrary: pl h)
  case Nil
  then show ?case by simp
next
  case (Cons c cs)
  show ?case
  proof (cases "c = CmdStart \<and> pl_state pl \<noteq> PL_STATE_INIT")
    case True
    then show ?thesis using command_step_result [OF Cons.prems, of c] by simp
  next
    case False
    then obtain pl' h' where s: "command_step L c (pl, h) = Some (Returns (pl', h'))" "modules_in_step L pl' h'"
      "pl_state pl' = command_spec c (pl_state pl)"
      using command_step_result [OF Cons.prems, of c] by auto
    have e: "spec_run (c # cs) (pl_state pl) = spec_run cs (pl_state pl')" using False s(3) by auto
    show ?thesis using Cons.IH [OF s(2)] s(1) unfolding e by simp
  qed
qed


lemma spec_run_stopped:
  "spec_run cs PL_STATE_STOP = Returns st \<Longrightarrow> st = PL_STATE_STOP \<and> CmdStart \<notin> set cs"
proof (induction cs)
  case (Cons c cs)
  then show ?case by (cases c) (auto simp: pl_state_defs split: if_splits)
qed simp

lemma spec_run_append:
  "spec_run (cs @ ds) st = (case spec_run cs st of Hangs \<Rightarrow> Hangs | Returns st' \<Rightarrow> spec_run ds st')"
  by (induction cs arbitrary: st) auto

text \<open>A stop is final: whatever commands return after it, the pipeline and every module that is not in the
  error state stay in the stop state.\<close>

theorem pipeline_stop_is_final:
  assumes "modules_in_step L pl h" "run_commands L (cs @ CmdStop # ds) (pl, h) = Some (Returns (pl', h'))"
  shows "pl_state pl' = PL_STATE_STOP \<and>
    (\<forall>a \<in> set (list_walk L (pl_modules_list pl')).
       md_state (the (mh_store h' a)) = MD_STATE_ERROR \<or> md_state (the (mh_store h' a)) = PL_STATE_STOP)"
proof -
  have r: "spec_run (cs @ CmdStop # ds) (pl_state pl) = Returns (pl_state pl')" "modules_in_step L pl' h'"
    using run_commands_result [OF assms(1), of "cs @ CmdStop # ds"] assms(2) by auto
  then obtain st where "spec_run (CmdStop # ds) st = Returns (pl_state pl')"
    by (auto simp: spec_run_append split: call_result.splits)
  then have "pl_state pl' = PL_STATE_STOP" using spec_run_stopped [of ds] by auto
  then show ?thesis using r(2) by (simp add: modules_in_step_def)
qed

definition demo_pipeline :: "addr list pipeline" where
  "demo_pipeline = (zero_pipeline list_instance)\<lparr>pl_modules_list := [0, 1], pl_modules_cnt := 2,
     pl_state := PL_STATE_UNKNOWN\<rparr>"

lemma demo_in_step: "modules_in_step list_instance demo_pipeline two_heap"
  using two_heap_ok by (simp add: modules_in_step_def demo_pipeline_def two_heap_def two_modules_def empty_heap_def
      list_instance_def pipeline_module_add_def Let_def zero_module_def pl_state_defs md_state_defs)


lemma run_commands_returns:
  assumes "modules_in_step L pl h" "spec_run cs (pl_state pl) \<noteq> Hangs"
  shows "\<exists>pl' h'. run_commands L cs (pl, h) = Some (Returns (pl', h'))"
proof -
  obtain r where "run_commands L cs (pl, h) = Some r" "r \<noteq> Hangs"
    using run_commands_result [OF assms(1), of cs] assms(2) by (fastforce split: call_result.splits)
  then show ?thesis by (cases r) auto
qed

theorem pipeline_stop_is_final_witness:
  "\<exists>pl' h'. run_commands list_instance ([] @ CmdStop # [CmdLive]) (demo_pipeline, two_heap) = Some (Returns (pl', h'))
     \<and> pl_state pl' = PL_STATE_STOP"
proof -
  have "spec_run ([] @ CmdStop # [CmdLive]) (pl_state demo_pipeline) \<noteq> Hangs"
    by (simp add: demo_pipeline_def pl_state_defs)
  then show ?thesis using pipeline_stop_is_final [OF demo_in_step] run_commands_returns [OF demo_in_step] by blast
qed

subsection \<open>The chunks lie in the data segment\<close>

lemma chunk_offset:
  assumes "map_fits mp" "i < nat (data_cnt mp)"
  shows "unat (data_chunks mp ! i) = segment_start mp DataSegment + i * unat (data_size mp)"
    and "i * unat (data_size mp) + unat (data_size mp) \<le> segment_extent mp DataSegment"
proof -
  let ?d = "unat (data_size mp)" and ?o = "memory_get_data_offset mp"
  have "Suc i * ?d \<le> nat (data_cnt mp) * ?d" using assms(2) by (intro mult_le_mono1) simp
  also have "\<dots> \<le> unat (memory_get_data_size mp)"
    using align_up_ge [of "part_size (data_size mp) (data_cnt mp)"]
    by (simp add: data_size_fits [OF assms(1)] part_size_def mult.commute)
  finally have in_part: "i * ?d + ?d \<le> unat (memory_get_data_size mp)" by simp
  then show "i * ?d + ?d \<le> segment_extent mp DataSegment" by simp
  have room: "unat ?o + unat (memory_get_data_size mp) < 2 ^ 64"
    using parts_bounded [OF assms(1)] offsets_fit(1) [OF assms(1)] by linarith
  have "nat (data_cnt mp) < 2 ^ 31" using assms(1) by (simp add: map_fits_def nat_less_iff)
  then have ui: "unat (of_nat i :: u64) = i" using assms(2) by (intro unat_of_nat_small) simp
  have um: "unat (of_nat i * data_size mp) = i * ?d"
    using in_part room ui by (subst unat_mult_small) simp_all
  have "unat (?o + of_nat i * data_size mp) = unat ?o + i * ?d"
    using in_part room um by (subst unat_add_small) simp_all
  then show "unat (data_chunks mp ! i) = segment_start mp DataSegment + i * ?d"
    using assms(2) by (simp add: data_chunks_def)
qed

text \<open>C39: The chunks the pipeline's thread puts into the ring lie in the data segment one after the other: none
  begins before it or reaches beyond it, and no two overlap.\<close>

theorem data_chunks_separate:
  assumes "map_fits mp" "i < nat (data_cnt mp)"
  shows "segment_start mp DataSegment \<le> unat (data_chunks mp ! i) \<and>
    unat (data_chunks mp ! i) + unat (data_size mp) \<le> segment_start mp DataSegment + segment_extent mp DataSegment \<and>
    (\<forall>j < i. unat (data_chunks mp ! j) + unat (data_size mp) \<le> unat (data_chunks mp ! i))"
proof (intro conjI allI impI)
  note i = chunk_offset [OF assms]
  show "segment_start mp DataSegment \<le> unat (data_chunks mp ! i)" unfolding i(1) by simp
  show "unat (data_chunks mp ! i) + unat (data_size mp) \<le> segment_start mp DataSegment + segment_extent mp DataSegment"
    unfolding i(1) using i(2) by linarith
  fix j assume j: "j < i"
  then have "Suc j * unat (data_size mp) \<le> i * unat (data_size mp)" by (intro mult_le_mono1) simp
  then show "unat (data_chunks mp ! j) + unat (data_size mp) \<le> unat (data_chunks mp ! i)"
    using chunk_offset(1) [OF assms(1), of j] j assms(2) unfolding i(1) by simp
qed

lemma small_map_fits: "map_fits (memory_map_create 4 2208 2 100 1 1000)"
  by (simp add: map_fits_def memory_map_create_def part_size_def)

theorem data_chunks_separate_witness:
  "unat (data_chunks (memory_map_create 4 2208 2 100 1 1000) ! 0) + 100 \<le>
     unat (data_chunks (memory_map_create 4 2208 2 100 1 1000) ! 1)"
  using data_chunks_separate [OF small_map_fits, of 1] by (simp add: memory_map_create_def)


subsection \<open>A pipeline that is set up and started\<close>

lemma find_map: "find P (map g xs) = map_option g (find (\<lambda>x. P (g x)) xs)"
  by (induction xs) auto

definition unlinked :: "pipeline_module_info list \<Rightarrow> nat" where
  "unlinked infos = length (filter (\<lambda>mi. find (\<lambda>x. minfo_id x = minfo_next mi) infos = None) infos)"

definition holds_infos :: "pipeline_module_info list \<Rightarrow> nat \<Rightarrow> (addr \<Rightarrow> pipeline_module option) \<Rightarrow> bool" where
  "holds_infos infos f store \<longleftrightarrow> (\<forall>i < length infos. \<exists>m. store (f + i) = Some m \<and> md_id m = minfo_id (infos ! i) \<and>
     md_minfo m = Some (infos ! i) \<and> md_method m = module_method (infos ! i) \<and> md_idx m = -1)"

lemma infos_as_map: "infos = map (\<lambda>b. infos ! (b - f)) [f..<f + length infos]"
  by (rule nth_equalityI) simp_all

lemma next_of_infos:
  assumes "holds_infos infos f store" "i < length infos"
  shows "map_option (\<lambda>b. infos ! (b - f)) (next_of [f..<f + length infos] store (f + i)) =
    find (\<lambda>x. minfo_id x = minfo_next (infos ! i)) infos"
proof -
  let ?as = "[f..<f + length infos]" and ?g = "\<lambda>b. infos ! (b - f)"
  have ids: "b \<in> set ?as \<Longrightarrow> md_id (the (store b)) = minfo_id (?g b)" for b
    using assms(1) by (auto simp: holds_infos_def dest!: spec [of _ "b - f"])
  have "next_of ?as store (f + i) = find (\<lambda>b. minfo_id (?g b) = minfo_next (infos ! i)) ?as"
    using assms ids unfolding next_of_def by (intro find_cong) (auto simp: holds_infos_def)
  moreover have "find (\<lambda>x. minfo_id x = minfo_next (infos ! i)) (map ?g ?as) =
      map_option ?g (find (\<lambda>b. minfo_id (?g b) = minfo_next (infos ! i)) ?as)" by (rule find_map)
  ultimately show ?thesis by (simp flip: infos_as_map)
qed

lemma ends_infos:
  assumes "holds_infos infos f store"
  shows "ends [f..<f + length infos] store [f..<f + length infos] = unlinked infos"
proof -
  let ?as = "[f..<f + length infos]" and ?g = "\<lambda>b. infos ! (b - f)"
  have "b \<in> set ?as \<Longrightarrow> next_of ?as store b = None \<longleftrightarrow> find (\<lambda>x. minfo_id x = minfo_next (?g b)) infos = None" for b
    using next_of_infos [OF assms, of "b - f"] by (auto simp del: map_option_is_None simp flip: map_option_is_None)
  then have "filter (\<lambda>b. next_of ?as store b = None) ?as =
      filter (\<lambda>b. find (\<lambda>x. minfo_id x = minfo_next (?g b)) infos = None) ?as"
    by (intro filter_cong) auto
  moreover have "unlinked infos = length (filter (\<lambda>b. find (\<lambda>x. minfo_id x = minfo_next (?g b)) infos = None) ?as)"
    unfolding unlinked_def by (subst (2) infos_as_map [of infos f]) (simp add: filter_map comp_def)
  ultimately show ?thesis by (simp add: ends_def)
qed

lemma init_modules_ok:
  assumes "list_laws L" "pd_minfos pd = Some (map Some infos)" "pd_modules_cnt pd = int (length infos)"
    and "unlinked infos \<le> 1" "pl_modules_cnt pl = 0"
  shows "\<exists>l h'. pipeline_init_modules L pd pl os h =
      Some (0, Some (pl\<lparr>pl_modules_list := l, pl_modules_cnt := int (length infos)\<rparr>), os, h') \<and>
    list_walk L l = [mh_fresh h..<mh_fresh h + length infos] \<and>
    (\<forall>i < length infos. \<exists>m. mh_store h' (mh_fresh h + i) = Some m \<and> md_minfo m = Some (infos ! i) \<and>
       md_method m = module_method (infos ! i) \<and>
       map_option (\<lambda>b. infos ! (b - mh_fresh h)) (md_next m) = find (\<lambda>x. minfo_id x = minfo_next (infos ! i)) infos)"
proof -
  let ?f = "mh_fresh h" and ?as = "[mh_fresh h..<mh_fresh h + length infos]"
  have w0: "list_walk L (list_init L) = []" by (rule list_lawsD [OF assms(1)])
  have "modules_ok L (list_init L) h" by (simp add: modules_ok_def w0)
  from add_modules_result [OF assms(1) this, of infos "pl_modules_cnt pl"] obtain l h1 where
    a: "add_modules L (map Some infos) (list_init L) (pl_modules_cnt pl) h = Some (l, int (length infos), h1)"
    and ok: "modules_ok L l h1" and w: "list_walk L l = ?as" and inf: "holds_infos infos ?f (mh_store h1)"
    unfolding holds_infos_def using w0 assms(5) by auto
  have e: "ends (list_walk L l) (mh_store h1) (list_walk L l) \<le> 1" using ends_infos [OF inf] assms(4) by (simp add: w)
  have "\<forall>a \<in> set (list_walk L l). mh_store h1 a \<noteq> None" "distinct (list_walk L l)" "infos_ok ?as (mh_store h1)"
    using ok by (auto simp: modules_ok_def infos_ok_def w)
  from update_loop_result [OF this(3) subset_refl this(2) [unfolded w], of False] obtain h2 where
    u: "pipeline_modules_update L l h1 = Some (0, h2)"
    "mh_store h2 = (\<lambda>a. if a \<in> set ?as then Some (linked ?as (mh_store h1) a) else mh_store h1 a)"
    using e by (auto simp: pipeline_modules_update_def w)
  have "\<exists>m. mh_store h2 (?f + i) = Some m \<and> md_minfo m = Some (infos ! i) \<and> md_method m = module_method (infos ! i) \<and>
      map_option (\<lambda>b. infos ! (b - ?f)) (md_next m) = find (\<lambda>x. minfo_id x = minfo_next (infos ! i)) infos"
    if "i < length infos" for i
    using next_of_infos [OF inf that] inf that by (auto simp: u(2) linked_def holds_infos_def)
  moreover have "pipeline_init_modules L pd pl os h =
      Some (0, Some (pl\<lparr>pl_modules_list := l, pl_modules_cnt := int (length infos)\<rparr>), os, h2)"
    using assms(2,3) a u(1) by (simp add: pipeline_init_modules_def)
  ultimately show ?thesis using w by blast
qed

text \<open>Setting up with a segment of its own.\<close>

lemma pipeline_init_linked:
  assumes "list_laws L" "pd_shmpath pd = Some path" "pd_use_common_shmem pd = 0"
    and "pd_minfos pd = Some (map Some infos)" "pd_modules_cnt pd = int (length infos)" "unlinked infos \<le> 1"
    and "map_fits (pipeline_map pd)" "0 \<le> sint (memory_get_size (pipeline_map pd))"
  shows "\<exists>pl os' h' shm. pipeline_init L no_faults None (Some pd) os h = Some (0, Some pl, os', h') \<and>
    pl_state pl = PL_STATE_UNKNOWN \<and> pl_shmem pl = Some shm \<and> valid_shm (pipeline_map pd) (shm_objects os' shm) \<and>
    list_walk L (pl_modules_list pl) = [mh_fresh h..<mh_fresh h + length infos] \<and>
    (\<forall>i < length infos. \<exists>m. mh_store h' (mh_fresh h + i) = Some m \<and> md_minfo m = Some (infos ! i) \<and>
       md_method m = module_method (infos ! i) \<and>
       map_option (\<lambda>b. infos ! (b - mh_fresh h)) (md_next m) = find (\<lambda>x. minfo_id x = minfo_next (infos ! i)) infos)"
proof -
  let ?os1 = "shared_memory_unlink path os"
  have free: "shm_names ?os1 path = None" by (simp add: shared_memory_unlink_def shm_unlink_def)
  obtain shm where v: "valid_shm (pipeline_map pd) shm" and
    s: "shared_memory_server_init no_faults (Some path) (Some (pipeline_map pd)) ?os1 = Some (Some (shm_next ?os1),
       ?os1\<lparr>shm_names := (shm_names ?os1)(path := Some (shm_next ?os1)),
         shm_objects := (shm_objects ?os1)(shm_next ?os1 := shm), shm_next := Suc (shm_next ?os1)\<rparr>)"
    using server_init_fresh [OF assms(7,8) free] by blast
  have sz: "shared_memory_get_size shm = Some (memory_get_size (pipeline_map pd))"
    using v by (simp add: valid_shm_def shared_memory_get_size_def)
  let ?pl = "(zero_pipeline L)\<lparr>pl_need_to_free := 1, pl_pdesc := Some pd, pl_state := PL_STATE_UNKNOWN, pl_exit_flag := 0,
                pl_proc_cnt := (if pd_proc_cnt pd > 0 then pd_proc_cnt pd + 2 else PROCESS_MAX_CNT),
                pl_data_cnt := pd_data_cnt pd, pl_data_size := int_of_size (pd_data_size pd),
                pl_shmpath := Some path, pl_shmem := Some (shm_next ?os1)\<rparr>"
  have "pl_modules_cnt ?pl = 0" by (simp add: zero_pipeline_def)
  note m = init_modules_ok [OF assms(1,4,5,6) this]
  define os2 where "os2 = ?os1\<lparr>shm_names := (shm_names ?os1)(path := Some (shm_next ?os1)),
         shm_objects := (shm_objects ?os1)(shm_next ?os1 := shm), shm_next := Suc (shm_next ?os1)\<rparr>"
  define os3 where "os3 = os2\<lparr>environ :=
       (environ os2)(SHMEM_NAME_ENV \<mapsto> path, SHMEM_SIZE_ENV \<mapsto> print_zd (memory_get_size (pipeline_map pd)))\<rparr>"
  have "pipeline_init L no_faults None (Some pd) os h = pipeline_init_modules L pd ?pl os3 h"
    using s by (simp add: pipeline_init_def assms(2,3) Let_def setenv_ok [OF sz] os3_def flip: os2_def)
      (simp add: os2_def setenv_ok [OF sz])
  moreover have "valid_shm (pipeline_map pd) (shm_objects os3 (shm_next ?os1))" using v by (simp add: os3_def os2_def)
  moreover obtain l h' where "pipeline_init_modules L pd ?pl os3 h =
      Some (0, Some (?pl\<lparr>pl_modules_list := l, pl_modules_cnt := int (length infos)\<rparr>), os3, h')"
    "list_walk L l = [mh_fresh h..<mh_fresh h + length infos]"
    "\<forall>i < length infos. \<exists>m. mh_store h' (mh_fresh h + i) = Some m \<and> md_minfo m = Some (infos ! i) \<and>
       md_method m = module_method (infos ! i) \<and>
       map_option (\<lambda>b. infos ! (b - mh_fresh h)) (md_next m) = find (\<lambda>x. minfo_id x = minfo_next (infos ! i)) infos"
    using m [of os3 h] by blast
  ultimately show ?thesis
    by (intro exI [of _ "?pl\<lparr>pl_modules_list := l, pl_modules_cnt := int (length infos)\<rparr>"] exI [of _ os3]
        exI [of _ h'] exI [of _ "shm_next ?os1"]) simp
qed

text \<open>C25: Setting up a pipeline with its own segment succeeds when the sizes of its map do not wrap and at most one
  module has no successor: the segment holds the map, the modules are listed in the order of the description, and
  each one has the thread its description asks for and points to the first module with the id its description names,
  in whatever order they are described.\<close>

theorem pipeline_init_success:
  assumes "list_laws L" "pd_shmpath pd = Some path" "pd_use_common_shmem pd = 0"
    and "pd_minfos pd = Some (map Some infos)" "pd_modules_cnt pd = int (length infos)" "unlinked infos \<le> 1"
    and "map_fits (pipeline_map pd)" "0 \<le> sint (memory_get_size (pipeline_map pd))"
  shows "\<exists>pl os' h' shm. pipeline_init L no_faults None (Some pd) os h = Some (0, Some pl, os', h') \<and>
    pl_state pl = PL_STATE_UNKNOWN \<and> pl_shmem pl = Some shm \<and> valid_shm (pipeline_map pd) (shm_objects os' shm) \<and>
    list_walk L (pl_modules_list pl) = [mh_fresh h..<mh_fresh h + length infos] \<and>
    (\<forall>i < length infos. \<exists>m. mh_store h' (mh_fresh h + i) = Some m \<and> md_minfo m = Some (infos ! i) \<and>
       md_method m = module_method (infos ! i) \<and>
       map_option (\<lambda>b. infos ! (b - mh_fresh h)) (md_next m) = find (\<lambda>x. minfo_id x = minfo_next (infos ! i)) infos)"
  by (rule pipeline_init_linked [OF assms])

subsection \<open>Starting\<close>

definition can_start :: "pipeline_module \<Rightarrow> bool" where
  "can_start m \<longleftrightarrow> md_method m \<noteq> None \<and>
     (md_method m \<in> {Some SourceThread, Some ProcessThread} \<longrightarrow>
        (\<exists>minfo x xs. md_minfo m = Some minfo \<and> minfo_argv minfo = Some (x # xs)))"

lemma process_start_ok:
  assumes "mngr_ok pm" "pm_cnt pm < pm_cnt_max pm" "argv \<noteq> Some []"
  shows "\<exists>pm'. process_start argv True (ForkParent p) pm = Some (pm_cnt pm, pm') \<and> mngr_ok pm' \<and>
    pm_cnt pm' = pm_cnt pm + 1 \<and> pm_cnt_max pm' = pm_cnt_max pm"
proof -
  obtain info where "pm_info pm = Some info" "nat (pm_cnt pm) < length info" "0 \<le> pm_cnt pm"
    using assms(1,2) by (fastforce simp: mngr_ok_def split: option.splits)
  then have "\<exists>pm'. process_start argv True (ForkParent p) pm = Some (pm_cnt pm, pm')"
    using assms(2,3) by (cases argv) (auto simp: process_start_def Let_def)
  then show ?thesis using process_start_step [OF assms(1), of argv True "ForkParent p"] assms(2) by auto
qed

lemma init_entries_all_ok:
  "i + n \<le> length info \<Longrightarrow>
     \<exists>info'. init_entries (\<lambda>_. (True, True)) i n info = Some (0, info') \<and> length info' = length info"
proof (induction n arbitrary: i info)
  case (Suc n)
  have rc: "fst (process_info_init True True e) = 0" for e by (simp add: process_info_init_def Let_def)
  obtain e where "process_info_init True True (info ! i) = (0, e)" using rc [of "info ! i"] by (metis prod.collapse)
  then show ?case using Suc.IH [of "Suc i" "info[i := e]"] Suc.prems by simp
qed simp

lemma process_subsystem_init_ok:
  assumes "nat cnt \<le> length table" "pm_cnt pm = 0"
  shows "\<exists>table' pm'. process_subsystem_init (\<lambda>_. (True, True)) table cnt pm = Some (0, table', pm') \<and>
    mngr_ok pm' \<and> pm_cnt pm' = 0 \<and> pm_cnt_max pm' = cnt"
  using init_entries_all_ok [of 0 "nat cnt" table] assms by (auto simp: process_subsystem_init_def mngr_ok_def)

lemma thread_prologue_ok:
  assumes "can_start m" "mngr_ok pm" "pm_cnt pm < pm_cnt_max pm"
  shows "\<exists>pm'. thread_prologue m True (ForkParent p) pm ef = Some (Returns (m\<lparr>md_idx := pm_cnt pm\<rparr>, pm', ef)) \<and>
    mngr_ok pm' \<and> pm_cnt pm' = pm_cnt pm + 1 \<and> pm_cnt_max pm' = pm_cnt_max pm"
proof -
  obtain meth where me: "md_method m = Some meth" using assms(1) by (auto simp: can_start_def)
  have pos: "0 \<le> pm_cnt pm" using assms(2) by (simp add: mngr_ok_def)
  show ?thesis
  proof (cases "meth = InitialThread \<or> meth = FinalizationThread")
    case True
    then show ?thesis using process_start_ok [OF assms(2,3), of None p] me by (auto simp: thread_prologue_def)
  next
    case False
    then obtain minfo x xs where i: "md_minfo m = Some minfo" "minfo_argv minfo = Some (x # xs)"
      using assms(1) me by (cases meth) (auto simp: can_start_def)
    show ?thesis using process_start_ok [OF assms(2,3), of "Some (x # xs)" p] me i False pos
      by (auto simp: thread_prologue_def)
  qed
qed

lemma start_modules_ok:
  assumes "distinct as" "\<forall>a \<in> set as. \<exists>m. ss_heap s a = Some m \<and> can_start m" "length ps = length as"
    and "mngr_ok (ss_pm s)" "pm_cnt (ss_pm s) + int (length as) \<le> pm_cnt_max (ss_pm s)"
  shows "\<exists>s'. start_modules as (map (\<lambda>p. (True, ForkParent p)) ps) s = Some (Returns s') \<and>
    ss_started s' = ss_started s + length as \<and> ss_exit s' = ss_exit s \<and>
    (\<forall>b. b \<notin> set as \<longrightarrow> ss_heap s' b = ss_heap s b) \<and>
    (\<forall>i < length as. ss_heap s' (as ! i) = Some ((pipeline_module_init (the (ss_heap s (as ! i))))
       \<lparr>md_idx := pm_cnt (ss_pm s) + int i, md_state := MD_STATE_INIT\<rparr>))"
  using assms
proof (induction as arbitrary: s ps)
  case Nil
  then show ?case by simp
next
  case (Cons a as)
  obtain p ps' where ps: "ps = p # ps'" "length ps' = length as" using Cons.prems(3) by (cases ps) auto
  obtain m where m: "ss_heap s a = Some m" "can_start m" using Cons.prems(2) by auto
  let ?m = "pipeline_module_init m" and ?c = "pm_cnt (ss_pm s)"
  have c: "can_start ?m" using m(2) by (simp add: can_start_def pipeline_module_init_def)
  obtain pm' where t: "thread_prologue ?m True (ForkParent p) (ss_pm s) (ss_exit s) =
      Some (Returns (?m\<lparr>md_idx := ?c\<rparr>, pm', ss_exit s))" "mngr_ok pm'" "pm_cnt pm' = ?c + 1"
      "pm_cnt_max pm' = pm_cnt_max (ss_pm s)"
    using thread_prologue_ok [OF c Cons.prems(4)] Cons.prems(5) by fastforce
  have pos: "0 \<le> ?c" using Cons.prems(4) by (simp add: mngr_ok_def)
  define s1 where "s1 = s\<lparr>ss_pm := pm', ss_started := Suc (ss_started s),
    ss_heap := (ss_heap s)(a \<mapsto> ?m\<lparr>md_idx := ?c, md_state := MD_STATE_INIT\<rparr>)\<rparr>"
  have run: "start_modules (a # as) (map (\<lambda>p. (True, ForkParent p)) ps) s =
      start_modules as (map (\<lambda>p. (True, ForkParent p)) ps') s1"
    using m t pos by (simp add: ps Let_def s1_def pipeline_module_set_state_def pipeline_module_init_def md_state_defs)
  have "\<exists>s'. start_modules as (map (\<lambda>p. (True, ForkParent p)) ps') s1 = Some (Returns s') \<and>
    ss_started s' = ss_started s1 + length as \<and> ss_exit s' = ss_exit s1 \<and>
    (\<forall>b. b \<notin> set as \<longrightarrow> ss_heap s' b = ss_heap s1 b) \<and>
    (\<forall>i < length as. ss_heap s' (as ! i) = Some ((pipeline_module_init (the (ss_heap s1 (as ! i))))
       \<lparr>md_idx := pm_cnt (ss_pm s1) + int i, md_state := MD_STATE_INIT\<rparr>))"
    using Cons.prems t by (intro Cons.IH) (auto simp: s1_def ps(2))
  then obtain s' where s': "start_modules as (map (\<lambda>p. (True, ForkParent p)) ps') s1 = Some (Returns s')"
    "ss_started s' = ss_started s1 + length as" "ss_exit s' = ss_exit s1"
    "\<forall>b. b \<notin> set as \<longrightarrow> ss_heap s' b = ss_heap s1 b"
    "\<forall>i < length as. ss_heap s' (as ! i) = Some ((pipeline_module_init (the (ss_heap s1 (as ! i))))
       \<lparr>md_idx := pm_cnt (ss_pm s1) + int i, md_state := MD_STATE_INIT\<rparr>)" by blast
  have at: "ss_heap s' ((a # as) ! i) = Some ((pipeline_module_init (the (ss_heap s ((a # as) ! i))))
       \<lparr>md_idx := ?c + int i, md_state := MD_STATE_INIT\<rparr>)" if "i < length (a # as)" for i
  proof (cases i)
    case 0
    then show ?thesis using s'(4) Cons.prems(1) m(1) by (simp add: s1_def)
  next
    case (Suc j)
    then have "as ! j \<noteq> a" using that Cons.prems(1) by auto
    then show ?thesis using s'(5) that Suc t(3) by (simp add: s1_def)
  qed
  show ?case using run s' at by (intro exI [of _ s']) (auto simp: s1_def)
qed

text \<open>C33: Starting a pipeline succeeds when the process table has room and every module can be started: the modules
  get the numbers 0, 1, ... in the order of the list and the INIT state, the exit flag stays as it was, and the
  pipeline is in the INIT state exactly when there are two modules at least.\<close>

theorem pipeline_thread_start_success:
  assumes "distinct mods" "\<forall>a \<in> set mods. \<exists>m. heap a = Some m \<and> can_start m" "length ps = length mods"
    and "int (length mods) \<le> process_cnt mp" "nat (process_cnt mp) \<le> length table" "pm_cnt pm = 0"
  shows "\<exists>s. pipeline_thread_start (\<lambda>_. (True, True)) table mp mods (map (\<lambda>p. (True, ForkParent p)) ps) heap pm ef =
      Some (Returns s) \<and>
    ss_state s = (if 2 \<le> length mods then PL_STATE_INIT else PL_STATE_ERROR) \<and> ss_exit s = ef \<and>
    (\<forall>i < length mods. \<exists>m. heap (mods ! i) = Some m \<and> ss_heap s (mods ! i) =
       Some ((pipeline_module_init m)\<lparr>md_idx := int i, md_state := MD_STATE_INIT\<rparr>))"
proof -
  obtain table' pm' where t: "process_subsystem_init (\<lambda>_. (True, True)) table (process_cnt mp) pm = Some (0, table', pm')"
    "mngr_ok pm'" "pm_cnt pm' = 0" "pm_cnt_max pm' = process_cnt mp"
    using process_subsystem_init_ok [OF assms(5,6)] by blast
  let ?s = "\<lparr>ss_heap = heap, ss_pm = pm', ss_exit = ef, ss_state = PL_STATE_UNKNOWN, ss_started = 0\<rparr>"
  obtain s' where s': "start_modules mods (map (\<lambda>p. (True, ForkParent p)) ps) ?s = Some (Returns s')"
    "ss_started s' = length mods" "ss_exit s' = ef"
    "\<forall>i < length mods. ss_heap s' (mods ! i) = Some ((pipeline_module_init (the (heap (mods ! i))))
       \<lparr>md_idx := int i, md_state := MD_STATE_INIT\<rparr>)"
    using start_modules_ok [of mods ?s ps] assms(1-4) t by auto
  have "\<exists>m. heap (mods ! i) = Some m \<and> ss_heap s' (mods ! i) =
       Some ((pipeline_module_init m)\<lparr>md_idx := int i, md_state := MD_STATE_INIT\<rparr>)" if "i < length mods" for i
    using assms(2) s'(4) that nth_mem [OF that] by fastforce
  then show ?thesis using t(1) s'(1-3) by (simp add: pipeline_thread_start_def)
qed


definition demo_description :: pipeline_description where
  "demo_description = pipeline_description_create\<lparr>pd_shmpath := Some ''/demo'', pd_data_cnt := 2, pd_data_size := 100,
     pd_modules_cnt := 2, pd_proc_cnt := 3, pd_minfos := Some (map Some two_modules)\<rparr>"

definition no_shm :: shm_os where
  "no_shm = \<lparr>shm_names = Map.empty, shm_objects = (\<lambda>_. []), shm_next = 0, environ = Map.empty\<rparr>"

lemma demo_map: "pipeline_map demo_description = memory_map_create 5 2208 2 100 1 16384"
  by (simp add: pipeline_map_def demo_description_def pipeline_description_create_def int_of_size_def size_of_int_def
      PROCESS_INFO_SIZE_def DESCRIPTOR_DATA_MAX_LEN_def)

lemma demo_size: "memory_get_size (memory_map_create 5 2208 2 100 1 16384) = 28160"
  by (simp add: memory_get_size_def memory_map_create_def MEMORY_MAP_SIZE_value MEMORY_ALIGN_def size_of_int_def)

lemma demo_fits: "map_fits (memory_map_create 5 2208 2 100 1 16384)"
  by (simp add: map_fits_def memory_map_create_def part_size_def)

theorem pipeline_init_success_witness:
  "\<exists>pl os' h'. pipeline_init list_instance no_faults None (Some demo_description) no_shm empty_heap = Some (0, Some pl, os', h') \<and>
     (\<exists>m. mh_store h' 1 = Some m \<and> md_next m \<noteq> None)"
proof -
  have w: "pd_minfos demo_description = Some (map Some two_modules)" "pd_modules_cnt demo_description = int (length two_modules)"
    "pd_shmpath demo_description = Some ''/demo''" "pd_use_common_shmem demo_description = 0"
    "unlinked two_modules \<le> 1" "find (\<lambda>x. minfo_id x = minfo_next (two_modules ! 1)) two_modules = Some (two_modules ! 0)"
    by (simp_all add: demo_description_def pipeline_description_create_def unlinked_def two_modules_def)
  have f: "map_fits (pipeline_map demo_description)" "0 \<le> sint (memory_get_size (pipeline_map demo_description))"
    by (simp_all add: demo_map demo_size demo_fits)
  obtain pl os' h' where i: "pipeline_init list_instance no_faults None (Some demo_description) no_shm empty_heap =
      Some (0, Some pl, os', h')" and
    m: "\<forall>i < length two_modules. \<exists>m. mh_store h' (mh_fresh empty_heap + i) = Some m \<and>
       md_minfo m = Some (two_modules ! i) \<and> md_method m = module_method (two_modules ! i) \<and>
       map_option (\<lambda>b. two_modules ! (b - mh_fresh empty_heap)) (md_next m) =
       find (\<lambda>x. minfo_id x = minfo_next (two_modules ! i)) two_modules"
    using pipeline_init_success [OF list_instance_laws w(3,4,1,2,5) f, of no_shm empty_heap] by blast
  have "\<exists>m. mh_store h' 1 = Some m \<and> md_next m \<noteq> None"
    using m [rule_format, of 1] w(6) by (auto simp: two_modules_def empty_heap_def)
  then show ?thesis using i by auto
qed

theorem pipeline_thread_start_success_witness:
  "\<exists>s. pipeline_thread_start (\<lambda>_. (True, True)) [zero_info, zero_info, zero_info] (memory_map_create 3 2208 2 100 1 1000)
       [0, 1] (map (\<lambda>p. (True, ForkParent p)) [7, 8]) (mh_store two_heap) process_mngr_start 0 = Some (Returns s) \<and>
     ss_state s = PL_STATE_INIT \<and> map_option md_idx (ss_heap s 1) = Some 1"
proof -
  have c: "\<forall>a \<in> set [0, 1]. \<exists>m. mh_store two_heap a = Some m \<and> can_start m"
    by (simp add: two_heap_def two_modules_def empty_heap_def list_instance_def pipeline_module_add_def Let_def
        zero_module_def can_start_def module_method_def MT_MODE_INTERNAL_def MT_MODE_EXTERNAL_def MT_FIRST_def MT_LAST_def)
  obtain s where s: "pipeline_thread_start (\<lambda>_. (True, True)) [zero_info, zero_info, zero_info] (memory_map_create 3 2208 2 100 1 1000)
       [0, 1] (map (\<lambda>p. (True, ForkParent p)) [7, 8]) (mh_store two_heap) process_mngr_start 0 = Some (Returns s)"
    "ss_state s = (if 2 \<le> length [0 :: nat, 1] then PL_STATE_INIT else PL_STATE_ERROR)"
    "\<forall>i < length [0, 1]. \<exists>m. mh_store two_heap ([0, 1] ! i) = Some m \<and> ss_heap s ([0, 1] ! i) =
       Some ((pipeline_module_init m)\<lparr>md_idx := int i, md_state := MD_STATE_INIT\<rparr>)"
    using pipeline_thread_start_success [of "[0, 1]" "mh_store two_heap" "[7, 8]" "memory_map_create 3 2208 2 100 1 1000"
        "[zero_info, zero_info, zero_info]" process_mngr_start 0] c
    by (auto simp: memory_map_create_def process_mngr_start_def)
  have "map_option md_idx (ss_heap s 1) = Some 1" using s(3) [rule_format, of 1] by auto
  then show ?thesis using s(1,2) by auto
qed


subsection \<open>The end\<close>

text \<open>The end of a pipeline that has a module never returns in a defined way: it waits for the pipeline's thread,
  or, when the thread has ended, it writes to the structure of the first module after freeing it.\<close>

theorem pipeline_destroy_never_returns:
  assumes "list_walk L (pl_modules_list pl) \<noteq> []"
  shows "pipeline_destroy L ended pl os h = (if ended then None else Some Hangs)"
proof -
  obtain a as where w: "list_walk L (pl_modules_list pl) = a # as" using assms by (cases "list_walk L (pl_modules_list pl)") auto
  have "pipeline_module_delete L l c a h1 = Some (l', c', h2) \<Longrightarrow> mh_store h2 a = None" for l c h1 l' c' h2
    by (auto simp: pipeline_module_delete_def Let_def split: bind_splits option.splits)
  then show ?thesis by (auto simp: pipeline_destroy_def w split: bind_splits prod.splits)
qed

theorem pipeline_destroy_never_returns_witness:
  "pipeline_destroy list_instance True demo_pipeline no_shm two_heap = None"
  using pipeline_destroy_never_returns [of list_instance demo_pipeline True no_shm two_heap]
  by (simp add: list_instance_def demo_pipeline_def)

end
