(* ===== verification/CString.thy ===== *)
theory CString imports Prelude begin

section \<open>C strings in character arrays\<close>

text \<open>
  Character arrays that hold a string with its NUL and whatever follows it, and the functions of
  \<^verbatim>\<open>string.h\<close> the program calls on them: the string in an array, the search for a string without regard to
  case, the last occurrence of a character. A string that is not terminated inside its array has
  no value (\<open>None\<close>).
\<close>

definition NUL :: char where "NUL = CHR 0x00"
definition NL :: char where "NL = CHR 0x0A"

definition cstr :: "string \<Rightarrow> string option" where
  "cstr buf = (if NUL \<in> set buf then Some (takeWhile (\<lambda>c. c \<noteq> NUL) buf) else None)"

lemma takeWhile_until: "c \<notin> set s \<Longrightarrow> takeWhile (\<lambda>x. x \<noteq> c) (s @ c # rest) = s"
  by (induction s) auto

lemma cstr_terminated: "NUL \<notin> set s \<Longrightarrow> cstr (s @ NUL # rest) = Some s"
  by (simp add: cstr_def takeWhile_until)

lemma cstr_Some:
  assumes "cstr buf = Some s"
  obtains rest where "buf = s @ NUL # rest" "NUL \<notin> set s"
proof -
  have s: "s = takeWhile (\<lambda>c. c \<noteq> NUL) buf" "NUL \<in> set buf" using assms by (auto simp: cstr_def split: if_splits)
  then have "dropWhile (\<lambda>c. c \<noteq> NUL) buf \<noteq> []" by auto
  then obtain c rest where d: "dropWhile (\<lambda>c. c \<noteq> NUL) buf = c # rest" by (cases "dropWhile (\<lambda>c. c \<noteq> NUL) buf") auto
  moreover have "c = NUL" using d hd_dropWhile [of "\<lambda>c. c \<noteq> NUL" buf] by auto
  moreover have "buf = s @ dropWhile (\<lambda>c. c \<noteq> NUL) buf" using s(1) by simp
  moreover have "NUL \<notin> set s" using s(1) by (auto dest: set_takeWhileD)
  ultimately show ?thesis using that by metis
qed

lemma cstr_no_NUL: "cstr buf = Some s \<Longrightarrow> NUL \<notin> set s"
  by (auto elim: cstr_Some)

lemma cstr_length: "cstr buf = Some s \<Longrightarrow> length s < length buf"
  by (auto elim: cstr_Some)

text \<open>ASCII without regard to case, as \<open>tolower\<close> of the C locale.\<close>

definition lower :: "char \<Rightarrow> char" where
  "lower c = (if 65 \<le> (of_char c :: nat) \<and> (of_char c :: nat) \<le> 90 then char_of (of_char c + 32 :: nat) else c)"

definition strcasecmp :: "string \<Rightarrow> string \<Rightarrow> bool" where
  "strcasecmp a b = (map lower a = map lower b)"

fun prefix_ci :: "string \<Rightarrow> string \<Rightarrow> bool" where
  "prefix_ci [] ys = True"
| "prefix_ci (x # xs) [] = False"
| "prefix_ci (x # xs) (y # ys) = (lower x = lower y \<and> prefix_ci xs ys)"

text \<open>\<open>strcasestr(hay, needle) != 0\<close>.\<close>

fun strcasestr :: "string \<Rightarrow> string \<Rightarrow> bool" where
  "strcasestr [] needle = (needle = [])"
| "strcasestr (x # xs) needle = (prefix_ci needle (x # xs) \<or> strcasestr xs needle)"

lemma prefix_ci_iff: "prefix_ci xs ys \<longleftrightarrow> (\<exists>zs rest. ys = zs @ rest \<and> strcasecmp zs xs)"
proof (induction xs ys rule: prefix_ci.induct)
  case (3 x xs y ys)
  show ?case
  proof
    assume "prefix_ci (x # xs) (y # ys)"
    then obtain zs rest where "lower x = lower y" "ys = zs @ rest" "strcasecmp zs xs" using 3 by auto
    then show "\<exists>zs rest. y # ys = zs @ rest \<and> strcasecmp zs (x # xs)"
      by (intro exI [of _ "y # zs"] exI [of _ rest]) (simp add: strcasecmp_def)
  next
    assume "\<exists>zs rest. y # ys = zs @ rest \<and> strcasecmp zs (x # xs)"
    then obtain zs rest where z: "y # ys = zs @ rest" "strcasecmp zs (x # xs)" by blast
    then obtain zs' where "zs = y # zs'" "ys = zs' @ rest" by (cases zs) (auto simp: strcasecmp_def)
    then show "prefix_ci (x # xs) (y # ys)" using z(2) 3 by (auto simp: strcasecmp_def)
  qed
qed (auto simp: strcasecmp_def)

lemma strcasestr_iff: "strcasestr hay needle \<longleftrightarrow> (\<exists>pre mid post. hay = pre @ mid @ post \<and> strcasecmp mid needle)"
proof (induction hay)
  case Nil
  then show ?case by (auto simp: strcasecmp_def)
next
  case (Cons x xs)
  have "(\<exists>pre mid post. x # xs = pre @ mid @ post \<and> strcasecmp mid needle) \<longleftrightarrow>
      (\<exists>mid post. x # xs = mid @ post \<and> strcasecmp mid needle) \<or>
      (\<exists>pre mid post. xs = pre @ mid @ post \<and> strcasecmp mid needle)"
    (is "?L \<longleftrightarrow> ?R")
  proof
    assume ?L
    then obtain pre mid post where h: "x # xs = pre @ mid @ post" "strcasecmp mid needle" by blast
    then show ?R by (cases pre) auto
  next
    assume ?R
    then show ?L
    proof
      assume "\<exists>mid post. x # xs = mid @ post \<and> strcasecmp mid needle"
      then show ?L by (metis append_Nil)
    next
      assume "\<exists>pre mid post. xs = pre @ mid @ post \<and> strcasecmp mid needle"
      then show ?L by (metis append_Cons)
    qed
  qed
  then show ?case using Cons by (simp add: prefix_ci_iff)
qed

lemma strcasestr_infix: "strcasestr (pre @ needle @ post) needle"
  by (auto simp: strcasestr_iff strcasecmp_def)

text \<open>\<open>strrchr\<close>: the parts of a string before and after the last occurrence of a character.\<close>

fun split_last :: "char \<Rightarrow> string \<Rightarrow> (string \<times> string) option" where
  "split_last c [] = None"
| "split_last c (x # xs) =
     (case split_last c xs of
        Some (a, b) \<Rightarrow> Some (x # a, b)
      | None \<Rightarrow> if x = c then Some ([], xs) else None)"

lemma split_last_None: "split_last c s = None \<longleftrightarrow> c \<notin> set s"
  by (induction s) (auto split: option.splits)

lemma split_last_append: "c \<notin> set b \<Longrightarrow> split_last c (a @ c # b) = Some (a, b)"
proof (induction a)
  case Nil
  then have "split_last c b = None" by (simp add: split_last_None)
  then show ?case by simp
qed simp

lemma split_last_Some: "split_last c s = Some (a, b) \<Longrightarrow> s = a @ c # b \<and> c \<notin> set b"
  by (induction s arbitrary: a) (auto simp: split_last_None split: option.splits if_splits)

text \<open>The index \<open>memchr\<close> finds.\<close>

definition memchr :: "string \<Rightarrow> char \<Rightarrow> nat option" where
  "memchr buf c = (if c \<in> set buf then Some (length (takeWhile (\<lambda>x. x \<noteq> c) buf)) else None)"

lemma memchr_Some:
  "memchr buf c = Some i \<Longrightarrow> i < length buf \<and> buf ! i = c \<and> c \<notin> set (take i buf)"
proof -
  assume "memchr buf c = Some i"
  then have i: "i = length (takeWhile (\<lambda>x. x \<noteq> c) buf)" "c \<in> set buf" by (auto simp: memchr_def split: if_splits)
  then have "i < length buf" 
    by (metis (mono_tags) takeWhile_eq_all_conv length_takeWhile_le le_neq_implies_less takeWhile_eq_take take_all)
  moreover have "buf ! i = c" using nth_length_takeWhile [of "\<lambda>x. x \<noteq> c" buf] i \<open>i < length buf\<close> by auto
  moreover have "take i buf = takeWhile (\<lambda>x. x \<noteq> c) buf" using i(1) by (metis takeWhile_eq_take)
  then have "c \<notin> set (take i buf)" by (auto dest: set_takeWhileD)
  ultimately show ?thesis by blast
qed

lemma memchr_append: "c \<notin> set a \<Longrightarrow> memchr (a @ c # b) c = Some (length a)"
  by (simp add: memchr_def takeWhile_until)

text \<open>\<open>memcpy\<close> of a whole array from a pointer to \<open>src\<close>, undefined when fewer bytes are left there.\<close>

definition memcpy_array :: "nat \<Rightarrow> string \<Rightarrow> string option" where
  "memcpy_array n src = (if n \<le> length src then Some (take n src) else None)"

end
