(* ===== verification/Message.thy ===== *)
theory Message imports CString begin

section \<open>Connections and messages\<close>

text \<open>
  \<^verbatim>\<open>tcp/include/tcp/connection.h\<close>, \<^verbatim>\<open>tcp/include/tcp/messenger.h\<close> and the part of \<^verbatim>\<open>tcp/src/messenger.c\<close>
  that reads a connection, cuts a message out of its buffer and parses it. Arrays are lists of
  characters of the array's length; memory the code does not initialise is an argument.
\<close>

definition MAX_MSG_LEN :: nat where "MAX_MSG_LEN = 512"
definition NI_MAXHOST :: nat where "NI_MAXHOST = 1025"
definition NI_MAXSERV :: nat where "NI_MAXSERV = 32"

record connection =
  conn_host :: string
  conn_service :: string
  conn_fd :: int
  conn_offset :: u64
  conn_buffer :: string

definition zero_connection :: connection where
  "zero_connection = \<lparr>conn_host = replicate NI_MAXHOST NUL, conn_service = replicate NI_MAXSERV NUL, conn_fd = 0,
     conn_offset = 0, conn_buffer = replicate (MAX_MSG_LEN + 1) NUL\<rparr>"

definition conn_ok :: "connection \<Rightarrow> bool" where
  "conn_ok c \<longleftrightarrow> length (conn_buffer c) = MAX_MSG_LEN + 1 \<and> unat (conn_offset c) \<le> MAX_MSG_LEN + 1"

definition MSG_UNKNOWN :: int where "MSG_UNKNOWN = -1"
definition MSG_REQUEST :: int where "MSG_REQUEST = 0"
definition MSG_REPLY :: int where "MSG_REPLY = 1"

definition MSG_CMD_QUIT :: int where "MSG_CMD_QUIT = 0"
definition MSG_CMD_STATUS :: int where "MSG_CMD_STATUS = 1"
definition MSG_CMD_SET :: int where "MSG_CMD_SET = 2"
definition MSG_CMD_GET :: int where "MSG_CMD_GET = 3"
definition MSG_CMD_START :: int where "MSG_CMD_START = 4"
definition MSG_CMD_STOP :: int where "MSG_CMD_STOP = 5"
definition MSG_CMD_INIT :: int where "MSG_CMD_INIT = 6"
definition MSG_CMD_CONFIG :: int where "MSG_CMD_CONFIG = 7"
definition MSG_CMD_CONNECT :: int where "MSG_CMD_CONNECT = 8"

lemmas msg_cmd_defs = MSG_CMD_QUIT_def MSG_CMD_STATUS_def MSG_CMD_SET_def MSG_CMD_GET_def MSG_CMD_START_def
  MSG_CMD_STOP_def MSG_CMD_INIT_def MSG_CMD_CONFIG_def MSG_CMD_CONNECT_def

record message =
  msg_cmd :: int
  msg_cmd_len :: int
  msg_type :: int
  msg_src_id :: int
  msg_dst_id :: int
  msg_len :: nat
  msg_string :: string

subsection \<open>Reading a connection\<close>

text \<open>What \<open>read\<close> answers: an error, or the bytes that have arrived (none at the end of the stream), of which it
  returns at most as many as asked for.\<close>

datatype read_result = ReadError | ReadBytes string

definition read_connection_data :: "read_result \<Rightarrow> connection option \<Rightarrow> (int \<times> connection option) option" where
  "read_connection_data rd p_conn =
     (case p_conn of
        None \<Rightarrow> Some (1, None)
      | Some conn \<Rightarrow>
          (let remainder = int_of_size (of_nat (MAX_MSG_LEN + 1) - conn_offset conn) in
           if remainder \<le> 0 then Some (1, Some conn)
           else (case rd of
               ReadError \<Rightarrow> Some (1, Some conn)
             | ReadBytes data \<Rightarrow>
                 let bs = take (nat remainder) data in
                 if bs = [] then Some (1, Some conn)
                 else do {
                   buf \<leftarrow> region_write (conn_buffer conn) (unat (conn_offset conn)) bs;
                   Some (0, Some (conn\<lparr>conn_buffer := buf, conn_offset := conn_offset conn + of_nat (length bs)\<rparr>)) })))"

subsection \<open>Parsing a message\<close>

text \<open>Each test of the chain overwrites what an earlier one found.\<close>

definition set_cmd :: "string \<Rightarrow> string \<Rightarrow> int \<Rightarrow> string \<Rightarrow> message \<Rightarrow> message" where
  "set_cmd buf kw c name m =
     (if strcasestr buf kw then m\<lparr>msg_cmd := c, msg_cmd_len := int (length name)\<rparr> else m)"

definition parse_api_request :: "message \<Rightarrow> message option" where
  "parse_api_request m =
     (if msg_len m = 0 then Some m
      else do {
        buf \<leftarrow> cstr (msg_string m);
        let m = m\<lparr>msg_type := MSG_REQUEST\<rparr>;
            m = (if strcasestr buf ''RE'' \<or> strcasestr buf ''ER'' then m\<lparr>msg_type := MSG_REPLY, msg_cmd_len := 2\<rparr> else m);
            m = set_cmd buf ''CONNECT'' MSG_CMD_CONNECT ''CONNECT'' m;
            m = set_cmd buf ''INIT'' MSG_CMD_START ''START'' m;
            m = set_cmd buf ''START'' MSG_CMD_START ''START'' m;
            m = set_cmd buf ''STOP'' MSG_CMD_STOP ''STOP'' m;
            m = set_cmd buf ''STATUS'' MSG_CMD_STATUS ''STATUS'' m;
            m = set_cmd buf ''SET'' MSG_CMD_SET ''SET'' m;
            m = set_cmd buf ''GET'' MSG_CMD_GET ''GET'' m;
            m = set_cmd buf ''CONFIG'' MSG_CMD_CONFIG ''CONFIG'' m
        in Some (if strcasestr buf ''QUIT'' \<or> strcasecmp buf ''Q'' \<or> strcasecmp buf (''Q'' @ [NL])
                 then m\<lparr>msg_cmd := MSG_CMD_QUIT, msg_cmd_len := int (length ''QUIT'')\<rparr> else m) })"

text \<open>
  The host and the port of a command, as the pointers into the copy the function makes: the memory
  from the host on, and the memory from the port on.
\<close>

definition msg_get_connect_information :: "message \<Rightarrow> (int \<times> (string \<times> string) option) option" where
  "msg_get_connect_information m =
     (if msg_cmd_len m + 1 < 0 \<or> int (length (msg_string m)) < msg_cmd_len m + 1 then None
      else do {
        result \<leftarrow> cstr (drop (nat (msg_cmd_len m + 1)) (msg_string m));
        (case split_last (CHR '' '') result of
           None \<Rightarrow> Some (-1, None)
         | Some (h, p) \<Rightarrow>
             let port = (if p = [] then [NUL] else butlast p @ [NUL, NUL]) in
             Some (0, Some (h @ NUL # port, port))) })"

subsection \<open>Cutting a message out of the buffer\<close>

text \<open>
  \<open>conn->buffer\<close> is searched for the end of a line. Without one the code goes on with the pointer NULL + 1,
  from which it copies: undefined.
\<close>

definition connection_extract_message ::
  "connection \<Rightarrow> message option \<Rightarrow> (int \<times> connection \<times> message option) option" where
  "connection_extract_message conn p_msg =
     (case p_msg of
        None \<Rightarrow> Some (0, conn, None)
      | Some msg \<Rightarrow> do {
          searched \<leftarrow> region_read (conn_buffer conn) 0 (unat (conn_offset conn));
          (case memchr searched NL of
             Some i \<Rightarrow> do {
               let buf = (conn_buffer conn)[i := NUL];
               line \<leftarrow> cstr buf;
               str \<leftarrow> region_write (msg_string msg) 0 line;
               msg' \<leftarrow> parse_api_request (msg\<lparr>msg_type := MSG_REQUEST, msg_src_id := -1, msg_dst_id := -1,
                          msg_len := length line, msg_string := str\<rparr>);
               Some (1, conn\<lparr>conn_buffer := buf\<rparr>, Some msg') }
           | None \<Rightarrow> None) })"

text \<open>
  \<open>default_read_action\<close>: a line from the terminal into a new message, its memory being \<open>fresh\<close>. \<open>scanf\<close>
  stores nothing for an empty line.
\<close>

definition default_read_action :: "message \<Rightarrow> string \<Rightarrow> message option" where
  "default_read_action fresh line = do {
     typed \<leftarrow> (if line = [] then Some (msg_string fresh)
               else region_write (msg_string fresh) 0 (line @ [NUL]));
     s \<leftarrow> cstr typed;
     str \<leftarrow> region_write typed (length s) [NL, NUL];
     s' \<leftarrow> cstr str;
     Some (fresh\<lparr>msg_type := MSG_UNKNOWN, msg_string := str, msg_len := length s'\<rparr>) }"

subsection \<open>What reading keeps\<close>

lemma remainder_value:
  assumes "conn_ok c"
  shows "int_of_size (of_nat (MAX_MSG_LEN + 1) - conn_offset c) = int (MAX_MSG_LEN + 1) - int (unat (conn_offset c))"
proof -
  have le: "unat (conn_offset c) \<le> 513" using assms by (simp add: conn_ok_def MAX_MSG_LEN_def)
  then have "conn_offset c \<le> 513" by (simp add: word_le_nat_alt)
  then have u: "unat (513 - conn_offset c) = 513 - unat (conn_offset c)" by (simp add: unat_sub)
  have small: "unat (ucast (513 - conn_offset c) :: u32) = 513 - unat (conn_offset c)"
    by (simp add: unsigned_ucast_eq take_bit_nat_eq_self u)
  then have ui: "uint (ucast (513 - conn_offset c) :: u32) = int 513 - int (unat (conn_offset c))"
    using le by (metis of_nat_diff uint_nat)
  define n where "n = unat (conn_offset c)"
  have "sint (ucast (513 - conn_offset c) :: u32) = signed_take_bit 31 (uint (ucast (513 - conn_offset c) :: u32))"
    by (simp only: sint_uint) simp
  also have "\<dots> = uint (ucast (513 - conn_offset c) :: u32)"
    unfolding ui n_def [symmetric] using le [folded n_def] by (intro signed_take_bit_int_eq_self) simp_all
  finally show ?thesis using ui by (simp add: int_of_size_def MAX_MSG_LEN_def)
qed

lemma read_data_result:
  assumes "conn_ok c"
  shows "(\<exists>bs buf. read_connection_data rd (Some c) =
        Some (0, Some (c\<lparr>conn_buffer := buf, conn_offset := conn_offset c + of_nat (length bs)\<rparr>)) \<and>
        bs \<noteq> [] \<and> unat (conn_offset c) + length bs \<le> MAX_MSG_LEN + 1 \<and>
        region_write (conn_buffer c) (unat (conn_offset c)) bs = Some buf \<and>
        unat (conn_offset c + of_nat (length bs)) = unat (conn_offset c) + length bs) \<or>
    read_connection_data rd (Some c) = Some (1, Some c)"
proof -
  note rem = remainder_value [OF assms]
  let ?r = "int_of_size (of_nat (MAX_MSG_LEN + 1) - conn_offset c)"
  have pos: "?r \<le> 0 \<longleftrightarrow> \<not> unat (conn_offset c) < MAX_MSG_LEN + 1" by (subst rem) linarith
  show ?thesis
  proof (cases "unat (conn_offset c) < MAX_MSG_LEN + 1 \<and> (\<exists>data. rd = ReadBytes data \<and> data \<noteq> [])")
    case False
    then have "read_connection_data rd (Some c) = Some (1, Some c)"
      unfolding read_connection_data_def Let_def option.case pos by (auto split: read_result.splits)
    then show ?thesis by simp
  next
    case True
    then obtain data where d: "rd = ReadBytes data" "data \<noteq> []" and lt: "unat (conn_offset c) < MAX_MSG_LEN + 1" by blast
    let ?o = "unat (conn_offset c)"
    define bs where "bs = take (MAX_MSG_LEN + 1 - ?o) data"
    have nz: "bs \<noteq> []" using d lt by (simp add: bs_def)
    have len: "?o + length bs \<le> MAX_MSG_LEN + 1" using lt by (simp add: bs_def)
    have "?o + length bs \<le> length (conn_buffer c)" using len assms by (simp add: conn_ok_def)
    then obtain buf where w: "region_write (conn_buffer c) ?o bs = Some buf" using region_write_Some by blast
    have un: "unat (conn_offset c + of_nat (length bs)) = ?o + length bs"
      using len by (subst unat_add_small) (simp_all add: unat_of_nat_small MAX_MSG_LEN_def)
    have n: "nat ?r = MAX_MSG_LEN + 1 - ?o" by (subst rem) linarith
    have "read_connection_data rd (Some c) =
        Some (0, Some (c\<lparr>conn_buffer := buf, conn_offset := conn_offset c + of_nat (length bs)\<rparr>))"
      unfolding read_connection_data_def Let_def option.case pos n d(1) read_result.case bs_def [symmetric]
      using lt w nz by simp
    then show ?thesis using nz len w un by blast
  qed
qed

lemma read_keeps:
  assumes "conn_ok c"
  shows "\<exists>rc c'. read_connection_data rd (Some c) = Some (rc, Some c') \<and> conn_ok c' \<and> conn_fd c' = conn_fd c \<and>
    unat (conn_offset c) \<le> unat (conn_offset c') \<and>
    take (unat (conn_offset c)) (conn_buffer c') = take (unat (conn_offset c)) (conn_buffer c) \<and>
    (rc = 0 \<longleftrightarrow> unat (conn_offset c) < unat (conn_offset c'))"
  using read_data_result [OF assms, of rd]
proof (elim disjE exE conjE)
  fix bs buf
  assume r: "read_connection_data rd (Some c) =
        Some (0, Some (c\<lparr>conn_buffer := buf, conn_offset := conn_offset c + of_nat (length bs)\<rparr>))"
    "bs \<noteq> []" "unat (conn_offset c) + length bs \<le> MAX_MSG_LEN + 1"
    "region_write (conn_buffer c) (unat (conn_offset c)) bs = Some buf"
    "unat (conn_offset c + of_nat (length bs)) = unat (conn_offset c) + length bs"
  have "length buf = MAX_MSG_LEN + 1" using region_write_length [OF r(4)] assms by (simp add: conn_ok_def)
  moreover have "take (unat (conn_offset c)) buf = take (unat (conn_offset c)) (conn_buffer c)"
    using r(4) by (auto simp: region_write_def split: if_splits)
  ultimately show ?thesis using r by (simp add: conn_ok_def)
next
  assume "read_connection_data rd (Some c) = Some (1, Some c)"
  then show ?thesis using assms by simp
qed

text \<open>C19: Reading keeps a connection well formed: whatever arrives, and however often data is read, nothing is written
  outside the buffer, the bytes that were there stay where they are and the new ones follow them.\<close>

theorem read_connection_data_ok:
  assumes "conn_ok c"
  shows "\<exists>rc c'. read_connection_data rd (Some c) = Some (rc, Some c') \<and> conn_ok c' \<and> conn_fd c' = conn_fd c \<and>
    unat (conn_offset c) \<le> unat (conn_offset c') \<and>
    take (unat (conn_offset c)) (conn_buffer c') = take (unat (conn_offset c)) (conn_buffer c) \<and>
    (rc = 0 \<longleftrightarrow> unat (conn_offset c) < unat (conn_offset c'))"
  using read_keeps [OF assms] .

subsection \<open>The commands as a table\<close>

definition api_commands :: "(string \<times> int \<times> int) list" where
  "api_commands = [(''CONNECT'', MSG_CMD_CONNECT, 7), (''INIT'', MSG_CMD_START, 5), (''START'', MSG_CMD_START, 5),
     (''STOP'', MSG_CMD_STOP, 4), (''STATUS'', MSG_CMD_STATUS, 6), (''SET'', MSG_CMD_SET, 3), (''GET'', MSG_CMD_GET, 3),
     (''CONFIG'', MSG_CMD_CONFIG, 6), (''QUIT'', MSG_CMD_QUIT, 4)]"

definition api_hit :: "string \<Rightarrow> string \<times> int \<times> int \<Rightarrow> bool" where
  "api_hit buf e \<longleftrightarrow> strcasestr buf (fst e) \<or>
     (fst e = ''QUIT'' \<and> (strcasecmp buf ''Q'' \<or> strcasecmp buf (''Q'' @ [NL])))"

definition api_reference :: "string \<Rightarrow> message \<Rightarrow> message" where
  "api_reference buf m =
     (let reply = (strcasestr buf ''RE'' \<or> strcasestr buf ''ER'');
          hit = find (api_hit buf) (rev api_commands)
      in m\<lparr>msg_type := (if reply then MSG_REPLY else MSG_REQUEST),
           msg_cmd := (case hit of None \<Rightarrow> msg_cmd m | Some (kw, c, n) \<Rightarrow> c),
           msg_cmd_len := (case hit of None \<Rightarrow> (if reply then 2 else msg_cmd_len m) | Some (kw, c, n) \<Rightarrow> n)\<rparr>)"

definition api_set :: "string \<Rightarrow> message \<Rightarrow> string \<times> int \<times> int \<Rightarrow> message" where
  "api_set buf m e = (if api_hit buf e then m\<lparr>msg_cmd := fst (snd e), msg_cmd_len := snd (snd e)\<rparr> else m)"

lemma foldl_last_hit:
  "foldl (api_set buf) m t =
     (case find (api_hit buf) (rev t) of None \<Rightarrow> m | Some (kw, c, n) \<Rightarrow> m\<lparr>msg_cmd := c, msg_cmd_len := n\<rparr>)"
  by (induction t rule: rev_induct) (auto simp: api_set_def split: option.splits)

lemma parse_api_request_table:
  assumes "msg_len m \<noteq> 0" "cstr (msg_string m) = Some buf"
  shows "parse_api_request m = Some (api_reference buf m)"
proof -
  let ?m0 = "m\<lparr>msg_type := MSG_REQUEST\<rparr>"
  let ?m1 = "if strcasestr buf ''RE'' \<or> strcasestr buf ''ER'' then ?m0\<lparr>msg_type := MSG_REPLY, msg_cmd_len := 2\<rparr> else ?m0"
  have hit: "kw \<noteq> ''QUIT'' \<Longrightarrow> api_set buf m' (kw, c, int (length name)) = set_cmd buf kw c name m'" for kw c name m'
    by (simp add: api_set_def api_hit_def set_cmd_def)
  have "parse_api_request m = Some (foldl (api_set buf) ?m1 api_commands)"
    using assms unfolding parse_api_request_def api_commands_def Let_def
    by (simp add: hit [of "''CONNECT''" _ _ "''CONNECT''", simplified] hit [of "''INIT''" _ _ "''START''", simplified]
        hit [of "''START''" _ _ "''START''", simplified] hit [of "''STOP''" _ _ "''STOP''", simplified]
        hit [of "''STATUS''" _ _ "''STATUS''", simplified] hit [of "''SET''" _ _ "''SET''", simplified]
        hit [of "''GET''" _ _ "''GET''", simplified] hit [of "''CONFIG''" _ _ "''CONFIG''", simplified]
        del: strcasestr.simps)
      (simp add: api_set_def api_hit_def)
  then show ?thesis
    unfolding foldl_last_hit api_reference_def Let_def by (auto split: option.splits)
qed

text \<open>C29: The chain of tests that parses a request is a table with the later rows first: the command of a message is the
  last one of the table whose keyword occurs anywhere in the text, in capitals or not; without one the command stays
  what it was, and it is a reply when RE or ER occurs anywhere.\<close>

theorem parse_api_request_reference:
  assumes "msg_len m \<noteq> 0" "cstr (msg_string m) = Some buf"
  shows "parse_api_request m = Some (api_reference buf m)"
  using parse_api_request_table [OF assms] .

lemma parse_never_init:
  assumes "parse_api_request m = Some m'" "msg_cmd m' = MSG_CMD_INIT"
  shows "msg_cmd m = MSG_CMD_INIT"
proof (cases "msg_len m = 0")
  case True
  then show ?thesis using assms by (simp add: parse_api_request_def)
next
  case False
  then obtain buf where "cstr (msg_string m) = Some buf"
    using assms(1) by (auto simp: parse_api_request_def split: bind_splits)
  with False assms have "msg_cmd (api_reference buf m) = MSG_CMD_INIT" using parse_api_request_table by simp
  then show ?thesis
    by (auto simp: api_reference_def Let_def api_commands_def msg_cmd_defs split: if_splits option.splits)
qed


subsection \<open>Host and port of a command\<close>

lemma connect_information_split:
  assumes "msg_cmd_len m = int (length kw)" "msg_string m = kw @ CHR '' '' # h @ CHR '' '' # p @ e # NUL # rest"
    and "NUL \<notin> set h" "NUL \<notin> set p" "CHR '' '' \<notin> set p" "e \<noteq> NUL" "e \<noteq> CHR '' ''"
  shows "\<exists>hb pb. msg_get_connect_information m = Some (0, Some (hb, pb)) \<and> cstr hb = Some h \<and> cstr pb = Some p"
proof -
  have d: "drop (nat (msg_cmd_len m + 1)) (msg_string m) = h @ CHR '' '' # p @ e # NUL # rest"
    by (simp add: assms(1,2) nat_add_distrib)
  have nul: "NUL \<noteq> CHR '' ''" by (simp add: NUL_def)
  have c: "cstr (h @ CHR '' '' # p @ e # NUL # rest) = Some (h @ CHR '' '' # p @ [e])"
    using cstr_terminated [of "h @ CHR '' '' # p @ [e]" rest] assms(3,4,6) nul by simp
  have "split_last (CHR '' '') (h @ CHR '' '' # p @ [e]) = Some (h, p @ [e])"
    using assms(5,7) by (intro split_last_append) simp
  then have "msg_get_connect_information m = Some (0, Some (h @ NUL # p @ [NUL, NUL], p @ [NUL, NUL]))"
    using d c assms(1,2) by (simp add: msg_get_connect_information_def Let_def)
  then show ?thesis using cstr_terminated [OF assms(3)] cstr_terminated [OF assms(4)] by auto
qed

text \<open>A connect command typed at the client is understood: the line \<open>CONNECT host port\<close> becomes a message whose
  host and port are the ones typed, provided the line fits the message and no other keyword of the table occurs in
  it (a host name that contains one, like \<open>target.set.org\<close>, makes another command of it).\<close>

theorem typed_connect_roundtrip:
  assumes "line = ''CONNECT'' @ CHR '' '' # h @ CHR '' '' # p" "length (msg_string fresh) = MAX_MSG_LEN"
    and "length line + 2 \<le> MAX_MSG_LEN" "NUL \<notin> set line" "CHR '' '' \<notin> set p"
    and "\<forall>e \<in> set (tl api_commands). \<not> api_hit (line @ [NL]) e"
  shows "\<exists>m m' hb pb. default_read_action fresh line = Some m \<and> parse_api_request m = Some m' \<and>
    msg_cmd m' = MSG_CMD_CONNECT \<and>
    msg_get_connect_information m' = Some (0, Some (hb, pb)) \<and> cstr hb = Some h \<and> cstr pb = Some p"
proof -
  let ?rest = "drop (length line + 2) (msg_string fresh)"
  define m where "m = fresh\<lparr>msg_type := MSG_UNKNOWN, msg_string := line @ NL # NUL # ?rest, msg_len := length line + 1\<rparr>"
  have ne: "line \<noteq> []" "NL \<noteq> NUL" using assms(1) by (simp_all add: NL_def NUL_def)
  have w1: "region_write (msg_string fresh) 0 (line @ [NUL]) = Some (line @ NUL # drop (length line + 1) (msg_string fresh))"
    using assms(2,3) by (simp add: region_write_def)
  have w2: "region_write (line @ NUL # drop (length line + 1) (msg_string fresh)) (length line) [NL, NUL] =
      Some (line @ NL # NUL # ?rest)"
    using assms(2,3) by (simp add: region_write_def)
  have c: "cstr (line @ NL # NUL # ?rest) = Some (line @ [NL])"
    using cstr_terminated [of "line @ [NL]" ?rest] assms(4) ne(2) by simp
  have read: "default_read_action fresh line = Some m"
    unfolding default_read_action_def m_def using ne(1) w1 w2 c cstr_terminated [OF assms(4)] by simp
  have "api_hit (line @ [NL]) (hd api_commands)"
    using strcasestr_infix [of "[]" "''CONNECT''" "CHR '' '' # h @ CHR '' '' # p @ [NL]"] assms(1)
    by (simp add: api_hit_def api_commands_def)
  then have hit: "find (api_hit (line @ [NL])) (rev api_commands) = Some (''CONNECT'', MSG_CMD_CONNECT, 7)"
    using assms(6) by (simp add: api_commands_def)
  define m' where "m' = api_reference (line @ [NL]) m"
  have parse: "parse_api_request m = Some m'"
    unfolding m'_def using c by (intro parse_api_request_table) (simp_all add: m_def)
  have f: "msg_cmd m' = MSG_CMD_CONNECT" "msg_cmd_len m' = int (length ''CONNECT'')"
    "msg_string m' = ''CONNECT'' @ CHR '' '' # h @ CHR '' '' # p @ NL # NUL # ?rest"
    unfolding m'_def api_reference_def Let_def hit by (simp_all add: m_def assms(1))
  have "NUL \<notin> set h" "NUL \<notin> set p" using assms(1,4) by auto
  then have "\<exists>hb pb. msg_get_connect_information m' = Some (0, Some (hb, pb)) \<and> cstr hb = Some h \<and> cstr pb = Some p"
    using connect_information_split [OF f(2,3)] assms(5) by (simp add: NL_def NUL_def)
  then show ?thesis using read parse f(1) by blast
qed


subsection \<open>Messages in the buffer\<close>

lemma extract_found:
  assumes "conn_ok c" "memchr (take (unat (conn_offset c)) (conn_buffer c)) NL = Some i"
  obtains line rest where "cstr ((conn_buffer c)[i := NUL]) = Some line" "length line \<le> i" "i \<le> MAX_MSG_LEN"
    "i < unat (conn_offset c)" "(conn_buffer c)[i := NUL] = line @ NUL # rest" "NUL \<notin> set line" "NL \<notin> set line"
    "conn_buffer c ! i = NL"
proof -
  let ?b = "conn_buffer c"
  have i: "i < length (take (unat (conn_offset c)) ?b)" "NL \<notin> set (take i (take (unat (conn_offset c)) ?b))"
    using memchr_Some [OF assms(2)] by auto
  then have il: "i < unat (conn_offset c)" "i < length ?b" by auto
  have b: "?b[i := NUL] = take i ?b @ NUL # drop (Suc i) ?b" using il(2) by (simp add: upd_conv_take_nth_drop)
  then have "NUL \<in> set (?b[i := NUL])" by simp
  then obtain line where l: "cstr (?b[i := NUL]) = Some line" by (simp add: cstr_def)
  then obtain rest where r: "?b[i := NUL] = line @ NUL # rest" "NUL \<notin> set line" by (rule cstr_Some)
  have le: "length line \<le> i"
  proof (rule ccontr)
    assume "\<not> length line \<le> i"
    then have "line ! i = NUL" using r(1) il(2) by (metis linorder_not_le nth_append nth_list_update_eq)
    then show False using r(2) \<open>\<not> length line \<le> i\<close> by (metis linorder_not_le nth_mem)
  qed
  have "take (length line) (?b[i := NUL]) = line" using r(1) by simp
  then have "line = take (length line) ?b" using le by simp
  also have "\<dots> = take (length line) (take i (take (unat (conn_offset c)) ?b))" using le il(1) by (simp add: min_def)
  finally have "NL \<notin> set line" using i(2) by (metis in_set_takeD)
  moreover have "i \<le> MAX_MSG_LEN" using il(2) assms(1) by (simp add: conn_ok_def)
  moreover have "?b ! i = NL" using memchr_Some [OF assms(2)] il(1) by simp
  ultimately show ?thesis using that l le il(1) r by blast
qed

lemma extract_step:
  assumes "conn_ok c" "connection_extract_message c (Some m) = Some (rc, c', Some m')"
  obtains i line rest where "i < unat (conn_offset c)" "length line \<le> i" "NL \<notin> set line" "NUL \<notin> set line"
    "rc = 1" "c' = c\<lparr>conn_buffer := line @ NUL # rest\<rparr>" "(conn_buffer c)[i := NUL] = line @ NUL # rest"
    "take (length line) (msg_string m') = line" "msg_len m' = length line" "conn_buffer c ! i = NL"
proof -
  have p: "msg_string a' = msg_string a \<and> msg_len a' = msg_len a" if "parse_api_request a = Some a'" for a a'
    using that parse_api_request_table [of a]
    by (cases "msg_len a = 0"; cases "cstr (msg_string a)")
      (auto simp: parse_api_request_def [of a] api_reference_def Let_def)
  have off: "unat (conn_offset c) \<le> length (conn_buffer c)" using assms(1) by (simp add: conn_ok_def)
  obtain i where mem: "memchr (take (unat (conn_offset c)) (conn_buffer c)) NL = Some i"
    using assms(2) off by (auto simp: connection_extract_message_def region_read_def split: option.splits)
  obtain line rest where l: "cstr ((conn_buffer c)[i := NUL]) = Some line"
    "length line \<le> i" "i \<le> MAX_MSG_LEN" "i < unat (conn_offset c)" "(conn_buffer c)[i := NUL] = line @ NUL # rest"
    "NUL \<notin> set line" "NL \<notin> set line" "conn_buffer c ! i = NL" by (rule extract_found [OF assms(1) mem])
  have run: "connection_extract_message c (Some m) = do {
      str \<leftarrow> region_write (msg_string m) 0 line;
      msg' \<leftarrow> parse_api_request (m\<lparr>msg_type := MSG_REQUEST, msg_src_id := -1, msg_dst_id := -1,
            msg_len := length line, msg_string := str\<rparr>);
      Some (1, c\<lparr>conn_buffer := (conn_buffer c)[i := NUL]\<rparr>, Some msg') }"
    using off mem l(1) by (simp add: connection_extract_message_def region_read_def Let_def)
  obtain str where w: "region_write (msg_string m) 0 line = Some str" and rc: "rc = 1"
    and c': "c' = c\<lparr>conn_buffer := (conn_buffer c)[i := NUL]\<rparr>" and
    pa: "parse_api_request (m\<lparr>msg_type := MSG_REQUEST, msg_src_id := -1, msg_dst_id := -1,
            msg_len := length line, msg_string := str\<rparr>) = Some m'"
    using assms(2) unfolding run by (auto split: bind_splits)
  have "take (length line) str = line" using w by (auto simp: region_write_def split: if_splits)
  moreover have "msg_string m' = str" "msg_len m' = length line" using p [OF pa] by simp_all
  moreover have "c' = c\<lparr>conn_buffer := line @ NUL # rest\<rparr>" using c' l(5) by simp
  ultimately show ?thesis using that [of i line rest] l rc by blast
qed

lemma extract_line:
  assumes "conn_ok c" "memchr (take (unat (conn_offset c)) (conn_buffer c)) NL = Some i"
    and "cstr ((conn_buffer c)[i := NUL]) = Some line" "length (msg_string m) = MAX_MSG_LEN"
    and "cstr (drop (length line) (msg_string m)) = Some []"
  shows "\<exists>m'. connection_extract_message c (Some m) = Some (1, c\<lparr>conn_buffer := (conn_buffer c)[i := NUL]\<rparr>, Some m') \<and>
    cstr (msg_string m') = Some line \<and> msg_len m' = length line"
proof -
  have off: "unat (conn_offset c) \<le> length (conn_buffer c)" using assms(1) by (simp add: conn_ok_def)
  obtain rest where r: "drop (length line) (msg_string m) = NUL # rest" using assms(5) by (auto elim: cstr_Some)
  then have "length line < length (msg_string m)" by (metis drop_eq_Nil linorder_not_le list.distinct(1))
  then have w: "region_write (msg_string m) 0 line = Some (line @ NUL # rest)" using r by (simp add: region_write_def)
  have c: "cstr (line @ NUL # rest) = Some line" using cstr_no_NUL [OF assms(3)] by (rule cstr_terminated)
  define m1 where "m1 = m\<lparr>msg_type := MSG_REQUEST, msg_src_id := -1, msg_dst_id := -1,
            msg_len := length line, msg_string := line @ NUL # rest\<rparr>"
  have "\<exists>m'. parse_api_request m1 = Some m' \<and> msg_string m' = msg_string m1 \<and> msg_len m' = msg_len m1"
  proof (cases "line = []")
    case True
    then show ?thesis by (simp add: parse_api_request_def m1_def)
  next
    case False
    then show ?thesis using parse_api_request_table [of m1 line] c by (simp add: m1_def api_reference_def Let_def)
  qed
  then show ?thesis
    using off assms(2,3) w c by (auto simp: connection_extract_message_def region_read_def Let_def m1_def)
qed

lemma extract_no_line:
  assumes "conn_ok c" "NL \<notin> set (take (unat (conn_offset c)) (conn_buffer c))"
  shows "connection_extract_message c (Some m) = None"
  using assms by (simp add: connection_extract_message_def region_read_def conn_ok_def memchr_def)

text \<open>A line that has arrived becomes a message: its text is the first line of the buffer, its length that of the
  line, provided the memory of the message happens to hold a NUL right after the place of the text, because the copy
  does not write one.\<close>

theorem connection_extract_message_line:
  assumes "conn_ok c" "memchr (take (unat (conn_offset c)) (conn_buffer c)) NL = Some i"
    and "cstr ((conn_buffer c)[i := NUL]) = Some line" "length (msg_string m) = MAX_MSG_LEN"
    and "cstr (drop (length line) (msg_string m)) = Some []"
  shows "\<exists>m'. connection_extract_message c (Some m) = Some (1, c\<lparr>conn_buffer := (conn_buffer c)[i := NUL]\<rparr>, Some m') \<and>
    cstr (msg_string m') = Some line \<and> msg_len m' = length line"
  using extract_line [OF assms] .

text \<open>Data without the end of a line is fatal: the search for it fails and the code goes on with NULL + 1, whatever
  has arrived, so a client that sends a message in two pieces brings the reader down.\<close>

theorem partial_message_undefined:
  assumes "conn_ok c" "NL \<notin> set (take (unat (conn_offset c)) (conn_buffer c))"
  shows "connection_extract_message c (Some m) = None"
  using extract_no_line [OF assms] .

text \<open>Data that arrives: any number of reads.\<close>

fun read_many :: "read_result list \<Rightarrow> connection \<Rightarrow> connection option" where
  "read_many [] c = Some c"
| "read_many (rd # rds) c = do {
     (rc, c') \<leftarrow> read_connection_data rd (Some c);
     c'' \<leftarrow> c';
     read_many rds c'' }"

lemma read_many_keeps:
  "conn_ok c \<Longrightarrow> read_many rds c = Some c' \<Longrightarrow> conn_ok c' \<and> unat (conn_offset c) \<le> unat (conn_offset c') \<and>
     take (unat (conn_offset c)) (conn_buffer c') = take (unat (conn_offset c)) (conn_buffer c)"
proof (induction rds arbitrary: c)
  case Nil
  then show ?case by simp
next
  case (Cons rd rds)
  obtain rc c1 where r: "read_connection_data rd (Some c) = Some (rc, Some c1)" "conn_ok c1"
    "unat (conn_offset c) \<le> unat (conn_offset c1)"
    "take (unat (conn_offset c)) (conn_buffer c1) = take (unat (conn_offset c)) (conn_buffer c)"
    using read_keeps [OF Cons.prems(1), of rd] by blast
  then have "read_many rds c1 = Some c'" using Cons.prems(2) by simp
  with Cons.IH [OF r(2)] have i: "conn_ok c'" "unat (conn_offset c1) \<le> unat (conn_offset c')"
    "take (unat (conn_offset c1)) (conn_buffer c') = take (unat (conn_offset c1)) (conn_buffer c1)" by auto
  have "take (unat (conn_offset c)) (conn_buffer c') = take (unat (conn_offset c)) (conn_buffer c1)"
    using i(3) r(3) by (metis min_def take_take)
  then show ?case using i r(3,4) by simp
qed

text \<open>A connection delivers its first message for ever: a message is never removed from the buffer, so after one
  has been extracted, whatever arrives later, the next extraction that succeeds gives the same text again.\<close>

theorem extract_repeats_first_message:
  assumes "conn_ok c" "connection_extract_message c (Some m) = Some (rc, c1, Some m1)"
    and "read_many rds c1 = Some c2" "connection_extract_message c2 (Some n) = Some (rc', c3, Some n1)"
  shows "msg_len n1 = msg_len m1 \<and> take (msg_len n1) (msg_string n1) = take (msg_len m1) (msg_string m1)"
proof -
  obtain i line rest where e: "i < unat (conn_offset c)" "length line \<le> i"
    "NL \<notin> set line" "NUL \<notin> set line" "rc = 1" "c1 = c\<lparr>conn_buffer := line @ NUL # rest\<rparr>"
    "(conn_buffer c)[i := NUL] = line @ NUL # rest" "take (length line) (msg_string m1) = line"
    "msg_len m1 = length line" "conn_buffer c ! i = NL" by (rule extract_step [OF assms(1,2)])
  have "length (line @ NUL # rest) = length (conn_buffer c)" using e(7) by (metis length_list_update)
  then have ok1: "conn_ok c1" using assms(1) e(6) by (simp add: conn_ok_def)
  from read_many_keeps [OF ok1 assms(3)] have ok2: "conn_ok c2" and
    keep: "take (unat (conn_offset c)) (conn_buffer c2) = take (unat (conn_offset c)) (line @ NUL # rest)"
    by (simp_all add: e(6))
  have "take (Suc (length line)) (conn_buffer c2) = take (Suc (length line)) (take (unat (conn_offset c)) (conn_buffer c2))"
    using e(1,2) by (simp add: min_def)
  also have "\<dots> = line @ [NUL]" unfolding keep using e(1,2) by (simp add: min_def)
  finally obtain d where b2: "conn_buffer c2 = line @ NUL # d"
    using append_take_drop_id [of "Suc (length line)" "conn_buffer c2"] by (metis append_Cons append_Nil append_assoc)
  obtain j line' rest' where f: "j < unat (conn_offset c2)" "length line' \<le> j" "NL \<notin> set line'" "NUL \<notin> set line'"
    "rc' = 1" "c3 = c2\<lparr>conn_buffer := line' @ NUL # rest'\<rparr>" "(conn_buffer c2)[j := NUL] = line' @ NUL # rest'"
    "take (length line') (msg_string n1) = line'"
    "msg_len n1 = length line'" "conn_buffer c2 ! j = NL" by (rule extract_step [OF ok2 assms(4)])
  have "\<not> j < length line"
  proof
    assume l: "j < length line"
    then have "line ! j = NL" using f(10) by (simp add: b2 nth_append)
    then show False using nth_mem [OF l] e(3) by metis
  qed
  moreover have "j \<noteq> length line" using f(10) by (auto simp: b2 NL_def NUL_def)
  ultimately obtain k where "j = length line + Suc k" by (metis add_Suc_right less_iff_Suc_add linorder_neqE_nat)
  then have "(conn_buffer c2)[j := NUL] = line @ NUL # d[k := NUL]"
    by (simp add: b2 list_update_append)
  then have "line' @ NUL # rest' = line @ NUL # d[k := NUL]" using f(7) by simp
  then have "line' = line" using takeWhile_until [OF f(4), of rest'] takeWhile_until [OF e(4)] by metis
  then show ?thesis using e(8,9) f(8,9) by simp
qed


subsection \<open>Examples\<close>

lemma cstr_padded: "NUL \<notin> set s \<Longrightarrow> 0 < n \<Longrightarrow> cstr (s @ replicate n NUL) = Some s"
  using cstr_terminated [of s "replicate (n - 1) NUL"] by (cases n) auto

definition zero_message :: message where
  "zero_message = \<lparr>msg_cmd = 0, msg_cmd_len = 0, msg_type = 0, msg_src_id = 0, msg_dst_id = 0, msg_len = 0,
     msg_string = replicate MAX_MSG_LEN NUL\<rparr>"

definition demo_connection :: connection where
  "demo_connection = zero_connection\<lparr>conn_offset := 5,
     conn_buffer := ''STOP'' @ NL # replicate 508 NUL\<rparr>"

definition stop_message :: message where
  "stop_message = zero_message\<lparr>msg_src_id := -1, msg_dst_id := -1, msg_len := 4,
     msg_string := ''STOP'' @ replicate 508 NUL\<rparr>"

lemma demo_connection_ok: "conn_ok demo_connection"
  by (simp add: conn_ok_def demo_connection_def zero_connection_def MAX_MSG_LEN_def)

theorem read_connection_data_ok_witness:
  "\<exists>rc c'. read_connection_data (ReadBytes ''GET'') (Some demo_connection) = Some (rc, Some c') \<and> conn_ok c'"
  using read_connection_data_ok [OF demo_connection_ok, of "ReadBytes ''GET''"] by blast

theorem parse_api_request_reference_witness:
  "\<exists>m'. parse_api_request stop_message = Some m' \<and> msg_cmd m' = MSG_CMD_STOP"
proof -
  have n: "msg_len stop_message \<noteq> 0" "cstr (msg_string stop_message) = Some ''STOP''"
    using cstr_padded [of "''STOP''" 508] by (simp_all add: stop_message_def NUL_def)
  have "msg_cmd (api_reference ''STOP'' stop_message) = MSG_CMD_STOP"
    by (simp add: api_reference_def Let_def api_commands_def api_hit_def lower_def strcasecmp_def)
  then show ?thesis using parse_api_request_reference [OF n] by simp
qed

lemma zero_message_fresh:
  "length (msg_string zero_message) = MAX_MSG_LEN"
  "n < MAX_MSG_LEN \<Longrightarrow> cstr (drop n (msg_string zero_message)) = Some []"
  using cstr_padded [of "[]" "MAX_MSG_LEN - n"] by (simp_all add: zero_message_def)

lemma demo_memchr: "memchr (take (unat (conn_offset demo_connection)) (conn_buffer demo_connection)) NL = Some 4"
  using memchr_append [of NL "''STOP''" "[]"] by (simp add: NL_def demo_connection_def)

lemma demo_update: "(conn_buffer demo_connection)[4 := NUL] = ''STOP'' @ NUL # replicate 508 NUL"
  by (simp add: demo_connection_def numeral_eq_Suc del: replicate_Suc)

lemma demo_line: "cstr ((conn_buffer demo_connection)[4 := NUL]) = Some ''STOP''"
  unfolding demo_update using cstr_terminated [of "''STOP''"] by (simp add: NUL_def)

theorem connection_extract_message_line_witness:
  "\<exists>c' m'. connection_extract_message demo_connection (Some zero_message) = Some (1, c', Some m') \<and>
     cstr (msg_string m') = Some ''STOP''"
  using connection_extract_message_line [OF demo_connection_ok demo_memchr demo_line, of zero_message]
  by (auto simp: zero_message_fresh MAX_MSG_LEN_def)

theorem partial_message_undefined_witness:
  "connection_extract_message (demo_connection\<lparr>conn_offset := 4\<rparr>) (Some zero_message) = None"
  by (rule partial_message_undefined)
    (simp_all add: demo_connection_def zero_connection_def conn_ok_def MAX_MSG_LEN_def NL_def)

definition demo_after :: connection where
  "demo_after = demo_connection\<lparr>conn_offset := 9, conn_buffer := ''STOP'' @ NUL # ''GET'' @ NL # replicate 504 NUL\<rparr>"

lemma demo_read: "read_many [ReadBytes (''GET'' @ [NL])]
     (demo_connection\<lparr>conn_buffer := (conn_buffer demo_connection)[4 := NUL]\<rparr>) = Some demo_after"
proof -
  have "int_of_size 508 = 508" by (simp add: int_of_size_def)
  then show ?thesis
    unfolding demo_update
    by (simp add: read_connection_data_def Let_def demo_connection_def demo_after_def region_write_def MAX_MSG_LEN_def)
qed

theorem extract_repeats_first_message_witness:
  "\<exists>c1 m1 c3 n1. connection_extract_message demo_connection (Some zero_message) = Some (1, c1, Some m1) \<and>
     connection_extract_message demo_after (Some zero_message) = Some (1, c3, Some n1) \<and> msg_len n1 = msg_len m1"
proof -
  obtain m1 where e1: "connection_extract_message demo_connection (Some zero_message) =
      Some (1, demo_connection\<lparr>conn_buffer := (conn_buffer demo_connection)[4 := NUL]\<rparr>, Some m1)"
    using extract_line [OF demo_connection_ok demo_memchr demo_line, of zero_message]
    by (auto simp: zero_message_fresh MAX_MSG_LEN_def)
  have ok: "conn_ok demo_after" by (simp add: demo_after_def conn_ok_def MAX_MSG_LEN_def)
  have m: "memchr (take (unat (conn_offset demo_after)) (conn_buffer demo_after)) NL = Some 8"
    using memchr_append [of NL "''STOP'' @ NUL # ''GET''" "[]"] by (simp add: demo_after_def NL_def NUL_def)
  have "(conn_buffer demo_after)[8 := NUL] = ''STOP'' @ NUL # ''GET'' @ NUL # replicate 504 NUL"
    by (simp add: demo_after_def numeral_eq_Suc del: replicate_Suc)
  then have "cstr ((conn_buffer demo_after)[8 := NUL]) = Some ''STOP''"
    using cstr_terminated [of "''STOP''"] by (simp add: NUL_def)
  from extract_line [OF ok m this, of zero_message] obtain n1 where
    e2: "connection_extract_message demo_after (Some zero_message) =
      Some (1, demo_after\<lparr>conn_buffer := (conn_buffer demo_after)[8 := NUL]\<rparr>, Some n1)"
    by (auto simp: zero_message_fresh MAX_MSG_LEN_def)
  show ?thesis using e1 e2 extract_repeats_first_message [OF demo_connection_ok e1 demo_read e2] by blast
qed

theorem typed_connect_roundtrip_witness:
  "\<exists>m m'. default_read_action zero_message ''CONNECT cam 80'' = Some m \<and> parse_api_request m = Some m' \<and>
     msg_cmd m' = MSG_CMD_CONNECT"
proof -
  have "\<forall>e \<in> set (tl api_commands). \<not> api_hit (''CONNECT cam 80'' @ [NL]) e"
    by code_simp
  then show ?thesis
    using typed_connect_roundtrip [of "''CONNECT cam 80''" "''cam''" "''80''" zero_message]
    by (auto simp: zero_message_fresh MAX_MSG_LEN_def NUL_def)
qed

end
