(* ===== verification/TcpServer.thy ===== *)
theory TcpServer imports Message External begin

section \<open>The TCP server\<close>

text \<open>
  \<^verbatim>\<open>tcp/src/connection.c\<close>, \<^verbatim>\<open>tcp/src/server.c\<close> and the server's part of \<^verbatim>\<open>tcp/src/messenger.c\<close>. Connections
  live in a store of addresses; the world also has the open descriptors and the connections in the epoll
  set. What the system calls answer is in the events.
\<close>

record tcp_world =
  tw_store :: "addr \<Rightarrow> connection option"
  tw_fresh :: addr
  tw_open :: "int list"
  tw_epoll :: "addr list"

definition close_fd :: "int \<Rightarrow> tcp_world \<Rightarrow> tcp_world" where
  "close_fd fd w = w\<lparr>tw_open := removeAll fd (tw_open w)\<rparr>"

subsection \<open>Connections\<close>

definition connection_add ::
  "'l list_ops \<Rightarrow> bool \<Rightarrow> 'l \<Rightarrow> int \<Rightarrow> int \<Rightarrow> tcp_world \<Rightarrow> addr option \<times> 'l \<times> int \<times> tcp_world" where
  "connection_add L mem_ok l cnt fd w =
     (if \<not> mem_ok then (None, l, cnt, w)
      else let a = tw_fresh w in
        (Some a, list_add_back L l a, cnt + 1,
         w\<lparr>tw_store := (tw_store w)(a \<mapsto> zero_connection\<lparr>conn_fd := fd\<rparr>), tw_fresh := Suc a\<rparr>))"

text \<open>Closing the descriptor takes the connection out of the epoll set.\<close>

definition connection_delete ::
  "'l list_ops \<Rightarrow> 'l \<Rightarrow> int \<Rightarrow> addr \<Rightarrow> tcp_world \<Rightarrow> ('l \<times> int \<times> tcp_world) option" where
  "connection_delete L l cnt a w = do {
     c \<leftarrow> tw_store w a;
     Some (list_remove_elem L l a, cnt - 1,
       (close_fd (conn_fd c) w)\<lparr>tw_store := (tw_store w)(a := None), tw_epoll := removeAll a (tw_epoll w)\<rparr>) }"

fun find_connection ::
  "string \<Rightarrow> string \<Rightarrow> (addr \<Rightarrow> connection option) \<Rightarrow> addr list \<Rightarrow> addr option option" where
  "find_connection host port store [] = Some None"
| "find_connection host port store (a # as) = do {
     c \<leftarrow> store a;
     service \<leftarrow> cstr (conn_service c);
     found \<leftarrow> (if service = port then map_option (\<lambda>h. h = host) (cstr (conn_host c)) else Some False);
     if found then Some (Some a) else find_connection host port store as }"

definition connection_get ::
  "'l list_ops \<Rightarrow> string \<Rightarrow> string \<Rightarrow> 'l \<Rightarrow> tcp_world \<Rightarrow> addr option option" where
  "connection_get L host port l w = find_connection host port (tw_store w) (list_walk L l)"

text \<open>The loop that ends a client or a server: the first connection is deleted until the list is empty.\<close>

partial_function (option) delete_connections ::
  "'l list_ops \<Rightarrow> 'l \<Rightarrow> int \<Rightarrow> tcp_world \<Rightarrow> ('l \<times> int \<times> tcp_world) option" where
  "delete_connections L l cnt w =
     (case list_walk L l of
        [] \<Rightarrow> Some (l, cnt, w)
      | a # _ \<Rightarrow> do {
          (l', cnt', w') \<leftarrow> connection_delete L l cnt a w;
          delete_connections L l' cnt' w' })"

subsection \<open>The server structure\<close>

record 'l server =
  srv_list :: 'l
  srv_cnt :: int
  srv_port :: string
  srv_max_events :: int
  srv_exit :: int

definition server_init :: "'l list_ops \<Rightarrow> string \<Rightarrow> 'l server option" where
  "server_init L port = do {
     p \<leftarrow> strcpy_buf 8 port;
     Some \<lparr>srv_list = list_init L, srv_cnt = 0, srv_port = p, srv_max_events = 0, srv_exit = 0\<rparr> }"

definition server_create :: "'l list_ops \<Rightarrow> string \<Rightarrow> int \<Rightarrow> 'l server option" where
  "server_create L port max_events = do {
     p \<leftarrow> strcpy_buf 8 port;
     Some \<lparr>srv_list = list_init L, srv_cnt = 0, srv_port = p, srv_max_events = max_events, srv_exit = 0\<rparr> }"

text \<open>The end waits for the listening thread (\<open>ended\<close>: it has returned); the signal the log announces is not sent.\<close>

definition server_destroy :: "'l list_ops \<Rightarrow> bool \<Rightarrow> 'l server \<Rightarrow> tcp_world \<Rightarrow> tcp_world call_result option" where
  "server_destroy L ended srv w = do {
     (l, cnt, w') \<leftarrow> delete_connections L (srv_list srv) (srv_cnt srv) w;
     Some (if ended then Returns w' else Hangs) }"

subsection \<open>Setting up the socket\<close>

text \<open>
  The addresses tried in turn: the descriptor \<open>socket\<close> answers, and whether \<open>setsockopt\<close> and \<open>bind\<close>
  succeed. Results: whether the loop was left by a \<open>break\<close>, the variable \<open>listen_fd\<close>, the open descriptors.
\<close>

fun bind_loop :: "(int \<times> bool \<times> bool) list \<Rightarrow> int option \<Rightarrow> int list \<Rightarrow> bool \<times> int option \<times> int list" where
  "bind_loop [] lfd fds = (False, lfd, fds)"
| "bind_loop ((fd, opt_ok, bind_ok) # rs) lfd fds =
     (if fd = -1 then bind_loop rs (Some fd) fds
      else if \<not> opt_ok then (True, Some fd, fds)
      else if bind_ok then (True, Some fd, fd # fds)
      else bind_loop rs (Some fd) (fd # fds))"

record server_answers =
  sa_epoll_fd :: int
  sa_addrinfo_ok :: bool
  sa_addresses :: "(int \<times> bool \<times> bool) list"
  sa_listen_ok :: bool
  sa_epoll_ok :: bool

text \<open>
  \<open>tcp_server_process\<close> up to its loop: the descriptors of the epoll set and of the socket, or nothing when the thread
  returns, and the open descriptors. Closing an uninitialised \<open>listen_fd\<close> is undefined.
\<close>

definition server_setup :: "server_answers \<Rightarrow> int list \<Rightarrow> ((int \<times> int) option \<times> int list) option" where
  "server_setup an fds =
     (let ep = sa_epoll_fd an in
      if ep < 0 then Some (None, fds)
      else let fds1 = ep # fds in
        if \<not> sa_addrinfo_ok an then Some (None, removeAll ep fds1)
        else (case bind_loop (sa_addresses an) None fds1 of (broke, lfd, fds2) \<Rightarrow> do {
          listen_fd \<leftarrow> lfd;
          if \<not> broke then Some (None, removeAll ep (removeAll listen_fd fds2))
          else if \<not> (sa_listen_ok an \<and> listen_fd \<in> set fds2) then Some (None, removeAll ep (removeAll listen_fd fds2))
          else if \<not> sa_epoll_ok an then Some (None, removeAll ep (removeAll listen_fd fds2))
          else Some (Some (ep, listen_fd), fds2) }))"

subsection \<open>Events\<close>

definition server_add_connection ::
  "'l list_ops \<Rightarrow> bool \<Rightarrow> bool \<Rightarrow> string \<Rightarrow> string \<Rightarrow> 'l server \<Rightarrow> int \<Rightarrow> tcp_world \<Rightarrow>
     (int \<times> 'l server \<times> tcp_world) option" where
  "server_add_connection L mem_ok epoll_ok host service srv fd w =
     (case connection_add L mem_ok (srv_list srv) (srv_cnt srv) fd w of
        (None, l, cnt, w1) \<Rightarrow> Some (1, srv\<lparr>srv_list := l, srv_cnt := cnt\<rparr>, close_fd fd w1)
      | (Some a, l, cnt, w1) \<Rightarrow> do {
          c \<leftarrow> tw_store w1 a;
          h \<leftarrow> memcpy_array NI_MAXHOST host;
          s \<leftarrow> memcpy_array NI_MAXSERV service;
          let w2 = w1\<lparr>tw_store := (tw_store w1)(a \<mapsto> c\<lparr>conn_host := h, conn_service := s\<rparr>)\<rparr> in
          if epoll_ok
          then Some (0, srv\<lparr>srv_list := l, srv_cnt := cnt\<rparr>, w2\<lparr>tw_epoll := a # tw_epoll w2\<rparr>)
          else do {
            (l', cnt', w3) \<leftarrow> connection_delete L l cnt a w2;
            c' \<leftarrow> tw_store w3 a;
            Some (1, srv\<lparr>srv_list := l', srv_cnt := cnt'\<rparr>, w3) } })"

definition server_execute_callback :: "message \<Rightarrow> int \<Rightarrow> int" where
  "server_execute_callback m exit_flag = (if msg_cmd m = MSG_CMD_STOP then 1 else exit_flag)"

text \<open>
  An event of the epoll set: a new connection (the descriptor \<open>accept\<close> answers, the arrays \<open>getnameinfo\<close> leaves,
  whether memory and \<open>epoll_ctl\<close> work), or data for a connection (what \<open>read\<close> answers, the memory \<open>malloc\<close> gives).
  The user's callback may change the exit flag.
\<close>

datatype server_input =
    NewConnection int string string bool bool
  | Readable addr read_result message

definition server_event ::
  "'l list_ops \<Rightarrow> (message \<Rightarrow> int \<Rightarrow> int) option \<Rightarrow> server_input \<Rightarrow> 'l server \<times> tcp_world \<Rightarrow>
     ('l server \<times> tcp_world) option" where
  "server_event L exec ev s = (case s of (srv, w) \<Rightarrow>
     (case ev of
        NewConnection fd host service mem_ok epoll_ok \<Rightarrow>
          if fd < 0 then Some (srv, w)
          else do {
            (rc, srv', w') \<leftarrow> server_add_connection L mem_ok epoll_ok host service srv fd (w\<lparr>tw_open := fd # tw_open w\<rparr>);
            Some (srv', w') }
      | Readable a rd fresh \<Rightarrow> do {
          c \<leftarrow> tw_store w a;
          (rc, pc) \<leftarrow> read_connection_data rd (Some c);
          c1 \<leftarrow> pc;
          let w1 = w\<lparr>tw_store := (tw_store w)(a \<mapsto> c1)\<rparr> in
          if rc = 1 then do {
            (l, cnt, w2) \<leftarrow> connection_delete L (srv_list srv) (srv_cnt srv) a w1;
            Some (srv\<lparr>srv_list := l, srv_cnt := cnt\<rparr>, w2) }
          else do {
            (rc', c2, pm) \<leftarrow> connection_extract_message c1 (Some fresh);
            let w2 = w1\<lparr>tw_store := (tw_store w1)(a \<mapsto> c2)\<rparr> in
            if rc' = 1 then do {
              m \<leftarrow> pm;
              let f = (case exec of None \<Rightarrow> server_execute_callback | Some f \<Rightarrow> f) in
              Some (srv\<lparr>srv_exit := f m (srv_exit srv)\<rparr>, w2) }
            else Some (srv, w2) } }))"

fun server_events ::
  "'l list_ops \<Rightarrow> (message \<Rightarrow> int \<Rightarrow> int) option \<Rightarrow> server_input list \<Rightarrow> 'l server \<times> tcp_world \<Rightarrow>
     ('l server \<times> tcp_world) option" where
  "server_events L exec [] s = Some s"
| "server_events L exec (ev # evs) s = do { s' \<leftarrow> server_event L exec ev s; server_events L exec evs s' }"

text \<open>
  The loop of \<open>tcp_server_process\<close>. For each wait: whether the exit flag was set meanwhile, and the answer, an error
  (with or without EAGAIN or EINTR) or the events. The first result says that the thread has returned.
\<close>

datatype epoll_answer = EpollError bool | EpollEvents "server_input list"

fun server_loop ::
  "'l list_ops \<Rightarrow> (message \<Rightarrow> int \<Rightarrow> int) option \<Rightarrow> int \<Rightarrow> int \<Rightarrow> (bool \<times> epoll_answer) list \<Rightarrow>
     'l server \<times> tcp_world \<Rightarrow> (bool \<times> 'l server \<times> tcp_world) option" where
  "server_loop L exec ep lfd [] (srv, w) =
     Some (if srv_exit srv \<noteq> 0 then (True, srv, close_fd ep (close_fd lfd w)) else (False, srv, w))"
| "server_loop L exec ep lfd ((stop, an) # ans) (srv, w) =
     (if srv_exit srv \<noteq> 0 then Some (True, srv, close_fd ep (close_fd lfd w))
      else if stop then Some (True, srv\<lparr>srv_exit := 1\<rparr>, close_fd ep (close_fd lfd w))
      else (case an of
          EpollError again \<Rightarrow>
            if again then server_loop L exec ep lfd ans (srv, w) else Some (True, srv, close_fd ep (close_fd lfd w))
        | EpollEvents evs \<Rightarrow> do {
            s' \<leftarrow> server_events L exec evs (srv, w);
            server_loop L exec ep lfd ans s' }))"

subsection \<open>Connections that are all alive\<close>

text \<open>
  The list, the store and the epoll set hold the same connections; every connection is well formed and has an
  open descriptor of its own; the counter is right.
\<close>

definition store_ok :: "addr \<Rightarrow> int set \<Rightarrow> (addr \<Rightarrow> connection option) \<Rightarrow> bool" where
  "store_ok fresh fds store \<longleftrightarrow>
     (\<forall>a c. store a = Some c \<longrightarrow> a < fresh \<and> conn_ok c \<and> conn_fd c \<in> fds) \<and>
     (\<forall>a b c d. store a = Some c \<longrightarrow> store b = Some d \<longrightarrow> conn_fd c = conn_fd d \<longrightarrow> a = b)"

lemma store_okD:
  assumes "store_ok fresh fds store" "store a = Some c"
  shows "a < fresh" "conn_ok c" "conn_fd c \<in> fds" "store b = Some d \<Longrightarrow> conn_fd c = conn_fd d \<Longrightarrow> a = b"
  using assms unfolding store_ok_def by blast+

lemma store_okI:
  assumes "\<And>a c. store a = Some c \<Longrightarrow> a < fresh \<and> conn_ok c \<and> conn_fd c \<in> fds"
    and "\<And>a b c d. store a = Some c \<Longrightarrow> store b = Some d \<Longrightarrow> conn_fd c = conn_fd d \<Longrightarrow> a = b"
  shows "store_ok fresh fds store"
  using assms unfolding store_ok_def by blast

lemma store_ok_upd:
  assumes "store_ok fresh fds store" "store a = Some c" "conn_ok c'" "conn_fd c' = conn_fd c"
  shows "store_ok fresh fds (store(a \<mapsto> c'))"
  using store_okD [OF assms(1)] assms(2-4) by (intro store_okI) (fastforce split: if_splits)+

lemma store_ok_del:
  assumes "store_ok fresh fds store" "store a = Some c"
  shows "store_ok fresh (fds - {conn_fd c}) (store(a := None))"
  using store_okD [OF assms(1)] assms(2) by (intro store_okI) (fastforce split: if_splits)+

lemma store_ok_add:
  assumes "store_ok fresh fds store" "conn_ok c" "conn_fd c \<notin> fds"
  shows "store_ok (Suc fresh) (insert (conn_fd c) fds) (store(fresh \<mapsto> c))"
proof (rule store_okI)
  fix a d assume "(store(fresh \<mapsto> c)) a = Some d"
  then show "a < Suc fresh \<and> conn_ok d \<and> conn_fd d \<in> insert (conn_fd c) fds"
    using store_okD(1-3) [OF assms(1), of a d] assms(2) by (cases "a = fresh") auto
next
  fix a b d e
  assume h: "(store(fresh \<mapsto> c)) a = Some d" "(store(fresh \<mapsto> c)) b = Some e" "conn_fd d = conn_fd e"
  have fd: "conn_fd d' \<noteq> conn_fd c" if "x \<noteq> fresh" "(store(fresh \<mapsto> c)) x = Some d'" for x d'
    using store_okD(3) [OF assms(1), of x d'] that assms(3) by auto
  show "a = b"
    using h fd [of a d] fd [of b e] store_okD(4) [OF assms(1), of a d b e] by (cases "a = fresh"; cases "b = fresh") auto
qed

definition conns_ok :: "'l list_ops \<Rightarrow> 'l \<Rightarrow> int \<Rightarrow> tcp_world \<Rightarrow> bool" where
  "conns_ok L l cnt w \<longleftrightarrow>
     distinct (list_walk L l) \<and> set (list_walk L l) = dom (tw_store w) \<and> set (tw_epoll w) = dom (tw_store w) \<and>
     cnt = int (length (list_walk L l)) \<and> store_ok (tw_fresh w) (set (tw_open w)) (tw_store w)"

lemma conns_ok_upd:
  assumes "conns_ok L l cnt w" "tw_store w a = Some c" "conn_ok c'" "conn_fd c' = conn_fd c"
  shows "conns_ok L l cnt (w\<lparr>tw_store := (tw_store w)(a \<mapsto> c')\<rparr>)"
proof -
  have "store_ok (tw_fresh w) (set (tw_open w)) ((tw_store w)(a \<mapsto> c'))"
    using assms by (intro store_ok_upd) (simp_all add: conns_ok_def)
  moreover have "dom ((tw_store w)(a \<mapsto> c')) = dom (tw_store w)" using assms(2) by auto
  ultimately show ?thesis using assms(1) by (simp add: conns_ok_def)
qed

lemma connection_delete_ok:
  assumes "list_laws L" "conns_ok L l cnt w" "tw_store w a = Some c"
  obtains l' cnt' w' where "connection_delete L l cnt a w = Some (l', cnt', w')" "conns_ok L l' cnt' w'"
    "list_walk L l' = remove1 a (list_walk L l)" "tw_store w' = (tw_store w)(a := None)"
    "tw_open w' = removeAll (conn_fd c) (tw_open w)"
proof -
  let ?w = "(close_fd (conn_fd c) w)\<lparr>tw_store := (tw_store w)(a := None), tw_epoll := removeAll a (tw_epoll w)\<rparr>"
  have a: "a \<in> set (list_walk L l)" using assms(2,3) by (auto simp: conns_ok_def)
  have walk: "list_walk L (list_remove_elem L l a) = remove1 a (list_walk L l)" by (rule list_lawsD(3) [OF assms(1) a])
  have "0 < length (list_walk L l)" "cnt = int (length (list_walk L l))" using a assms(2) by (auto simp: conns_ok_def)
  then have len: "cnt - 1 = int (length (remove1 a (list_walk L l)))" using a by (simp add: length_remove1 of_nat_diff Suc_leI)
  have "store_ok (tw_fresh w) (set (tw_open w) - {conn_fd c}) ((tw_store w)(a := None))"
    using assms(2,3) by (intro store_ok_del) (simp_all add: conns_ok_def)
  then have "conns_ok L (list_remove_elem L l a) (cnt - 1) ?w"
    using assms(2) len by (auto simp: conns_ok_def walk close_fd_def)
  moreover have "connection_delete L l cnt a w = Some (list_remove_elem L l a, cnt - 1, ?w)"
    using assms(3) by (simp add: connection_delete_def)
  ultimately show ?thesis using that walk by (simp add: close_fd_def)
qed

lemma zero_connection_ok: "conn_ok (zero_connection\<lparr>conn_fd := fd\<rparr>)"
  by (simp add: conn_ok_def zero_connection_def)

lemma conns_ok_add:
  assumes "list_laws L" "conns_ok L l cnt w" "fd \<notin> set (tw_open w)" "conn_ok c" "conn_fd c = fd"
  shows "conns_ok L (list_add_back L l (tw_fresh w)) (cnt + 1)
    (w\<lparr>tw_open := fd # tw_open w, tw_fresh := Suc (tw_fresh w), tw_store := (tw_store w)(tw_fresh w \<mapsto> c),
       tw_epoll := tw_fresh w # tw_epoll w\<rparr>)" (is "conns_ok L ?l ?cnt ?w")
proof -
  have new: "tw_fresh w \<notin> dom (tw_store w)" using assms(2) by (fastforce simp: conns_ok_def dest: store_okD(1))
  then have "tw_fresh w \<notin> set (list_walk L l)" using assms(2) by (simp add: conns_ok_def)
  note walk = list_lawsD(2) [OF assms(1) this]
  have "store_ok (Suc (tw_fresh w)) (insert fd (set (tw_open w))) ((tw_store w)(tw_fresh w \<mapsto> c))"
    using store_ok_add [of "tw_fresh w" "set (tw_open w)" "tw_store w" c] assms by (simp add: conns_ok_def)
  then show ?thesis using assms(2) new by (auto simp: conns_ok_def walk)
qed

text \<open>The connections of a list are a list of descriptors.\<close>

interpretation connection_list: descriptor_list
  "\<lambda>(l, cnt, w). list_laws L \<and> conns_ok L l cnt w" "\<lambda>(l, cnt, w). list_walk L l"
  "\<lambda>(l, cnt, w) a. case tw_store w a of Some c \<Rightarrow> conn_fd c | None \<Rightarrow> -1" "\<lambda>(l, cnt, w). set (tw_open w)"
  "\<lambda>a (l, cnt, w). connection_delete L l cnt a w" "\<lambda>(l, cnt, w). delete_connections L l cnt w"
  for L :: "'l list_ops"
proof
  fix s :: "'l \<times> int \<times> tcp_world" and a as
  obtain l cnt w where s: "s = (l, cnt, w)" by (metis prod_cases3)
  show "(case s of (l, cnt, w) \<Rightarrow> list_walk L l) = [] \<Longrightarrow>
      (case s of (l, cnt, w) \<Rightarrow> delete_connections L l cnt w) = Some s"
    by (simp add: s delete_connections.simps)
  show "(case s of (l, cnt, w) \<Rightarrow> list_walk L l) = a # as \<Longrightarrow>
      (case s of (l, cnt, w) \<Rightarrow> delete_connections L l cnt w) =
      Option.bind (case s of (l, cnt, w) \<Rightarrow> connection_delete L l cnt a w)
        (\<lambda>(l, cnt, w). delete_connections L l cnt w)"
    by (simp add: s delete_connections.simps [of L l])
  assume "case s of (l, cnt, w) \<Rightarrow> list_laws L \<and> conns_ok L l cnt w"
    and "(case s of (l, cnt, w) \<Rightarrow> list_walk L l) = a # as"
  then have ok: "list_laws L" "conns_ok L l cnt w" and as: "list_walk L l = a # as" by (simp_all add: s)
  obtain c where c: "tw_store w a = Some c" using ok(2) as by (force simp: conns_ok_def)
  obtain l' cnt' w' where d: "connection_delete L l cnt a w = Some (l', cnt', w')" "conns_ok L l' cnt' w'"
    "list_walk L l' = remove1 a (list_walk L l)" "tw_store w' = (tw_store w)(a := None)"
    "tw_open w' = removeAll (conn_fd c) (tw_open w)" by (rule connection_delete_ok [OF ok c])
  have "a \<notin> set as" using ok(2) as by (simp add: conns_ok_def)
  then show "\<exists>s'. (case s of (l, cnt, w) \<Rightarrow> connection_delete L l cnt a w) = Some s' \<and>
      (case s' of (l, cnt, w) \<Rightarrow> list_laws L \<and> conns_ok L l cnt w) \<and>
      (case s' of (l, cnt, w) \<Rightarrow> list_walk L l) = as \<and>
      (case s' of (l, cnt, w) \<Rightarrow> set (tw_open w)) = (case s of (l, cnt, w) \<Rightarrow> set (tw_open w)) -
        {(case s of (l, cnt, w) \<Rightarrow> \<lambda>a. case tw_store w a of Some c \<Rightarrow> conn_fd c | None \<Rightarrow> -1) a} \<and>
      (\<forall>b \<in> set as. (case s' of (l, cnt, w) \<Rightarrow> \<lambda>a. case tw_store w a of Some c \<Rightarrow> conn_fd c | None \<Rightarrow> -1) b =
        (case s of (l, cnt, w) \<Rightarrow> \<lambda>a. case tw_store w a of Some c \<Rightarrow> conn_fd c | None \<Rightarrow> -1) b)"
    using d ok(1) as by (auto simp: s c)
qed

lemma delete_connections_ok:
  assumes "list_laws L" "conns_ok L l cnt w"
  shows "\<exists>l' w'. delete_connections L l cnt w = Some (l', 0, w') \<and> conns_ok L l' 0 w' \<and> tw_store w' = Map.empty \<and>
    set (tw_open w') = set (tw_open w) - {conn_fd c | a c. tw_store w a = Some c}"
proof -
  obtain l' cnt' w' where r: "delete_connections L l cnt w = Some (l', cnt', w')" "conns_ok L l' cnt' w'" "list_walk L l' = []"
    "set (tw_open w') = set (tw_open w) -
       (\<lambda>a. case tw_store w a of Some c \<Rightarrow> conn_fd c | None \<Rightarrow> -1) ` set (list_walk L l)"
    using connection_list.drained [of L "(l, cnt, w)"] assms by auto
  have "(\<lambda>a. case tw_store w a of Some c \<Rightarrow> conn_fd c | None \<Rightarrow> -1) ` dom (tw_store w) =
      {conn_fd c | a c. tw_store w a = Some c}"
    by force
  moreover have "set (list_walk L l) = dom (tw_store w)" using assms(2) by (simp add: conns_ok_def)
  moreover have "cnt' = 0" "dom (tw_store w') = {}" using r(2,3) by (simp_all add: conns_ok_def)
  ultimately show ?thesis using r by simp
qed

subsection \<open>What an event does\<close>

text \<open>
  What the kernel can deliver: \<open>accept\<close> answers a descriptor that was not in use, data comes for a connection of the
  epoll set.
\<close>

fun event_possible :: "server_input \<Rightarrow> tcp_world \<Rightarrow> bool" where
  "event_possible (NewConnection fd host service mem_ok epoll_ok) w \<longleftrightarrow>
     fd < 0 \<or> (fd \<notin> set (tw_open w) \<and> length host = NI_MAXHOST \<and> length service = NI_MAXSERV)"
| "event_possible (Readable a rd fresh) w \<longleftrightarrow> a \<in> set (tw_epoll w)"

fun event_undefined :: "server_input \<Rightarrow> tcp_world \<Rightarrow> bool" where
  "event_undefined (NewConnection fd host service mem_ok epoll_ok) w \<longleftrightarrow> 0 \<le> fd \<and> mem_ok \<and> \<not> epoll_ok"
| "event_undefined (Readable a rd fresh) w \<longleftrightarrow>
     (case read_connection_data rd (tw_store w a) of
        Some (rc, Some c) \<Rightarrow> rc = 0 \<and> connection_extract_message c (Some fresh) = None
      | _ \<Rightarrow> False)"

lemma new_connection_result:
  assumes "list_laws L" "conns_ok L (srv_list srv) (srv_cnt srv) w"
    and "event_possible (NewConnection fd host service mem_ok epoll_ok) w"
  shows "server_event L exec (NewConnection fd host service mem_ok epoll_ok) (srv, w) = None \<and>
      event_undefined (NewConnection fd host service mem_ok epoll_ok) w \<or>
    \<not> event_undefined (NewConnection fd host service mem_ok epoll_ok) w \<and>
    (\<exists>srv' w'. server_event L exec (NewConnection fd host service mem_ok epoll_ok) (srv, w) = Some (srv', w') \<and>
      conns_ok L (srv_list srv') (srv_cnt srv') w')"
proof -
  consider "fd < 0" | "0 \<le> fd" "\<not> mem_ok" | "0 \<le> fd" "mem_ok" by linarith
  then show ?thesis
  proof cases
    case 1
    then show ?thesis using assms(2) by (simp add: server_event_def)
  next
    case 2
    then show ?thesis using assms(2,3)
      by (simp add: server_event_def server_add_connection_def connection_add_def close_fd_def removeAll_id)
  next
    case 3
    let ?c = "zero_connection\<lparr>conn_fd := fd, conn_host := host, conn_service := service\<rparr>"
    have arr: "memcpy_array NI_MAXHOST host = Some host" "memcpy_array NI_MAXSERV service = Some service"
      using assms(3) 3(1) by (simp_all add: memcpy_array_def)
    show ?thesis
    proof (cases epoll_ok)
      case True
      have "conns_ok L (list_add_back L (srv_list srv) (tw_fresh w)) (srv_cnt srv + 1)
         (w\<lparr>tw_open := fd # tw_open w, tw_fresh := Suc (tw_fresh w), tw_store := (tw_store w)(tw_fresh w \<mapsto> ?c),
            tw_epoll := tw_fresh w # tw_epoll w\<rparr>)"
        using assms(3) 3(1) zero_connection_ok [of fd]
        by (intro conns_ok_add [OF assms(1,2)]) (simp_all add: conn_ok_def)
      then show ?thesis using 3 True arr
        by (simp add: server_event_def server_add_connection_def connection_add_def Let_def)
    next
      case False
      then show ?thesis using 3 arr
        by (simp add: server_event_def server_add_connection_def connection_add_def Let_def connection_delete_def)
    qed
  qed
qed

lemma extract_keeps:
  assumes "conn_ok c" "connection_extract_message c (Some m) = Some (rc, c', pm)"
  shows "rc = 1 \<and> conn_ok c' \<and> conn_fd c' = conn_fd c \<and> (\<exists>m'. pm = Some m')"
proof -
  have "pm \<noteq> None"
    using assms(2) by (auto simp: connection_extract_message_def Let_def split: bind_splits option.splits) metis
  then obtain m' where m': "pm = Some m'" by blast
  obtain i line rest where e: "i < unat (conn_offset c)" "length line \<le> i" "NL \<notin> set line" "NUL \<notin> set line"
    "rc = 1" "c' = c\<lparr>conn_buffer := line @ NUL # rest\<rparr>" "(conn_buffer c)[i := NUL] = line @ NUL # rest"
    "take (length line) (msg_string m') = line" "msg_len m' = length line" "conn_buffer c ! i = NL"
    by (rule extract_step [OF assms(1) assms(2) [unfolded m']])
  have "length (line @ NUL # rest) = length (conn_buffer c)" using e(7) by (metis length_list_update)
  then show ?thesis using assms(1) e(5,6) m' by (simp add: conn_ok_def)
qed

lemma readable_result:
  assumes "list_laws L" "conns_ok L (srv_list srv) (srv_cnt srv) w" "a \<in> set (tw_epoll w)"
  shows "server_event L exec (Readable a rd fresh) (srv, w) = None \<and> event_undefined (Readable a rd fresh) w \<or>
    \<not> event_undefined (Readable a rd fresh) w \<and>
    (\<exists>srv' w'. server_event L exec (Readable a rd fresh) (srv, w) = Some (srv', w') \<and>
      conns_ok L (srv_list srv') (srv_cnt srv') w')"
proof -
  obtain c where c: "tw_store w a = Some c" using assms(2,3) by (auto simp: conns_ok_def)
  have "store_ok (tw_fresh w) (set (tw_open w)) (tw_store w)" using assms(2) by (simp add: conns_ok_def)
  then have ok: "conn_ok c" using c by (rule store_okD(2))
  obtain rc c1 where r: "read_connection_data rd (Some c) = Some (rc, Some c1)" "conn_ok c1" "conn_fd c1 = conn_fd c"
    using read_keeps [OF ok, of rd] by blast
  have rc: "rc = 0 \<or> rc = 1" using read_data_result [OF ok, of rd] r(1) by auto
  let ?w1 = "w\<lparr>tw_store := (tw_store w)(a \<mapsto> c1)\<rparr>"
  have w1: "conns_ok L (srv_list srv) (srv_cnt srv) ?w1" by (rule conns_ok_upd [OF assms(2) c r(2,3)])
  have at: "tw_store ?w1 a = Some c1" by simp
  show ?thesis
  proof (cases "rc = 1")
    case True
    obtain l' cnt' w' where d: "connection_delete L (srv_list srv) (srv_cnt srv) a ?w1 = Some (l', cnt', w')"
      "conns_ok L l' cnt' w'" "list_walk L l' = remove1 a (list_walk L (srv_list srv))"
      "tw_store w' = (tw_store ?w1)(a := None)" "tw_open w' = removeAll (conn_fd c1) (tw_open ?w1)"
      by (rule connection_delete_ok [OF assms(1) w1 at])
    then show ?thesis using c r(1) True by (simp add: server_event_def Let_def)
  next
    case False
    then have rc0: "rc = 0" using rc by simp
    show ?thesis
    proof (cases "connection_extract_message c1 (Some fresh)")
      case None
      then show ?thesis using c r(1) rc0 by (simp add: server_event_def Let_def)
    next
      case (Some res)
      obtain rc' c2 pm where res: "res = (rc', c2, pm)" by (cases res)
      have e: "rc' = 1" "conn_ok c2" "conn_fd c2 = conn_fd c1" "\<exists>m. pm = Some m"
        using extract_keeps [OF r(2)] Some res by auto
      then obtain m where m: "pm = Some m" by blast
      have "conns_ok L (srv_list srv) (srv_cnt srv) (?w1\<lparr>tw_store := (tw_store ?w1)(a \<mapsto> c2)\<rparr>)"
        by (rule conns_ok_upd [OF w1 at e(2,3)])
      then show ?thesis using c r(1) rc0 Some res e(1) m by (simp add: server_event_def Let_def)
    qed
  qed
qed

lemma server_event_result:
  assumes "list_laws L" "conns_ok L (srv_list srv) (srv_cnt srv) w" "event_possible ev w"
  shows "server_event L exec ev (srv, w) = None \<and> event_undefined ev w \<or>
    \<not> event_undefined ev w \<and> (\<exists>srv' w'. server_event L exec ev (srv, w) = Some (srv', w') \<and>
      conns_ok L (srv_list srv') (srv_cnt srv') w')"
proof (cases ev)
  case (NewConnection fd host service mem_ok epoll_ok)
  show ?thesis
    using new_connection_result [OF assms(1,2) assms(3) [unfolded NewConnection]] unfolding NewConnection .
next
  case (Readable a rd fresh)
  have "a \<in> set (tw_epoll w)" using assms(3) Readable by simp
  from readable_result [OF assms(1,2) this] show ?thesis unfolding Readable .
qed

text \<open>C34: An event of the server has exactly two ways to go wrong: \<open>epoll_ctl\<close> fails for a new connection, which is
  then freed twice, or data arrives and no message can be cut out of the buffer. In every other case the event is
  handled and the table of connections stays consistent.\<close>

theorem server_event_undefined_iff:
  assumes "list_laws L" "conns_ok L (srv_list srv) (srv_cnt srv) w" "event_possible ev w"
  shows "server_event L exec ev (srv, w) = None \<longleftrightarrow> event_undefined ev w"
  using server_event_result [OF assms, of exec] by auto

subsection \<open>Runs of the server\<close>

inductive server_reach ::
  "'l list_ops \<Rightarrow> (message \<Rightarrow> int \<Rightarrow> int) option \<Rightarrow> 'l server \<times> tcp_world \<Rightarrow> 'l server \<times> tcp_world \<Rightarrow> bool"
  for L exec s0 where
  start: "server_reach L exec s0 s0"
| event: "server_reach L exec s0 (srv, w) \<Longrightarrow> event_possible ev w \<Longrightarrow> server_event L exec ev (srv, w) = Some s \<Longrightarrow>
     server_reach L exec s0 s"

lemma server_reach_ok:
  assumes "server_reach L exec (srv0, w0) s" "list_laws L" "conns_ok L (srv_list srv0) (srv_cnt srv0) w0"
  shows "conns_ok L (srv_list (fst s)) (srv_cnt (fst s)) (snd s)"
  using assms(1)
proof (induction rule: server_reach.induct)
  case start
  then show ?case using assms(3) by simp
next
  case (event srv w ev s)
  then show ?case using server_event_result [OF assms(2), of srv w ev exec] by auto
qed

definition empty_world :: "int list \<Rightarrow> tcp_world" where
  "empty_world fds = \<lparr>tw_store = Map.empty, tw_fresh = 0, tw_open = fds, tw_epoll = []\<rparr>"

lemma server_create_ok:
  "list_laws L \<Longrightarrow> server_create L port n = Some srv \<Longrightarrow> conns_ok L (srv_list srv) (srv_cnt srv) (empty_world fds)"
  by (auto simp: server_create_def conns_ok_def store_ok_def empty_world_def list_lawsD split: bind_splits)

text \<open>C17: In every run of a new server, whatever connections come and go and whatever they send, the list of
  connections, the store and the epoll set agree: no event is ever delivered for a freed connection, every
  connection has an open descriptor of its own and an offset inside its buffer, and the counter is their number.\<close>

theorem server_connections_consistent:
  assumes "list_laws L" "server_create L port n = Some srv0" "server_reach L exec (srv0, empty_world fds) (srv, w)"
  shows "conns_ok L (srv_list srv) (srv_cnt srv) w"
  using server_reach_ok [OF assms(3,1) server_create_ok [OF assms(1,2)]] by simp



subsection \<open>Examples\<close>

definition demo_server :: "addr list server" where
  "demo_server = \<lparr>srv_list = [], srv_cnt = 0, srv_port = ''7000'', srv_max_events = 10, srv_exit = 0\<rparr>"

definition demo_event :: server_input where
  "demo_event = NewConnection 5 (replicate NI_MAXHOST NUL) (replicate NI_MAXSERV NUL) True True"

lemma demo_create: "server_create list_instance ''7000'' 10 = Some demo_server"
  by (simp add: server_create_def strcpy_buf_def demo_server_def list_instance_def)

lemma demo_conns: "conns_ok list_instance (srv_list demo_server) (srv_cnt demo_server) (empty_world [3, 4])"
  by (rule server_create_ok [OF list_instance_laws demo_create])

lemma demo_possible: "event_possible demo_event (empty_world [3, 4])"
  by (simp add: demo_event_def empty_world_def)

definition demo_joined :: "addr list server \<times> tcp_world" where
  "demo_joined = (demo_server\<lparr>srv_list := [0], srv_cnt := 1\<rparr>,
     \<lparr>tw_store = [0 \<mapsto> zero_connection\<lparr>conn_fd := 5, conn_host := replicate NI_MAXHOST NUL,
        conn_service := replicate NI_MAXSERV NUL\<rparr>], tw_fresh = 1, tw_open = [5, 3, 4], tw_epoll = [0]\<rparr>)"

lemma demo_join: "server_event list_instance None demo_event (demo_server, empty_world [3, 4]) = Some demo_joined"
  by (simp add: server_event_def demo_event_def server_add_connection_def connection_add_def Let_def memcpy_array_def
      demo_server_def list_instance_def empty_world_def demo_joined_def)

lemma demo_server_reach: "server_reach list_instance None (demo_server, empty_world [3, 4]) demo_joined"
  by (rule server_reach.event [OF server_reach.start demo_possible demo_join])

theorem server_event_undefined_iff_witness:
  "server_event list_instance None (NewConnection 5 (replicate NI_MAXHOST NUL) (replicate NI_MAXSERV NUL) True False)
     (demo_server, empty_world [3, 4]) = None"
  by (subst server_event_undefined_iff [OF list_instance_laws demo_conns]) (simp_all add: empty_world_def)

theorem server_connections_consistent_witness:
  "conns_ok list_instance (srv_list (fst demo_joined)) (srv_cnt (fst demo_joined)) (snd demo_joined)"
  by (rule server_connections_consistent [OF list_instance_laws demo_create]) (use demo_server_reach in simp)


end
