(* ===== verification/TcpClient.thy ===== *)
theory TcpClient imports TcpServer begin

section \<open>The TCP client and the proxy\<close>

text \<open>
  \<^verbatim>\<open>tcp/src/client.c\<close>, the client's part of \<^verbatim>\<open>tcp/src/messenger.c\<close> and \<^verbatim>\<open>tcp/src/proxy.c\<close>. The client has two
  loops: one takes commands from the terminal (or a callback), the other the replies of the connections.
\<close>

record 'l client =
  cli_list :: 'l
  cli_cnt :: int
  cli_max_events :: int
  cli_exit :: int

definition client_init :: "'l list_ops \<Rightarrow> 'l client" where
  "client_init L = \<lparr>cli_list = list_init L, cli_cnt = 0, cli_max_events = 0, cli_exit = 0\<rparr>"

definition client_create :: "'l list_ops \<Rightarrow> 'l client" where
  "client_create L = \<lparr>cli_list = list_init L, cli_cnt = 0, cli_max_events = 10, cli_exit = 0\<rparr>"

definition client_destroy :: "'l list_ops \<Rightarrow> 'l client \<Rightarrow> tcp_world \<Rightarrow> tcp_world option" where
  "client_destroy L cli w = map_option (\<lambda>(l, cnt, w'). w') (delete_connections L (cli_list cli) (cli_cnt cli) w)"

subsection \<open>Connecting\<close>

text \<open>The addresses tried in turn: the descriptor \<open>socket\<close> answers, and whether \<open>connect\<close> succeeds.\<close>

fun connect_loop :: "(int \<times> bool) list \<Rightarrow> int option" where
  "connect_loop [] = None"
| "connect_loop ((fd, ok) # rs) = (if fd = -1 then connect_loop rs else if ok then Some fd else connect_loop rs)"

record connect_answers =
  ca_addrinfo_ok :: bool
  ca_addresses :: "(int \<times> bool) list"
  ca_mem_ok :: bool
  ca_epoll_ok :: bool

text \<open>
  \<open>host\<close> and \<open>port\<close> are the memory from the two pointers on; whole arrays are copied from there.
\<close>

definition client_add_connection ::
  "'l list_ops \<Rightarrow> connect_answers \<Rightarrow> string \<Rightarrow> string \<Rightarrow> 'l client \<Rightarrow> tcp_world \<Rightarrow>
     (int \<times> 'l client \<times> tcp_world) option" where
  "client_add_connection L an host port cli w =
     (if \<not> ca_addrinfo_ok an then Some (-1, cli, w)
      else (case connect_loop (ca_addresses an) of
          None \<Rightarrow> Some (-1, cli, w)
        | Some fd \<Rightarrow>
            let w0 = w\<lparr>tw_open := fd # tw_open w\<rparr> in
            (case connection_add L (ca_mem_ok an) (cli_list cli) (cli_cnt cli) fd w0 of
               (None, l, cnt, w1) \<Rightarrow> Some (1, cli\<lparr>cli_list := l, cli_cnt := cnt\<rparr>, close_fd fd w1)
             | (Some a, l, cnt, w1) \<Rightarrow> do {
                 c \<leftarrow> tw_store w1 a;
                 h \<leftarrow> memcpy_array NI_MAXHOST host;
                 s \<leftarrow> memcpy_array NI_MAXSERV port;
                 let w2 = w1\<lparr>tw_store := (tw_store w1)(a \<mapsto> c\<lparr>conn_host := h, conn_service := s, conn_fd := fd\<rparr>)\<rparr> in
                 if ca_epoll_ok an
                 then Some (fd, cli\<lparr>cli_list := l, cli_cnt := cnt\<rparr>, w2\<lparr>tw_epoll := a # tw_epoll w2\<rparr>)
                 else do {
                   (l', cnt', w3) \<leftarrow> connection_delete L l cnt a w2;
                   c' \<leftarrow> tw_store w3 a;
                   Some (-1, cli\<lparr>cli_list := l', cli_cnt := cnt'\<rparr>, w3) } })))"

subsection \<open>Commands\<close>

text \<open>
  The third result is what is written to descriptors. A command for an unknown address connects first and then
  uses the pointer that was NULL.
\<close>

definition client_execute_callback ::
  "'l list_ops \<Rightarrow> connect_answers \<Rightarrow> message \<Rightarrow> 'l client \<Rightarrow> tcp_world \<Rightarrow>
     ('l client \<times> tcp_world \<times> (int \<times> string) list) option" where
  "client_execute_callback L an m cli w =
     (if msg_cmd m = MSG_CMD_QUIT then Some (cli\<lparr>cli_exit := 1\<rparr>, w, [])
      else if msg_cmd m = MSG_CMD_CONNECT then do {
        (rc, info) \<leftarrow> msg_get_connect_information m;
        (case info of
           Some (host, port) \<Rightarrow> do {
             (fd, cli', w') \<leftarrow> client_add_connection L an host port cli w;
             Some (cli', w', []) }
         | None \<Rightarrow> Some (cli, w, [])) }
      else if msg_cmd m = MSG_CMD_STATUS then Some (cli, w, [])
      else if msg_cmd m \<in> {MSG_CMD_CONFIG, MSG_CMD_INIT, MSG_CMD_STOP, MSG_CMD_START, MSG_CMD_SET, MSG_CMD_GET} then do {
        (rc, info) \<leftarrow> msg_get_connect_information m;
        (case info of
           None \<Rightarrow> Some (cli, w, [])
         | Some (host, port) \<Rightarrow> do {
             h \<leftarrow> cstr host;
             p \<leftarrow> cstr port;
             conn \<leftarrow> connection_get L h p (cli_list cli) w;
             (case conn of
                None \<Rightarrow> do {
                  (fd, cli', w') \<leftarrow> client_add_connection L an host port cli w;
                  if fd = -1 then Some (cli', w', []) else None }
              | Some a \<Rightarrow> do {
                  c \<leftarrow> tw_store w a;
                  text \<leftarrow> region_read (msg_string m) 0 (msg_len m);
                  Some (cli, w, [(conn_fd c, text)]) }) }) }
      else Some (cli, w, []))"

text \<open>\<open>tcp_client_process\<close>: each command is the message the read action gives and what the system answers to it.\<close>

fun client_commands ::
  "'l list_ops \<Rightarrow> (message \<times> connect_answers) list \<Rightarrow> 'l client \<Rightarrow> tcp_world \<Rightarrow>
     ('l client \<times> tcp_world \<times> (int \<times> string) list) option" where
  "client_commands L [] cli w = Some (cli, w, [])"
| "client_commands L ((m, an) # ms) cli w =
     (if cli_exit cli \<noteq> 0 then Some (cli, w, [])
      else do {
        m' \<leftarrow> parse_api_request m;
        (cli1, w1, out1) \<leftarrow> client_execute_callback L an m' cli w;
        (cli2, w2, out2) \<leftarrow> client_commands L ms cli1 w1;
        Some (cli2, w2, out1 @ out2) })"

subsection \<open>Replies\<close>

text \<open>An event of \<open>event_thread\<close>; without a callback \<open>client_event_callback\<close> prints the message.\<close>

definition client_event_callback :: "message \<Rightarrow> int \<Rightarrow> int" where
  "client_event_callback m exit_flag = exit_flag"

definition client_event ::
  "'l list_ops \<Rightarrow> (message \<Rightarrow> int \<Rightarrow> int) option \<Rightarrow> addr \<times> read_result \<times> message \<Rightarrow> 'l client \<times> tcp_world \<Rightarrow>
     ('l client \<times> tcp_world) option" where
  "client_event L callback ev s = (case (ev, s) of ((a, rd, fresh), (cli, w)) \<Rightarrow> do {
     c \<leftarrow> tw_store w a;
     (rc, pc) \<leftarrow> read_connection_data rd (Some c);
     c1 \<leftarrow> pc;
     let w1 = w\<lparr>tw_store := (tw_store w)(a \<mapsto> c1)\<rparr> in
     if rc = 1 then do {
       (l, cnt, w2) \<leftarrow> connection_delete L (cli_list cli) (cli_cnt cli) a w1;
       Some (cli\<lparr>cli_list := l, cli_cnt := cnt\<rparr>, w2) }
     else do {
       (rc', c2, pm) \<leftarrow> connection_extract_message c1 (Some fresh);
       let w2 = w1\<lparr>tw_store := (tw_store w1)(a \<mapsto> c2)\<rparr> in
       if rc' = 1 then do {
         m \<leftarrow> pm;
         let f = (case callback of None \<Rightarrow> client_event_callback | Some f \<Rightarrow> f) in
         Some (cli\<lparr>cli_exit := f m (cli_exit cli)\<rparr>, w2) }
       else Some (cli, w2) } })"

fun client_events ::
  "'l list_ops \<Rightarrow> (message \<Rightarrow> int \<Rightarrow> int) option \<Rightarrow> (addr \<times> read_result \<times> message) list \<Rightarrow> 'l client \<times> tcp_world \<Rightarrow>
     ('l client \<times> tcp_world) option" where
  "client_events L callback [] s = Some s"
| "client_events L callback (ev # evs) s = do { s' \<leftarrow> client_event L callback ev s; client_events L callback evs s' }"

datatype client_answer = ReplyError bool | ReplyEvents "(addr \<times> read_result \<times> message) list"

fun event_thread ::
  "'l list_ops \<Rightarrow> (message \<Rightarrow> int \<Rightarrow> int) option \<Rightarrow> int \<Rightarrow> (bool \<times> client_answer) list \<Rightarrow> 'l client \<times> tcp_world \<Rightarrow>
     (bool \<times> 'l client \<times> tcp_world) option" where
  "event_thread L callback ep [] (cli, w) = Some (cli_exit cli \<noteq> 0, cli, w)"
| "event_thread L callback ep ((stop, an) # ans) (cli, w) =
     (if cli_exit cli \<noteq> 0 then Some (True, cli, w)
      else if stop then Some (True, cli\<lparr>cli_exit := 1\<rparr>, w)
      else (case an of
          ReplyError again \<Rightarrow>
            if again then event_thread L callback ep ans (cli, w) else Some (True, cli, close_fd ep w)
        | ReplyEvents evs \<Rightarrow> do {
            s' \<leftarrow> client_events L callback evs (cli, w);
            event_thread L callback ep ans s' }))"

subsection \<open>The proxy\<close>

text \<open>
  The memory for the clients is \<open>max_clients * sizeof(pointer) * sizeof(struct client)\<close> bytes, so there is room for
  \<open>max_clients\<close> times \<open>client_size\<close> pointers, the size of a client, which depends on the system's headers.
\<close>

record proxy =
  px_max_clients :: int
  px_srv :: "addr option"
  px_clients :: "addr list"

definition proxy_create :: "int \<Rightarrow> proxy" where
  "proxy_create max_clients = \<lparr>px_max_clients = max_clients, px_srv = None, px_clients = []\<rparr>"

definition proxy_add_server :: "proxy \<Rightarrow> addr \<Rightarrow> proxy" where
  "proxy_add_server px srv = px\<lparr>px_srv := Some srv\<rparr>"

definition proxy_add_client :: "nat \<Rightarrow> proxy \<Rightarrow> addr \<Rightarrow> proxy option" where
  "proxy_add_client client_size px cli =
     (if length (px_clients px) < nat (px_max_clients px) * client_size
      then Some (px\<lparr>px_clients := px_clients px @ [cli]\<rparr>) else None)"

fun destroy_clients :: "'l list_ops \<Rightarrow> (addr \<Rightarrow> 'l client option) \<Rightarrow> addr list \<Rightarrow> tcp_world \<Rightarrow> tcp_world option" where
  "destroy_clients L clients [] w = Some w"
| "destroy_clients L clients (a # as) w = do {
     cli \<leftarrow> clients a;
     w' \<leftarrow> client_destroy L cli w;
     destroy_clients L (clients(a := None)) as w' }"

definition proxy_destroy :: "'l list_ops \<Rightarrow> (addr \<Rightarrow> 'l client option) \<Rightarrow> proxy \<Rightarrow> tcp_world \<Rightarrow> tcp_world option" where
  "proxy_destroy L clients px w = destroy_clients L clients (px_clients px) w"

subsection \<open>What the commands do\<close>

lemma info_host_short:
  assumes "msg_get_connect_information m = Some (rc, Some (host, port))"
  shows "length host < length (msg_string m) + 2"
proof -
  from assms obtain result where c: "cstr (drop (nat (msg_cmd_len m + 1)) (msg_string m)) = Some result"
    and s: "split_last (CHR '' '') result \<noteq> None"
    by (auto simp: msg_get_connect_information_def split: if_splits bind_splits option.splits)
  then obtain h p where hp: "split_last (CHR '' '') result = Some (h, p)" by auto
  then have len: "length result = length h + 1 + length p" by (auto dest: split_last_Some)
  have "length host = length h + 1 + (if p = [] then 1 else length p + 1)"
    using assms c hp by (auto simp: msg_get_connect_information_def Let_def split: if_splits)
  then show ?thesis using cstr_length [OF c] len by auto
qed

text \<open>A client can never finish a connection: with the address resolved, the socket connected and memory at hand,
  copying the host reads 1025 bytes from a copy of the command that is at most 513 bytes long.\<close>

theorem client_connect_reads_too_much:
  assumes "msg_cmd m = MSG_CMD_CONNECT" "msg_get_connect_information m = Some (0, Some (host, port))"
    and "length (msg_string m) = MAX_MSG_LEN"
    and "ca_addrinfo_ok an" "connect_loop (ca_addresses an) = Some fd" "ca_mem_ok an"
  shows "client_execute_callback L an m cli w = None"
proof -
  have "length host < NI_MAXHOST" using info_host_short [OF assms(2)] assms(3) by (simp add: MAX_MSG_LEN_def NI_MAXHOST_def)
  then have "memcpy_array NI_MAXHOST host = None" by (simp add: memcpy_array_def)
  then have "client_add_connection L an host port cli w = None"
    using assms(4-6) by (simp add: client_add_connection_def connection_add_def Let_def)
  then show ?thesis using assms(1,2) by (simp add: client_execute_callback_def msg_cmd_defs)
qed

definition connect_message :: message where
  "connect_message = zero_message\<lparr>msg_cmd := MSG_CMD_CONNECT, msg_cmd_len := int (length ''CONNECT''),
     msg_string := ''CONNECT'' @ CHR '' '' # ''cam'' @ CHR '' '' # ''80'' @ NL # NUL # replicate 496 NUL\<rparr>"

theorem client_connect_reads_too_much_witness:
  "client_execute_callback list_instance \<lparr>ca_addrinfo_ok = True, ca_addresses = [(-1, True), (7, True)], ca_mem_ok = True,
     ca_epoll_ok = True\<rparr> connect_message (client_create list_instance) (empty_world []) = None"
proof -
  have "msg_string connect_message =
      ''CONNECT'' @ CHR '' '' # ''cam'' @ CHR '' '' # ''80'' @ NL # NUL # replicate 496 NUL"
    by (simp add: connect_message_def)
  from connect_information_split [OF _ this] obtain hb pb where
    "msg_get_connect_information connect_message = Some (0, Some (hb, pb))"
    by (auto simp: connect_message_def NUL_def NL_def)
  then show ?thesis
    by (intro client_connect_reads_too_much [where fd = 7]) (simp_all add: connect_message_def MAX_MSG_LEN_def)
qed

text \<open>A command for a connection that is there reaches it: exactly the bytes of the message are written to the
  descriptor of the first connection with that host and port, and nothing else changes.\<close>

theorem client_command_reaches_connection:
  assumes "msg_cmd m \<in> {MSG_CMD_CONFIG, MSG_CMD_INIT, MSG_CMD_STOP, MSG_CMD_START, MSG_CMD_SET, MSG_CMD_GET}"
    and "msg_get_connect_information m = Some (0, Some (hb, pb))" "cstr hb = Some host" "cstr pb = Some port"
    and "list_walk L (cli_list cli) = as @ a # bs" "tw_store w a = Some c"
    and "cstr (conn_host c) = Some host" "cstr (conn_service c) = Some port"
    and "\<forall>b \<in> set as. \<exists>d h s. tw_store w b = Some d \<and> cstr (conn_host d) = Some h \<and> cstr (conn_service d) = Some s \<and>
           (h, s) \<noteq> (host, port)"
    and "msg_len m \<le> length (msg_string m)"
  shows "client_execute_callback L an m cli w = Some (cli, w, [(conn_fd c, take (msg_len m) (msg_string m))])"
proof -
  have "find_connection host port (tw_store w) (as @ a # bs) = Some (Some a)"
    using assms(9)
  proof (induction as)
    case Nil
    then show ?case using assms(6-8) by simp
  next
    case (Cons b as)
    then show ?case by (auto split: if_splits)
  qed
  then have "connection_get L host port (cli_list cli) w = Some (Some a)" by (simp add: connection_get_def assms(5))
  then show ?thesis using assms(1-4,6,10)
    by (auto simp: client_execute_callback_def msg_cmd_defs region_read_def)
qed

theorem client_command_reaches_connection_witness:
  "\<exists>w. client_execute_callback list_instance \<lparr>ca_addrinfo_ok = False, ca_addresses = [], ca_mem_ok = False,
     ca_epoll_ok = False\<rparr> (connect_message\<lparr>msg_cmd := MSG_CMD_GET, msg_len := 14\<rparr>)
     \<lparr>cli_list = [0], cli_cnt = 1, cli_max_events = 10, cli_exit = 0\<rparr> w = Some
     (\<lparr>cli_list = [0], cli_cnt = 1, cli_max_events = 10, cli_exit = 0\<rparr>, w, [(7, ''CONNECT cam 80'')])"
proof -
  let ?m = "connect_message\<lparr>msg_cmd := MSG_CMD_GET, msg_len := 14\<rparr>"
  let ?c = "zero_connection\<lparr>conn_fd := 7, conn_host := ''cam'' @ [NUL], conn_service := ''80'' @ [NUL]\<rparr>"
  let ?w = "\<lparr>tw_store = [0 \<mapsto> ?c], tw_fresh = 1, tw_open = [7], tw_epoll = [0]\<rparr>"
  have str: "msg_string ?m =
      ''CONNECT'' @ CHR '' '' # ''cam'' @ CHR '' '' # ''80'' @ NL # NUL # replicate 496 NUL"
    by (simp add: connect_message_def)
  from connect_information_split [OF _ str] obtain hb pb where
    info: "msg_get_connect_information ?m = Some (0, Some (hb, pb))" "cstr hb = Some ''cam''" "cstr pb = Some ''80''"
    by (auto simp: connect_message_def NUL_def NL_def)
  have c: "cstr (''cam'' @ [NUL]) = Some ''cam''" "cstr (''80'' @ [NUL]) = Some ''80''"
    by (simp_all add: cstr_def NUL_def)
  have "client_execute_callback list_instance \<lparr>ca_addrinfo_ok = False, ca_addresses = [], ca_mem_ok = False,
     ca_epoll_ok = False\<rparr> ?m \<lparr>cli_list = [0], cli_cnt = 1, cli_max_events = 10, cli_exit = 0\<rparr> ?w = Some
     (\<lparr>cli_list = [0], cli_cnt = 1, cli_max_events = 10, cli_exit = 0\<rparr>, ?w, [(conn_fd ?c, take (msg_len ?m) (msg_string ?m))])"
    using c by (intro client_command_reaches_connection [OF _ info, where as = "[]" and a = 0 and bs = "[]"])
      (simp_all add: list_instance_def str)
  then show ?thesis by (intro exI [of _ ?w]) (simp add: str)
qed

end
