(* ===== verification/SourceDescription.thy ===== *)
theory SourceDescription imports ModuleDescription begin

section \<open>Sources and the collector\<close>

text \<open>
  \<^verbatim>\<open>description/src/source_description.c\<close> and \<^verbatim>\<open>description/src/collector_description.c\<close> with their headers:
  where the frames come from, how large they are, and where the collector keeps them. The structures
  have strings in buffers of fixed size, filled with \<open>strcpy\<close>.
\<close>

subsection \<open>Source types\<close>

definition STYPE_UNKNOWN :: int where "STYPE_UNKNOWN = -1"
definition STYPE_FILE :: int where "STYPE_FILE = 0"
definition STYPE_UDP :: int where "STYPE_UDP = 1"
definition STYPE_TCP :: int where "STYPE_TCP = 2"

lemmas stype_defs = STYPE_UNKNOWN_def STYPE_FILE_def STYPE_UDP_def STYPE_TCP_def

definition get_source_type_str :: "int \<Rightarrow> string option" where
  "get_source_type_str ty =
     (if ty = STYPE_FILE then Some ''file''
      else if ty = STYPE_TCP then Some ''tcp''
      else if ty = STYPE_UDP then Some ''udp''
      else None)"

definition get_source_type_val :: "string \<Rightarrow> int" where
  "get_source_type_val type_str =
     (if type_str = ''tcp'' then STYPE_TCP
      else if type_str = ''udp'' then STYPE_UDP
      else if type_str = ''file'' then STYPE_FILE
      else STYPE_UNKNOWN)"

subsection \<open>What the configuration says of a source\<close>

record frame_info =
  fi_width :: u64
  fi_height :: u64
  fi_format :: int

record source_info =
  si_type :: int
  si_sid_string :: string
  si_host :: string
  si_port :: string
  si_fi :: frame_info
  si_output_path :: "string option"

definition source_info_create :: source_info where
  "source_info_create = \<lparr>si_type = 0, si_sid_string = [], si_host = [], si_port = [],
     si_fi = \<lparr>fi_width = 0, fi_height = 0, fi_format = 0\<rparr>, si_output_path = None\<rparr>"

definition parse_frame_json :: "'j json_ops \<Rightarrow> 'j option \<Rightarrow> frame_info \<Rightarrow> int \<times> frame_info" where
  "parse_frame_json J frame_json info =
     (if frame_json = None then (-1, info)
      else
        let info = (case json_get J frame_json ''width'' of
              None \<Rightarrow> info | Some c \<Rightarrow> info\<lparr>fi_width := size_of_int (json_get_int J c)\<rparr>);
            info = (case json_get J frame_json ''height'' of
              None \<Rightarrow> info | Some c \<Rightarrow> info\<lparr>fi_height := size_of_int (json_get_int J c)\<rparr>);
            info = (case json_get J frame_json ''format'' of
              None \<Rightarrow> info | Some c \<Rightarrow> info\<lparr>fi_format := json_get_int J c\<rparr>)
        in (0, info))"

text \<open>A string of the configuration copied into a buffer of \<open>n\<close> bytes, when it is there.\<close>

definition copy_field :: "'j json_ops \<Rightarrow> 'j option \<Rightarrow> string \<Rightarrow> nat \<Rightarrow> string \<Rightarrow> string option" where
  "copy_field J jobj key n old =
     (case json_get J jobj key of None \<Rightarrow> Some old | Some c \<Rightarrow> strcpy_buf n (json_get_string J c))"

definition parse_source_json ::
  "'j json_ops \<Rightarrow> 'j option \<Rightarrow> source_info option \<Rightarrow> (int \<times> source_info option) option" where
  "parse_source_json J source_json p_info =
     (if source_json = None then Some (-1, p_info)
      else do {
        let info = source_info_create;
        let info = (case json_get J source_json ''type'' of
              None \<Rightarrow> info | Some c \<Rightarrow> info\<lparr>si_type := get_source_type_val (json_get_string J c)\<rparr>);
        sid \<leftarrow> copy_field J source_json ''id_string'' 256 (si_sid_string info);
        host \<leftarrow> copy_field J source_json ''host'' 16 (si_host info);
        port \<leftarrow> copy_field J source_json ''port'' 8 (si_port info);
        let info = info\<lparr>si_sid_string := sid, si_host := host, si_port := port\<rparr>;
        let info = (case json_get J source_json ''frame'' of
              None \<Rightarrow> info | Some f \<Rightarrow> info\<lparr>si_fi := snd (parse_frame_json J (Some f) (si_fi info))\<rparr>);
        let info = (case json_get J source_json ''output_path'' of
              None \<Rightarrow> info | Some c \<Rightarrow> info\<lparr>si_output_path := Some (json_get_string J c)\<rparr>);
        Some (0, Some info) })"

subsection \<open>The description of a source\<close>

record source_description =
  sd_type :: int
  sd_sid_string :: string
  sd_addr :: string
  sd_port :: string
  sd_header_len :: u64
  sd_data_len :: u64
  sd_width :: u64
  sd_height :: u64
  sd_channels :: u64
  sd_output_path :: string

definition source_description_create :: source_description where
  "source_description_create = \<lparr>sd_type = 0, sd_sid_string = [], sd_addr = [], sd_port = [], sd_header_len = 0,
     sd_data_len = 0, sd_width = 0, sd_height = 0, sd_channels = 0, sd_output_path = []\<rparr>"

text \<open>\<open>sizeof(size_t) + sizeof(int)\<close>.\<close>

definition tcp_header_len :: u64 where "tcp_header_len = 12"

text \<open>\<open>fresh\<close> is the uninitialised memory of a new structure.\<close>

definition create_tcp_source_description ::
  "source_description \<Rightarrow> string \<Rightarrow> string \<Rightarrow> source_description option \<Rightarrow> source_description option" where
  "create_tcp_source_description fresh host port p_sdesc = do {
     let sdesc = (case p_sdesc of None \<Rightarrow> fresh | Some d \<Rightarrow> d);
     a \<leftarrow> strcpy_buf 16 host;
     p \<leftarrow> strcpy_buf 8 port;
     Some (sdesc\<lparr>sd_type := STYPE_TCP, sd_sid_string := [], sd_addr := a, sd_port := p,
       sd_header_len := tcp_header_len, sd_width := 960, sd_height := 1920, sd_channels := 3,
       sd_data_len := 960 * 1920 * 3, sd_output_path := ''/tmp/tmk/data''\<rparr>) }"

definition create_gige_source_description ::
  "source_description \<Rightarrow> string \<Rightarrow> source_description option \<Rightarrow> source_description option" where
  "create_gige_source_description fresh iface p_sdesc = do {
     let sdesc = (case p_sdesc of None \<Rightarrow> fresh | Some d \<Rightarrow> d);
     s \<leftarrow> strcpy_buf 256 iface;
     Some (sdesc\<lparr>sd_type := STYPE_UDP, sd_sid_string := s, sd_width := 2448, sd_height := 2048, sd_channels := 1,
       sd_data_len := 2448 * 2048 * 1, sd_output_path := ''/tmp/tmk/data''\<rparr>) }"

text \<open>\<open>strcpy(desc->output_path, info->output_path)\<close> needs the path.\<close>

definition update_source_description ::
  "source_description option \<Rightarrow> source_info option \<Rightarrow> source_description option option" where
  "update_source_description p_desc p_info =
     (case (p_desc, p_info) of
        (Some desc, Some info) \<Rightarrow> do {
          sid \<leftarrow> strcpy_buf 256 (si_sid_string info);
          a \<leftarrow> strcpy_buf 16 (si_host info);
          p \<leftarrow> strcpy_buf 8 (si_port info);
          let w = fi_width (si_fi info);
          let h = fi_height (si_fi info);
          let c = size_of_int (fi_format (si_fi info));
          path \<leftarrow> si_output_path info;
          out \<leftarrow> strcpy_buf 1024 path;
          Some (Some (desc\<lparr>sd_sid_string := sid, sd_addr := a, sd_port := p, sd_type := si_type info, sd_width := w,
            sd_height := h, sd_channels := c, sd_header_len := tcp_header_len, sd_data_len := w * h * c,
            sd_output_path := out\<rparr>)) }
      | _ \<Rightarrow> Some p_desc)"

text \<open>The pointer after \<open>source_info_destroy\<close> and \<open>source_description_destroy\<close>.\<close>

definition source_info_destroy :: "source_info option \<Rightarrow> source_info option" where
  "source_info_destroy p_info = None"

definition source_description_destroy :: "source_description option \<Rightarrow> source_description option" where
  "source_description_destroy p_sdesc = None"

subsection \<open>The collector\<close>

definition MAX_SHMEM_NAME_LEN :: nat where "MAX_SHMEM_NAME_LEN = 256"

record collector_description =
  cd_sources_cnt :: int
  cd_sinfos :: "source_info option list option"
  cd_sdescs :: "source_description option list option"
  cd_use_boost_shmem :: int
  cd_boost_path :: string
  cd_boost_size :: u64
  cd_output_path :: "string option"

definition collector_description_create :: collector_description where
  "collector_description_create = \<lparr>cd_sources_cnt = 0, cd_sinfos = None, cd_sdescs = None, cd_use_boost_shmem = 0,
     cd_boost_path = [], cd_boost_size = 0, cd_output_path = None\<rparr>"

text \<open>\<open>0x100000 * max_sources\<close> is a product of \<open>int\<close>s, undefined when it overflows.\<close>

definition calculate_boostmem_size :: "int \<Rightarrow> u64 \<Rightarrow> int \<Rightarrow> u64 option" where
  "calculate_boostmem_size max_sources max_frame_size max_frames =
     (let extra = 0x100000 * max_sources in
      if extra < - (2 ^ 31) \<or> 2 ^ 31 \<le> extra then None
      else Some (size_of_int extra + size_of_int max_sources * max_frame_size * size_of_int max_frames))"

fun parse_source_list ::
  "'j json_ops \<Rightarrow> 'j option list \<Rightarrow> (source_info option list \<times> source_description option list) option" where
  "parse_source_list J [] = Some ([], [])"
| "parse_source_list J (s # ss) = do {
     (rc, info) \<leftarrow> parse_source_json J s None;
     desc \<leftarrow> update_source_description (Some source_description_create) info;
     (infos, descs) \<leftarrow> parse_source_list J ss;
     Some (info # infos, desc # descs) }"

definition parse_sources_json ::
  "'j json_ops \<Rightarrow> 'j option \<Rightarrow> collector_description \<Rightarrow> (int \<times> collector_description) option" where
  "parse_sources_json J sources_json desc =
     (case sources_json of
        None \<Rightarrow> Some (0, desc)
      | Some arr \<Rightarrow>
          if json_is_array J sources_json then do {
            (infos, descs) \<leftarrow> parse_source_list J (json_items J arr);
            let n = int (length (json_items J arr));
            Some (n, desc\<lparr>cd_sources_cnt := n, cd_sinfos := Some infos, cd_sdescs := Some descs\<rparr>) }
          else Some (0, desc))"

definition parse_boost ::
  "'j json_ops \<Rightarrow> 'j option \<Rightarrow> collector_description \<Rightarrow> collector_description option" where
  "parse_boost J jobj desc =
     (case json_get J jobj ''boost_path'' of
        None \<Rightarrow> Some desc
      | Some c \<Rightarrow> do {
          path \<leftarrow> strcpy_buf MAX_SHMEM_NAME_LEN (json_get_string J c);
          let desc = desc\<lparr>cd_boost_path := path\<rparr>;
          let desc = (if length path > 1 then desc\<lparr>cd_use_boost_shmem := 1\<rparr> else desc);
          Some (case json_get J jobj ''boost_size'' of
              None \<Rightarrow> desc | Some c \<Rightarrow> desc\<lparr>cd_boost_size := size_of_int (json_get_int J c)\<rparr>) })"

definition parse_collector_json ::
  "'j json_ops \<Rightarrow> 'j option \<Rightarrow> collector_description \<Rightarrow> collector_description option" where
  "parse_collector_json J jobj desc = do {
     desc \<leftarrow> parse_boost J jobj desc;
     desc \<leftarrow> (case json_get J jobj ''sources'' of
         None \<Rightarrow> Some desc
       | Some s \<Rightarrow> do {
           (n, desc) \<leftarrow> parse_sources_json J (Some s) desc;
           Some (desc\<lparr>cd_sources_cnt := n\<rparr>) });
     Some (case json_get J jobj ''output_path'' of
         None \<Rightarrow> desc | Some c \<Rightarrow> desc\<lparr>cd_output_path := Some (json_get_string J c)\<rparr>) }"

definition load_collector_configuration ::
  "'j json_ops \<Rightarrow> (string \<Rightarrow> bool) \<Rightarrow> string \<Rightarrow> collector_description option option" where
  "load_collector_configuration J exists' fname =
     (if exists' fname
      then map_option Some (parse_collector_json J (json_from_file J fname) collector_description_create)
      else Some None)"

text \<open>The pointer after the call; the loop reads \<open>sources_cnt\<close> entries of the arrays that are there.\<close>

definition collector_description_destroy :: "collector_description option \<Rightarrow> collector_description option option" where
  "collector_description_destroy p_desc =
     (case p_desc of
        None \<Rightarrow> Some None
      | Some desc \<Rightarrow>
          let n = nat (cd_sources_cnt desc) in
          if (\<forall>xs. cd_sinfos desc = Some xs \<longrightarrow> n \<le> length xs) \<and> (\<forall>xs. cd_sdescs desc = Some xs \<longrightarrow> n \<le> length xs)
          then Some None else None)"

subsection \<open>Library\<close>

definition field_fits :: "'j json_ops \<Rightarrow> 'j option \<Rightarrow> string \<Rightarrow> nat \<Rightarrow> bool" where
  "field_fits J jobj key n \<longleftrightarrow> (case json_get J jobj key of None \<Rightarrow> True | Some c \<Rightarrow> length (json_get_string J c) < n)"

text \<open>What the configuration says under a key, the empty string when it says nothing.\<close>

definition text_at :: "'j json_ops \<Rightarrow> 'j option \<Rightarrow> string \<Rightarrow> string" where
  "text_at J jobj key = (case json_get J jobj key of None \<Rightarrow> [] | Some c \<Rightarrow> json_get_string J c)"

lemma copy_field_empty:
  "copy_field J jobj key n [] = (if field_fits J jobj key n then Some (text_at J jobj key) else None)"
  by (simp add: copy_field_def field_fits_def text_at_def strcpy_buf_def split: option.split)

definition source_fits :: "'j json_ops \<Rightarrow> 'j option \<Rightarrow> bool" where
  "source_fits J s \<longleftrightarrow> field_fits J s ''id_string'' 256 \<and> field_fits J s ''host'' 16 \<and> field_fits J s ''port'' 8"

lemma parse_source_json_Some:
  assumes "source_fits J (Some s)"
  obtains info where "parse_source_json J (Some s) p = Some (0, Some info)"
    and "si_sid_string info = text_at J (Some s) ''id_string''"
    and "si_host info = text_at J (Some s) ''host''" "si_port info = text_at J (Some s) ''port''"
    and "si_output_path info = map_option (json_get_string J) (json_get J (Some s) ''output_path'')"
  using assms
  by (cases "json_get J (Some s) ''type''"; cases "json_get J (Some s) ''frame''"; cases "json_get J (Some s) ''output_path''")
    (auto simp: parse_source_json_def source_fits_def source_info_create_def copy_field_empty Let_def)

lemma parse_source_json_undefined: "\<not> source_fits J (Some s) \<Longrightarrow> parse_source_json J (Some s) p = None"
  by (auto simp: parse_source_json_def source_fits_def source_info_create_def copy_field_empty Let_def
      split: option.splits)

definition path_fits :: "'j json_ops \<Rightarrow> 'j option \<Rightarrow> bool" where
  "path_fits J s \<longleftrightarrow> (case json_get J s ''output_path'' of None \<Rightarrow> False | Some c \<Rightarrow> length (json_get_string J c) < 1024)"

lemma field_fits_length: "field_fits J s k n \<Longrightarrow> 0 < n \<Longrightarrow> length (text_at J s k) < n"
  by (simp add: field_fits_def text_at_def split: option.splits)

lemma update_source_description_defined:
  "(\<exists>d. update_source_description (Some desc) (Some info) = Some d) \<longleftrightarrow>
     length (si_sid_string info) < 256 \<and> length (si_host info) < 16 \<and> length (si_port info) < 8 \<and>
     (\<exists>path. si_output_path info = Some path \<and> length path < 1024)"
  by (cases "si_output_path info") (auto simp: update_source_description_def strcpy_buf_def Let_def)

text \<open>One element of the array: a JSON null is skipped, an object must fit.\<close>

definition element_ok :: "'j json_ops \<Rightarrow> 'j option \<Rightarrow> bool" where
  "element_ok J s \<longleftrightarrow> (case s of None \<Rightarrow> True | Some j \<Rightarrow> source_fits J (Some j) \<and> path_fits J (Some j))"

lemma parse_element_defined:
  "(\<exists>rc info d. parse_source_json J s None = Some (rc, info) \<and>
      update_source_description (Some source_description_create) info = Some d) \<longleftrightarrow> element_ok J s"
proof (cases s)
  case None
  then show ?thesis by (simp add: parse_source_json_def update_source_description_def element_ok_def)
next
  case (Some j)
  show ?thesis
  proof (cases "source_fits J (Some j)")
    case True
    then obtain info where i: "parse_source_json J (Some j) None = Some (0, Some info)"
      "si_sid_string info = text_at J (Some j) ''id_string''" "si_host info = text_at J (Some j) ''host''"
      "si_port info = text_at J (Some j) ''port''"
      "si_output_path info = map_option (json_get_string J) (json_get J (Some j) ''output_path'')"
      by (rule parse_source_json_Some)
    have "length (si_sid_string info) < 256 \<and> length (si_host info) < 16 \<and> length (si_port info) < 8"
      using True by (simp add: i source_fits_def field_fits_length)
    then have "(\<exists>d. update_source_description (Some source_description_create) (Some info) = Some d) \<longleftrightarrow>
        path_fits J (Some j)"
      unfolding update_source_description_defined by (auto simp: i(5) path_fits_def split: option.splits)
    then show ?thesis using True Some i(1) by (simp add: element_ok_def)
  next
    case False
    then show ?thesis using Some by (simp add: parse_source_json_undefined element_ok_def)
  qed
qed

lemma parse_source_list_defined:
  "(\<exists>r. parse_source_list J ss = Some r) \<longleftrightarrow> (\<forall>s \<in> set ss. element_ok J s)"
proof (induction ss)
  case (Cons s ss)
  show ?case
  proof (cases "element_ok J s")
    case True
    then obtain rc info d where "parse_source_json J s None = Some (rc, info)"
      "update_source_description (Some source_description_create) info = Some d"
      using parse_element_defined by blast
    then show ?thesis using Cons True by (auto split: bind_splits)
  next
    case False
    then show ?thesis using parse_element_defined [of J s] by (auto split: bind_splits)
  qed
qed simp

lemma parse_source_list_length:
  "parse_source_list J ss = Some (infos, descs) \<Longrightarrow> length infos = length ss \<and> length descs = length ss"
  by (induction ss arbitrary: infos descs) (auto split: bind_splits)

text \<open>The arrays of a description have as many entries as it counts sources, or are missing.\<close>

definition collector_wf :: "collector_description \<Rightarrow> bool" where
  "collector_wf d \<longleftrightarrow>
     0 \<le> cd_sources_cnt d \<and>
     (case (cd_sinfos d, cd_sdescs d) of
        (None, None) \<Rightarrow> cd_sources_cnt d = 0
      | (Some infos, Some descs) \<Rightarrow> int (length infos) = cd_sources_cnt d \<and> int (length descs) = cd_sources_cnt d
      | _ \<Rightarrow> False)"

lemma collector_create_wf: "collector_wf collector_description_create"
  by (simp add: collector_wf_def collector_description_create_def)

lemma parse_sources_wf:
  assumes "cd_sinfos d = None" "cd_sdescs d = None" "parse_sources_json J (Some s) d = Some (n, d')"
  shows "collector_wf (d'\<lparr>cd_sources_cnt := n\<rparr>)"
  using assms
  by (auto simp: parse_sources_json_def collector_wf_def Let_def split: if_splits bind_splits
      dest!: parse_source_list_length)

lemma collector_wf_destroy: "collector_wf d \<Longrightarrow> collector_description_destroy (Some d) = Some None"
  by (auto simp: collector_wf_def collector_description_destroy_def Let_def split: option.splits)

lemma parse_boost_sources:
  "parse_boost J jobj d = Some e \<Longrightarrow>
   cd_sinfos e = cd_sinfos d \<and> cd_sdescs e = cd_sdescs d \<and> cd_sources_cnt e = cd_sources_cnt d"
  by (auto simp: parse_boost_def Let_def split: option.splits bind_splits if_splits)

lemma parse_collector_wf:
  assumes p: "parse_collector_json J jobj collector_description_create = Some d"
  shows "collector_wf d"
proof -
  obtain e where b: "parse_boost J jobj collector_description_create = Some e"
    using p by (auto simp: parse_collector_json_def split: bind_splits)
  have e: "cd_sinfos e = None" "cd_sdescs e = None" "cd_sources_cnt e = 0"
    using parse_boost_sources [OF b] by (simp_all add: collector_description_create_def)
  obtain f where f: "collector_wf f" and
    d: "d = (case json_get J jobj ''output_path'' of
         None \<Rightarrow> f | Some c \<Rightarrow> f\<lparr>cd_output_path := Some (json_get_string J c)\<rparr>)"
  proof (cases "json_get J jobj ''sources''")
    case None
    have "collector_wf e" using e by (simp add: collector_wf_def)
    then show thesis using that p b None by (simp add: parse_collector_json_def)
  next
    case (Some s)
    then obtain n g where s: "parse_sources_json J (Some s) e = Some (n, g)"
      using p b by (auto simp: parse_collector_json_def split: bind_splits)
    have "collector_wf (g\<lparr>cd_sources_cnt := n\<rparr>)" by (rule parse_sources_wf [OF e(1,2) s])
    then show thesis using that p b Some s by (simp add: parse_collector_json_def)
  qed
  have "collector_wf (f\<lparr>cd_output_path := x\<rparr>) = collector_wf f" for x by (simp add: collector_wf_def cong: option.case_cong)
  then show ?thesis using f d by (simp split: option.splits)
qed

subsection \<open>Properties\<close>

text \<open>Which lists of sources can be read: the array is parsed exactly when every object in it has an \<open>id_string\<close>
  shorter than 256, a \<open>host\<close> shorter than 16 and a \<open>port\<close> shorter than 8 bytes, and has an \<open>output_path\<close>,
  shorter than 1024 bytes. A longer string is written past its buffer; a source that leaves the optional
  \<open>output_path\<close> out makes \<open>update_source_description\<close> copy from NULL.\<close>

theorem sources_parsed_iff_fit:
  assumes "json_is_array J (Some arr)"
  shows "(\<exists>r. parse_sources_json J (Some arr) desc = Some r) \<longleftrightarrow> (\<forall>s \<in> set (json_items J arr). element_ok J s)"
  using assms parse_source_list_defined [of J "json_items J arr"]
  by (cases "parse_source_list J (json_items J arr)") (auto simp: parse_sources_json_def Let_def)

definition pathless_sources :: json where
  "pathless_sources = JArray [Some (JObject [(''host'', Some (JText ''10.0.0.1''))])]"

theorem sources_parsed_iff_fit_witness:
  "parse_sources_json (json_instance (\<lambda>_. None)) (Some pathless_sources) collector_description_create = None"
proof -
  have "json_is_array (json_instance (\<lambda>_. None)) (Some pathless_sources)"
    "\<not> (\<forall>s \<in> set (json_items (json_instance (\<lambda>_. None)) pathless_sources). element_ok (json_instance (\<lambda>_. None)) s)"
    by (simp_all add: json_instance_def pathless_sources_def element_ok_def path_fits_def)
  then show ?thesis using sources_parsed_iff_fit by (metis option.exhaust)
qed

text \<open>The description of a collector that was parsed is well formed: whatever the configuration says, the arrays
  of sources and descriptions have exactly as many entries as the description counts, or there are none and the
  count is 0; so its end, which walks both arrays up to that count, stays inside them.\<close>

theorem collector_parse_wellformed:
  assumes "parse_collector_json J jobj collector_description_create = Some d"
  shows "collector_wf d \<and> collector_description_destroy (Some d) = Some None"
  using parse_collector_wf [OF assms] collector_wf_destroy by blast

definition sample_collector_json :: json where
  "sample_collector_json = JObject [(''boost_path'', Some (JText ''/boost'')), (''boost_size'', Some (JNum 4096)),
     (''sources'', Some (JArray [None, Some (JObject [(''type'', Some (JText ''tcp'')), (''host'', Some (JText ''10.0.0.1'')),
        (''port'', Some (JText ''8001'')), (''output_path'', Some (JText ''/tmp''))])]))]"

lemma sample_collector_parsed:
  "\<exists>d. parse_collector_json (json_instance (\<lambda>_. None)) (Some sample_collector_json) collector_description_create = Some d \<and>
     cd_sources_cnt d = 2 \<and> cd_use_boost_shmem d = 1"
  by (simp add: sample_collector_json_def parse_collector_json_def parse_boost_def json_instance_def strcpy_buf_def
      MAX_SHMEM_NAME_LEN_def collector_description_create_def parse_sources_json_def parse_source_json_def
      copy_field_def source_info_create_def update_source_description_def Let_def)

theorem collector_parse_wellformed_witness:
  "\<exists>d. parse_collector_json (json_instance (\<lambda>_. None)) (Some sample_collector_json) collector_description_create = Some d \<and>
     cd_sources_cnt d = 2 \<and> collector_wf d"
  using sample_collector_parsed collector_parse_wellformed by blast

text \<open>The size of the boost segment: with fewer than 2048 sources and a sum that fits a \<open>size_t\<close> it is one megabyte
  and \<open>max_frames\<close> frames for each source; from 2048 sources on, the \<open>int\<close> product overflows.\<close>

theorem boostmem_size_bounds:
  assumes "0 \<le> max_sources" "0 \<le> max_frames"
    and "0x100000 * nat max_sources + nat max_sources * unat max_frame_size * nat max_frames < 2 ^ 64"
  shows "calculate_boostmem_size max_sources max_frame_size max_frames =
     (if max_sources < 2048
      then Some (of_nat (nat max_sources * (0x100000 + unat max_frame_size * nat max_frames))) else None)"
proof -
  have "size_of_int (0x100000 * max_sources) = of_nat (0x100000 * nat max_sources)"
    "size_of_int max_sources = of_nat (nat max_sources)" "size_of_int max_frames = of_nat (nat max_frames)"
    using assms(1,2) by (simp_all add: size_of_int_def nat_mult_distrib)
  then show ?thesis using assms(1) by (auto simp: calculate_boostmem_size_def algebra_simps)
qed

theorem boostmem_size_bounds_witness:
  "calculate_boostmem_size 2 5013504 10 = Some 102367232 \<and> calculate_boostmem_size 2048 1 1 = None"
  using boostmem_size_bounds [of 2 10 5013504] boostmem_size_bounds [of 2048 1 1] by simp

end
