(* ===== verification/SystemJson.thy ===== *)
theory SystemJson imports CString SourceDescription begin

section \<open>The description of the whole system\<close>

text \<open>
  \<^verbatim>\<open>description/src/description_json.c\<close> without its dialogs, and
  \<^verbatim>\<open>description/src/dclprocessor_description.c\<close>: finding the parts of a system in a JSON object, where each
  part is embedded or named by a \<open>..._config\<close> file, building one object with all parts in it, and the
  description of the processor that is read from a file or from such an object in a buffer.
\<close>

subsection \<open>Parts of the system\<close>

definition find_in_json :: "'j json_ops \<Rightarrow> 'j option \<Rightarrow> string \<Rightarrow> 'j option" where
  "find_in_json J jobj key = json_get J jobj key"

text \<open>\<open>to_file\<close> is \<open>json_object_to_file_ext\<close>.\<close>

definition save_object_json :: "(string \<Rightarrow> 'j \<Rightarrow> int) \<Rightarrow> 'j option \<Rightarrow> string \<Rightarrow> int" where
  "save_object_json to_file jobj fname = (case jobj of None \<Rightarrow> -1 | Some j \<Rightarrow> to_file fname j)"

definition load_object_json :: "'j json_ops \<Rightarrow> string \<Rightarrow> 'j option" where
  "load_object_json J fname = json_from_file J fname"

definition get_messenger_json :: "'j json_ops \<Rightarrow> 'j option \<Rightarrow> 'j option" where
  "get_messenger_json J jobj =
     (let current = (case json_get J jobj ''messenger_config'' of
            Some config \<Rightarrow> json_from_file J (json_get_string J config)
          | None \<Rightarrow> jobj)
      in json_get J current ''messenger'')"

definition get_collector_json :: "'j json_ops \<Rightarrow> 'j option \<Rightarrow> 'j option" where
  "get_collector_json J jobj =
     (let current = (case json_get J jobj ''collector_config'' of
            Some config \<Rightarrow> json_from_file J (json_get_string J config)
          | None \<Rightarrow> jobj)
      in json_get J current ''collector'')"

definition get_pipeline_json :: "'j json_ops \<Rightarrow> 'j option \<Rightarrow> 'j option" where
  "get_pipeline_json J jobj =
     (let current = (case json_get J jobj ''pipeline_config'' of
            Some config \<Rightarrow> json_from_file J (json_get_string J config)
          | None \<Rightarrow> jobj)
      in json_get J current ''pipeline'')"

definition get_dclprocessor_json :: "'j json_ops \<Rightarrow> 'j option \<Rightarrow> 'j option" where
  "get_dclprocessor_json J jobj =
     (let current = (case json_get J jobj ''dclprocessor_config'' of
            Some config \<Rightarrow> json_from_file J (json_get_string J config)
          | None \<Rightarrow> jobj)
      in json_get J current ''dclprocessor'')"

subsection \<open>One object with all parts\<close>

text \<open>
  One of the three embeddings. \<open>json_object_object_add\<close> aborts on NULL and on a value that is not an
  object (\<open>None\<close>).
\<close>

definition embed_part ::
  "'j json_ops \<Rightarrow> string \<Rightarrow> ('j json_ops \<Rightarrow> 'j option \<Rightarrow> 'j option) \<Rightarrow> 'j option \<Rightarrow> 'j option option" where
  "embed_part J key get_json d =
     (if find_in_json J d key = None
      then (case d of
              Some j \<Rightarrow> if json_is_object J j then Some (Some (json_object_add J j key (get_json J d))) else None
            | None \<Rightarrow> None)
      else Some d)"

definition construct_full_object :: "'j json_ops \<Rightarrow> 'j option \<Rightarrow> 'j option" where
  "construct_full_object J jobj = do {
     let d = get_dclprocessor_json J jobj;
     d \<leftarrow> embed_part J ''pipeline'' get_pipeline_json d;
     d \<leftarrow> embed_part J ''collector'' get_collector_json d;
     d \<leftarrow> embed_part J ''messenger'' get_messenger_json d;
     Some (json_object_add J (json_new_object J) ''dclprocessor'' d) }"

text \<open>A \<open>char *\<close> that owns its memory; \<open>Freed\<close> is a pointer to memory that was given back.\<close>

datatype char_buffer = NoBuffer | Freed | Chars string

definition write_object_to_buffer :: "'j json_ops \<Rightarrow> 'j option \<Rightarrow> char_buffer \<Rightarrow> u64 \<times> char_buffer" where
  "write_object_to_buffer J jobj buffer =
     (case jobj of
        None \<Rightarrow> (0, if buffer = NoBuffer then NoBuffer else Freed)
      | Some j \<Rightarrow> let text = json_to_string J j in (of_nat (length text), Chars (text @ [NUL])))"

definition read_object_from_buffer :: "'j json_ops \<Rightarrow> string \<Rightarrow> ('j option \<times> u64) option" where
  "read_object_from_buffer J buffer = do {
     text \<leftarrow> cstr buffer;
     Some (json_tokener_parse J text, of_nat (length text)) }"

subsection \<open>The description of the processor\<close>

record dclprocessor_description =
  dd_use_shmem :: int
  dd_shmpath :: "string option"
  dd_shmsize :: u64
  dd_pipeline_desc :: "pipeline_description option"
  dd_collector_desc :: "collector_description option"
  dd_full_json :: char_buffer
  dd_full_json_size :: u64

definition dclprocessor_description_create :: "bool \<Rightarrow> dclprocessor_description option" where
  "dclprocessor_description_create mem =
     (if mem then Some \<lparr>dd_use_shmem = 0, dd_shmpath = None, dd_shmsize = 0, dd_pipeline_desc = None,
        dd_collector_desc = None, dd_full_json = NoBuffer, dd_full_json_size = 0\<rparr> else None)"

definition parse_dclprocessor_json ::
  "'j json_ops \<Rightarrow> 'j option \<Rightarrow> dclprocessor_description option \<Rightarrow> (int \<times> dclprocessor_description option) option" where
  "parse_dclprocessor_json J jobj p_desc =
     (case p_desc of
        None \<Rightarrow> Some (-1, None)
      | Some desc \<Rightarrow> do {
          let desc = (case json_get J jobj ''use_shmem'' of
                None \<Rightarrow> desc | Some c \<Rightarrow> desc\<lparr>dd_use_shmem := json_get_int J c\<rparr>);
          let desc = (case json_get J jobj ''shmem_segment_name'' of
                None \<Rightarrow> desc | Some c \<Rightarrow> desc\<lparr>dd_shmpath := Some (json_get_string J c)\<rparr>);
          let desc = (case json_get J jobj ''shmem_segment_size'' of
                None \<Rightarrow> desc | Some c \<Rightarrow> desc\<lparr>dd_shmsize := size_of_int (json_get_int J c)\<rparr>);
          (rc, pd) \<leftarrow> parse_pipeline_json J (get_pipeline_json J jobj) (Some pipeline_description_create);
          cd \<leftarrow> parse_collector_json J (get_collector_json J jobj) collector_description_create;
          Some (0, Some (desc\<lparr>dd_pipeline_desc := pd, dd_collector_desc := Some cd\<rparr>)) })"

text \<open>
  The two loaders. \<open>out_dclprocessor_description\<close> and the fields of the new description need it to be
  there (\<open>mem\<close>: the allocation succeeded).
\<close>

definition load_dclprocessor_description ::
  "'j json_ops \<Rightarrow> bool \<Rightarrow> string \<Rightarrow> dclprocessor_description option" where
  "load_dclprocessor_description J mem fname = do {
     let jobj = load_object_json J fname;
     (rc, p_desc) \<leftarrow> parse_dclprocessor_json J (get_dclprocessor_json J jobj) (dclprocessor_description_create mem);
     desc \<leftarrow> p_desc;
     system \<leftarrow> construct_full_object J jobj;
     let (n, text) = write_object_to_buffer J (Some system) (dd_full_json desc);
     Some (desc\<lparr>dd_full_json := text, dd_full_json_size := n\<rparr>) }"

definition load_dclprocessor_description_from_buffer ::
  "'j json_ops \<Rightarrow> bool \<Rightarrow> string \<Rightarrow> u64 \<Rightarrow> dclprocessor_description option" where
  "load_dclprocessor_description_from_buffer J mem buffer buffer_size = do {
     (system, bytes) \<leftarrow> read_object_from_buffer J buffer;
     (rc, p_desc) \<leftarrow> parse_dclprocessor_json J (get_dclprocessor_json J system) (dclprocessor_description_create mem);
     desc \<leftarrow> p_desc;
     copy \<leftarrow> region_read buffer 0 (unat buffer_size);
     Some (desc\<lparr>dd_full_json := Chars copy, dd_full_json_size := buffer_size\<rparr>) }"

text \<open>The pointer after the call. The text of the description is not given back.\<close>

definition dclprocessor_description_destroy ::
  "dclprocessor_description option \<Rightarrow> dclprocessor_description option option" where
  "dclprocessor_description_destroy p_desc =
     (case p_desc of
        None \<Rightarrow> Some None
      | Some desc \<Rightarrow> do {
          strings \<leftarrow> pipeline_description_destroy (dd_pipeline_desc desc);
          cd \<leftarrow> collector_description_destroy (dd_collector_desc desc);
          Some None })"

subsection \<open>Library\<close>

lemmas get_part_defs = get_pipeline_json_def get_collector_json_def get_messenger_json_def

lemma embed_part_object:
  assumes J: "json_laws J" and j: "json_is_object J j"
  obtains j' where "embed_part J key get_json (Some j) = Some (Some j')" "json_is_object J j'"
    "\<forall>k. k \<noteq> key \<longrightarrow> json_get J (Some j') k = json_get J (Some j) k"
    "json_get J (Some j') key = (case json_get J (Some j) key of None \<Rightarrow> get_json J (Some j) | Some v \<Rightarrow> Some v)"
proof (cases "json_get J (Some j) key")
  case None
  show thesis
    by (rule that [of "json_object_add J j key (get_json J (Some j))"])
      (use None j json_lawsD [OF J] in \<open>simp_all add: embed_part_def find_in_json_def\<close>)
next
  case (Some v)
  show thesis by (rule that [of j]) (use Some j in \<open>simp_all add: embed_part_def find_in_json_def\<close>)
qed

lemma embed_part_no_object:
  assumes "json_laws J" "\<not> (\<exists>j. d = Some j \<and> json_is_object J j)"
  shows "embed_part J key get_json d = None"
  using assms json_lawsD(1,13) [of J] by (auto simp: embed_part_def find_in_json_def split: option.split)

lemma get_dclprocessor_of_system:
  "json_laws J \<Longrightarrow> get_dclprocessor_json J (Some (json_object_add J (json_new_object J) ''dclprocessor'' d)) = d"
  by (simp add: get_dclprocessor_json_def json_lawsD(2,3))

text \<open>
  \<open>same_parts\<close>: the object \<open>d'\<close> answers like \<open>d\<close> for every key but those of the three parts, and has the
  parts that \<open>d\<close> has or names in it.
\<close>

definition part_keys :: "string set" where
  "part_keys = {''pipeline'', ''collector'', ''messenger''}"

definition same_parts :: "'j json_ops \<Rightarrow> 'j \<Rightarrow> 'j \<Rightarrow> bool" where
  "same_parts J d d' \<longleftrightarrow>
     (\<forall>k. k \<notin> part_keys \<longrightarrow> json_get J (Some d') k = json_get J (Some d) k) \<and>
     get_pipeline_json J (Some d') = get_pipeline_json J (Some d) \<and>
     get_collector_json J (Some d') = get_collector_json J (Some d) \<and>
     get_messenger_json J (Some d') = get_messenger_json J (Some d) \<and>
     (json_get J (Some d) ''pipeline'' = None \<longrightarrow> json_get J (Some d') ''pipeline'' = get_pipeline_json J (Some d)) \<and>
     (json_get J (Some d) ''collector'' = None \<longrightarrow> json_get J (Some d') ''collector'' = get_collector_json J (Some d)) \<and>
     (json_get J (Some d) ''messenger'' = None \<longrightarrow> json_get J (Some d') ''messenger'' = get_messenger_json J (Some d))"

lemma construct_full_object_object:
  assumes J: "json_laws J" and d: "get_dclprocessor_json J jobj = Some d" and o: "json_is_object J d"
  obtains sys d' where "construct_full_object J jobj = Some sys" "get_dclprocessor_json J (Some sys) = Some d'"
    "json_is_object J d'" "same_parts J d d'"
proof -
  obtain d1 where 1: "embed_part J ''pipeline'' get_pipeline_json (Some d) = Some (Some d1)" "json_is_object J d1"
    "\<forall>k. k \<noteq> ''pipeline'' \<longrightarrow> json_get J (Some d1) k = json_get J (Some d) k"
    "json_get J (Some d1) ''pipeline'' =
       (case json_get J (Some d) ''pipeline'' of None \<Rightarrow> get_pipeline_json J (Some d) | Some v \<Rightarrow> Some v)"
    by (rule embed_part_object [OF J o, where key = "''pipeline''" and get_json = get_pipeline_json])
  obtain d2 where 2: "embed_part J ''collector'' get_collector_json (Some d1) = Some (Some d2)" "json_is_object J d2"
    "\<forall>k. k \<noteq> ''collector'' \<longrightarrow> json_get J (Some d2) k = json_get J (Some d1) k"
    "json_get J (Some d2) ''collector'' =
       (case json_get J (Some d1) ''collector'' of None \<Rightarrow> get_collector_json J (Some d1) | Some v \<Rightarrow> Some v)"
    by (rule embed_part_object [OF J 1(2), where key = "''collector''" and get_json = get_collector_json])
  obtain d3 where 3: "embed_part J ''messenger'' get_messenger_json (Some d2) = Some (Some d3)" "json_is_object J d3"
    "\<forall>k. k \<noteq> ''messenger'' \<longrightarrow> json_get J (Some d3) k = json_get J (Some d2) k"
    "json_get J (Some d3) ''messenger'' =
       (case json_get J (Some d2) ''messenger'' of None \<Rightarrow> get_messenger_json J (Some d2) | Some v \<Rightarrow> Some v)"
    by (rule embed_part_object [OF J 2(2), where key = "''messenger''" and get_json = get_messenger_json])
  have k: "json_get J (Some d3) k = json_get J (Some d) k" if "k \<notin> part_keys" for k
    using that 1(3) 2(3) 3(3) by (simp add: part_keys_def)
  have c: "get_collector_json J (Some d1) = get_collector_json J (Some d)"
    by (simp add: get_collector_json_def 1(3) split: option.split)
  have m: "get_messenger_json J (Some d2) = get_messenger_json J (Some d)"
    by (simp add: get_messenger_json_def 1(3) 2(3) split: option.split)
  have p3: "json_get J (Some d3) ''pipeline'' =
      (case json_get J (Some d) ''pipeline'' of None \<Rightarrow> get_pipeline_json J (Some d) | Some v \<Rightarrow> Some v)"
    using 1(4) 2(3) 3(3) by simp
  have c3: "json_get J (Some d3) ''collector'' =
      (case json_get J (Some d) ''collector'' of None \<Rightarrow> get_collector_json J (Some d) | Some v \<Rightarrow> Some v)"
    using 1(3) 2(4) 3(3) c by (simp split: option.splits)
  have m3: "json_get J (Some d3) ''messenger'' =
      (case json_get J (Some d) ''messenger'' of None \<Rightarrow> get_messenger_json J (Some d) | Some v \<Rightarrow> Some v)"
    using 1(3) 2(3) 3(4) m by (simp split: option.splits)
  have "get_pipeline_json J (Some d3) = get_pipeline_json J (Some d)"
    using k [of "''pipeline_config''"] p3
    by (auto simp: get_pipeline_json_def part_keys_def split: option.splits)
  moreover have "get_collector_json J (Some d3) = get_collector_json J (Some d)"
    using k [of "''collector_config''"] c3
    by (auto simp: get_collector_json_def part_keys_def split: option.splits)
  moreover have "get_messenger_json J (Some d3) = get_messenger_json J (Some d)"
    using k [of "''messenger_config''"] m3
    by (auto simp: get_messenger_json_def part_keys_def split: option.splits)
  ultimately have "same_parts J d d3" using k p3 c3 m3 by (simp add: same_parts_def)
  then show thesis
    using that [of "json_object_add J (json_new_object J) ''dclprocessor'' (Some d3)" d3] 3(2)
    by (simp add: construct_full_object_def d 1(1) 2(1) 3(1) get_dclprocessor_of_system [OF J])
qed

lemma construct_full_object_defined:
  assumes "json_laws J"
  shows "(\<exists>sys. construct_full_object J jobj = Some sys) \<longleftrightarrow>
     (\<exists>d. get_dclprocessor_json J jobj = Some d \<and> json_is_object J d)"
proof -
  have "construct_full_object J jobj = None" if "\<not> (\<exists>d. get_dclprocessor_json J jobj = Some d \<and> json_is_object J d)"
    by (simp add: construct_full_object_def embed_part_no_object [OF assms that])
  then show ?thesis using construct_full_object_object [OF assms] by (metis option.distinct(1))
qed

lemma parse_dclprocessor_same_parts:
  assumes "same_parts J d d'"
  shows "parse_dclprocessor_json J (Some d') p = parse_dclprocessor_json J (Some d) p"
proof -
  have k: "json_get J (Some d') ''use_shmem'' = json_get J (Some d) ''use_shmem''"
    "json_get J (Some d') ''shmem_segment_name'' = json_get J (Some d) ''shmem_segment_name''"
    "json_get J (Some d') ''shmem_segment_size'' = json_get J (Some d) ''shmem_segment_size''"
    "get_pipeline_json J (Some d') = get_pipeline_json J (Some d)"
    "get_collector_json J (Some d') = get_collector_json J (Some d)"
    using assms by (simp_all add: same_parts_def part_keys_def)
  show ?thesis unfolding parse_dclprocessor_json_def k ..
qed

text \<open>A parsed pipeline has as many modules as it counts.\<close>

lemma parse_module_list_length: "parse_module_list J ms = Some r \<Longrightarrow> length r = length ms"
  by (induction ms arbitrary: r) (auto split: bind_splits)

lemma parse_modules_destroy:
  "pd_modules_cnt e = 0 \<Longrightarrow> parse_modules_json J (Some m) e = Some (n, d) \<Longrightarrow>
   \<exists>ss. pipeline_description_destroy (Some d) = Some ss"
  by (auto simp: parse_modules_json_def pipeline_description_destroy_def Let_def split: if_splits bind_splits
      dest!: parse_module_list_length)

lemma parse_pipeline_destroy:
  assumes "parse_pipeline_json J jobj (Some pipeline_description_create) = Some (rc, pd)"
  shows "\<exists>ss. pipeline_description_destroy pd = Some ss"
proof (cases "json_get J jobj ''modules''")
  case None
  then show ?thesis using assms
    by (auto simp: parse_pipeline_json_def Let_def pipeline_description_create_def pipeline_description_destroy_def
        split: option.splits)
next
  case (Some m)
  then obtain e n d where "pd_modules_cnt e = 0" "parse_modules_json J (Some m) e = Some (n, d)" "pd = Some d"
    using assms unfolding parse_pipeline_json_def Let_def
    by (cases "json_get J jobj ''id_string''"; cases "json_get J jobj ''shmem_segment_name''";
        cases "json_get J jobj ''data_chunk_size''"; cases "json_get J jobj ''data_chunk_count''")
      (auto simp: pipeline_description_create_def elim!: that [rotated])
  then show ?thesis using parse_modules_destroy [of e J m n d] by simp
qed

text \<open>What the loader gives, when it gives something.\<close>

lemma load_dclprocessor_description_Some:
  assumes J: "json_laws J" and l: "load_dclprocessor_description J mem fname = Some desc"
  obtains d sys d' desc0 rc where "get_dclprocessor_json J (json_from_file J fname) = Some d"
    "construct_full_object J (json_from_file J fname) = Some sys"
    "get_dclprocessor_json J (Some sys) = Some d'" "same_parts J d d'"
    "parse_dclprocessor_json J (Some d) (dclprocessor_description_create mem) = Some (rc, Some desc0)"
    "desc = desc0\<lparr>dd_full_json := Chars (json_to_string J sys @ [NUL]),
       dd_full_json_size := of_nat (length (json_to_string J sys))\<rparr>"
proof -
  obtain rc desc0 sys where
    p: "parse_dclprocessor_json J (get_dclprocessor_json J (json_from_file J fname)) (dclprocessor_description_create mem)
      = Some (rc, Some desc0)" and
    s: "construct_full_object J (json_from_file J fname) = Some sys" and
    e: "desc = desc0\<lparr>dd_full_json := Chars (json_to_string J sys @ [NUL]),
       dd_full_json_size := of_nat (length (json_to_string J sys))\<rparr>"
    using l by (auto simp: load_dclprocessor_description_def load_object_json_def write_object_to_buffer_def Let_def
        split: bind_splits)
  obtain d where d: "get_dclprocessor_json J (json_from_file J fname) = Some d" "json_is_object J d"
    using construct_full_object_defined [OF J] s by blast
  obtain d' where "get_dclprocessor_json J (Some sys) = Some d'" "same_parts J d d'"
    using construct_full_object_object [OF J d] s by (metis option.inject)
  then show thesis using that d(1) s p e by simp
qed

lemma parse_dclprocessor_wf:
  assumes "parse_dclprocessor_json J jobj (dclprocessor_description_create mem) = Some (rc, Some desc)"
  shows "dclprocessor_description_destroy (Some desc) = Some None"
proof -
  obtain rc' pd cd where p: "parse_pipeline_json J (get_pipeline_json J jobj) (Some pipeline_description_create) = Some (rc', pd)"
    and c: "parse_collector_json J (get_collector_json J jobj) collector_description_create = Some cd"
    and d: "dd_pipeline_desc desc = pd" "dd_collector_desc desc = Some cd"
    using assms by (auto simp: parse_dclprocessor_json_def Let_def split: bind_splits option.splits)
  have "collector_description_destroy (Some cd) = Some None"
    by (rule collector_wf_destroy [OF parse_collector_wf [OF c]])
  moreover have "\<exists>ss. pipeline_description_destroy pd = Some ss"
    by (rule parse_pipeline_destroy [OF p])
  ultimately show ?thesis by (auto simp: dclprocessor_description_destroy_def d)
qed

lemma full_json_reloaded:
  assumes J: "json_laws J" and l: "load_dclprocessor_description J mem fname = Some desc"
    and s: "construct_full_object J (json_from_file J fname) = Some sys"
    and p: "json_tokener_parse J (json_to_string J sys) = Some sys" "NUL \<notin> set (json_to_string J sys)"
      "length (json_to_string J sys) < 2 ^ 64"
  shows "load_dclprocessor_description_from_buffer J mem (json_to_string J sys @ NUL # rest) (dd_full_json_size desc) =
     Some (desc\<lparr>dd_full_json := Chars (json_to_string J sys)\<rparr>)"
proof -
  obtain d d' desc0 rc where d: "get_dclprocessor_json J (Some sys) = Some d'" "same_parts J d d'"
    and r: "parse_dclprocessor_json J (Some d) (dclprocessor_description_create mem) = Some (rc, Some desc0)"
    and e: "desc = desc0\<lparr>dd_full_json := Chars (json_to_string J sys @ [NUL]),
       dd_full_json_size := of_nat (length (json_to_string J sys))\<rparr>"
    using load_dclprocessor_description_Some [OF J l] s by (metis option.inject)
  have "parse_dclprocessor_json J (Some d') (dclprocessor_description_create mem) = Some (rc, Some desc0)"
    using parse_dclprocessor_same_parts [OF d(2)] r by simp
  then show ?thesis using unat_of_nat_small [OF p(3)]
    by (simp add: load_dclprocessor_description_from_buffer_def read_object_from_buffer_def cstr_terminated p(1,2) d(1) e
        region_read_def)
qed

subsection \<open>Properties\<close>

text \<open>The full object of a system: it is built exactly when the processor's part is found and is an object (else
  \<open>json_object_object_add\<close> aborts the program), and then the processor's part of the result has the
  pipeline, the collector and the messenger in it, whether they were embedded or named by files, keeps every
  other key, and gives for each part what the original gives.\<close>

theorem construct_full_object_parts:
  assumes "json_laws J"
  shows "case get_dclprocessor_json J jobj of
      Some d \<Rightarrow> if json_is_object J d
        then \<exists>sys d'. construct_full_object J jobj = Some sys \<and> get_dclprocessor_json J (Some sys) = Some d' \<and> same_parts J d d'
        else construct_full_object J jobj = None
    | None \<Rightarrow> construct_full_object J jobj = None"
proof -
  have "construct_full_object J jobj = None" if "\<not> (\<exists>d. get_dclprocessor_json J jobj = Some d \<and> json_is_object J d)"
    using that construct_full_object_defined [OF assms] by (metis option.exhaust)
  then show ?thesis
    using construct_full_object_object [OF assms] by (auto split: option.split) blast
qed

definition sample_files :: "string \<Rightarrow> json option" where
  "sample_files f =
     (if f = ''system'' then Some (JObject [(''dclprocessor'', Some (JObject [(''use_shmem'', Some (JNum 1)),
        (''pipeline_config'', Some (JText ''pl''))]))])
      else if f = ''pl'' then Some (JObject [(''pipeline'', Some (JObject [(''data_chunk_count'', Some (JNum 4))]))])
      else None)"

theorem construct_full_object_parts_witness:
  "\<exists>sys d'. construct_full_object (json_instance sample_files) (sample_files ''system'') = Some sys \<and>
     get_dclprocessor_json (json_instance sample_files) (Some sys) = Some d' \<and>
     json_get (json_instance sample_files) (Some d') ''pipeline'' = Some (JObject [(''data_chunk_count'', Some (JNum 4))])"
proof -
  have "get_dclprocessor_json (json_instance sample_files) (sample_files ''system'') =
      Some (JObject [(''use_shmem'', Some (JNum 1)), (''pipeline_config'', Some (JText ''pl''))])"
    by (simp add: get_dclprocessor_json_def json_instance_def sample_files_def)
  then show ?thesis
    using construct_full_object_parts [OF json_instance_laws, of sample_files "sample_files ''system''"]
    by (auto simp: json_instance_def same_parts_def get_pipeline_json_def sample_files_def)
qed

text \<open>C38: The description of the processor travels in its full object: when a system description is loaded from a file,
  the text that is kept with it, read from a buffer by another process with the same files, gives the same
  description, with the pipeline, the collector and the shared memory of the original, for every law-abiding
  JSON library that parses what it printed.\<close>

theorem full_json_roundtrip:
  assumes J: "json_laws J" and l: "load_dclprocessor_description J mem fname = Some desc"
    and s: "construct_full_object J (json_from_file J fname) = Some sys"
    and p: "json_tokener_parse J (json_to_string J sys) = Some sys" "NUL \<notin> set (json_to_string J sys)"
      "length (json_to_string J sys) < 2 ^ 64"
  shows "load_dclprocessor_description_from_buffer J mem (json_to_string J sys @ NUL # rest) (dd_full_json_size desc) =
     Some (desc\<lparr>dd_full_json := Chars (json_to_string J sys)\<rparr>)"
  by (rule full_json_reloaded [OF assms])

definition sample_library :: "json json_ops" where
  "sample_library = (json_instance sample_files)\<lparr>json_to_string := (\<lambda>_. ''{}''),
     json_tokener_parse := (\<lambda>_. construct_full_object (json_instance sample_files) (sample_files ''system''))\<rparr>"

lemma sample_library_laws: "json_laws sample_library"
  using json_instance_laws [of sample_files] by (simp add: json_laws_def sample_library_def)

lemma sample_system:
  "construct_full_object sample_library (json_from_file sample_library ''system'') =
     construct_full_object (json_instance sample_files) (sample_files ''system'')"
  "\<exists>sys. construct_full_object (json_instance sample_files) (sample_files ''system'') = Some sys"
  by (simp_all add: sample_library_def construct_full_object_def embed_part_def find_in_json_def get_part_defs
      get_dclprocessor_json_def json_instance_def sample_files_def)

lemma sample_loaded:
  "\<exists>desc. load_dclprocessor_description sample_library True ''system'' = Some desc \<and> dd_use_shmem desc = 1"
  using sample_system
  by (auto simp: load_dclprocessor_description_def load_object_json_def parse_dclprocessor_json_def
      dclprocessor_description_create_def parse_pipeline_json_def parse_collector_json_def parse_boost_def
      get_part_defs get_dclprocessor_json_def write_object_to_buffer_def Let_def)
    (simp_all add: sample_library_def json_instance_def sample_files_def)

theorem full_json_roundtrip_witness:
  "\<exists>desc desc'. load_dclprocessor_description sample_library True ''system'' = Some desc \<and>
     load_dclprocessor_description_from_buffer sample_library True (''{}'' @ NUL # []) (dd_full_json_size desc) = Some desc' \<and>
     dd_pipeline_desc desc' = dd_pipeline_desc desc \<and> dd_use_shmem desc' = 1"
proof -
  obtain desc where d: "load_dclprocessor_description sample_library True ''system'' = Some desc" "dd_use_shmem desc = 1"
    using sample_loaded by blast
  obtain sys where s: "construct_full_object sample_library (json_from_file sample_library ''system'') = Some sys"
    "construct_full_object (json_instance sample_files) (sample_files ''system'') = Some sys"
    using sample_system by auto
  have t: "json_to_string sample_library sys = ''{}''" "json_tokener_parse sample_library ''{}'' = Some sys"
    by (simp_all add: sample_library_def s(2))
  show ?thesis
    using full_json_roundtrip [OF sample_library_laws d(1) s(1), of "[]"] d by (simp add: t NUL_def)
qed

text \<open>A loaded description can be given back: its end walks the modules of the pipeline and the sources of the
  collector up to the counts in the description, and whatever the file says, the arrays are that long.\<close>

theorem loaded_description_ends:
  assumes "json_laws J" and "load_dclprocessor_description J mem fname = Some desc"
  shows "dclprocessor_description_destroy (Some desc) = Some None"
proof -
  obtain d desc0 rc where p: "parse_dclprocessor_json J (Some d) (dclprocessor_description_create mem) = Some (rc, Some desc0)"
    and e: "dd_pipeline_desc desc = dd_pipeline_desc desc0" "dd_collector_desc desc = dd_collector_desc desc0"
    by (rule load_dclprocessor_description_Some [OF assms]) simp
  show ?thesis
    using parse_dclprocessor_wf [OF p] by (simp add: dclprocessor_description_destroy_def e)
qed

theorem loaded_description_ends_witness:
  "\<exists>desc. load_dclprocessor_description sample_library True ''system'' = Some desc \<and>
     dclprocessor_description_destroy (Some desc) = Some None"
  using sample_loaded loaded_description_ends [OF sample_library_laws] by blast

end
