(* ===== verification/SystemDialog.thy ===== *)
theory SystemDialog imports Decimal CString External begin

section \<open>The dialogs that describe a system\<close>

text \<open>
  The \<open>scan_..._json\<close> functions of \<^verbatim>\<open>description/src/description_json.c\<close>: they ask for the values of a
  description on the terminal and build a JSON object. The state is the text that was typed and not yet
  read. The terminal stays open, so a function that needs more than was typed waits: in this theory
  \<open>None\<close> means that the call does not return for the given input. A \<open>%d\<close> that finds no number leaves its
  variable unchanged; \<open>junk\<close> is the value of an uninitialised one.
\<close>

subsection \<open>scanf\<close>

text \<open>\<open>%ms\<close>: white space is skipped, a word ends at the next white space, which stays unread.\<close>

definition scan_word :: "string \<Rightarrow> (string \<times> string) option" where
  "scan_word inp =
     (let s = dropWhile is_space inp;
          rest = dropWhile (\<lambda>c. \<not> is_space c) s
      in if rest = [] then None else Some (takeWhile (\<lambda>c. \<not> is_space c) s, rest))"

text \<open>\<open>%d\<close> into a variable that holds \<open>old\<close>: a sign that no digit follows is read, the next character is not.\<close>

definition scan_int :: "int \<Rightarrow> string \<Rightarrow> (int \<times> string) option" where
  "scan_int old inp =
     (let s = dropWhile is_space inp;
          digits = (case s of c # r \<Rightarrow> if c = CHR ''+'' \<or> c = CHR ''-'' then r else s | [] \<Rightarrow> []);
          rest = dropWhile is_digit digits
      in if rest = [] then None else Some (case scan_d s of Some v \<Rightarrow> v | None \<Rightarrow> old, rest))"

lemma dropWhile_length: "length (dropWhile p xs) \<le> length xs"
  by (induction xs) auto

lemma scan_word_shrinks:
  assumes "scan_word inp = Some (w, r)"
  shows "length r < length inp" and "w \<noteq> []" and "r \<noteq> []"
proof -
  define s where "s = dropWhile is_space inp"
  have r: "r = dropWhile (\<lambda>c. \<not> is_space c) s" "w = takeWhile (\<lambda>c. \<not> is_space c) s" and n: "r \<noteq> []"
    using assms by (auto simp: scan_word_def s_def Let_def split: if_splits)
  then have ne: "s \<noteq> []" by auto
  then have h: "\<not> is_space (hd s)" unfolding s_def by (rule hd_dropWhile)
  then show "w \<noteq> []" using r ne by (cases s) auto
  have "length r < length s" using h r ne dropWhile_length [of "\<lambda>c. \<not> is_space c" "tl s"] by (cases s) auto
  also have "length s \<le> length inp" unfolding s_def by (rule dropWhile_length)
  finally show "length r < length inp" .
  show "r \<noteq> []" by (rule n)
qed

lemma scan_int_shrinks:
  assumes "scan_int old inp = Some (v, r)"
  shows "length r \<le> length inp"
proof -
  define s where "s = dropWhile is_space inp"
  define d where "d = (case s of c # r \<Rightarrow> if c = CHR ''+'' \<or> c = CHR ''-'' then r else s | [] \<Rightarrow> [])"
  have "r = dropWhile is_digit d"
    using assms by (auto simp: scan_int_def s_def [symmetric] d_def Let_def split: if_splits)
  then have "length r \<le> length d" by (simp add: dropWhile_length)
  also have "\<dots> \<le> length s" by (simp add: d_def split: list.splits)
  also have "\<dots> \<le> length inp" by (simp add: s_def dropWhile_length)
  finally show ?thesis .
qed

subsection \<open>A module\<close>

text \<open>The words up to the end of the line: \<open>scanf("%ms%c")\<close> until the character after a word is a newline.\<close>

function scan_parameters :: "'j json_ops \<Rightarrow> 'j \<Rightarrow> string \<Rightarrow> ('j \<times> string) option" where
  "scan_parameters J jarr inp =
     (case scan_word inp of
        Some (str, c # rest) \<Rightarrow>
          let jarr = json_array_add J jarr (json_new_string J str)
          in if c = NL then Some (jarr, rest) else scan_parameters J jarr rest
      | _ \<Rightarrow> None)"
  by pat_completeness auto

termination by (relation "measure (\<lambda>(J, jarr, inp). length inp)") (auto dest!: scan_word_shrinks(1))

declare scan_parameters.simps [simp del]

definition scan_module_json :: "'j json_ops \<Rightarrow> int \<Rightarrow> string \<Rightarrow> ('j \<times> string) option" where
  "scan_module_json J junk inp = do {
     (val, inp) \<leftarrow> scan_int junk inp;
     let jobj = json_object_add J (json_new_object J) ''id'' (Some (json_new_int J val));
     (str, inp) \<leftarrow> scan_word inp;
     let jobj = json_object_add J jobj ''name'' (Some (json_new_string J str));
     (jarr, inp) \<leftarrow> scan_parameters J (json_new_array J) inp;
     let jobj = json_object_add J jobj ''parameters'' (Some jarr);
     (str, inp) \<leftarrow> scan_word inp;
     let jobj = json_object_add J jobj ''type'' (Some (json_new_string J str));
     (val, inp) \<leftarrow> scan_int val inp;
     let jobj = json_object_add J jobj ''next'' (Some (json_new_int J val));
     (str, inp) \<leftarrow> scan_word inp;
     let jobj = json_object_add J jobj ''config'' (Some (json_new_string J str));
     Some (jobj, inp) }"

definition is_yes :: "string \<Rightarrow> bool" where
  "is_yes str \<longleftrightarrow> str \<noteq> [] \<and> (hd str = CHR ''Y'' \<or> hd str = CHR ''y'')"

definition is_no :: "string \<Rightarrow> bool" where
  "is_no str \<longleftrightarrow> str \<noteq> [] \<and> (hd str = CHR ''N'' \<or> hd str = CHR ''n'')"

lemma scan_parameters_shrinks: "scan_parameters J jarr inp = Some (a, r) \<Longrightarrow> length r \<le> length inp"
proof (induction J jarr inp rule: scan_parameters.induct)
  case (1 J jarr inp)
  obtain str c rest where w: "scan_word inp = Some (str, c # rest)"
    using "1.prems" by (subst (asm) scan_parameters.simps) (auto split: option.splits list.splits)
  then have l: "length rest < length inp" using scan_word_shrinks(1) [OF w] by simp
  show ?case
  proof (cases "c = NL")
    case True
    then show ?thesis using "1.prems" l by (subst (asm) scan_parameters.simps) (simp add: w)
  next
    case False
    have "scan_parameters J (json_array_add J jarr (json_new_string J str)) rest = Some (a, r)"
      using "1.prems" False by (subst (asm) scan_parameters.simps) (simp add: w)
    from "1.IH" [OF w refl refl refl False this] show ?thesis using l by simp
  qed
qed

lemma scan_module_shrinks: "scan_module_json J junk inp = Some (j, r) \<Longrightarrow> length r \<le> length inp"
  by (auto simp: scan_module_json_def Let_def split: bind_splits
      dest!: scan_word_shrinks(1) scan_int_shrinks scan_parameters_shrinks)

text \<open>
  The loop of \<open>scan_modules_json\<close>. \<open>scan_module_json\<close> is called with the address of \<open>jobj\<close>, but it is
  defined without parameters and returns the object instead: \<open>jobj\<close> stays NULL.
\<close>

function scan_modules_loop :: "'j json_ops \<Rightarrow> int \<Rightarrow> int \<Rightarrow> 'j \<Rightarrow> string \<Rightarrow> (int \<times> 'j \<times> string) option" where
  "scan_modules_loop J junk cnt jarr inp = do {
     (str, inp) \<leftarrow> scan_word inp;
     (cnt, jarr, inp) \<leftarrow>
       (if is_yes str
        then do {
          let jobj = None;
          (dropped, inp) \<leftarrow> scan_module_json J junk inp;
          Some (case jobj of
              Some j \<Rightarrow> (cnt + 1, json_array_add J jarr j, inp)
            | None \<Rightarrow> (cnt, jarr, inp)) }
        else Some (cnt, jarr, inp));
     if is_no str then Some (cnt, jarr, inp) else scan_modules_loop J junk cnt jarr inp }"
  by pat_completeness auto

termination
  by (relation "measure (\<lambda>(J, junk, cnt, jarr, inp). length inp)")
    (auto dest!: scan_word_shrinks(1) scan_module_shrinks split: if_splits bind_splits)

declare scan_modules_loop.simps [simp del]

definition scan_modules_json :: "'j json_ops \<Rightarrow> int \<Rightarrow> string \<Rightarrow> (int \<times> 'j \<times> string) option" where
  "scan_modules_json J junk inp = scan_modules_loop J junk 0 (json_new_array J) inp"

text \<open>
  One round of the loop, for any scanner: as the pointer stays NULL, a loop that keeps its counter and its
  array on shorter inputs keeps them on this one. It reads at least the word that ends it.
\<close>

lemma scan_loop_round:
  assumes r: "do {
       (str, inp) \<leftarrow> scan_word inp;
       (cnt, jarr, inp) \<leftarrow>
         (if is_yes str
          then do {
            let jobj = None;
            (dropped, inp) \<leftarrow> scan inp;
            Some (case jobj of Some j \<Rightarrow> (cnt + 1, json_array_add J jarr j, inp) | None \<Rightarrow> (cnt, jarr, inp)) }
          else Some (cnt, jarr, inp));
       if is_no str then Some (cnt, jarr, inp) else loop cnt jarr inp } = Some (n, arr, rest)"
    and s: "\<And>i j r. scan i = Some (j, r) \<Longrightarrow> length r \<le> length (i :: string)"
    and l: "\<And>i. length i < length inp \<Longrightarrow> loop cnt jarr i = Some (n, arr, rest) \<Longrightarrow>
      n = cnt \<and> arr = jarr \<and> length rest < length i"
  shows "n = cnt \<and> arr = jarr \<and> length rest < length inp"
proof -
  obtain str inp1 where w: "scan_word inp = Some (str, inp1)" using r by (auto split: bind_splits)
  have l1: "length inp1 < length inp" by (rule scan_word_shrinks(1) [OF w])
  obtain inp2 where l2: "length inp2 \<le> length inp1" and
    e: "(if is_no str then Some (cnt, jarr, inp2) else loop cnt jarr inp2) = Some (n, arr, rest)"
    using r w by (auto split: bind_splits if_splits dest!: s)
  show ?thesis using e l1 l2 l [of inp2] by (auto split: if_splits)
qed

lemma scan_modules_loop_result:
  "scan_modules_loop J junk cnt jarr inp = Some (n, arr, r) \<Longrightarrow> n = cnt \<and> arr = jarr \<and> length r < length inp"
proof (induction inp rule: length_induct)
  case (1 inp)
  note r = "1.prems" [unfolded scan_modules_loop.simps [of J junk cnt jarr inp]]
  show ?case by (rule scan_loop_round [OF r]) (use "1.IH" scan_module_shrinks in \<open>auto\<close>)
qed

subsection \<open>A pipeline\<close>

function scan_shmpath :: "string \<Rightarrow> string \<Rightarrow> (string \<times> string) option" where
  "scan_shmpath str inp =
     (if str = [] \<or> hd str \<noteq> CHR ''/''
      then do { (str, inp) \<leftarrow> scan_word inp; scan_shmpath str inp }
      else Some (str, inp))"
  by pat_completeness auto

termination by (relation "measure (\<lambda>(str, inp). length inp)") (auto dest!: scan_word_shrinks(1))

declare scan_shmpath.simps [simp del]

text \<open>\<open>while (n == 0)\<close> over \<open>scan_modules_json\<close>.\<close>

function scan_until_modules :: "'j json_ops \<Rightarrow> int \<Rightarrow> int \<Rightarrow> 'j \<Rightarrow> string \<Rightarrow> ('j \<times> string) option" where
  "scan_until_modules J junk n jarr inp =
     (if n = 0
      then do { (n, jarr, inp) \<leftarrow> scan_modules_json J junk inp; scan_until_modules J junk n jarr inp }
      else Some (jarr, inp))"
  by pat_completeness auto

termination
  by (relation "measure (\<lambda>(J, junk, n, jarr, inp). length inp)")
    (auto simp: scan_modules_json_def dest!: scan_modules_loop_result)

declare scan_until_modules.simps [simp del]

definition scan_pipeline_json :: "'j json_ops \<Rightarrow> int \<Rightarrow> string \<Rightarrow> ('j \<times> string) option" where
  "scan_pipeline_json J junk inp = do {
     (str, inp) \<leftarrow> scan_word inp;
     let jobj = json_object_add J (json_new_object J) ''id_string'' (Some (json_new_string J str));
     (str, inp) \<leftarrow> scan_word inp;
     (str, inp) \<leftarrow> scan_shmpath str inp;
     (jobj, inp) \<leftarrow>
       (if length str > 1
        then do {
          let jobj = json_object_add J jobj ''shmem_segment_name'' (Some (json_new_string J str));
          (val, inp) \<leftarrow> scan_int 0 inp;
          let jobj = json_object_add J jobj ''data_chunk_size'' (Some (json_new_int J val));
          (val, inp) \<leftarrow> scan_int val inp;
          Some (json_object_add J jobj ''data_chunk_count'' (Some (json_new_int J val)), inp) }
        else Some (jobj, inp));
     (n, jarr, inp) \<leftarrow> scan_modules_json J junk inp;
     (jarr, inp) \<leftarrow> scan_until_modules J junk n jarr inp;
     Some (json_object_add J jobj ''modules'' (Some jarr), inp) }"

subsection \<open>Sources and the collector\<close>

definition scan_frame_json :: "'j json_ops \<Rightarrow> int \<Rightarrow> string \<Rightarrow> ('j \<times> string) option" where
  "scan_frame_json J junk inp = do {
     (val, inp) \<leftarrow> scan_int junk inp;
     let jobj = json_object_add J (json_new_object J) ''width'' (Some (json_new_int J val));
     (val, inp) \<leftarrow> scan_int val inp;
     let jobj = json_object_add J jobj ''height'' (Some (json_new_int J val));
     (val, inp) \<leftarrow> scan_int val inp;
     Some (json_object_add J jobj ''format'' (Some (json_new_int J val)), inp) }"

text \<open>
  \<open>scan_frame_json\<close> returns its object, the caller waits for it in \<open>frame_jobj\<close>, which stays NULL.
  \<open>n\<close> is the number of converted items, 1 for a word.
\<close>

definition scan_source_json :: "'j json_ops \<Rightarrow> int \<Rightarrow> string \<Rightarrow> ('j \<times> string) option" where
  "scan_source_json J junk inp = do {
     let frame_jobj = None;
     (str, inp) \<leftarrow> scan_word inp;
     let jobj = json_object_add J (json_new_object J) ''type'' (Some (json_new_string J str));
     (str, inp) \<leftarrow> scan_word inp;
     let jobj = json_object_add J jobj ''id_string'' (Some (json_new_string J str));
     (str, inp) \<leftarrow> scan_word inp;
     let jobj = json_object_add J jobj ''host'' (Some (json_new_string J str));
     (str, inp) \<leftarrow> scan_word inp;
     let jobj = json_object_add J jobj ''port'' (Some (json_new_string J str));
     (dropped, inp) \<leftarrow> scan_frame_json J junk inp;
     let jobj = json_object_add J jobj ''frame'' frame_jobj;
     (str, inp) \<leftarrow> scan_word inp;
     let n = (1 :: int);
     let jobj = (if n > 1 then json_object_add J jobj ''source_config'' (Some (json_new_string J str)) else jobj);
     Some (jobj, inp) }"

lemma scan_source_shrinks: "scan_source_json J junk inp = Some (j, r) \<Longrightarrow> length r \<le> length inp"
  by (auto simp: scan_source_json_def scan_frame_json_def Let_def split: bind_splits
      dest!: scan_word_shrinks(1) scan_int_shrinks)

function scan_sources_loop :: "'j json_ops \<Rightarrow> int \<Rightarrow> int \<Rightarrow> 'j \<Rightarrow> string \<Rightarrow> (int \<times> 'j \<times> string) option" where
  "scan_sources_loop J junk cnt jarr inp = do {
     (str, inp) \<leftarrow> scan_word inp;
     (cnt, jarr, inp) \<leftarrow>
       (if is_yes str
        then do {
          let jobj = None;
          (dropped, inp) \<leftarrow> scan_source_json J junk inp;
          Some (case jobj of
              Some j \<Rightarrow> (cnt + 1, json_array_add J jarr j, inp)
            | None \<Rightarrow> (cnt, jarr, inp)) }
        else Some (cnt, jarr, inp));
     if is_no str then Some (cnt, jarr, inp) else scan_sources_loop J junk cnt jarr inp }"
  by pat_completeness auto

termination
  by (relation "measure (\<lambda>(J, junk, cnt, jarr, inp). length inp)")
    (auto dest!: scan_word_shrinks(1) scan_source_shrinks split: if_splits bind_splits)

declare scan_sources_loop.simps [simp del]

definition scan_sources_json :: "'j json_ops \<Rightarrow> int \<Rightarrow> string \<Rightarrow> (int \<times> 'j \<times> string) option" where
  "scan_sources_json J junk inp = scan_sources_loop J junk 0 (json_new_array J) inp"

lemma scan_sources_loop_result:
  "scan_sources_loop J junk cnt jarr inp = Some (n, arr, r) \<Longrightarrow> n = cnt \<and> arr = jarr \<and> length r < length inp"
proof (induction inp rule: length_induct)
  case (1 inp)
  note r = "1.prems" [unfolded scan_sources_loop.simps [of J junk cnt jarr inp]]
  show ?case by (rule scan_loop_round [OF r]) (use "1.IH" scan_source_shrinks in \<open>auto\<close>)
qed

function scan_until_sources :: "'j json_ops \<Rightarrow> int \<Rightarrow> int \<Rightarrow> 'j \<Rightarrow> string \<Rightarrow> ('j \<times> string) option" where
  "scan_until_sources J junk n jarr inp =
     (if n = 0
      then do { (n, jarr, inp) \<leftarrow> scan_sources_json J junk inp; scan_until_sources J junk n jarr inp }
      else Some (jarr, inp))"
  by pat_completeness auto

termination
  by (relation "measure (\<lambda>(J, junk, n, jarr, inp). length inp)")
    (auto simp: scan_sources_json_def dest!: scan_sources_loop_result)

declare scan_until_sources.simps [simp del]

definition scan_collector_json :: "'j json_ops \<Rightarrow> int \<Rightarrow> string \<Rightarrow> ('j \<times> string) option" where
  "scan_collector_json J junk inp = do {
     (str, inp) \<leftarrow> scan_word inp;
     let n = (1 :: int);
     let jobj = (if n > 1
         then json_object_add J (json_new_object J) ''boost_segment_name'' (Some (json_new_string J str))
         else json_new_object J);
     (n, jarr, inp) \<leftarrow> scan_sources_json J junk inp;
     (jarr, inp) \<leftarrow> scan_until_sources J junk n jarr inp;
     let jobj = json_object_add J jobj ''sources'' (Some jarr);
     (val, inp) \<leftarrow> scan_int 0 inp;
     let jobj = json_object_add J jobj ''max_frames_count'' (Some (json_new_int J val));
     (val, inp) \<leftarrow> scan_int val inp;
     let jobj = json_object_add J jobj ''object_data_size'' (Some (json_new_int J val));
     (str, inp) \<leftarrow> scan_word inp;
     let n = (1 :: int);
     let jobj = (if n > 1 then json_object_add J jobj ''output_path'' (Some (json_new_string J str)) else jobj);
     Some (jobj, inp) }"

definition scan_messenger_json :: "'j json_ops \<Rightarrow> 'j" where
  "scan_messenger_json J = json_new_object J"

subsection \<open>The processor and the system\<close>

text \<open>The question for a config file: words are read until one starts with \<open>Y\<close> or \<open>N\<close>.\<close>

function scan_answer :: "string \<Rightarrow> (bool \<times> string) option" where
  "scan_answer inp = do {
     (str, inp) \<leftarrow> scan_word inp;
     if is_yes str then Some (True, inp) else if is_no str then Some (False, inp) else scan_answer inp }"
  by pat_completeness auto

termination by (relation "measure length") (auto dest!: scan_word_shrinks(1))

declare scan_answer.simps [simp del]

text \<open>After a \<open>Y\<close> the name of the file, after an \<open>N\<close> the part itself.\<close>

definition scan_part ::
  "'j json_ops \<Rightarrow> string \<Rightarrow> string \<Rightarrow> (string \<Rightarrow> ('j \<times> string) option) \<Rightarrow> 'j \<Rightarrow> string \<Rightarrow> ('j \<times> string) option" where
  "scan_part J config_key key scan_json jobj inp = do {
     (yes, inp) \<leftarrow> scan_answer inp;
     if yes
     then do {
       (str, inp) \<leftarrow> scan_word inp;
       Some (if length str > 0 then json_object_add J jobj config_key (Some (json_new_string J str)) else jobj, inp) }
     else do {
       (part, inp) \<leftarrow> scan_json inp;
       Some (json_object_add J jobj key (Some part), inp) } }"

definition scan_dclprocessor_json :: "'j json_ops \<Rightarrow> int \<Rightarrow> string \<Rightarrow> ('j \<times> string) option" where
  "scan_dclprocessor_json J junk inp = do {
     (jobj, inp) \<leftarrow> scan_part J ''pipeline_config'' ''pipeline'' (scan_pipeline_json J junk) (json_new_object J) inp;
     (jobj, inp) \<leftarrow> scan_part J ''collector_config'' ''collector'' (scan_collector_json J junk) jobj inp;
     scan_part J ''messenger_config'' ''messenger'' (\<lambda>inp. Some (scan_messenger_json J, inp)) jobj inp }"

definition scan_system_json :: "'j json_ops \<Rightarrow> int \<Rightarrow> string \<Rightarrow> ('j \<times> string) option" where
  "scan_system_json J junk inp =
     scan_part J ''dclprocessor_config'' ''dclprocessor'' (scan_dclprocessor_json J junk) (json_new_object J) inp"

subsection \<open>What the dialogs can build\<close>

lemma scan_until_modules_waits: "scan_until_modules J junk 0 jarr inp = None"
proof (induction inp arbitrary: jarr rule: length_induct)
  case (1 inp)
  show ?case
  proof (cases "scan_modules_json J junk inp")
    case (Some res)
    obtain n a r where r: "res = (n, a, r)" by (cases res) auto
    have "n = 0 \<and> length r < length inp"
      using scan_modules_loop_result [of J junk 0 "json_new_array J" inp n a r] Some r by (simp add: scan_modules_json_def)
    then show ?thesis using 1 Some r by (subst scan_until_modules.simps) simp
  qed (subst scan_until_modules.simps, simp)
qed

lemma scan_until_sources_waits: "scan_until_sources J junk 0 jarr inp = None"
proof (induction inp arbitrary: jarr rule: length_induct)
  case (1 inp)
  show ?case
  proof (cases "scan_sources_json J junk inp")
    case (Some res)
    obtain n a r where r: "res = (n, a, r)" by (cases res) auto
    have "n = 0 \<and> length r < length inp"
      using scan_sources_loop_result [of J junk 0 "json_new_array J" inp n a r] Some r by (simp add: scan_sources_json_def)
    then show ?thesis using 1 Some r by (subst scan_until_sources.simps) simp
  qed (subst scan_until_sources.simps, simp)
qed

lemma scan_pipeline_waits: "scan_pipeline_json J junk inp = None"
  by (auto simp: scan_pipeline_json_def Let_def scan_until_modules_waits scan_modules_json_def split: bind_splits
      dest!: scan_modules_loop_result)

lemma scan_collector_waits: "scan_collector_json J junk inp = None"
  by (auto simp: scan_collector_json_def Let_def scan_until_sources_waits scan_sources_json_def split: bind_splits
      dest!: scan_sources_loop_result)

text \<open>The keys an answered question adds.\<close>

lemma scan_part_result:
  assumes J: "json_laws J" and s: "scan_part J config_key key scan_json jobj inp = Some (obj, rest)"
    and o: "json_is_object J jobj"
  shows "json_is_object J obj"
    and "(\<exists>str. obj = json_object_add J jobj config_key (Some (json_new_string J str))) \<or>
      (\<exists>i part r. scan_json i = Some (part, r) \<and> obj = json_object_add J jobj key (Some part))"
proof -
  show r: "(\<exists>str. obj = json_object_add J jobj config_key (Some (json_new_string J str))) \<or>
      (\<exists>i part r. scan_json i = Some (part, r) \<and> obj = json_object_add J jobj key (Some part))"
  proof -
    obtain yes i1 where a: "scan_answer inp = Some (yes, i1)" using s by (auto simp: scan_part_def split: bind_splits)
    show ?thesis
    proof (cases yes)
      case True
      then have "\<exists>str. obj = json_object_add J jobj config_key (Some (json_new_string J str))"
        using s a by (auto simp: scan_part_def dest!: scan_word_shrinks(2) split: bind_splits)
      then show ?thesis ..
    next
      case False
      then have "\<exists>i part r. scan_json i = Some (part, r) \<and> obj = json_object_add J jobj key (Some part)"
        using s a by (auto simp: scan_part_def split: bind_splits)
      then show ?thesis ..
    qed
  qed
  then show "json_is_object J obj" using o json_lawsD(12) [OF J] by auto
qed

lemma scan_dclprocessor_result:
  assumes J: "json_laws J" and s: "scan_dclprocessor_json J junk inp = Some (obj, rest)"
  shows "json_get J (Some obj) ''pipeline_config'' \<noteq> None \<and> json_get J (Some obj) ''collector_config'' \<noteq> None \<and>
    json_get J (Some obj) ''pipeline'' = None \<and> json_get J (Some obj) ''collector'' = None"
proof -
  obtain o1 i1 o2 i2 where
    1: "scan_part J ''pipeline_config'' ''pipeline'' (scan_pipeline_json J junk) (json_new_object J) inp = Some (o1, i1)" and
    2: "scan_part J ''collector_config'' ''collector'' (scan_collector_json J junk) o1 i1 = Some (o2, i2)" and
    3: "scan_part J ''messenger_config'' ''messenger'' (\<lambda>inp. Some (scan_messenger_json J, inp)) o2 i2 = Some (obj, rest)"
    using s by (auto simp: scan_dclprocessor_json_def split: bind_splits)
  note o1 = scan_part_result [OF J 1 json_lawsD(11) [OF J]]
  note o2 = scan_part_result [OF J 2 o1(1)]
  obtain f where f: "o1 = json_object_add J (json_new_object J) ''pipeline_config'' (Some f)"
    using o1(2) by (auto simp: scan_pipeline_waits)
  obtain g where g: "o2 = json_object_add J o1 ''collector_config'' (Some g)"
    using o2(2) by (auto simp: scan_collector_waits)
  obtain k v where k: "obj = json_object_add J o2 k (Some v)" "k = ''messenger_config'' \<or> k = ''messenger''"
    using scan_part_result(2) [OF J 3 o2(1)] by blast
  show ?thesis using k(2) by (auto simp: k(1) g f json_lawsD(2,3) [OF J])
qed

subsection \<open>Properties\<close>

text \<open>The dialogs for a pipeline and for a collector never end: whatever is typed, the result of
  \<open>scan_module_json\<close> and of \<open>scan_source_json\<close> is dropped, the array stays empty, and the question for at least
  one entry is asked again for ever.\<close>

theorem pipeline_and_collector_dialogs_never_end:
  "scan_pipeline_json J junk inp = None \<and> scan_collector_json J junk inp = None"
  by (simp add: scan_pipeline_waits scan_collector_waits)

text \<open>What the system dialog can build: when it returns at all, the result either names a file for the processor,
  or has a processor that names a file for its pipeline and one for its collector and holds neither of them
  itself.\<close>

theorem system_dialog_result:
  assumes "json_laws J" and "scan_system_json J junk inp = Some (obj, rest)"
  shows "(json_get J (Some obj) ''dclprocessor_config'' \<noteq> None \<and> json_get J (Some obj) ''dclprocessor'' = None) \<or>
    (\<exists>d. json_get J (Some obj) ''dclprocessor'' = Some d \<and>
       json_get J (Some d) ''pipeline_config'' \<noteq> None \<and> json_get J (Some d) ''collector_config'' \<noteq> None \<and>
       json_get J (Some d) ''pipeline'' = None \<and> json_get J (Some d) ''collector'' = None)"
  using scan_part_result(2) [OF assms(1) assms(2) [unfolded scan_system_json_def] json_lawsD(11) [OF assms(1)]]
    scan_dclprocessor_result [OF assms(1)] json_lawsD(2,3) [OF assms(1)]
  by auto

text \<open>What is typed in the witness: no file for the processor, files for its parts.\<close>

definition sample_typed :: string where
  "sample_typed = ''no'' @ [NL] @ ''Y pl'' @ [NL] @ ''Y cl'' @ [NL] @ ''maybe no'' @ [NL]"

lemma sample_dialog:
  "\<exists>obj. scan_system_json (json_instance (\<lambda>_. None)) 0 sample_typed = Some (obj, [NL]) \<and>
     json_get (json_instance (\<lambda>_. None)) (Some obj) ''dclprocessor'' \<noteq> None"
  by (simp add: scan_system_json_def scan_dclprocessor_json_def scan_part_def scan_answer.simps sample_typed_def
      scan_word_def is_yes_def is_no_def is_space_def NL_def scan_messenger_json_def json_instance_def)

theorem system_dialog_result_witness:
  "\<exists>obj d. scan_system_json (json_instance (\<lambda>_. None)) 0 sample_typed = Some (obj, [NL]) \<and>
     json_get (json_instance (\<lambda>_. None)) (Some obj) ''dclprocessor'' = Some d \<and>
     json_get (json_instance (\<lambda>_. None)) (Some d) ''collector_config'' \<noteq> None"
proof -
  obtain obj where o: "scan_system_json (json_instance (\<lambda>_. None)) 0 sample_typed = Some (obj, [NL])"
    "json_get (json_instance (\<lambda>_. None)) (Some obj) ''dclprocessor'' \<noteq> None"
    using sample_dialog by blast
  show ?thesis using system_dialog_result [OF json_instance_laws o(1)] o by auto
qed

end
