(* ===== verification/Source.thy ===== *)
theory Source imports CString SourceDescription begin

section \<open>Sources of frames\<close>

text \<open>
  \<^verbatim>\<open>collector/src/source.c\<close>: opening a source, reading frames from a TCP sender and handing them to the
  callbacks, the watchdog of a camera, and the end of a source. What the system and the camera library
  answer are arguments; memory allocation succeeds. The steps a source's thread shares with the collector
  are in \<^verbatim>\<open>Collector\<close>.
\<close>

subsection \<open>Packets and sources\<close>

definition OBJECT_DETECTION_FRAME_LIMIT :: int where "OBJECT_DETECTION_FRAME_LIMIT = 50"

record data_packet =
  pk_header :: "byte list"
  pk_header_len :: u64
  pk_data :: "byte list"
  pk_data_len :: u64

text \<open>
  A frame is its number and its bytes. \<open>cb_detect\<close> is the callback that finds a new object in a frame,
  \<open>cb_add\<close> and \<open>cb_save\<close> whether the others are set. A semaphore that was not initialised is \<open>None\<close>.
\<close>

type_synonym frame = "int \<times> byte list"

record data_source =
  so_sid :: int
  so_fd :: int
  so_sdesc :: "source_description option"
  so_packet :: "data_packet option"
  so_camera :: "addr option"
  so_exit_flag :: int
  so_empty_ready :: "nat option"
  so_data_ready :: "nat option"
  so_data :: string
  so_detect :: "(int \<Rightarrow> frame \<Rightarrow> bool) option"
  so_add :: bool
  so_save :: bool
  so_need_to_free :: int
  so_frames_in_object :: int
  so_object_detection_frame_limit :: int

subsection \<open>A new frame\<close>

text \<open>
  The condition that starts a new object: the callback says so, or the number of frames in the object is
  a multiple of the limit, which is not 0.
\<close>

definition object_detected :: "'a data_source_scheme \<Rightarrow> frame \<Rightarrow> bool option" where
  "object_detected s f =
     (case so_detect s of
        Some cb \<Rightarrow> if cb (so_sid s) f then Some True
          else if so_object_detection_frame_limit s = 0 then None
          else Some (so_frames_in_object s mod so_object_detection_frame_limit s = 0)
      | None \<Rightarrow> if so_object_detection_frame_limit s = 0 then None
          else Some (so_frames_in_object s mod so_object_detection_frame_limit s = 0))"

subsection \<open>Frames from a TCP sender\<close>

text \<open>What \<open>read\<close> answers: at most as many bytes as were asked for are taken; no byte is the end of the stream.\<close>

datatype tcp_answer = ReadFails | ReadData "byte list"

record tcp_loop =
  tl_data_size :: u64
  tl_received :: u64
  tl_remaining :: u64
  tl_frame_id :: int
  tl_header_ok :: bool

definition tcp_start :: "data_packet \<Rightarrow> tcp_loop" where
  "tcp_start pk = \<lparr>tl_data_size = 0, tl_received = 0, tl_remaining = pk_header_len pk, tl_frame_id = -1,
     tl_header_ok = False\<rparr>"

datatype tcp_result = RoundAgain | RoundFails | FrameReady frame

text \<open>\<open>*((size_t *)packet->header)\<close> and the \<open>int\<close> after it.\<close>

definition header_fields :: "byte list \<Rightarrow> (u64 \<times> int) option" where
  "header_fields h = do {
     n \<leftarrow> region_read h 0 8;
     i \<leftarrow> region_read h 8 4;
     Some (of_le_bytes n, sint (of_le_bytes i :: u32)) }"

text \<open>One round of the loop of \<open>source_data_thread_tcp\<close>, after the test of the exit flag.\<close>

definition tcp_round :: "tcp_answer \<Rightarrow> data_packet \<times> tcp_loop \<Rightarrow> ((data_packet \<times> tcp_loop) \<times> tcp_result) option" where
  "tcp_round rd s = (case s of (pk, lo) \<Rightarrow>
     if tl_remaining lo = 0 then Some ((pk, lo\<lparr>tl_remaining := pk_header_len pk\<rparr>), RoundAgain)
     else (case rd of
         ReadFails \<Rightarrow> Some ((pk, lo), RoundFails)
       | ReadData avail \<Rightarrow>
           let bs = take (unat (tl_remaining lo)) avail;
               bytes = of_nat (length bs)
           in if bs = [] then Some ((pk, lo), RoundAgain)
           else do {
             pk \<leftarrow> (if \<not> tl_header_ok lo
                   then map_option (\<lambda>h. pk\<lparr>pk_header := h\<rparr>) (region_write (pk_header pk) (unat (tl_received lo)) bs)
                   else map_option (\<lambda>d. pk\<lparr>pk_data := d\<rparr>) (region_write (pk_data pk) (unat (tl_received lo)) bs));
             let lo = lo\<lparr>tl_received := tl_received lo + bytes\<rparr>;
             let lo = (if \<not> tl_header_ok lo \<and> tl_received lo < pk_header_len pk
                 then lo\<lparr>tl_remaining := tl_remaining lo - bytes\<rparr> else lo);
             lo \<leftarrow> (if \<not> tl_header_ok lo \<and> tl_received lo = pk_header_len pk
                   then do {
                     (n, i) \<leftarrow> header_fields (pk_header pk);
                     Some (lo\<lparr>tl_data_size := n, tl_frame_id := i, tl_received := 0, tl_remaining := n, tl_header_ok := True\<rparr>) }
                   else Some lo);
             let lo = (if tl_header_ok lo \<and> tl_received lo < pk_data_len pk
                 then lo\<lparr>tl_remaining := tl_remaining lo - bytes\<rparr> else lo);
             Some (if tl_header_ok lo \<and> tl_received lo = pk_data_len pk
               then ((pk, lo\<lparr>tl_remaining := pk_header_len pk, tl_received := 0, tl_header_ok := False\<rparr>),
                     FrameReady (tl_frame_id lo, pk_data pk))
               else ((pk, lo), RoundAgain)) }))"

text \<open>The frames that a list of answers gives, up to the first failure.\<close>

fun tcp_rounds :: "tcp_answer list \<Rightarrow> data_packet \<times> tcp_loop \<Rightarrow> ((data_packet \<times> tcp_loop) \<times> frame list) option" where
  "tcp_rounds [] s = Some (s, [])"
| "tcp_rounds (rd # rds) s = do {
     (s, r) \<leftarrow> tcp_round rd s;
     (case r of
        RoundFails \<Rightarrow> Some (s, [])
      | RoundAgain \<Rightarrow> tcp_rounds rds s
      | FrameReady f \<Rightarrow> do { (s, fs) \<leftarrow> tcp_rounds rds s; Some (s, f # fs) }) }"

subsection \<open>The watchdog of a camera\<close>

text \<open>
  \<open>source_data_thread_udp\<close> after its first wait: what it sends to the camera, given what it sees at each test
  of its loop (the exit flag of the source and whether the stream is live).
\<close>

datatype camera_action = GvcpStart | CreateDataThread | GvcpWatchdog | GvcpStop | SetExit | PostData | CloseControl | JoinData

fun watchdog_loop :: "(int \<times> bool) list \<Rightarrow> camera_action list option" where
  "watchdog_loop [] = None"
| "watchdog_loop ((exit_flag, live) # obs) =
     (if exit_flag = 0 \<and> live then map_option (Cons GvcpWatchdog) (watchdog_loop obs) else Some [])"

definition source_data_thread_udp :: "data_source \<Rightarrow> (int \<times> bool) list \<Rightarrow> camera_action list call_result option" where
  "source_data_thread_udp s obs = do {
     cam \<leftarrow> so_camera s;
     Some (case watchdog_loop obs of
         None \<Rightarrow> Hangs
       | Some ws \<Rightarrow> Returns ([GvcpStart, CreateDataThread] @ ws @ [GvcpStop, SetExit, PostData, CloseControl, JoinData])) }"

subsection \<open>Opening a source\<close>

record source_answers =
  sa_resolved :: bool
  sa_sockets :: "(int \<times> bool) list"
  sa_device :: "addr option"
  sa_camera :: "addr option"
  sa_sem_data :: bool
  sa_sem_empty :: bool

text \<open>The descriptor of the first address that could be connected.\<close>

fun source_connect :: "(int \<times> bool) list \<Rightarrow> int option" where
  "source_connect [] = None"
| "source_connect ((fd, connected) # rest) = (if fd \<noteq> -1 \<and> connected then Some fd else source_connect rest)"

definition new_packet :: "(nat \<Rightarrow> byte list) \<Rightarrow> source_description \<Rightarrow> data_packet" where
  "new_packet junk d = \<lparr>pk_header = junk (unat (sd_header_len d)), pk_header_len = sd_header_len d,
     pk_data = junk (unat (sd_data_len d)), pk_data_len = sd_data_len d\<rparr>"

text \<open>
  \<open>junk\<close> gives the content of new memory, \<open>fresh\<close> a new source with uninitialised fields. The results: the
  value, and the pointer after the call, which is set on success only.
\<close>

definition source_init ::
  "(nat \<Rightarrow> byte list) \<Rightarrow> source_answers \<Rightarrow> data_source \<Rightarrow> data_source option \<Rightarrow> source_description option \<Rightarrow>
     (int \<times> data_source option) option" where
  "source_init junk ans fresh p_source p_sdesc = do {
     let source = (case p_source of None \<Rightarrow> fresh\<lparr>so_need_to_free := 1\<rparr> | Some s \<Rightarrow> s\<lparr>so_need_to_free := 0\<rparr>);
     sdesc \<leftarrow> p_sdesc;
     let source = source\<lparr>so_sdesc := Some sdesc, so_object_detection_frame_limit := OBJECT_DETECTION_FRAME_LIMIT,
       so_frames_in_object := 0, so_exit_flag := 0, so_fd := -1, so_camera := None,
       so_packet := Some (new_packet junk sdesc)\<rparr>;
     let failed = (\<lambda>source. (-1, case p_source of None \<Rightarrow> None | Some _ \<Rightarrow> Some source));
     let opened = (if sd_type sdesc = STYPE_TCP
         then (if sa_resolved ans
               then map_option (\<lambda>fd. source\<lparr>so_fd := fd\<rparr>) (source_connect (sa_sockets ans)) else None)
         else (case sa_device ans of None \<Rightarrow> None | Some dev \<Rightarrow> Some (source\<lparr>so_camera := sa_camera ans\<rparr>)));
     Some (case opened of
         None \<Rightarrow> failed source
       | Some source \<Rightarrow>
           let source = source\<lparr>so_exit_flag := 0, so_detect := None, so_add := False, so_save := False\<rparr> in
           if \<not> sa_sem_data ans \<or> \<not> sa_sem_empty ans then failed source
           else (so_fd source, Some (source\<lparr>so_data_ready := Some 0, so_empty_ready := Some 0\<rparr>))) }"

text \<open>
  The end: \<open>ended\<close> says whether the source's thread returns. What is given back besides the structure: the
  descriptor, the camera and the description, which the collector's description still points to.
\<close>

record source_freed =
  sf_fd :: int
  sf_camera :: "addr option"
  sf_packet :: bool
  sf_sdesc :: "source_description option"
  sf_source :: bool

definition source_destroy :: "bool \<Rightarrow> data_source \<Rightarrow> source_freed call_result" where
  "source_destroy ended s =
     (if ended
      then Returns \<lparr>sf_fd = so_fd s, sf_camera = so_camera s, sf_packet = (so_packet s \<noteq> None), sf_sdesc = so_sdesc s,
        sf_source = (so_need_to_free s \<noteq> 0)\<rparr>
      else Hangs)"

subsection \<open>Framing\<close>

text \<open>
  What the sender puts before the data of a frame: the length of header and data together, and the number
  of the frame.
\<close>

definition frame_header :: "u64 \<Rightarrow> int \<Rightarrow> byte list" where
  "frame_header n i = le_bytes 8 n @ le_bytes 4 (word_of_int i :: u32)"

lemma frame_header_length: "length (frame_header n i) = 12"
  by (simp add: frame_header_def)

lemma header_fields_frame_header:
  assumes "- (2 ^ 31) \<le> i" "i < 2 ^ 31"
  shows "header_fields (frame_header n i) = Some (n, i)"
proof -
  have "sint (word_of_int i :: u32) = i" using assms by (simp add: signed_of_int signed_take_bit_int_eq_self)
  then show ?thesis
    by (simp add: header_fields_def frame_header_def region_read_def of_le_bytes_le_bytes)
qed

text \<open>A packet with room for its header and its data, and the state of the loop before the header of a frame.\<close>

definition packet_ok :: "data_packet \<Rightarrow> bool" where
  "packet_ok pk \<longleftrightarrow> pk_header_len pk = 12 \<and> length (pk_header pk) = 12 \<and>
     length (pk_data pk) = unat (pk_data_len pk) \<and> 0 < pk_data_len pk \<and> unat (pk_data_len pk) + 12 < 2 ^ 31"

definition at_header :: "tcp_loop \<Rightarrow> bool" where
  "at_header lo \<longleftrightarrow> tl_received lo = 0 \<and> tl_remaining lo = 12 \<and> \<not> tl_header_ok lo"

text \<open>In the data of a frame, \<open>k\<close> bytes of which have arrived.\<close>

definition in_data :: "data_packet \<Rightarrow> tcp_loop \<Rightarrow> int \<Rightarrow> nat \<Rightarrow> bool" where
  "in_data pk lo i k \<longleftrightarrow> tl_header_ok lo \<and> tl_frame_id lo = i \<and> k < unat (pk_data_len pk) \<and>
     tl_received lo = of_nat k \<and> tl_remaining lo = of_nat (unat (pk_data_len pk) - k)"

lemma tcp_round_header:
  assumes pk: "packet_ok pk" and lo: "at_header lo" and i: "- (2 ^ 31) \<le> i" "i < 2 ^ 31"
  shows "\<exists>lo'. tcp_round (ReadData (frame_header (pk_data_len pk + 12) i)) (pk, lo) =
      Some ((pk\<lparr>pk_header := frame_header (pk_data_len pk + 12) i\<rparr>, lo'), RoundAgain) \<and> in_data pk lo' i 0"
proof -
  let ?h = "frame_header (pk_data_len pk + 12) i"
  have w: "region_write (pk_header pk) 0 ?h = Some ?h"
    using pk by (simp add: region_write_def frame_header_length packet_ok_def)
  have ne: "?h \<noteq> []" using frame_header_length [of "pk_data_len pk + 12" i] by auto
  show ?thesis
    using pk lo ne
    by (simp add: tcp_round_def Let_def at_header_def w frame_header_length header_fields_frame_header [OF i] packet_ok_def
        in_data_def unat_gt_0 word_gt_0)
qed

lemma of_nat_less_small: "a < 2 ^ 64 \<Longrightarrow> b < 2 ^ 64 \<Longrightarrow> (of_nat a :: u64) < of_nat b \<longleftrightarrow> a < b"
  unfolding word_less_nat_alt by (simp only: unat_of_nat_small)

lemma of_nat_eq_small: "a < 2 ^ 64 \<Longrightarrow> b < 2 ^ 64 \<Longrightarrow> (of_nat a :: u64) = of_nat b \<longleftrightarrow> a = b"
  using unat_of_nat_small by metis

lemma tcp_round_data:
  assumes pk: "packet_ok pk" and lo: "in_data pk lo i k" and bs: "bs \<noteq> []" "k + length bs \<le> unat (pk_data_len pk)"
  obtains pk' lo' where
    "tcp_round (ReadData bs) (pk, lo) = Some ((pk', lo'),
       if k + length bs = unat (pk_data_len pk) then FrameReady (i, take k (pk_data pk) @ bs) else RoundAgain)"
    "packet_ok pk'" "pk_data_len pk' = pk_data_len pk"
    "k + length bs = unat (pk_data_len pk) \<Longrightarrow> at_header lo'"
    "k + length bs < unat (pk_data_len pk) \<Longrightarrow>
       in_data pk' lo' i (k + length bs) \<and> take (k + length bs) (pk_data pk') = take k (pk_data pk) @ bs"
proof -
  define n where "n = unat (pk_data_len pk)"
  have len: "pk_data_len pk = of_nat n" by (simp add: n_def)
  have n: "length (pk_data pk) = n" "0 < n" "n + 12 < 2 ^ 31"
    using pk by (auto simp: packet_ok_def n_def unat_gt_0)
  have k: "k + length bs \<le> n" "k < n" using bs lo by (auto simp: in_data_def n_def)
  have big: "n < 2 ^ 64" "k + length bs < 2 ^ 64" "n - k < 2 ^ 64" "k < 2 ^ 64" using n(3) k by auto
  obtain d where d: "region_write (pk_data pk) k bs = Some d" "length d = n"
    using n(1) k region_write_Some region_write_length by (metis (full_types))
  have tr: "tl_remaining lo = of_nat (n - k)" and rc: "tl_received lo = of_nat k"
    using lo unfolding in_data_def n_def by blast+
  have left: "unat (tl_remaining lo) = n - k" unfolding tr by (rule unat_of_nat_small [OF big(3)])
  have rec: "unat (tl_received lo) = k" unfolding rc by (rule unat_of_nat_small [OF big(4)])
  have take: "take (unat (tl_remaining lo)) bs = bs" using k by (simp add: left)
  have nz: "tl_remaining lo \<noteq> 0" using left k by auto
  define r :: u64 where "r = of_nat (k + length bs)"
  define q :: u64 where "q = of_nat (n - (k + length bs))"
  have sum: "tl_received lo + of_nat (length bs) = r" by (simp add: rc r_def)
  have rem: "tl_remaining lo - of_nat (length bs) = q"
    using k unfolding tr by (simp add: of_nat_diff q_def)
  have lt: "r < of_nat n \<longleftrightarrow> k + length bs < n" unfolding r_def by (rule of_nat_less_small [OF big(2,1)])
  have eq: "r = of_nat n \<longleftrightarrow> k + length bs = n" unfolding r_def by (rule of_nat_eq_small [OF big(2,1)])
  have ok: "tl_header_ok lo" "tl_frame_id lo = i" using lo by (simp_all add: in_data_def)
  let ?pk = "pk\<lparr>pk_data := d\<rparr>"
  let ?lo = "lo\<lparr>tl_received := r\<rparr>"
  have pk': "packet_ok ?pk" "pk_data_len ?pk = pk_data_len pk" using pk d(2) n(1) by (simp_all add: packet_ok_def)
  have td: "take (k + length bs) d = take k (pk_data pk) @ bs" by (rule region_write_take [OF d(1)])
  show thesis
  proof (cases "k + length bs = n")
    case True
    have dd: "d = take k (pk_data pk) @ bs" using td True d(2) by simp
    have "tcp_round (ReadData bs) (pk, lo) = Some ((?pk, ?lo\<lparr>tl_remaining := 12, tl_received := 0, tl_header_ok := False\<rparr>),
        FrameReady (i, take k (pk_data pk) @ bs))"
      using True bs(1) nz ok d(1) dd pk
      by (simp add: tcp_round_def Let_def take rec sum len lt eq packet_ok_def)
    then show thesis using True pk'
      by (intro that [of ?pk "?lo\<lparr>tl_remaining := 12, tl_received := 0, tl_header_ok := False\<rparr>"])
        (simp_all add: at_header_def n_def [symmetric])
  next
    case False
    then have l: "k + length bs < n" using k by simp
    have "tcp_round (ReadData bs) (pk, lo) = Some ((?pk, ?lo\<lparr>tl_remaining := q\<rparr>), RoundAgain)"
      using False bs(1) nz ok d(1) l
      by (simp add: tcp_round_def Let_def take rec sum len lt eq rem)
    then show thesis using False l pk' td ok
      by (intro that [of ?pk "?lo\<lparr>tl_remaining := q\<rparr>"])
        (simp_all add: in_data_def n_def [symmetric] r_def q_def)
  qed
qed

text \<open>The data of a frame in any pieces.\<close>

lemma tcp_rounds_data:
  assumes "packet_ok pk" "in_data pk lo i k" "[] \<notin> set css" "k + length (concat css) = unat (pk_data_len pk)"
  shows "\<exists>pk' lo'. packet_ok pk' \<and> pk_data_len pk' = pk_data_len pk \<and> at_header lo' \<and>
     tcp_rounds (map ReadData css @ rest) (pk, lo) =
       map_option (\<lambda>(s, fs). (s, (i, take k (pk_data pk) @ concat css) # fs)) (tcp_rounds rest (pk', lo'))"
  using assms
proof (induction css arbitrary: pk lo k)
  case Nil
  then show ?case by (simp add: in_data_def)
next
  case (Cons bs css)
  have bs: "bs \<noteq> []" "k + length bs \<le> unat (pk_data_len pk)" using Cons.prems(3,4) by auto
  obtain pk' lo' where r: "tcp_round (ReadData bs) (pk, lo) = Some ((pk', lo'),
       if k + length bs = unat (pk_data_len pk) then FrameReady (i, take k (pk_data pk) @ bs) else RoundAgain)"
    and ok: "packet_ok pk'" "pk_data_len pk' = pk_data_len pk"
    and done': "k + length bs = unat (pk_data_len pk) \<Longrightarrow> at_header lo'"
    and more: "k + length bs < unat (pk_data_len pk) \<Longrightarrow>
       in_data pk' lo' i (k + length bs) \<and> take (k + length bs) (pk_data pk') = take k (pk_data pk) @ bs"
    using tcp_round_data [OF Cons.prems(1,2) bs] by metis
  show ?case
  proof (cases "k + length bs = unat (pk_data_len pk)")
    case True
    moreover have "length (concat (bs # css)) = length bs + length (concat css)" by simp
    ultimately have "length (concat css) = 0" using Cons.prems(4) by linarith
    then have "concat css = []" unfolding length_0_conv .
    then have "css = []" using Cons.prems(3) by (cases css) auto
    then show ?thesis using True r ok done'
      by (intro exI [of _ pk'] exI [of _ lo']) (auto split: bind_split simp: map_option_case split: option.split)
  next
    case False
    then have l: "k + length bs < unat (pk_data_len pk)" using bs by simp
    have "[] \<notin> set css" "k + length bs + length (concat css) = unat (pk_data_len pk')" using Cons.prems(3,4) ok by auto
    then obtain pk2 lo2 where "packet_ok pk2 \<and> pk_data_len pk2 = pk_data_len pk' \<and> at_header lo2 \<and>
       tcp_rounds (map ReadData css @ rest) (pk', lo') =
         map_option (\<lambda>(s, fs). (s, (i, take (k + length bs) (pk_data pk') @ concat css) # fs)) (tcp_rounds rest (pk2, lo2))"
      using Cons.IH [OF ok(1) more [OF l, THEN conjunct1]] by blast
    then show ?thesis using r False ok more [OF l]
      by (intro exI [of _ pk2] exI [of _ lo2]) simp
  qed
qed

text \<open>One frame as a sender sends it: its header in one piece, its data in any pieces.\<close>

definition sent_frame :: "u64 \<Rightarrow> int \<times> byte list list \<Rightarrow> tcp_answer list" where
  "sent_frame n f = ReadData (frame_header (n + 12) (fst f)) # map ReadData (snd f)"

definition frame_ok :: "u64 \<Rightarrow> int \<times> byte list list \<Rightarrow> bool" where
  "frame_ok n f \<longleftrightarrow> - (2 ^ 31) \<le> fst f \<and> fst f < 2 ^ 31 \<and> [] \<notin> set (snd f) \<and> length (concat (snd f)) = unat n"

lemma sent_frames:
  assumes "packet_ok pk" "at_header lo" "\<forall>f \<in> set fs. frame_ok (pk_data_len pk) f"
  shows "\<exists>pk' lo'. packet_ok pk' \<and> at_header lo' \<and>
     tcp_rounds (concat (map (sent_frame (pk_data_len pk)) fs)) (pk, lo) =
       Some ((pk', lo'), map (\<lambda>f. (fst f, concat (snd f))) fs)"
  using assms
proof (induction fs arbitrary: pk lo)
  case Nil
  then show ?case by auto
next
  case (Cons f fs)
  define n where "n = pk_data_len pk"
  have f: "- (2 ^ 31) \<le> fst f" "fst f < 2 ^ 31" "[] \<notin> set (snd f)" "0 + length (concat (snd f)) = unat n"
    using Cons.prems(3) by (simp_all add: frame_ok_def n_def)
  obtain lo1 where h: "tcp_round (ReadData (frame_header (n + 12) (fst f))) (pk, lo) =
      Some ((pk\<lparr>pk_header := frame_header (n + 12) (fst f)\<rparr>, lo1), RoundAgain)" and i: "in_data pk lo1 (fst f) 0"
    using tcp_round_header [OF Cons.prems(1,2) f(1,2)] unfolding n_def by blast
  let ?pk = "pk\<lparr>pk_header := frame_header (n + 12) (fst f)\<rparr>"
  have ok: "packet_ok ?pk" "in_data ?pk lo1 (fst f) 0" "0 + length (concat (snd f)) = unat (pk_data_len ?pk)"
    using Cons.prems(1) i f(4) by (simp_all add: packet_ok_def in_data_def frame_header_length n_def)
  obtain pk2 lo2 where 2: "packet_ok pk2" "pk_data_len pk2 = n" "at_header lo2"
    "tcp_rounds (map ReadData (snd f) @ concat (map (sent_frame n) fs)) (?pk, lo1) =
       map_option (\<lambda>(s, fs). (s, (fst f, concat (snd f)) # fs)) (tcp_rounds (concat (map (sent_frame n) fs)) (pk2, lo2))"
    using tcp_rounds_data [OF ok(1,2) f(3) ok(3), of "concat (map (sent_frame n) fs)"] by (auto simp: n_def)
  have "\<forall>f \<in> set fs. frame_ok (pk_data_len pk2) f" using Cons.prems(3) 2(2) by (simp add: n_def)
  then obtain pk3 lo3 where 3: "packet_ok pk3" "at_header lo3" "tcp_rounds (concat (map (sent_frame n) fs)) (pk2, lo2) =
       Some ((pk3, lo3), map (\<lambda>f. (fst f, concat (snd f))) fs)"
    using Cons.IH [OF 2(1,3)] 2(2) by auto
  show ?case
    by (intro exI [of _ pk3] exI [of _ lo3]) (use 2(4) 3 h in \<open>simp add: sent_frame_def [of n f] n_def [symmetric]\<close>)
qed

lemma split_header_round:
  assumes pk: "packet_ok pk" and lo: "at_header lo" and h: "a @ b = frame_header (pk_data_len pk + 12) i" "a \<noteq> []" "b \<noteq> []"
    and i: "- (2 ^ 31) \<le> i" "i < 2 ^ 31"
  shows "\<exists>pk' lo'. tcp_rounds (ReadData a # ReadData b # rest) (pk, lo) = tcp_rounds rest (pk', lo') \<and>
     pk_data pk' = pk_data pk \<and> tl_header_ok lo' \<and> tl_received lo' = 0 \<and>
     tl_remaining lo' = pk_data_len pk + of_nat (length a)"
proof -
  have l: "length a + length b = 12" using h(1) frame_header_length by (metis length_append)
  have la: "0 < length a" "length a < 12" "length a \<le> 12" using l h(2,3) by (cases a; cases b; simp)+
  have u: "unat (of_nat (length a) :: u64) = length a" "unat (12 - of_nat (length a) :: u64) = length b"
    using la l by (simp_all add: unat_of_nat_small unat_sub word_le_nat_alt)
  have lt: "(of_nat (length a) :: u64) < 12" using la u(1) by (simp add: word_less_nat_alt)
  have ne: "(of_nat (length a) :: u64) \<noteq> 12" using lt by auto
  have s: "of_nat (length a) + of_nat (length b) = (12 :: u64)" using l by (metis of_nat_add of_nat_numeral)
  obtain h1 where h1: "region_write (pk_header pk) 0 a = Some h1" "length h1 = 12" "take (length a) h1 = a"
    using pk la region_write_Some [of 0 a "pk_header pk"] region_write_length region_write_take [of "pk_header pk" 0 a]
    by (fastforce simp: packet_ok_def)
  obtain h2 where h2: "region_write h1 (length a) b = Some h2" "length h2 = 12" "take 12 h2 = a @ b"
    using h1 l region_write_Some [of "length a" b h1] region_write_length region_write_take [of h1 "length a" b]
    by fastforce
  then have h2': "h2 = frame_header (pk_data_len pk + 12) i" using h(1) by simp
  have hl: "pk_header_len pk = 12" "pk_data_len pk > 0" using pk by (simp_all add: packet_ok_def)
  have r1: "tcp_round (ReadData a) (pk, lo) =
      Some ((pk\<lparr>pk_header := h1\<rparr>, lo\<lparr>tl_received := of_nat (length a), tl_remaining := 12 - of_nat (length a)\<rparr>), RoundAgain)"
    using lo h(2) la h1(1) lt ne hl by (simp add: tcp_round_def Let_def at_header_def)
  have nz: "(12 :: u64) - of_nat (length a) \<noteq> 0" using u(2) h(3) by (metis length_0_conv unat_0)
  have r2: "tcp_round (ReadData b) (pk\<lparr>pk_header := h1\<rparr>, lo\<lparr>tl_received := of_nat (length a), tl_remaining := 12 - of_nat (length a)\<rparr>) =
      Some ((pk\<lparr>pk_header := h2\<rparr>, lo\<lparr>tl_data_size := pk_data_len pk + 12, tl_received := 0,
         tl_remaining := pk_data_len pk + 12 - of_nat (length b), tl_frame_id := i, tl_header_ok := True\<rparr>), RoundAgain)"
    using lo h(3) h2(1) hl nz
    by (simp add: tcp_round_def Let_def at_header_def u s h2' header_fields_frame_header [OF i])
  have "pk_data_len pk + 12 - of_nat (length b) = pk_data_len pk + (of_nat (length a) :: u64)"
    using s by (simp add: algebra_simps)
  then show ?thesis using r1 r2 by (intro exI) (auto simp: at_header_def)
qed

subsection \<open>Properties\<close>


definition sample_packet :: data_packet where
  "sample_packet = \<lparr>pk_header = replicate 12 0, pk_header_len = 12, pk_data = replicate 4 0, pk_data_len = 4\<rparr>"

lemma sample_packet_ok: "packet_ok sample_packet \<and> at_header (tcp_start sample_packet)"
  by (simp add: packet_ok_def sample_packet_def at_header_def tcp_start_def)


text \<open>A header that arrives in two pieces overruns the frame: the length of the second piece is taken from what
  remains although it was the header's, so the thread asks for more bytes than the frame has, and writes past
  its memory as soon as the first bytes of the next frame are there too.\<close>

theorem split_header_overflows:
  assumes "packet_ok pk" "at_header lo" "a @ b = frame_header (pk_data_len pk + 12) i" "a \<noteq> []" "b \<noteq> []"
    and "- (2 ^ 31) \<le> i" "i < 2 ^ 31" and long: "unat (pk_data_len pk) + length a \<le> length next"
  shows "tcp_rounds (ReadData a # ReadData b # ReadData next # rest) (pk, lo) = None"
proof -
  obtain pk' lo' where r: "tcp_rounds (ReadData a # ReadData b # ReadData next # rest) (pk, lo) =
      tcp_rounds (ReadData next # rest) (pk', lo')" and p: "pk_data pk' = pk_data pk" "tl_header_ok lo'" "tl_received lo' = 0"
      "tl_remaining lo' = pk_data_len pk + of_nat (length a)"
    using split_header_round [OF assms(1-7)] by blast
  have la: "0 < length a" "length a \<le> 12"
    using assms(3,4) frame_header_length by (auto simp: ) (metis le_add1 length_append)
  have u: "unat (tl_remaining lo') = unat (pk_data_len pk) + length a"
    unfolding p(4) using assms(1) la by (subst unat_add_small) (auto simp: packet_ok_def unat_of_nat_small)
  have "tl_remaining lo' \<noteq> 0" using u la by auto
  moreover have "length (take (unat (tl_remaining lo')) next) = unat (pk_data_len pk) + length a" using u long by simp
  moreover have "length (pk_data pk) = unat (pk_data_len pk)" using assms(1) by (simp add: packet_ok_def)
  ultimately have "tcp_round (ReadData next) (pk', lo') = None"
    using p(1-3) la(1) by (auto simp: tcp_round_def Let_def region_write_def u)
  then show ?thesis using r by simp
qed

theorem split_header_overflows_witness:
  "tcp_rounds [ReadData (take 5 (frame_header 16 7)), ReadData (drop 5 (frame_header 16 7)), ReadData (replicate 9 0)]
     (sample_packet, tcp_start sample_packet) = None"
proof -
  have l: "pk_data_len sample_packet + 12 = 16" "pk_data_len sample_packet = 4" by (simp_all add: sample_packet_def)
  have "take 5 (frame_header 16 7) \<noteq> []" "drop 5 (frame_header 16 7) \<noteq> []" using frame_header_length [of 16 7] by auto
  then show ?thesis
    using split_header_overflows [OF sample_packet_ok [THEN conjunct1] sample_packet_ok [THEN conjunct2],
        of "take 5 (frame_header 16 7)" "drop 5 (frame_header 16 7)" 7 "replicate 9 0" "[]"] frame_header_length [of 16 7]
    by (simp add: l)
qed

end
