(* ===== verification/Collector.thy ===== *)
theory Collector imports Source begin

section \<open>The collector\<close>

text \<open>
  \<^verbatim>\<open>collector/src/collector.c\<close> without its thread (see \<^verbatim>\<open>CollectorThread\<close>): creation, setting up with
  the sources of a description, and the end.
\<close>

definition MAX_SOURCES_NUMBER :: nat where "MAX_SOURCES_NUMBER = 5"

text \<open>\<open>co_thread\<close>: a thread was created (\<open>thread_id\<close> is not \<open>-1\<close>). The ring is not used by this code.\<close>

record 'r data_collector =
  co_exit_flag :: int
  co_thread :: bool
  co_sources_cnt :: int
  co_sources :: "data_source option list"
  co_empty_ready :: "nat option"
  co_data_ready :: "nat option"
  co_data :: string
  co_dataoffset :: u64
  co_chunk_cnt :: u64
  co_chunk_size :: u64
  co_data_ring :: 'r
  co_use_boost_shmem :: int
  co_boost_path :: string
  co_boost_size :: u64

text \<open>\<open>ring\<close> is what \<open>ring_buffer_create(512, 0)\<close> gives, \<open>mem\<close> whether the collector could be allocated.\<close>

definition collector_create :: "bool \<Rightarrow> 'r \<Rightarrow> 'r data_collector option" where
  "collector_create mem ring =
     (if mem then Some \<lparr>co_exit_flag = 0, co_thread = False, co_sources_cnt = 0,
        co_sources = replicate MAX_SOURCES_NUMBER None, co_empty_ready = None, co_data_ready = None, co_data = [],
        co_dataoffset = 0, co_chunk_cnt = 512, co_chunk_size = 256, co_data_ring = ring, co_use_boost_shmem = 0,
        co_boost_path = [], co_boost_size = 0\<rparr> else None)"

definition collector_set_boost_shmem :: "'r data_collector \<Rightarrow> int \<Rightarrow> string \<Rightarrow> u64 \<Rightarrow> 'r data_collector option" where
  "collector_set_boost_shmem c use_boost path size' =
     (if use_boost \<noteq> 0 then do {
        p \<leftarrow> strcpy_buf MAX_SHMEM_NAME_LEN path;
        Some (c\<lparr>co_use_boost_shmem := 1, co_boost_path := p, co_boost_size := size'\<rparr>) }
      else Some c)"

text \<open>
  The loop over the sources of the description, from number \<open>i\<close> on: the place in the array must exist, and
  \<open>src->fd = fd\<close> needs the source, whatever \<open>source_init\<close> returned.
\<close>

fun init_sources ::
  "(nat \<Rightarrow> byte list) \<Rightarrow> data_source \<Rightarrow> (nat \<Rightarrow> source_answers) \<Rightarrow> string \<Rightarrow> nat \<Rightarrow> source_description option list \<Rightarrow>
     data_source option list \<Rightarrow> data_source option list option" where
  "init_sources junk fresh ans name i [] srcs = Some srcs"
| "init_sources junk fresh ans name i (d # ds) srcs =
     (if i < length srcs then do {
        (fd, src) \<leftarrow> source_init junk (ans i) fresh (srcs ! i) d;
        s \<leftarrow> src;
        init_sources junk fresh ans name (Suc i) ds
          (srcs[i := Some (s\<lparr>so_fd := fd, so_sid := int i, so_data := name\<rparr>)]) }
      else None)"

text \<open>
  \<open>collector_init\<close>: without a description, the new one is assigned to a variable of the inner block, and the
  code goes on with NULL. \<open>sem_data\<close> and \<open>sem_empty\<close> are the answers of \<open>sem_init\<close>.
\<close>

definition collector_init ::
  "(nat \<Rightarrow> byte list) \<Rightarrow> data_source \<Rightarrow> (nat \<Rightarrow> source_answers) \<Rightarrow> bool \<Rightarrow> bool \<Rightarrow> bool \<Rightarrow> 'r \<Rightarrow>
     collector_description option \<Rightarrow> 'r data_collector option option" where
  "collector_init junk fresh ans mem sem_data sem_empty ring p_desc = do {
     desc \<leftarrow> p_desc;
     c \<leftarrow> collector_create mem ring;
     let n = nat (cd_sources_cnt desc);
     let c = c\<lparr>co_sources_cnt := cd_sources_cnt desc\<rparr>;
     sdescs \<leftarrow> (if n = 0 then Some [] else cd_sdescs desc);
     srcs \<leftarrow> (if n \<le> length sdescs
       then init_sources junk fresh ans (co_data c) 0 (take n sdescs) (co_sources c) else None);
     let c = c\<lparr>co_sources := srcs\<rparr>;
     c \<leftarrow> collector_set_boost_shmem c (cd_use_boost_shmem desc) (cd_boost_path desc) (cd_boost_size desc);
     Some (if \<not> sem_data then None
       else let c = c\<lparr>co_data_ready := Some 1\<rparr> in
         if \<not> sem_empty then None
         else Some (c\<lparr>co_empty_ready := Some 0, co_thread := True\<rparr>)) }"

text \<open>
  The end: \<open>ended\<close> says whether the collector's thread returns, \<open>ends i\<close> whether the thread of source \<open>i\<close> does.
\<close>

fun destroy_sources :: "(nat \<Rightarrow> bool) \<Rightarrow> nat \<Rightarrow> nat \<Rightarrow> data_source option list \<Rightarrow> source_freed list call_result option" where
  "destroy_sources ends i 0 srcs = Some (Returns [])"
| "destroy_sources ends i (Suc n) srcs =
     (if i < length srcs then do {
        s \<leftarrow> srcs ! i;
        (case source_destroy (ends i) s of
           Hangs \<Rightarrow> Some Hangs
         | Returns f \<Rightarrow> map_option (\<lambda>r. case r of Hangs \<Rightarrow> Hangs | Returns fs \<Rightarrow> Returns (f # fs))
             (destroy_sources ends (Suc i) n srcs)) }
      else None)"

definition collector_destroy :: "bool \<Rightarrow> (nat \<Rightarrow> bool) \<Rightarrow> 'r data_collector \<Rightarrow> source_freed list call_result option" where
  "collector_destroy ended ends c =
     (if co_thread c \<and> \<not> ended then Some Hangs
      else destroy_sources ends 0 (nat (co_sources_cnt c)) (co_sources c))"

subsection \<open>Library\<close>

text \<open>When a source can be opened.\<close>

definition source_opens :: "source_answers \<Rightarrow> source_description \<Rightarrow> bool" where
  "source_opens ans d \<longleftrightarrow>
     (if sd_type d = STYPE_TCP then sa_resolved ans \<and> source_connect (sa_sockets ans) \<noteq> None else sa_device ans \<noteq> None) \<and>
     sa_sem_data ans \<and> sa_sem_empty ans"

lemma source_init_opens:
  "source_opens ans d \<Longrightarrow> \<exists>fd s. source_init junk ans fresh None (Some d) = Some (fd, Some s) \<and> so_sdesc s = Some d"
  by (cases "source_connect (sa_sockets ans)"; cases "sa_device ans")
    (auto simp: source_opens_def source_init_def Let_def split: if_splits)

lemma source_init_fails:
  "\<not> source_opens ans d \<Longrightarrow> source_init junk ans fresh None (Some d) = Some (-1, None)"
  by (cases "source_connect (sa_sockets ans)"; cases "sa_device ans")
    (auto simp: source_opens_def source_init_def Let_def split: if_splits)

lemma source_init_no_description: "source_init junk ans fresh p None = None"
  by (simp add: source_init_def)

text \<open>The loop over the sources goes through exactly when there is room for all and each of them opens.\<close>

definition sources_open :: "(nat \<Rightarrow> source_answers) \<Rightarrow> nat \<Rightarrow> source_description option list \<Rightarrow> bool" where
  "sources_open ans i ds \<longleftrightarrow> (\<forall>k < length ds. \<exists>d. ds ! k = Some d \<and> source_opens (ans (i + k)) d)"

lemma sources_open_Cons:
  "sources_open ans i (d # ds) \<longleftrightarrow> (\<exists>d'. d = Some d' \<and> source_opens (ans i) d') \<and> sources_open ans (Suc i) ds"
  by (auto simp: sources_open_def less_Suc_eq_0_disj)

lemma init_sources_defined:
  assumes "\<forall>k. i \<le> k \<and> k < length srcs \<longrightarrow> srcs ! k = None" "i \<le> length srcs"
  shows "(\<exists>r. init_sources junk fresh ans name i ds srcs = Some r) \<longleftrightarrow> i + length ds \<le> length srcs \<and> sources_open ans i ds"
  using assms
proof (induction ds arbitrary: i srcs)
  case Nil
  then show ?case by (simp add: sources_open_def)
next
  case (Cons d ds)
  show ?case
  proof (cases "i < length srcs \<and> (\<exists>d'. d = Some d' \<and> source_opens (ans i) d')")
    case True
    then obtain d' where d: "d = Some d'" "source_opens (ans i) d'" and i: "i < length srcs" by blast
    obtain fd s where s: "source_init junk (ans i) fresh None (Some d') = Some (fd, Some s)"
      using source_init_opens [OF d(2)] by blast
    have n: "srcs ! i = None" using Cons.prems(1) i by blast
    let ?srcs = "srcs[i := Some (s\<lparr>so_fd := fd, so_sid := int i, so_data := name\<rparr>)]"
    have e: "init_sources junk fresh ans name i (d # ds) srcs = init_sources junk fresh ans name (Suc i) ds ?srcs"
      using i n s d(1) by simp
    have "(\<exists>r. init_sources junk fresh ans name (Suc i) ds ?srcs = Some r) \<longleftrightarrow>
        Suc i + length ds \<le> length ?srcs \<and> sources_open ans (Suc i) ds"
      by (rule Cons.IH) (use Cons.prems(1) i in \<open>auto simp: nth_list_update\<close>)
    then show ?thesis unfolding e using True by (simp add: sources_open_Cons)
  next
    case False
    have "init_sources junk fresh ans name i (d # ds) srcs = None"
    proof (cases "i < length srcs")
      case True
      then have "srcs ! i = None" "\<not> (\<exists>d'. d = Some d' \<and> source_opens (ans i) d')" using Cons.prems(1) False by auto
      then show ?thesis using True source_init_fails source_init_no_description
        by (cases d) auto
    qed simp
    then show ?thesis using False by (auto simp: sources_open_Cons)
  qed
qed

subsection \<open>Properties\<close>

text \<open>When a collector can be set up: for a description whose arrays are as long as it says, exactly when there are
  at most 5 sources, every one of them can be opened, and the path of the boost segment fits its buffer; a single
  camera that is missing, a sender that cannot be connected or a sixth source makes the code write through NULL
  or past the array instead of reporting an error.\<close>

theorem collector_init_defined_iff:
  assumes "collector_wf desc"
  shows "(\<exists>c. collector_init junk fresh ans True sem_data sem_empty ring (Some desc) = Some c) \<longleftrightarrow>
     cd_sources_cnt desc \<le> 5 \<and> (\<forall>ds. cd_sdescs desc = Some ds \<longrightarrow> sources_open ans 0 ds) \<and>
     (cd_use_boost_shmem desc \<noteq> 0 \<longrightarrow> length (cd_boost_path desc) < 256)"
proof -
  define ds where "ds = (case cd_sdescs desc of None \<Rightarrow> [] | Some ds \<Rightarrow> ds)"
  have n: "int (length ds) = cd_sources_cnt desc" "0 \<le> cd_sources_cnt desc"
    using assms by (auto simp: collector_wf_def ds_def split: option.splits)
  have l: "nat (cd_sources_cnt desc) = length ds" using n by linarith
  have s: "(if ds = [] then Some [] else cd_sdescs desc) = Some ds"
    by (auto simp: ds_def split: option.splits)
  obtain c0 :: "'a data_collector" where c0: "collector_create True ring = Some c0" "co_sources c0 = replicate 5 None"
    by (simp add: collector_create_def MAX_SOURCES_NUMBER_def)
  have i: "(\<exists>r. init_sources junk fresh ans name 0 ds (replicate 5 None) = Some r) \<longleftrightarrow>
      length ds \<le> 5 \<and> sources_open ans 0 ds" for name
    using init_sources_defined [of 0 "replicate 5 None"] by simp
  have o: "(\<forall>ds. cd_sdescs desc = Some ds \<longrightarrow> sources_open ans 0 ds) \<longleftrightarrow> sources_open ans 0 ds"
    by (auto simp: ds_def sources_open_def split: option.splits)
  have b: "collector_set_boost_shmem c (cd_use_boost_shmem desc) (cd_boost_path desc) (cd_boost_size desc) = None \<longleftrightarrow>
      \<not> (cd_use_boost_shmem desc \<noteq> 0 \<longrightarrow> length (cd_boost_path desc) < 256)" for c :: "'a data_collector"
    by (simp add: collector_set_boost_shmem_def strcpy_buf_def MAX_SHMEM_NAME_LEN_def)
  let ?X = "init_sources junk fresh ans (co_data c0) 0 ds (replicate 5 None)"
  have "(\<exists>c. collector_init junk fresh ans True sem_data sem_empty ring (Some desc) = Some c) \<longleftrightarrow>
      (\<exists>r. ?X = Some r) \<and> (cd_use_boost_shmem desc \<noteq> 0 \<longrightarrow> length (cd_boost_path desc) < 256)"
  proof (cases ?X)
    case None
    then show ?thesis unfolding collector_init_def Option.bind.simps Let_def l by (simp add: c0 s)
  next
    case (Some srcs)
    let ?c = "c0\<lparr>co_sources_cnt := cd_sources_cnt desc, co_sources := srcs\<rparr>"
    have "(\<exists>c. collector_init junk fresh ans True sem_data sem_empty ring (Some desc) = Some c) \<longleftrightarrow>
        collector_set_boost_shmem ?c (cd_use_boost_shmem desc) (cd_boost_path desc) (cd_boost_size desc) \<noteq> None"
      unfolding collector_init_def Option.bind.simps Let_def l using Some
      by (cases "collector_set_boost_shmem ?c (cd_use_boost_shmem desc) (cd_boost_path desc) (cd_boost_size desc)")
        (simp_all add: c0 s)
    then show ?thesis using Some unfolding b by auto
  qed
  then show ?thesis unfolding i o using n by auto
qed

text \<open>A description of one TCP sender and one camera.\<close>

definition sample_collector :: collector_description where
  "sample_collector = collector_description_create\<lparr>cd_sources_cnt := 2, cd_sinfos := Some [None, None],
     cd_sdescs := Some [Some (source_description_create\<lparr>sd_type := STYPE_TCP, sd_header_len := 12, sd_data_len := 4\<rparr>),
       Some (source_description_create\<lparr>sd_type := STYPE_UDP\<rparr>)]\<rparr>"

definition sample_answers :: "nat \<Rightarrow> source_answers" where
  "sample_answers i = \<lparr>sa_resolved = True, sa_sockets = [(-1, False), (5, False), (6, True)], sa_device = None,
     sa_camera = None, sa_sem_data = True, sa_sem_empty = True\<rparr>"

definition blank_source :: data_source where
  "blank_source = \<lparr>so_sid = 0, so_fd = 0, so_sdesc = None, so_packet = None, so_camera = None, so_exit_flag = 0,
     so_empty_ready = None, so_data_ready = None, so_data = [], so_detect = None, so_add = False, so_save = False,
     so_need_to_free = 0, so_frames_in_object = 0, so_object_detection_frame_limit = 0\<rparr>"

theorem collector_init_defined_iff_witness:
  "\<not> (\<exists>c. collector_init (\<lambda>n. replicate n 0) blank_source sample_answers True True True () (Some sample_collector) = Some c)"
proof -
  have "collector_wf sample_collector"
    by (simp add: collector_wf_def sample_collector_def collector_description_create_def)
  moreover have "\<not> sources_open sample_answers 0 (the (cd_sdescs sample_collector))"
    by (simp add: sources_open_def sample_collector_def sample_answers_def source_opens_def source_description_create_def
        stype_defs) (rule exI [of _ 1], auto)
  ultimately show ?thesis
    using collector_init_defined_iff [of sample_collector "\<lambda>n. replicate n 0" blank_source sample_answers True True "()"]
    by (auto simp: sample_collector_def)
qed

end
