(* ===== verification/CollectorThread.thy ===== *)
theory CollectorThread imports Collector begin

section \<open>The collector and its sources at work\<close>

text \<open>
  The threads around a collector: \<open>source_data_thread_tcp\<close> with \<open>new_frame_action\<close> (\<^verbatim>\<open>collector/src/source.c\<close>) for
  every source, \<open>collect_data_thread\<close> (\<^verbatim>\<open>collector/src/collector.c\<close>), and the client of the pipeline that calls
  \<open>first_action\<close> (\<^verbatim>\<open>processor/src/dclprocessor.c\<close>) again and again, interleaved. A step is one
  semaphore operation, one test of a flag, one copy of an object's name or one round of the reading loop.
  The semaphores of the sources are those \<open>source_init\<close> made; they are counters here.
\<close>

subsection \<open>A source\<close>

datatype source_pc =
    SrcWaitStart | SrcTest | SrcRead | SrcDetect frame | SrcPostData frame | SrcTestExit frame | SrcWaitEmpty frame
  | SrcAdd frame | SrcSave frame | SrcPostEnd | SrcDone

text \<open>\<open>st_added\<close> and \<open>st_saved\<close> are what the callbacks were given; the first with the name in \<open>source->data\<close> at that time.\<close>

record source_thread = data_source +
  st_pc :: source_pc
  st_loop :: tcp_loop
  st_empty :: nat
  st_data :: nat
  st_added :: "(string \<times> frame) list"
  st_saved :: "frame list"

definition source_step :: "tcp_answer \<Rightarrow> source_thread \<Rightarrow> source_thread outcome" where
  "source_step rd s =
     (case st_pc s of
        SrcWaitStart \<Rightarrow> sem_take (Some (st_empty s)) (\<lambda>v. Step (s\<lparr>st_empty := v, st_pc := SrcTest\<rparr>))
      | SrcTest \<Rightarrow> Step (s\<lparr>st_pc := (if so_exit_flag s = 0 then SrcRead else SrcPostEnd)\<rparr>)
      | SrcRead \<Rightarrow>
          (case so_packet s of
             None \<Rightarrow> Crash
           | Some pk \<Rightarrow>
               (case tcp_round rd (pk, st_loop s) of
                  None \<Rightarrow> Crash
                | Some ((pk', lo'), r) \<Rightarrow>
                    let s = s\<lparr>so_packet := Some pk', st_loop := lo'\<rparr> in
                    (case r of
                       RoundAgain \<Rightarrow> Step (s\<lparr>st_pc := SrcTest\<rparr>)
                     | RoundFails \<Rightarrow> Step (s\<lparr>so_exit_flag := 1, st_pc := SrcPostEnd\<rparr>)
                     | FrameReady f \<Rightarrow> Step (s\<lparr>st_pc := SrcDetect f\<rparr>))))
      | SrcDetect f \<Rightarrow>
          (case object_detected s f of
             None \<Rightarrow> Crash
           | Some True \<Rightarrow> Step (s\<lparr>so_frames_in_object := 0, st_pc := SrcPostData f\<rparr>)
           | Some False \<Rightarrow> Step (s\<lparr>st_pc := SrcAdd f\<rparr>))
      | SrcPostData f \<Rightarrow> Step (s\<lparr>st_data := Suc (st_data s), st_pc := SrcTestExit f\<rparr>)
      | SrcTestExit f \<Rightarrow> Step (s\<lparr>st_pc := (if so_exit_flag s = 0 then SrcWaitEmpty f else SrcAdd f)\<rparr>)
      | SrcWaitEmpty f \<Rightarrow> sem_take (Some (st_empty s)) (\<lambda>v. Step (s\<lparr>st_empty := v, st_pc := SrcAdd f\<rparr>))
      | SrcAdd f \<Rightarrow>
          Step (s\<lparr>st_added := (if so_exit_flag s = 0 \<and> so_add s then st_added s @ [(so_data s, f)] else st_added s),
            st_pc := SrcSave f\<rparr>)
      | SrcSave f \<Rightarrow>
          Step (s\<lparr>st_saved := (if so_save s then st_saved s @ [f] else st_saved s),
            so_frames_in_object := so_frames_in_object s + 1, st_pc := SrcTest\<rparr>)
      | SrcPostEnd \<Rightarrow> Step (s\<lparr>st_data := Suc (st_data s), st_pc := SrcDone\<rparr>)
      | SrcDone \<Rightarrow> Blocked)"

subsection \<open>The collector's thread\<close>

text \<open>
  Both loops that copy the name to a source and post its \<open>empty_ready\<close> are followed by the head of the main
  loop, so they share their places \<open>ColName\<close> and \<open>ColPost\<close>. An argument is the source the loop is at.
\<close>

datatype collector_pc =
    ColWaitStart | ColName nat | ColPost nat | ColTest | ColWaitSource nat | ColPostData | ColCheck nat | ColBranch
  | ColWaitEmpty | ColStop nat | ColEndExit nat | ColEndWait nat | ColEndPost | ColDone

datatype user_pc = UserStart | UserExitPost | UserWait | UserTake | UserName | UserPost

record collecting =
  cl_pc :: collector_pc
  cl_cnt :: nat
  cl_exit_flag :: int
  cl_empty :: nat
  cl_data_ready :: nat
  cl_data :: string
  cl_sources :: "nat \<Rightarrow> source_thread"
  cl_user :: user_pc
  cl_object :: string

definition upd_source :: "nat \<Rightarrow> source_thread \<Rightarrow> collecting \<Rightarrow> collecting" where
  "upd_source i src s = s\<lparr>cl_sources := (cl_sources s)(i := src)\<rparr>"

definition collect_data_step :: "collecting \<Rightarrow> collecting outcome" where
  "collect_data_step s =
     (let go = (\<lambda>p s. Step (s\<lparr>cl_pc := p\<rparr>)) in
      case cl_pc s of
        ColWaitStart \<Rightarrow> sem_take (Some (cl_empty s)) (\<lambda>v. go (ColName 0) (s\<lparr>cl_empty := v\<rparr>))
      | ColName i \<Rightarrow>
          if i < cl_cnt s then go (ColPost i) (upd_source i ((cl_sources s i)\<lparr>so_data := cl_data s\<rparr>) s)
          else go ColTest s
      | ColPost i \<Rightarrow> go (ColName (Suc i)) (upd_source i ((cl_sources s i)\<lparr>st_empty := Suc (st_empty (cl_sources s i))\<rparr>) s)
      | ColTest \<Rightarrow> go (if cl_exit_flag s = 0 then ColWaitSource 0 else ColEndExit 0) s
      | ColWaitSource i \<Rightarrow>
          if i < cl_cnt s
          then sem_take (Some (st_data (cl_sources s i)))
            (\<lambda>v. go (ColWaitSource (Suc i)) (upd_source i ((cl_sources s i)\<lparr>st_data := v\<rparr>) s))
          else go ColPostData s
      | ColPostData \<Rightarrow> go (ColCheck 0) (s\<lparr>cl_data_ready := Suc (cl_data_ready s)\<rparr>)
      | ColCheck i \<Rightarrow>
          if i < cl_cnt s
          then let cnt = (if so_exit_flag (cl_sources s i) \<noteq> 0 then 0 + 1 else 0) in
            go (ColCheck (Suc i)) (if cnt = cl_cnt s then s\<lparr>cl_exit_flag := 1\<rparr> else s)
          else go ColBranch s
      | ColBranch \<Rightarrow> go (if cl_exit_flag s = 0 then ColWaitEmpty else ColStop 0) s
      | ColWaitEmpty \<Rightarrow> sem_take (Some (cl_empty s)) (\<lambda>v. go (ColName 0) (s\<lparr>cl_empty := v\<rparr>))
      | ColStop i \<Rightarrow>
          if i < cl_cnt s then go (ColStop (Suc i)) (upd_source i ((cl_sources s i)\<lparr>so_exit_flag := 1\<rparr>) s)
          else go ColTest s
      | ColEndExit i \<Rightarrow>
          if i < cl_cnt s then go (ColEndWait i) (upd_source i ((cl_sources s i)\<lparr>so_exit_flag := 1\<rparr>) s)
          else go ColEndPost s
      | ColEndWait i \<Rightarrow>
          sem_take (Some (st_data (cl_sources s i)))
            (\<lambda>v. go (ColEndExit (Suc i)) (upd_source i ((cl_sources s i)\<lparr>st_data := v\<rparr>) s))
      | ColEndPost \<Rightarrow> go ColDone (s\<lparr>cl_data_ready := Suc (cl_data_ready s)\<rparr>)
      | ColDone \<Rightarrow> Blocked)"

text \<open>\<open>first_action\<close>; \<open>name\<close> is the name that is generated for the next object.\<close>

definition first_action_step :: "string \<Rightarrow> collecting \<Rightarrow> collecting outcome" where
  "first_action_step name s =
     (case cl_user s of
        UserStart \<Rightarrow> Step (s\<lparr>cl_user := (if cl_exit_flag s \<noteq> 0 then UserExitPost else UserWait)\<rparr>)
      | UserExitPost \<Rightarrow> Step (s\<lparr>cl_empty := Suc (cl_empty s), cl_user := UserStart\<rparr>)
      | UserWait \<Rightarrow> sem_take (Some (cl_data_ready s)) (\<lambda>v. Step (s\<lparr>cl_data_ready := v, cl_user := UserTake\<rparr>))
      | UserTake \<Rightarrow> Step (s\<lparr>cl_object := cl_data s, cl_user := UserName\<rparr>)
      | UserName \<Rightarrow>
          (case strcpy_buf MAX_SHMEM_NAME_LEN name of
             None \<Rightarrow> Crash
           | Some n \<Rightarrow> Step (s\<lparr>cl_data := n, cl_user := UserPost\<rparr>))
      | UserPost \<Rightarrow> Step (s\<lparr>cl_empty := Suc (cl_empty s), cl_user := UserStart\<rparr>))"

text \<open>All together; \<open>collector_destroy\<close> sets the exit flag before it waits for the thread.\<close>

datatype collecting_actor = SourceOf nat tcp_answer | CollectorThread | FirstAction string | DestroyCollector

definition collecting_step :: "collecting_actor \<Rightarrow> collecting \<Rightarrow> collecting outcome" where
  "collecting_step a s =
     (case a of
        SourceOf i rd \<Rightarrow>
          if i < cl_cnt s
          then (case source_step rd (cl_sources s i) of
              Blocked \<Rightarrow> Blocked | Crash \<Rightarrow> Crash | Step src \<Rightarrow> Step (upd_source i src s))
          else Blocked
      | CollectorThread \<Rightarrow> collect_data_step s
      | FirstAction name \<Rightarrow> first_action_step name s
      | DestroyCollector \<Rightarrow> Step (s\<lparr>cl_exit_flag := 1\<rparr>))"

inductive collecting_reach :: "collecting \<Rightarrow> collecting \<Rightarrow> bool" for s0 where
  start: "collecting_reach s0 s0"
| step: "collecting_reach s0 s \<Longrightarrow> collecting_step a s = Step s' \<Longrightarrow> collecting_reach s0 s'"

text \<open>After \<open>collector_init\<close>: no semaphore was used, no thread has moved.\<close>

definition source_at_start :: "source_thread \<Rightarrow> bool" where
  "source_at_start s \<longleftrightarrow> st_pc s = SrcWaitStart \<and> st_empty s = 0 \<and> st_data s = 0 \<and> so_exit_flag s = 0 \<and>
     so_frames_in_object s = 0 \<and> so_object_detection_frame_limit s = OBJECT_DETECTION_FRAME_LIMIT \<and> st_added s = []"

definition collecting_at_start :: "collecting \<Rightarrow> bool" where
  "collecting_at_start s \<longleftrightarrow> cl_pc s = ColWaitStart \<and> cl_exit_flag s = 0 \<and> cl_empty s = 0 \<and> cl_data_ready s = 1 \<and>
     cl_user s = UserStart \<and> (\<forall>i < cl_cnt s. source_at_start (cl_sources s i))"

subsection \<open>Who has the token\<close>

text \<open>
  Each source and the collector pass a token back and forth through the two semaphores of the source, and so do
  the collector and \<open>first_action\<close> through the collector's.
\<close>

fun src_token :: "source_pc \<Rightarrow> nat" where
  "src_token SrcWaitStart = 0"
| "src_token (SrcTestExit f) = 0"
| "src_token (SrcWaitEmpty f) = 0"
| "src_token SrcDone = 0"
| "src_token p = 1"

fun col_token :: "collector_pc \<Rightarrow> nat \<Rightarrow> nat" where
  "col_token (ColName k) i = (if k \<le> i then 1 else 0)"
| "col_token (ColPost k) i = (if k \<le> i then 1 else 0)"
| "col_token ColTest i = 0"
| "col_token (ColWaitSource k) i = (if i < k then 1 else 0)"
| "col_token (ColEndExit k) i = 0"
| "col_token (ColEndWait k) i = 0"
| "col_token ColEndPost i = 0"
| "col_token ColDone i = 0"
| "col_token p i = 1"

fun user_token :: "user_pc \<Rightarrow> nat" where
  "user_token UserTake = 1"
| "user_token UserName = 1"
| "user_token UserPost = 1"
| "user_token p = 0"

fun main_token :: "collector_pc \<Rightarrow> nat" where
  "main_token (ColName k) = 1"
| "main_token (ColPost k) = 1"
| "main_token ColTest = 1"
| "main_token (ColWaitSource k) = 1"
| "main_token ColPostData = 1"
| "main_token p = 0"

fun ending :: "collector_pc \<Rightarrow> bool" where
  "ending (ColStop k) = True"
| "ending (ColEndExit k) = True"
| "ending (ColEndWait k) = True"
| "ending ColEndPost = True"
| "ending ColDone = True"
| "ending p = False"

definition source_inv :: "collecting \<Rightarrow> nat \<Rightarrow> bool" where
  "source_inv s i \<longleftrightarrow>
     (so_exit_flag (cl_sources s i) = 0 \<longrightarrow>
        st_empty (cl_sources s i) + st_data (cl_sources s i) + src_token (st_pc (cl_sources s i)) +
          col_token (cl_pc s) i = 1 \<and>
        st_pc (cl_sources s i) \<noteq> SrcPostEnd \<and> st_pc (cl_sources s i) \<noteq> SrcDone \<and>
        (\<forall>k. cl_pc s = ColStop k \<longrightarrow> k \<le> i) \<and> cl_pc s \<noteq> ColEndWait i) \<and>
     (cl_exit_flag s = 0 \<and> so_exit_flag (cl_sources s i) = 0 \<and> (col_token (cl_pc s) i = 0 \<or> cl_pc s = ColPost i) \<longrightarrow>
        so_data (cl_sources s i) = cl_data s)"

definition main_inv :: "collecting \<Rightarrow> bool" where
  "main_inv s \<longleftrightarrow>
     (cl_exit_flag s = 0 \<longrightarrow>
        cl_empty s + cl_data_ready s + user_token (cl_user s) + main_token (cl_pc s) = 1 \<and>
        \<not> ending (cl_pc s) \<and> cl_user s \<noteq> UserExitPost) \<and>
     (\<forall>k. cl_pc s = ColPost k \<or> cl_pc s = ColEndWait k \<longrightarrow> k < cl_cnt s)"

definition collecting_inv :: "collecting \<Rightarrow> bool" where
  "collecting_inv s \<longleftrightarrow> main_inv s \<and> (\<forall>i < cl_cnt s. source_inv s i)"

lemma collecting_inv_start: "collecting_at_start s \<Longrightarrow> collecting_inv s"
  by (auto simp: collecting_at_start_def source_at_start_def collecting_inv_def main_inv_def source_inv_def)

text \<open>What a step of a source leaves alone, and what it does to its token.\<close>

lemma source_step_token:
  assumes "source_step rd s = Step s'" "so_exit_flag s' = 0" "st_pc s \<noteq> SrcPostEnd"
  shows "so_exit_flag s = 0 \<and> st_empty s' + st_data s' + src_token (st_pc s') = st_empty s + st_data s + src_token (st_pc s) \<and>
     so_data s' = so_data s \<and> st_pc s' \<noteq> SrcPostEnd \<and> st_pc s' \<noteq> SrcDone"
  using assms
  by (cases "st_pc s"; cases "st_empty s")
    (auto simp: source_step_def Let_def split: option.splits prod.splits tcp_result.splits bool.splits if_splits)

lemma source_step_exit_stays: "source_step rd s = Step s' \<Longrightarrow> so_exit_flag s \<noteq> 0 \<Longrightarrow> so_exit_flag s' \<noteq> 0"
  by (cases "st_pc s"; cases "st_empty s")
    (auto simp: source_step_def Let_def split: option.splits prod.splits tcp_result.splits bool.splits if_splits)

lemma upd_source_simps [simp]:
  "cl_pc (upd_source i src s) = cl_pc s" "cl_cnt (upd_source i src s) = cl_cnt s"
  "cl_exit_flag (upd_source i src s) = cl_exit_flag s" "cl_empty (upd_source i src s) = cl_empty s"
  "cl_data_ready (upd_source i src s) = cl_data_ready s" "cl_data (upd_source i src s) = cl_data s"
  "cl_user (upd_source i src s) = cl_user s" "cl_object (upd_source i src s) = cl_object s"
  "cl_sources (upd_source i src s) = (cl_sources s)(i := src)"
  by (simp_all add: upd_source_def)

lemma source_moves_inv:
  assumes inv: "collecting_inv s" and i: "i < cl_cnt s" and st: "source_step rd (cl_sources s i) = Step src"
  shows "collecting_inv (upd_source i src s)"
proof -
  have si: "source_inv s i" using inv i by (simp add: collecting_inv_def)
  have "source_inv (upd_source i src s) i"
  proof (cases "so_exit_flag src = 0")
    case True
    then have z: "so_exit_flag (cl_sources s i) = 0" using source_step_exit_stays [OF st] by blast
    then have "st_pc (cl_sources s i) \<noteq> SrcPostEnd" using si by (simp add: source_inv_def)
    from source_step_token [OF st True this] show ?thesis using si z True by (simp add: source_inv_def)
  qed (simp add: source_inv_def)
  moreover have "source_inv (upd_source i src s) j" if "j \<noteq> i" "source_inv s j" for j
    using that by (simp add: source_inv_def)
  moreover have "main_inv (upd_source i src s)" using inv by (simp add: collecting_inv_def main_inv_def)
  ultimately show ?thesis using inv unfolding collecting_inv_def by (metis upd_source_simps(2))
qed

lemma collect_data_main_inv:
  assumes inv: "main_inv s" and st: "collect_data_step s = Step s'"
  shows "main_inv s'"
proof (cases "cl_pc s")
  case ColWaitStart
  then show ?thesis using assms by (cases "cl_empty s") (auto simp: main_inv_def collect_data_step_def)
next
  case (ColName k)
  then show ?thesis using assms by (auto simp: main_inv_def collect_data_step_def split: if_splits)
next
  case (ColPost k)
  then show ?thesis using assms by (auto simp: main_inv_def collect_data_step_def)
next
  case ColTest
  then show ?thesis using assms by (cases "cl_exit_flag s = 0") (auto simp: main_inv_def collect_data_step_def)
next
  case (ColWaitSource k)
  then show ?thesis using assms
    by (cases "st_data (cl_sources s k)") (auto simp: main_inv_def collect_data_step_def split: if_splits)
next
  case ColPostData
  then show ?thesis using assms by (auto simp: main_inv_def collect_data_step_def)
next
  case (ColCheck k)
  then show ?thesis using assms by (auto simp: main_inv_def collect_data_step_def Let_def split: if_splits)
next
  case ColBranch
  then show ?thesis using assms by (cases "cl_exit_flag s = 0") (auto simp: main_inv_def collect_data_step_def)
next
  case ColWaitEmpty
  then show ?thesis using assms by (cases "cl_empty s") (auto simp: main_inv_def collect_data_step_def)
next
  case (ColStop k)
  then show ?thesis using assms by (auto simp: main_inv_def collect_data_step_def split: if_splits)
next
  case (ColEndExit k)
  then show ?thesis using assms by (auto simp: main_inv_def collect_data_step_def split: if_splits)
next
  case (ColEndWait k)
  then show ?thesis using assms
    by (cases "st_data (cl_sources s k)") (auto simp: main_inv_def collect_data_step_def)
next
  case ColEndPost
  then show ?thesis using assms by (auto simp: main_inv_def collect_data_step_def)
next
  case ColDone
  then show ?thesis using assms by (auto simp: main_inv_def collect_data_step_def)
qed

lemma collect_data_source_inv:
  assumes inv: "main_inv s" "source_inv s i" and st: "collect_data_step s = Step s'" and i: "i < cl_cnt s"
  shows "source_inv s' i"
proof (cases "cl_pc s")
  case ColWaitStart
  then show ?thesis using assms by (cases "cl_empty s") (auto simp: source_inv_def collect_data_step_def)
next
  case (ColName k)
  then show ?thesis using assms by (auto simp: source_inv_def collect_data_step_def split: if_splits)
next
  case (ColPost k)
  then show ?thesis using assms by (cases "k = i") (auto simp: source_inv_def collect_data_step_def split: if_splits)
next
  case ColTest
  then show ?thesis using assms by (cases "cl_exit_flag s = 0") (auto simp: source_inv_def collect_data_step_def)
next
  case (ColWaitSource k)
  then show ?thesis using assms
    by (cases "st_data (cl_sources s k)"; cases "k = i") (auto simp: source_inv_def collect_data_step_def split: if_splits)
next
  case ColPostData
  then show ?thesis using assms by (auto simp: source_inv_def collect_data_step_def)
next
  case (ColCheck k)
  then show ?thesis using assms by (auto simp: source_inv_def collect_data_step_def Let_def split: if_splits)
next
  case ColBranch
  then show ?thesis using assms by (cases "cl_exit_flag s = 0") (auto simp: source_inv_def collect_data_step_def)
next
  case ColWaitEmpty
  then show ?thesis using assms by (cases "cl_empty s") (auto simp: source_inv_def collect_data_step_def)
next
  case (ColStop k)
  then show ?thesis using assms by (cases "k = i") (auto simp: source_inv_def collect_data_step_def split: if_splits)
next
  case (ColEndExit k)
  then show ?thesis using assms by (cases "k = i") (auto simp: source_inv_def collect_data_step_def main_inv_def split: if_splits)
next
  case (ColEndWait k)
  then show ?thesis using assms
    by (cases "st_data (cl_sources s k)"; cases "k = i") (auto simp: source_inv_def collect_data_step_def main_inv_def)
next
  case ColEndPost
  then show ?thesis using assms by (auto simp: source_inv_def collect_data_step_def main_inv_def)
next
  case ColDone
  then show ?thesis using assms by (auto simp: source_inv_def collect_data_step_def)
qed

lemma collect_data_cnt: "collect_data_step s = Step s' \<Longrightarrow> cl_cnt s' = cl_cnt s"
  by (cases "cl_pc s"; cases "cl_empty s"; cases "st_data (cl_sources s (case cl_pc s of ColWaitSource k \<Rightarrow> k | ColEndWait k \<Rightarrow> k | _ \<Rightarrow> 0))")
    (auto simp: collect_data_step_def Let_def split: if_splits)

lemma first_action_inv:
  assumes inv: "collecting_inv s" and st: "first_action_step name s = Step s'"
  shows "collecting_inv s'"
proof -
  have "main_inv s'"
  proof (cases "cl_user s")
    case UserWait
    then show ?thesis using assms
      by (cases "cl_data_ready s") (auto simp: collecting_inv_def main_inv_def first_action_step_def)
  qed (use assms in \<open>auto simp: collecting_inv_def main_inv_def first_action_step_def split: option.splits\<close>)
  moreover have "source_inv s' i" if i: "i < cl_cnt s" for i
  proof (cases "cl_user s = UserName")
    case True
    have s': "cl_pc s' = cl_pc s" "cl_sources s' = cl_sources s" "cl_exit_flag s' = cl_exit_flag s"
      using st True by (auto simp: first_action_step_def split: option.splits)
    have m: "cl_exit_flag s = 0 \<Longrightarrow> main_token (cl_pc s) = 0 \<and> \<not> ending (cl_pc s)"
      using inv True by (auto simp: collecting_inv_def main_inv_def)
    have "main_token p = 0 \<Longrightarrow> \<not> ending p \<Longrightarrow> col_token p i = 1 \<and> p \<noteq> ColPost i" for p by (cases p) auto
    then show ?thesis using inv i m by (auto simp: collecting_inv_def source_inv_def s')
  next
    case False
    have "cl_pc s' = cl_pc s" "cl_sources s' = cl_sources s" "cl_exit_flag s' = cl_exit_flag s" "cl_data s' = cl_data s"
      using st False by (cases "cl_user s"; cases "cl_data_ready s"; auto simp: first_action_step_def)+
    then show ?thesis using inv i by (simp add: collecting_inv_def source_inv_def)
  qed
  moreover have "cl_cnt s' = cl_cnt s"
    using st by (cases "cl_user s"; cases "cl_data_ready s") (auto simp: first_action_step_def split: option.splits)
  ultimately show ?thesis by (simp add: collecting_inv_def)
qed

lemma collecting_step_inv:
  assumes inv: "collecting_inv s" and st: "collecting_step a s = Step s'"
  shows "collecting_inv s'"
proof (cases a)
  case (SourceOf i rd)
  then obtain src where i: "i < cl_cnt s" and src: "source_step rd (cl_sources s i) = Step src" and s': "s' = upd_source i src s"
    using st by (auto simp: collecting_step_def split: if_splits outcome.splits)
  show ?thesis unfolding s' by (rule source_moves_inv [OF inv i src])
next
  case CollectorThread
  then have st': "collect_data_step s = Step s'" using st by (simp add: collecting_step_def)
  show ?thesis
    using inv collect_data_main_inv [OF _ st'] collect_data_source_inv [OF _ _ st'] collect_data_cnt [OF st']
    by (simp add: collecting_inv_def)
next
  case (FirstAction name)
  then show ?thesis using st first_action_inv [OF inv] by (simp add: collecting_step_def)
next
  case DestroyCollector
  then have "s' = s\<lparr>cl_exit_flag := 1\<rparr>" using st by (simp add: collecting_step_def)
  then show ?thesis using inv by (auto simp: collecting_inv_def main_inv_def source_inv_def)
qed

lemma collecting_reach_inv: "collecting_reach s0 s \<Longrightarrow> collecting_at_start s0 \<Longrightarrow> collecting_inv s"
  by (induction rule: collecting_reach.induct) (auto intro: collecting_inv_start collecting_step_inv)

subsection \<open>The number of frames in an object\<close>

fun adding :: "source_pc \<Rightarrow> bool" where
  "adding (SrcPostData f) = True"
| "adding (SrcTestExit f) = True"
| "adding (SrcWaitEmpty f) = True"
| "adding (SrcAdd f) = True"
| "adding (SrcSave f) = True"
| "adding p = False"

fun saving :: "source_pc \<Rightarrow> bool" where
  "saving (SrcSave f) = True"
| "saving p = False"

fun detecting :: "source_pc \<Rightarrow> bool" where
  "detecting (SrcDetect f) = True"
| "detecting p = False"

definition frames_ok :: "source_thread \<Rightarrow> bool" where
  "frames_ok s \<longleftrightarrow> so_object_detection_frame_limit s = OBJECT_DETECTION_FRAME_LIMIT \<and> 0 \<le> so_frames_in_object s \<and>
     so_frames_in_object s \<le> OBJECT_DETECTION_FRAME_LIMIT \<and>
     (adding (st_pc s) \<longrightarrow> so_frames_in_object s < OBJECT_DETECTION_FRAME_LIMIT)"

lemma object_detected_limit:
  "object_detected s f = Some False \<Longrightarrow> so_object_detection_frame_limit s = OBJECT_DETECTION_FRAME_LIMIT \<Longrightarrow>
   0 \<le> so_frames_in_object s \<Longrightarrow> so_frames_in_object s \<le> OBJECT_DETECTION_FRAME_LIMIT \<Longrightarrow>
   so_frames_in_object s < OBJECT_DETECTION_FRAME_LIMIT"
  by (cases "so_frames_in_object s = OBJECT_DETECTION_FRAME_LIMIT")
    (auto simp: object_detected_def OBJECT_DETECTION_FRAME_LIMIT_def split: option.splits if_splits)

lemma source_step_limit:
  "source_step rd s = Step s' \<Longrightarrow> so_object_detection_frame_limit s' = so_object_detection_frame_limit s"
  by (cases "st_pc s"; cases "st_empty s")
    (auto simp: source_step_def Let_def split: option.splits prod.splits tcp_result.splits bool.splits)

lemma source_step_count:
  "source_step rd s = Step s' \<Longrightarrow> so_frames_in_object s' =
     (case st_pc s of
        SrcSave f \<Rightarrow> so_frames_in_object s + 1
      | SrcDetect f \<Rightarrow> (if object_detected s f = Some True then 0 else so_frames_in_object s)
      | _ \<Rightarrow> so_frames_in_object s)"
  by (cases "st_pc s"; cases "st_empty s")
    (auto simp: source_step_def Let_def split: option.splits prod.splits tcp_result.splits bool.splits)

lemma source_step_adding:
  "source_step rd s = Step s' \<Longrightarrow> adding (st_pc s') \<longrightarrow>
     adding (st_pc s) \<and> \<not> saving (st_pc s) \<or> detecting (st_pc s)"
  by (cases "st_pc s"; cases "st_empty s")
    (auto simp: source_step_def Let_def split: option.splits prod.splits tcp_result.splits bool.splits if_splits)

lemma source_step_frames:
  assumes st: "source_step rd s = Step s'" and ok: "frames_ok s"
  shows "frames_ok s'"
proof (cases "st_pc s")
  case (SrcDetect f)
  then have "so_frames_in_object s' = 0 \<or> so_frames_in_object s' = so_frames_in_object s \<and> object_detected s f = Some False"
    using st by (auto simp: source_step_def split: option.splits bool.splits)
  then show ?thesis using ok object_detected_limit [of s f] source_step_limit [OF st]
    by (auto simp: frames_ok_def OBJECT_DETECTION_FRAME_LIMIT_def)
next
  case (SrcSave f)
  have "so_frames_in_object s' = so_frames_in_object s + 1" "\<not> adding (st_pc s')"
    using source_step_count [OF st] source_step_adding [OF st] by (simp_all add: SrcSave)
  moreover have "so_frames_in_object s < OBJECT_DETECTION_FRAME_LIMIT" "0 \<le> so_frames_in_object s"
    "so_object_detection_frame_limit s = OBJECT_DETECTION_FRAME_LIMIT"
    using ok SrcSave by (simp_all add: frames_ok_def)
  ultimately show ?thesis using source_step_limit [OF st] unfolding frames_ok_def by presburger
qed (use ok source_step_count [OF st] source_step_limit [OF st] source_step_adding [OF st] in \<open>auto simp: frames_ok_def\<close>)

lemma collect_data_keeps:
  "collect_data_step s = Step s' \<Longrightarrow> st_pc (cl_sources s' i) = st_pc (cl_sources s i) \<and>
     so_frames_in_object (cl_sources s' i) = so_frames_in_object (cl_sources s i) \<and>
     so_object_detection_frame_limit (cl_sources s' i) = so_object_detection_frame_limit (cl_sources s i)"
  by (cases "cl_pc s") (auto simp: collect_data_step_def Let_def sem_take_Step split: if_splits)

lemma collect_data_frames:
  "collect_data_step s = Step s' \<Longrightarrow> frames_ok (cl_sources s i) \<Longrightarrow> frames_ok (cl_sources s' i)"
  using collect_data_keeps [of s s' i] by (simp add: frames_ok_def)

lemma first_action_sources: "first_action_step name s = Step s' \<Longrightarrow> cl_sources s' = cl_sources s \<and> cl_cnt s' = cl_cnt s"
  by (cases "cl_user s"; cases "cl_data_ready s") (auto simp: first_action_step_def split: option.splits)

lemma collecting_step_frames:
  assumes "collecting_step a s = Step s'" "\<forall>i < cl_cnt s. frames_ok (cl_sources s i)"
  shows "\<forall>i < cl_cnt s'. frames_ok (cl_sources s' i)"
proof (cases a)
  case (SourceOf i rd)
  then obtain src where i: "i < cl_cnt s" and src: "source_step rd (cl_sources s i) = Step src" and s': "s' = upd_source i src s"
    using assms(1) by (auto simp: collecting_step_def split: if_splits outcome.splits)
  have "frames_ok src" by (rule source_step_frames [OF src]) (use assms(2) i in blast)
  then show ?thesis using assms(2) by (simp add: s')
next
  case CollectorThread
  then have st: "collect_data_step s = Step s'" using assms(1) by (simp add: collecting_step_def)
  show ?thesis using assms(2) collect_data_cnt [OF st] collect_data_frames [OF st] by simp
next
  case (FirstAction name)
  then show ?thesis using assms first_action_sources [of name s s'] by (simp add: collecting_step_def)
next
  case DestroyCollector
  then show ?thesis using assms by (auto simp: collecting_step_def)
qed

lemma collecting_reach_frames:
  "collecting_reach s0 s \<Longrightarrow> collecting_at_start s0 \<Longrightarrow> \<forall>i < cl_cnt s. frames_ok (cl_sources s i)"
proof (induction rule: collecting_reach.induct)
  case start
  then show ?case
    by (auto simp: collecting_at_start_def source_at_start_def frames_ok_def OBJECT_DETECTION_FRAME_LIMIT_def)
next
  case (step s a s')
  then show ?case using collecting_step_frames by blast
qed

subsection \<open>How a collector ends\<close>

text \<open>A source that has ended posts nothing any more.\<close>

definition lost :: "nat \<Rightarrow> collecting \<Rightarrow> bool" where
  "lost i s \<longleftrightarrow> i < cl_cnt s \<and> st_pc (cl_sources s i) = SrcDone \<and> st_data (cl_sources s i) = 0 \<and>
     cl_pc s \<noteq> ColEndPost \<and> cl_pc s \<noteq> ColDone \<and> (\<forall>k. cl_pc s = ColEndExit k \<or> cl_pc s = ColEndWait k \<longrightarrow> k \<le> i)"

lemma lost_stays:
  assumes l: "lost i s" and st: "collecting_step a s = Step s'"
  shows "lost i s'"
proof (cases a)
  case (SourceOf j rd)
  then show ?thesis using assms
    by (cases "j = i") (auto simp: collecting_step_def lost_def source_step_def split: if_splits outcome.splits)
next
  case CollectorThread
  then have st': "collect_data_step s = Step s'" using st by (simp add: collecting_step_def)
  show ?thesis
  proof (cases "\<exists>k. cl_pc s = ColWaitSource k \<or> cl_pc s = ColEndWait k")
    case True
    then obtain k where k: "cl_pc s = ColWaitSource k \<or> cl_pc s = ColEndWait k" by blast
    then show ?thesis using l st'
      by (cases "st_data (cl_sources s k)"; cases "k = i")
        (auto simp: lost_def collect_data_step_def split: if_splits)
  next
    case False
    then show ?thesis using l st'
      by (cases "cl_pc s"; cases "cl_empty s"; cases "cl_exit_flag s = 0")
        (auto simp: lost_def collect_data_step_def Let_def split: if_splits)
  qed
next
  case (FirstAction name)
  then have "cl_sources s' = cl_sources s \<and> cl_cnt s' = cl_cnt s \<and> cl_pc s' = cl_pc s"
    using st by (cases "cl_user s"; cases "cl_data_ready s")
      (auto simp: collecting_step_def first_action_step_def split: option.splits)
  then show ?thesis using l by (simp add: lost_def)
next
  case DestroyCollector
  then show ?thesis using assms by (auto simp: collecting_step_def lost_def)
qed

lemma lost_for_ever: "collecting_reach s s' \<Longrightarrow> lost i s \<Longrightarrow> lost i s'"
  by (induction rule: collecting_reach.induct) (auto intro: lost_stays)

text \<open>Runs in which nobody destroys the collector.\<close>

inductive undisturbed_reach :: "collecting \<Rightarrow> collecting \<Rightarrow> bool" for s0 where
  ustart: "undisturbed_reach s0 s0"
| ustep: "undisturbed_reach s0 s \<Longrightarrow> a \<noteq> DestroyCollector \<Longrightarrow> collecting_step a s = Step s' \<Longrightarrow> undisturbed_reach s0 s'"

lemma undisturbed_flag:
  assumes "collecting_step a s = Step s'" "a \<noteq> DestroyCollector" "cl_exit_flag s = 0" "cl_cnt s \<noteq> 1"
  shows "cl_exit_flag s' = 0 \<and> cl_cnt s' = cl_cnt s"
proof (cases a)
  case (SourceOf i rd)
  then show ?thesis using assms by (auto simp: collecting_step_def split: if_splits outcome.splits)
next
  case CollectorThread
  then have st: "collect_data_step s = Step s'" using assms(1) by (simp add: collecting_step_def)
  have "cl_exit_flag s' = 0" using st assms(3,4)
    by (cases "cl_pc s"; cases "cl_empty s"; cases "st_data (cl_sources s (case cl_pc s of ColWaitSource k \<Rightarrow> k | ColEndWait k \<Rightarrow> k | _ \<Rightarrow> 0))")
      (auto simp: collect_data_step_def Let_def split: if_splits)
  then show ?thesis using collect_data_cnt [OF st] by blast
next
  case (FirstAction name)
  then show ?thesis using assms
    by (cases "cl_user s"; cases "cl_data_ready s")
      (auto simp: collecting_step_def first_action_step_def split: option.splits)
qed (use assms in simp)

lemma undisturbed_flag_reach:
  "undisturbed_reach s0 s \<Longrightarrow> cl_exit_flag s0 = 0 \<Longrightarrow> cl_cnt s0 \<noteq> 1 \<Longrightarrow> cl_exit_flag s = 0 \<and> cl_cnt s = cl_cnt s0"
proof (induction rule: undisturbed_reach.induct)
  case (ustep s a s')
  then show ?case using undisturbed_flag [of a s s'] by simp
qed simp

lemma undisturbed_collecting: "undisturbed_reach s0 s \<Longrightarrow> collecting_reach s0 s"
  by (induction rule: undisturbed_reach.induct) (auto intro: collecting_reach.intros)

subsection \<open>Properties\<close>

text \<open>C8: The name of the current object is never written while it is read: when the collector copies the name into a
  source, the thread of that source, unless it is told to stop, waits or is about to wait and has not the right to
  add frames; and while the collector runs, \<open>first_action\<close> never writes the collector's name while the collector
  copies it.\<close>

theorem object_name_race_free:
  assumes "collecting_at_start s0" "collecting_reach s0 s"
  shows "(\<forall>i < cl_cnt s. cl_pc s = ColName i \<and> so_exit_flag (cl_sources s i) = 0 \<longrightarrow>
       (case st_pc (cl_sources s i) of SrcWaitStart \<Rightarrow> True | SrcTestExit f \<Rightarrow> True | SrcWaitEmpty f \<Rightarrow> True | _ \<Rightarrow> False)) \<and>
     (cl_exit_flag s = 0 \<longrightarrow> \<not> (cl_user s = UserName \<and> (\<exists>k. cl_pc s = ColName k)))"
proof -
  have inv: "collecting_inv s" by (rule collecting_reach_inv [OF assms(2,1)])
  have "case st_pc (cl_sources s i) of SrcWaitStart \<Rightarrow> True | SrcTestExit f \<Rightarrow> True | SrcWaitEmpty f \<Rightarrow> True | _ \<Rightarrow> False"
    if "i < cl_cnt s" "cl_pc s = ColName i" "so_exit_flag (cl_sources s i) = 0" for i
  proof -
    have "src_token (st_pc (cl_sources s i)) = 0" "st_pc (cl_sources s i) \<noteq> SrcDone"
      using inv that by (auto simp: collecting_inv_def source_inv_def)
    then show ?thesis by (cases "st_pc (cl_sources s i)") auto
  qed
  moreover have "\<not> (cl_user s = UserName \<and> (\<exists>k. cl_pc s = ColName k))" if "cl_exit_flag s = 0"
    using inv that by (auto simp: collecting_inv_def main_inv_def)
  ultimately show ?thesis by blast
qed

text \<open>C9: Every frame goes to the object that is being collected: while nobody has asked the collector or the source to
  stop, a source that adds a frame has the name that the collector shows, so frames of different sources
  that are added at the same time go to the same object.\<close>

theorem frames_added_to_current_object:
  assumes "collecting_at_start s0" "collecting_reach s0 s" "i < cl_cnt s" "st_pc (cl_sources s i) = SrcAdd f"
    and "cl_exit_flag s = 0" "so_exit_flag (cl_sources s i) = 0"
  shows "so_data (cl_sources s i) = cl_data s"
proof -
  have "collecting_inv s" by (rule collecting_reach_inv [OF assms(2,1)])
  then have "source_inv s i" using assms(3) by (simp add: collecting_inv_def)
  then show ?thesis using assms(4-6) by (simp add: source_inv_def)
qed


text \<open>C37: A collector does not survive the end of a source: once the thread of a source has ended and the collector has
  taken what it posted last, no schedule ever lets the collector's thread end, so \<open>collector_destroy\<close>, which joins
  it, never returns.\<close>

theorem ended_source_hangs_collector:
  assumes "lost i s" "collecting_reach s s'"
  shows "cl_pc s' \<noteq> ColDone"
  using lost_for_ever [OF assms(2,1)] by (simp add: lost_def)

text \<open>A collector with several sources never notices that its sources have ended: the counter of ended sources is set
  to 0 for each of them, so as long as nobody destroys it, the exit flag stays 0 and the code that stops the
  sources is never reached.\<close>

theorem several_sources_never_noticed:
  assumes "collecting_at_start s0" "undisturbed_reach s0 s" "cl_cnt s0 \<noteq> 1"
  shows "cl_exit_flag s = 0 \<and> \<not> ending (cl_pc s)"
proof -
  have f: "cl_exit_flag s = 0"
    using undisturbed_flag_reach [OF assms(2)] assms(1,3) by (simp add: collecting_at_start_def)
  have "main_inv s"
    using collecting_reach_inv [OF undisturbed_collecting [OF assms(2)] assms(1)] by (simp add: collecting_inv_def)
  then show ?thesis using f by (simp add: main_inv_def)
qed

subsection \<open>Examples\<close>

fun run_collecting :: "collecting_actor list \<Rightarrow> collecting \<Rightarrow> collecting option" where
  "run_collecting [] s = Some s"
| "run_collecting (a # as) s = (case collecting_step a s of Step s' \<Rightarrow> run_collecting as s' | _ \<Rightarrow> None)"

lemma run_collecting_reach:
  "run_collecting as s = Some s' \<Longrightarrow> collecting_reach s0 s \<Longrightarrow> collecting_reach s0 s'"
  by (induction as arbitrary: s) (auto split: outcome.splits intro: collecting_reach.step)

lemma run_collecting_undisturbed:
  "run_collecting as s = Some s' \<Longrightarrow> DestroyCollector \<notin> set as \<Longrightarrow> undisturbed_reach s0 s \<Longrightarrow> undisturbed_reach s0 s'"
proof (induction as arbitrary: s)
  case (Cons a as)
  then obtain s1 where "collecting_step a s = Step s1" "run_collecting as s1 = Some s'"
    by (auto split: outcome.splits)
  then show ?case using Cons undisturbed_reach.ustep [of s0 s a s1] by auto
qed simp

definition sample_source :: source_thread where
  "sample_source = \<lparr>so_sid = 0, so_fd = 4, so_sdesc = None, so_packet = Some sample_packet, so_camera = None, so_exit_flag = 0,
     so_empty_ready = Some 0, so_data_ready = Some 0, so_data = [], so_detect = None, so_add = True, so_save = False,
     so_need_to_free = 1, so_frames_in_object = 0, so_object_detection_frame_limit = 50,
     st_pc = SrcWaitStart, st_loop = tcp_start sample_packet, st_empty = 0, st_data = 0, st_added = [], st_saved = []\<rparr>"

definition sample_collecting :: "nat \<Rightarrow> collecting" where
  "sample_collecting n = \<lparr>cl_pc = ColWaitStart, cl_cnt = n, cl_exit_flag = 0, cl_empty = 0, cl_data_ready = 1, cl_data = [],
     cl_sources = (\<lambda>_. sample_source), cl_user = UserStart, cl_object = []\<rparr>"

lemma sample_collecting_start: "collecting_at_start (sample_collecting n)"
  by (simp add: collecting_at_start_def sample_collecting_def source_at_start_def sample_source_def
      OBJECT_DETECTION_FRAME_LIMIT_def)

lemmas collecting_run = collecting_step_def collect_data_step_def first_action_step_def source_step_def Let_def
  sample_collecting_def sample_source_def strcpy_buf_def MAX_SHMEM_NAME_LEN_def upd_source_def

definition first_object :: "collecting_actor list" where
  "first_object = replicate 5 (FirstAction ''object_1'') @ [CollectorThread]"

lemma first_object_run:
  "\<exists>s. run_collecting first_object (sample_collecting 2) = Some s \<and> cl_pc s = ColName 0 \<and> cl_cnt s = 2 \<and>
     cl_exit_flag s = 0 \<and> so_exit_flag (cl_sources s 0) = 0"
  by (simp add: first_object_def collecting_run numeral_eq_Suc)

theorem object_name_race_free_witness:
  "\<exists>s. run_collecting first_object (sample_collecting 2) = Some s \<and> cl_pc s = ColName 0 \<and>
     (case st_pc (cl_sources s 0) of SrcWaitStart \<Rightarrow> True | SrcTestExit f \<Rightarrow> True | SrcWaitEmpty f \<Rightarrow> True | _ \<Rightarrow> False)"
proof -
  obtain s where s: "run_collecting first_object (sample_collecting 2) = Some s" "cl_pc s = ColName 0" "cl_cnt s = 2"
    "cl_exit_flag s = 0" "so_exit_flag (cl_sources s 0) = 0"
    using first_object_run by blast
  have "collecting_reach (sample_collecting 2) s"
    by (rule run_collecting_reach [OF s(1) collecting_reach.start])
  then show ?thesis using object_name_race_free [OF sample_collecting_start] s by fastforce
qed

theorem several_sources_never_noticed_witness:
  "\<exists>s. run_collecting first_object (sample_collecting 2) = Some s \<and> cl_exit_flag s = 0 \<and> \<not> ending (cl_pc s)"
proof -
  obtain s where s: "run_collecting first_object (sample_collecting 2) = Some s" using first_object_run by blast
  have "undisturbed_reach (sample_collecting 2) s"
    by (rule run_collecting_undisturbed [OF s _ undisturbed_reach.ustart]) (simp add: first_object_def)
  then show ?thesis
    using several_sources_never_noticed [OF sample_collecting_start, of 2 s] s by (simp add: sample_collecting_def)
qed

text \<open>The only source fails at its first read.\<close>

definition failing_read :: "collecting_actor list" where
  "failing_read = first_object @ replicate 3 CollectorThread @ replicate 4 (SourceOf 0 ReadFails) @ replicate 2 CollectorThread"

lemma failing_read_run: "\<exists>s. run_collecting failing_read (sample_collecting 1) = Some s \<and> lost 0 s"
proof -
  have "case run_collecting failing_read (sample_collecting 1) of None \<Rightarrow> False | Some s \<Rightarrow>
      cl_cnt s = 1 \<and> st_pc (cl_sources s 0) = SrcDone \<and> st_data (cl_sources s 0) = 0 \<and> cl_pc s = ColWaitSource 1"
    by code_simp
  then show ?thesis by (auto simp: lost_def split: option.splits)
qed

theorem ended_source_hangs_collector_witness:
  "\<exists>s. run_collecting failing_read (sample_collecting 1) = Some s \<and> {s'. collecting_reach s s' \<and> cl_pc s' = ColDone} = {}"
  using failing_read_run ended_source_hangs_collector by blast

text \<open>The only source reads a frame, which begins an object.\<close>

definition frame_bytes :: "byte list" where
  "frame_bytes = [16, 0, 0, 0, 0, 0, 0, 0, 7, 0, 0, 0]"

definition adding_run :: "collecting_actor list" where
  "adding_run = first_object @ replicate 3 CollectorThread @
     [SourceOf 0 ReadFails, SourceOf 0 ReadFails, SourceOf 0 (ReadData frame_bytes), SourceOf 0 ReadFails,
      SourceOf 0 (ReadData [1, 2, 3, 4])] @ replicate 3 (SourceOf 0 ReadFails) @
     replicate 7 CollectorThread @ replicate 5 (FirstAction ''object_2'') @
     replicate 3 CollectorThread @ [SourceOf 0 ReadFails]"

definition adding_state :: collecting where
  "adding_state = the (run_collecting adding_run (sample_collecting 1))"

lemma adding_run_state:
  "run_collecting adding_run (sample_collecting 1) \<noteq> None"
  "cl_exit_flag adding_state = 0" "so_exit_flag (cl_sources adding_state 0) = 0" "cl_cnt adding_state = 1"
  "st_pc (cl_sources adding_state 0) = SrcAdd (7, [1, 2, 3, 4])" "cl_data adding_state = ''object_2''"
proof -
  have "case run_collecting adding_run (sample_collecting 1) of None \<Rightarrow> False | Some s \<Rightarrow> cl_exit_flag s = 0 \<and>
      so_exit_flag (cl_sources s 0) = 0 \<and> cl_cnt s = 1 \<and> st_pc (cl_sources s 0) = SrcAdd (7, [1, 2, 3, 4]) \<and>
      cl_data s = ''object_2''"
    by code_simp
  then show "run_collecting adding_run (sample_collecting 1) \<noteq> None"
    "cl_exit_flag adding_state = 0" "so_exit_flag (cl_sources adding_state 0) = 0" "cl_cnt adding_state = 1"
    "st_pc (cl_sources adding_state 0) = SrcAdd (7, [1, 2, 3, 4])" "cl_data adding_state = ''object_2''"
    by (auto simp: adding_state_def split: option.splits)
qed

lemma adding_state_reach: "collecting_reach (sample_collecting 1) adding_state"
  by (rule run_collecting_reach [OF _ collecting_reach.start])
    (use adding_run_state(1) in \<open>auto simp: adding_state_def\<close>)

theorem frames_added_to_current_object_witness:
  "st_pc (cl_sources adding_state 0) = SrcAdd (7, [1, 2, 3, 4]) \<and> so_data (cl_sources adding_state 0) = ''object_2''"
  using frames_added_to_current_object [OF sample_collecting_start adding_state_reach, of 0] adding_run_state by simp


end
