(* ===== verification/Gvcp.thy ===== *)
theory Gvcp imports CString begin

section \<open>The control protocol of a camera\<close>

text \<open>
  \<^verbatim>\<open>libcapture/GigE/src/gvcp.c\<close> and \<^verbatim>\<open>udpcapture/gvcp.h\<close>: the packets that read and write the registers of a GigE
  Vision camera, the answers to them, and the discovery packet. A packet is the list of its bytes. What the
  system answers comes from an environment (\<open>gvcp_os\<close>). Here \<open>None\<close> also stands for a call that never
  returns, which needs an endless stream of short datagrams.
\<close>

subsection \<open>Constants\<close>

definition GV_REGISTER_N_STREAM_CHANNELS_OFFSET :: u32 where "GV_REGISTER_N_STREAM_CHANNELS_OFFSET = 0x904"
definition GV_GVCP_CAPABILITY_OFFSET :: u32 where "GV_GVCP_CAPABILITY_OFFSET = 0x934"
definition GV_TIMESTAMP_TICK_FREQUENCY_HIGH_OFFSET :: u32 where "GV_TIMESTAMP_TICK_FREQUENCY_HIGH_OFFSET = 0x93c"
definition GV_TIMESTAMP_TICK_FREQUENCY_LOW_OFFSET :: u32 where "GV_TIMESTAMP_TICK_FREQUENCY_LOW_OFFSET = 0x940"
definition GV_CONTROL_CHANNEL_PRIVILEGE_OFFSET :: u32 where "GV_CONTROL_CHANNEL_PRIVILEGE_OFFSET = 0xa00"
definition GV_STREAM_CHANNEL_0_PORT_OFFSET :: u32 where "GV_STREAM_CHANNEL_0_PORT_OFFSET = 0xd00"
definition GV_STREAM_CHANNEL_0_PACKET_SIZE_OFFSET :: u32 where "GV_STREAM_CHANNEL_0_PACKET_SIZE_OFFSET = 0xd04"
definition GV_STREAM_CHANNEL_0_IP_ADDRESS_OFFSET :: u32 where "GV_STREAM_CHANNEL_0_IP_ADDRESS_OFFSET = 0xd18"
definition GV_STREAM_CHANNEL_SOURCE_PORT_OFFSET :: u32 where "GV_STREAM_CHANNEL_SOURCE_PORT_OFFSET = 0xd1c"

lemmas gv_register_defs = GV_REGISTER_N_STREAM_CHANNELS_OFFSET_def GV_GVCP_CAPABILITY_OFFSET_def
  GV_TIMESTAMP_TICK_FREQUENCY_HIGH_OFFSET_def GV_TIMESTAMP_TICK_FREQUENCY_LOW_OFFSET_def
  GV_CONTROL_CHANNEL_PRIVILEGE_OFFSET_def GV_STREAM_CHANNEL_0_PORT_OFFSET_def
  GV_STREAM_CHANNEL_0_PACKET_SIZE_OFFSET_def GV_STREAM_CHANNEL_0_IP_ADDRESS_OFFSET_def
  GV_STREAM_CHANNEL_SOURCE_PORT_OFFSET_def

definition GVCP_COMMAND_DISCOVERY_CMD :: u16 where "GVCP_COMMAND_DISCOVERY_CMD = 0x02"
definition GVCP_COMMAND_DISCOVERY_ACK :: u16 where "GVCP_COMMAND_DISCOVERY_ACK = 0x03"
definition GVCP_COMMAND_READ_REG_CMD :: u16 where "GVCP_COMMAND_READ_REG_CMD = 0x80"
definition GVCP_COMMAND_READ_REG_ACK :: u16 where "GVCP_COMMAND_READ_REG_ACK = 0x81"
definition GVCP_COMMAND_WRITE_REG_CMD :: u16 where "GVCP_COMMAND_WRITE_REG_CMD = 0x82"
definition GVCP_COMMAND_WRITE_REG_ACK :: u16 where "GVCP_COMMAND_WRITE_REG_ACK = 0x83"

definition GVCP_PACKET_TYPE_ACK :: byte where "GVCP_PACKET_TYPE_ACK = 0x00"
definition GVCP_PACKET_TYPE_CMD :: byte where "GVCP_PACKET_TYPE_CMD = 0x42"
definition GVCP_PACKET_TYPE_ERROR :: byte where "GVCP_PACKET_TYPE_ERROR = 0x80"

definition GVCP_CMD_PACKET_FLAGS_ACK_REQUIRED :: byte where "GVCP_CMD_PACKET_FLAGS_ACK_REQUIRED = 0x01"

definition DEFAULT_PACKET_SIZE :: u32 where "DEFAULT_PACKET_SIZE = 8000"

lemmas gvcp_code_defs = GVCP_COMMAND_DISCOVERY_CMD_def GVCP_COMMAND_DISCOVERY_ACK_def GVCP_COMMAND_READ_REG_CMD_def
  GVCP_COMMAND_READ_REG_ACK_def GVCP_COMMAND_WRITE_REG_CMD_def GVCP_COMMAND_WRITE_REG_ACK_def
  GVCP_PACKET_TYPE_ACK_def GVCP_PACKET_TYPE_CMD_def GVCP_PACKET_TYPE_ERROR_def
  GVCP_CMD_PACKET_FLAGS_ACK_REQUIRED_def

text \<open>
  The macro \<open>next_packet_id(id)\<close>: the variable after it, of which the caller uses \<open>packet_id_of\<close>.
\<close>

definition packet_id_of :: "u32 \<Rightarrow> u32" where "packet_id_of i = 0xf000 OR (i AND 0xfff)"

definition next_packet_id :: "u32 \<Rightarrow> u32 \<times> u32" where "next_packet_id i = (packet_id_of (i + 1), i + 1)"

subsection \<open>Packets\<close>

text \<open>The header: type, flags, and in network order the command, the size of the data and the id.\<close>

definition gvcp_header :: "byte \<Rightarrow> byte \<Rightarrow> u16 \<Rightarrow> u16 \<Rightarrow> u16 \<Rightarrow> byte list" where
  "gvcp_header packet_type packet_flags command len i =
     [packet_type, packet_flags] @ be_bytes 2 command @ be_bytes 2 len @ be_bytes 2 i"

definition gvcp_discovery_packet :: "byte list" where
  "gvcp_discovery_packet =
     gvcp_header GVCP_PACKET_TYPE_CMD GVCP_CMD_PACKET_FLAGS_ACK_REQUIRED GVCP_COMMAND_DISCOVERY_CMD 0 0xffff"

definition gvcp_read_register_packet :: "u32 \<Rightarrow> u32 \<Rightarrow> byte list" where
  "gvcp_read_register_packet reg_addr packet_id =
     gvcp_header GVCP_PACKET_TYPE_CMD GVCP_CMD_PACKET_FLAGS_ACK_REQUIRED GVCP_COMMAND_READ_REG_CMD 4 (ucast packet_id) @
     be_bytes 4 reg_addr"

definition gvcp_write_register_packet :: "u32 \<Rightarrow> u32 \<Rightarrow> u32 \<Rightarrow> byte list" where
  "gvcp_write_register_packet reg_addr reg_value packet_id =
     gvcp_header GVCP_PACKET_TYPE_CMD GVCP_CMD_PACKET_FLAGS_ACK_REQUIRED GVCP_COMMAND_WRITE_REG_CMD 8 (ucast packet_id) @
     be_bytes 4 reg_addr @ be_bytes 4 reg_value"

text \<open>
  The answer to a register command: the code looks at the type only. The first result is the return value, the
  second what \<open>value\<close> points to afterwards; both pointers may be NULL.
\<close>

definition gvcp_register_ack :: "u32 option \<Rightarrow> byte list option \<Rightarrow> (int \<times> u32 option) option" where
  "gvcp_register_ack value packet =
     (case (value, packet) of
        (Some v, Some p) \<Rightarrow> do {
          t \<leftarrow> region_read p 0 1;
          if t = [GVCP_PACKET_TYPE_ACK] then do {
            bs \<leftarrow> region_read p 8 4;
            Some (0, Some (of_be_bytes bs)) }
          else Some (0, Some v) }
      | _ \<Rightarrow> Some (-1, value))"

subsection \<open>Waiting for an answer\<close>

text \<open>
  The environment: what \<open>write\<close> returns, whether an epoll set with the socket can be made, and what a wait finds
  (an error, nothing in time, a datagram, an error of \<open>recvfrom\<close>). A datagram is cut to the buffer.
\<close>

datatype wait_answer = WaitFails | WaitTimeout | ReceiveFails | Datagram "byte list"

record 'e gvcp_os =
  os_write :: "int \<Rightarrow> byte list \<Rightarrow> 'e \<Rightarrow> int \<times> 'e"
  os_epoll :: "int \<Rightarrow> 'e \<Rightarrow> bool \<times> 'e"
  os_wait :: "int \<Rightarrow> 'e \<Rightarrow> wait_answer \<times> 'e"

definition ack_size :: nat where "ack_size = 12"

partial_function (option) listen_loop :: "'e gvcp_os \<Rightarrow> int \<Rightarrow> 'e \<Rightarrow> (byte list option \<times> 'e) option" where
  "listen_loop os fd e =
     (if fd = -1 then Some (None, e)
      else (case os_wait os fd e of
          (Datagram bs, e') \<Rightarrow>
            if length bs < ack_size then listen_loop os fd e' else Some (Some (take ack_size bs), e')
        | (WaitFails, e') \<Rightarrow> Some (None, e')
        | (WaitTimeout, e') \<Rightarrow> Some (None, e')
        | (ReceiveFails, e') \<Rightarrow> Some (None, e')))"

text \<open>\<open>listen_packet_ack\<close> waits with \<open>select\<close>, \<open>listen_packet_ack_new\<close> with an epoll set of its own.\<close>

definition listen_packet_ack :: "'e gvcp_os \<Rightarrow> int \<Rightarrow> 'e \<Rightarrow> (byte list option \<times> 'e) option" where
  "listen_packet_ack os fd e = listen_loop os fd e"

definition listen_packet_ack_new :: "'e gvcp_os \<Rightarrow> int \<Rightarrow> 'e \<Rightarrow> (byte list option \<times> 'e) option" where
  "listen_packet_ack_new os fd e =
     (case os_epoll os fd e of (ok, e') \<Rightarrow> if ok then listen_loop os fd e' else Some (None, e'))"

partial_function (option) listen_all_loop :: "'e gvcp_os \<Rightarrow> int \<Rightarrow> int \<Rightarrow> 'e \<Rightarrow> (int \<times> 'e) option" where
  "listen_all_loop os fd cnt e =
     (if fd = -1 then Some (cnt, e)
      else (case os_wait os fd e of
          (Datagram bs, e') \<Rightarrow> listen_all_loop os fd (if length bs < ack_size then cnt else cnt + 1) e'
        | (WaitFails, e') \<Rightarrow> Some (0, e')
        | (WaitTimeout, e') \<Rightarrow> Some (0, e')
        | (ReceiveFails, e') \<Rightarrow> Some (0, e')))"

definition listen_all_packets_ack_new :: "'e gvcp_os \<Rightarrow> int \<Rightarrow> 'e \<Rightarrow> (int \<times> 'e) option" where
  "listen_all_packets_ack_new os fd e =
     (case os_epoll os fd e of (ok, e') \<Rightarrow> if ok then listen_all_loop os fd 0 e' else Some (0, e'))"

subsection \<open>Registers\<close>

text \<open>The results: the return value (that of \<open>write\<close>), what \<open>value\<close> points to, and the environment.\<close>

definition read_register :: "'e gvcp_os \<Rightarrow> int \<Rightarrow> u32 \<Rightarrow> u32 option \<Rightarrow> u32 \<Rightarrow> 'e \<Rightarrow> (int \<times> u32 option \<times> 'e) option" where
  "read_register os fd reg_addr value packet_id e =
     (case os_write os fd (gvcp_read_register_packet reg_addr packet_id) e of (rc, e1) \<Rightarrow> do {
        (packet, e2) \<leftarrow> listen_packet_ack_new os fd e1;
        (r, v) \<leftarrow> gvcp_register_ack value packet;
        Some (rc, v, e2) })"

definition write_register :: "'e gvcp_os \<Rightarrow> int \<Rightarrow> u32 \<Rightarrow> u32 \<Rightarrow> u32 \<Rightarrow> 'e \<Rightarrow> (int \<times> 'e) option" where
  "write_register os fd reg_addr value packet_id e =
     (case os_write os fd (gvcp_write_register_packet reg_addr value packet_id) e of (rc, e1) \<Rightarrow> do {
        (packet, e2) \<leftarrow> listen_packet_ack_new os fd e1;
        (r, v) \<leftarrow> gvcp_register_ack (Some value) packet;
        Some (rc, e2) })"

definition write_watchdog_register :: "'e gvcp_os \<Rightarrow> int \<Rightarrow> u32 \<Rightarrow> u32 \<Rightarrow> u32 \<Rightarrow> 'e \<Rightarrow> (int \<times> 'e) option" where
  "write_watchdog_register os fd reg_addr value packet_id e =
     (case os_write os fd (gvcp_write_register_packet reg_addr value packet_id) e of (rc, e1) \<Rightarrow>
        listen_all_packets_ack_new os fd e1)"

text \<open>
  Sequences of register accesses, as the functions of \<^verbatim>\<open>gvcp.c\<close> and \<^verbatim>\<open>gige_camera_ops.c\<close> have them: each uses
  \<open>next_packet_id(packet_id)\<close> on the parameter \<open>packet_id\<close> and all share the variable \<open>value\<close>. \<open>WriteBack\<close> writes what
  \<open>value\<close> holds, \<open>WriteUnless a x\<close> is \<open>if (value != x) write_register(fd, a, x, ...)\<close>, \<open>ReadBad\<close> a read whose third
  argument is not the address of a variable.
\<close>

datatype reg_access = ReadReg u32 | WriteReg u32 u32 | WriteBack u32 | WriteUnless u32 u32 | ReadBad u32

type_synonym 'e reg_state = "u32 \<times> u32 \<times> 'e"

fun access_register :: "'e gvcp_os \<Rightarrow> int \<Rightarrow> reg_access \<Rightarrow> 'e reg_state \<Rightarrow> 'e reg_state option" where
  "access_register os fd (ReadReg a) (i, value, e) = do {
     (rc, v, e') \<leftarrow> read_register os fd a (Some value) (fst (next_packet_id i)) e;
     v' \<leftarrow> v;
     Some (snd (next_packet_id i), v', e') }"
| "access_register os fd (WriteReg a x) (i, value, e) = do {
     (rc, e') \<leftarrow> write_register os fd a x (fst (next_packet_id i)) e;
     Some (snd (next_packet_id i), value, e') }"
| "access_register os fd (WriteBack a) (i, value, e) = do {
     (rc, e') \<leftarrow> write_register os fd a value (fst (next_packet_id i)) e;
     Some (snd (next_packet_id i), value, e') }"
| "access_register os fd (WriteUnless a x) (i, value, e) =
     (if value = x then Some (i, value, e) else do {
        (rc, e') \<leftarrow> write_register os fd a x (fst (next_packet_id i)) e;
        Some (snd (next_packet_id i), value, e') })"
| "access_register os fd (ReadBad a) (i, value, e) =
     (case os_write os fd (gvcp_read_register_packet a (fst (next_packet_id i))) e of (rc, e1) \<Rightarrow> do {
        (packet, e2) \<leftarrow> listen_packet_ack_new os fd e1;
        if packet = None then Some (snd (next_packet_id i), value, e2) else None })"

fun access_registers :: "'e gvcp_os \<Rightarrow> int \<Rightarrow> reg_access list \<Rightarrow> 'e reg_state \<Rightarrow> 'e reg_state option" where
  "access_registers os fd [] s = Some s"
| "access_registers os fd (c # cs) s = do { s' \<leftarrow> access_register os fd c s; access_registers os fd cs s' }"

text \<open>\<open>high\<close> and \<open>low\<close> are the uninitialised variables the answers are stored in.\<close>

definition gvcp_get_timestamp_tick_frequency ::
  "'e gvcp_os \<Rightarrow> u32 \<Rightarrow> u32 \<Rightarrow> int \<Rightarrow> u32 \<Rightarrow> 'e \<Rightarrow> (u64 \<times> 'e) option" where
  "gvcp_get_timestamp_tick_frequency os high low fd packet_id e = do {
     (i1, h, e1) \<leftarrow> access_register os fd (ReadReg GV_TIMESTAMP_TICK_FREQUENCY_HIGH_OFFSET) (packet_id, high, e);
     (i2, l, e2) \<leftarrow> access_register os fd (ReadReg GV_TIMESTAMP_TICK_FREQUENCY_LOW_OFFSET) (i1, low, e1);
     Some (push_bit 32 (ucast h) OR ucast l, e2) }"

definition gvcp_get_packet_size :: "'e gvcp_os \<Rightarrow> u32 \<Rightarrow> int \<Rightarrow> u32 \<Rightarrow> 'e \<Rightarrow> (u32 \<times> 'e) option" where
  "gvcp_get_packet_size os junk fd packet_id e = do {
     (i, v, e') \<leftarrow> access_register os fd (ReadReg GV_STREAM_CHANNEL_0_PACKET_SIZE_OFFSET) (packet_id, junk, e);
     Some (v, e') }"

text \<open>
  \<open>get_net_parameters_from_socket\<close>: the address and the port of the socket in host order, or the values the variables
  had before. \<open>gvcp_init\<close> does not look at its result.
\<close>

definition get_net_parameters_from_socket :: "(u32 \<times> u16) option \<Rightarrow> u32 \<times> u32 \<Rightarrow> int \<times> u32 \<times> u32" where
  "get_net_parameters_from_socket sockname vals =
     (case sockname of None \<Rightarrow> (-1, vals) | Some (ip, port) \<Rightarrow> (0, ip, ucast port))"

definition gvcp_init ::
  "'e gvcp_os \<Rightarrow> (u32 \<times> u16) option \<Rightarrow> u32 \<times> u32 \<Rightarrow> int \<Rightarrow> u32 \<Rightarrow> 'e \<Rightarrow> (u32 \<times> 'e) option" where
  "gvcp_init os sockname junk fd packet_id e =
     (case get_net_parameters_from_socket sockname junk of (rc, ip, port) \<Rightarrow> do {
        (rc1, v1, e1) \<leftarrow> read_register os fd GV_REGISTER_N_STREAM_CHANNELS_OFFSET (Some (-1)) packet_id e;
        value \<leftarrow> v1;
        (i, value, e2) \<leftarrow> access_registers os fd
          [ReadReg GV_GVCP_CAPABILITY_OFFSET,
           WriteReg GV_CONTROL_CHANNEL_PRIVILEGE_OFFSET 0x02,
           WriteReg GV_STREAM_CHANNEL_0_IP_ADDRESS_OFFSET ip,
           WriteReg GV_STREAM_CHANNEL_0_PORT_OFFSET port] (packet_id, value, e1);
        (i, packet_size, e3) \<leftarrow> access_register os fd (ReadReg GV_STREAM_CHANNEL_0_PACKET_SIZE_OFFSET) (i, 0, e2);
        if DEFAULT_PACKET_SIZE < packet_size then do {
          (i, packet_size, e4) \<leftarrow> access_register os fd
            (WriteReg GV_STREAM_CHANNEL_0_PACKET_SIZE_OFFSET DEFAULT_PACKET_SIZE) (i, DEFAULT_PACKET_SIZE, e3);
          Some (packet_size, e4) }
        else Some (packet_size, e3) })"

lemma listen_all_loop_zero:
  assumes "listen_all_loop os' fd cnt e = Some r"
  shows "cnt = 0 \<or> fd \<noteq> -1 \<longrightarrow> fst r = 0"
  by (rule listen_all_loop.raw_induct [OF _ assms, of "\<lambda>os' fd cnt e r. cnt = 0 \<or> fd \<noteq> -1 \<longrightarrow> fst r = 0"])
    (auto split: if_splits prod.splits wait_answer.splits)

text \<open>The number of answers is counted and never returned.\<close>

lemma write_watchdog_register_zero:
  "write_watchdog_register os fd a x i e = Some (n, e') \<Longrightarrow> n = 0"
  by (auto simp: write_watchdog_register_def listen_all_packets_ack_new_def split: prod.splits if_splits
      dest!: listen_all_loop_zero)

subsection \<open>A camera that keeps its registers\<close>

text \<open>
  What the standard says of a camera that answers in time: \<open>idle\<close> are the environments in which no answer is
  under way, \<open>regs\<close> the registers. A read is answered with the register, a write changes it.
\<close>

definition gvcp_ack :: "u16 \<Rightarrow> u16 \<Rightarrow> u32 \<Rightarrow> byte list" where
  "gvcp_ack command i v = gvcp_header GVCP_PACKET_TYPE_ACK 0 command 4 i @ be_bytes 4 v"

definition answers_with :: "'e gvcp_os \<Rightarrow> int \<Rightarrow> byte list \<Rightarrow> 'e \<Rightarrow> byte list \<Rightarrow> 'e \<Rightarrow> bool" where
  "answers_with os fd request e ack e' \<longleftrightarrow>
     (\<exists>rc e1 e2. os_write os fd request e = (rc, e1) \<and> os_epoll os fd e1 = (True, e2) \<and>
        os_wait os fd e2 = (Datagram ack, e'))"

definition camera_laws :: "'e gvcp_os \<Rightarrow> int \<Rightarrow> ('e \<Rightarrow> bool) \<Rightarrow> ('e \<Rightarrow> u32 \<Rightarrow> u32) \<Rightarrow> bool" where
  "camera_laws os fd idle regs \<longleftrightarrow> fd \<noteq> -1 \<and>
     (\<forall>e a i. idle e \<longrightarrow> (\<exists>e'. answers_with os fd (gvcp_read_register_packet a i) e
        (gvcp_ack GVCP_COMMAND_READ_REG_ACK (ucast i) (regs e a)) e' \<and> idle e' \<and> regs e' = regs e)) \<and>
     (\<forall>e a x i. idle e \<longrightarrow> (\<exists>e'. answers_with os fd (gvcp_write_register_packet a x i) e
        (gvcp_ack GVCP_COMMAND_WRITE_REG_ACK (ucast i) 1) e' \<and> idle e' \<and> regs e' = (regs e)(a := x)))"

text \<open>What the accesses do to the shared variable and the registers, without packets.\<close>

fun reg_effect :: "reg_access \<Rightarrow> u32 \<times> (u32 \<Rightarrow> u32) \<Rightarrow> u32 \<times> (u32 \<Rightarrow> u32)" where
  "reg_effect (ReadReg a) (v, r) = (r a, r)"
| "reg_effect (WriteReg a x) (v, r) = (v, r(a := x))"
| "reg_effect (WriteBack a) (v, r) = (v, r(a := v))"
| "reg_effect (WriteUnless a x) (v, r) = (v, if v = x then r else r(a := x))"
| "reg_effect (ReadBad a) (v, r) = (v, r)"

fun reg_effects :: "reg_access list \<Rightarrow> u32 \<times> (u32 \<Rightarrow> u32) \<Rightarrow> u32 \<times> (u32 \<Rightarrow> u32)" where
  "reg_effects [] s = s"
| "reg_effects (c # cs) s = reg_effects cs (reg_effect c s)"

fun good_access :: "reg_access \<Rightarrow> bool" where
  "good_access (ReadBad a) = False"
| "good_access c = True"

lemma gvcp_header_length [simp]: "length (gvcp_header t f c n i) = 8"
  by (simp add: gvcp_header_def)

lemma gvcp_ack_length [simp]: "length (gvcp_ack c i v) = 12"
  by (simp add: gvcp_ack_def)

lemma ack_fields:
  "region_read (gvcp_ack c i v) 0 1 = Some [GVCP_PACKET_TYPE_ACK]" "region_read (gvcp_ack c i v) 8 4 = Some (be_bytes 4 v)"
  by (simp_all add: region_read_def) (simp_all add: gvcp_ack_def gvcp_header_def)

lemma register_ack_of_ack: "gvcp_register_ack (Some w) (Some (gvcp_ack c i v)) = Some (0, Some v)"
  by (simp add: gvcp_register_ack_def ack_fields [unfolded One_nat_def] of_be_bytes_be_bytes)

lemma listen_ack:
  assumes "fd \<noteq> -1" "os_epoll os fd e1 = (True, e2)" "os_wait os fd e2 = (Datagram bs, e')" "12 \<le> length bs"
  shows "listen_packet_ack_new os fd e1 = Some (Some (take 12 bs), e')"
  using assms by (simp add: listen_packet_ack_new_def listen_loop.simps [of os fd e2] ack_size_def)

lemma read_register_answered:
  assumes "fd \<noteq> -1" "answers_with os fd (gvcp_read_register_packet a i) e (gvcp_ack c k v) e'"
  shows "\<exists>rc. read_register os fd a (Some w) i e = Some (rc, Some v, e')"
proof -
  obtain rc e1 e2 where w: "os_write os fd (gvcp_read_register_packet a i) e = (rc, e1)"
      "os_epoll os fd e1 = (True, e2)" "os_wait os fd e2 = (Datagram (gvcp_ack c k v), e')"
    using assms(2) by (auto simp: answers_with_def)
  then show ?thesis
    using listen_ack [OF assms(1) w(2,3)] by (simp add: read_register_def register_ack_of_ack)
qed

lemma write_register_answered:
  assumes "fd \<noteq> -1" "answers_with os fd (gvcp_write_register_packet a x i) e (gvcp_ack c k v) e'"
  shows "\<exists>rc. write_register os fd a x i e = Some (rc, e')"
proof -
  obtain rc e1 e2 where w: "os_write os fd (gvcp_write_register_packet a x i) e = (rc, e1)"
      "os_epoll os fd e1 = (True, e2)" "os_wait os fd e2 = (Datagram (gvcp_ack c k v), e')"
    using assms(2) by (auto simp: answers_with_def)
  then show ?thesis
    using listen_ack [OF assms(1) w(2,3)] by (simp add: write_register_def register_ack_of_ack)
qed

lemma camera_lawsD:
  assumes "camera_laws os fd idle regs"
  shows "fd \<noteq> -1"
    and "idle e \<Longrightarrow> \<exists>e'. answers_with os fd (gvcp_read_register_packet a i) e
        (gvcp_ack GVCP_COMMAND_READ_REG_ACK (ucast i) (regs e a)) e' \<and> idle e' \<and> regs e' = regs e"
    and "idle e \<Longrightarrow> \<exists>e'. answers_with os fd (gvcp_write_register_packet a x i) e
        (gvcp_ack GVCP_COMMAND_WRITE_REG_ACK (ucast i) 1) e' \<and> idle e' \<and> regs e' = (regs e)(a := x)"
  using assms by (simp_all add: camera_laws_def)

lemma camera_read:
  assumes "camera_laws os fd idle regs" "idle e"
  shows "\<exists>rc e'. read_register os fd a (Some w) i e = Some (rc, Some (regs e a), e') \<and> idle e' \<and> regs e' = regs e"
proof -
  obtain e' where e': "answers_with os fd (gvcp_read_register_packet a i) e
      (gvcp_ack GVCP_COMMAND_READ_REG_ACK (ucast i) (regs e a)) e'" "idle e'" "regs e' = regs e"
    using camera_lawsD(2) [OF assms] by blast
  then show ?thesis using read_register_answered [OF camera_lawsD(1) [OF assms(1)] e'(1)] by blast
qed

lemma camera_write:
  assumes "camera_laws os fd idle regs" "idle e"
  shows "\<exists>rc e'. write_register os fd a x i e = Some (rc, e') \<and> idle e' \<and> regs e' = (regs e)(a := x)"
proof -
  obtain e' where e': "answers_with os fd (gvcp_write_register_packet a x i) e
      (gvcp_ack GVCP_COMMAND_WRITE_REG_ACK (ucast i) 1) e'" "idle e'" "regs e' = (regs e)(a := x)"
    using camera_lawsD(3) [OF assms] by blast
  then show ?thesis using write_register_answered [OF camera_lawsD(1) [OF assms(1)] e'(1)] by blast
qed

lemma access_register_effect:
  assumes laws: "camera_laws os fd idle regs" and e: "idle e" and good: "good_access c"
  shows "\<exists>i' v' e'. access_register os fd c (i, v, e) = Some (i', v', e') \<and> idle e' \<and>
     (v', regs e') = reg_effect c (v, regs e)"
proof (cases c)
  case (ReadReg a)
  then show ?thesis using camera_read [OF laws e, of a v "fst (next_packet_id i)"] by auto
next
  case (WriteReg a x)
  then show ?thesis using camera_write [OF laws e, of a x "fst (next_packet_id i)"] by auto
next
  case (WriteBack a)
  then show ?thesis using camera_write [OF laws e, of a v "fst (next_packet_id i)"] by auto
next
  case (WriteUnless a x)
  then show ?thesis using e camera_write [OF laws e, of a x "fst (next_packet_id i)"] by auto
qed (use good in auto)

lemma access_registers_effects:
  assumes laws: "camera_laws os fd idle regs" and e: "idle e" and good: "\<forall>c \<in> set cs. good_access c"
  shows "\<exists>i' v' e'. access_registers os fd cs (i, v, e) = Some (i', v', e') \<and> idle e' \<and>
     (v', regs e') = reg_effects cs (v, regs e)"
  using e good
proof (induction cs arbitrary: i v e)
  case (Cons c cs)
  obtain i1 v1 e1 where "access_register os fd c (i, v, e) = Some (i1, v1, e1)" "idle e1"
      "(v1, regs e1) = reg_effect c (v, regs e)"
    using access_register_effect [OF laws, of e c i v] Cons.prems by auto
  then show ?case using Cons.IH [of e1 i1 v1] Cons.prems(2) by auto
qed simp


subsection \<open>Packet ids\<close>

text \<open>The packets an environment is given, and the ids in them.\<close>

definition logged :: "'e gvcp_os \<Rightarrow> ('e \<times> byte list list) gvcp_os" where
  "logged os = \<lparr>os_write = (\<lambda>fd p (e, ps). case os_write os fd p e of (rc, e') \<Rightarrow> (rc, e', ps @ [p])),
     os_epoll = (\<lambda>fd (e, ps). case os_epoll os fd e of (ok, e') \<Rightarrow> (ok, e', ps)),
     os_wait = (\<lambda>fd (e, ps). case os_wait os fd e of (w, e') \<Rightarrow> (w, e', ps))\<rparr>"

definition packet_id_field :: "byte list \<Rightarrow> u16" where "packet_id_field p = of_be_bytes (take 2 (drop 6 p))"

lemma gvcp_header_id: "packet_id_field (gvcp_header t f c n i @ rest) = i"
proof -
  have "take 2 (drop 6 (gvcp_header t f c n i @ rest)) = be_bytes 2 i"
    by (simp add: gvcp_header_def)
  then show ?thesis by (simp add: packet_id_field_def of_be_bytes_be_bytes)
qed

lemma request_ids:
  "packet_id_field (gvcp_read_register_packet a i) = ucast i" "packet_id_field (gvcp_write_register_packet a x i) = ucast i"
  by (simp_all add: gvcp_read_register_packet_def gvcp_write_register_packet_def gvcp_header_id)

lemma listen_loop_log:
  assumes "listen_loop os' fd s = Some r"
  shows "os' = logged os \<longrightarrow> snd (snd r) = snd s"
  by (rule listen_loop.raw_induct [OF _ assms, of "\<lambda>os' fd s r. os' = logged os \<longrightarrow> snd (snd r) = snd s"])
    (auto simp: logged_def split: if_splits prod.splits wait_answer.splits)

lemma listen_ack_log:
  assumes "listen_packet_ack_new (logged os) fd s = Some (p, s')"
  shows "snd s' = snd s"
proof -
  obtain ok s1 where e: "os_epoll (logged os) fd s = (ok, s1)" "snd s1 = snd s"
    by (cases s; cases "os_epoll os fd (fst s)") (auto simp: logged_def)
  then show ?thesis
    using assms listen_loop_log [of "logged os" fd s1 "(p, s')" os]
    by (auto simp: listen_packet_ack_new_def split: if_splits)
qed

lemma write_log: "os_write (logged os) fd p s = (rc, s1) \<Longrightarrow> snd s1 = snd s @ [p]"
  by (cases s) (auto simp: logged_def split: prod.splits)

lemma read_register_log:
  "read_register (logged os) fd a v k s = Some (rc, v', s') \<Longrightarrow> snd s' = snd s @ [gvcp_read_register_packet a k]"
  by (auto simp: read_register_def bind_eq_Some_conv split: prod.splits dest!: listen_ack_log write_log)

lemma write_register_log:
  "write_register (logged os) fd a x k s = Some (rc, s') \<Longrightarrow> snd s' = snd s @ [gvcp_write_register_packet a x k]"
  by (auto simp: write_register_def bind_eq_Some_conv split: prod.splits dest!: listen_ack_log write_log)

text \<open>\<open>ids_from i n\<close>: the ids of the \<open>n\<close> requests that follow when the variable is \<open>i\<close>.\<close>

definition id_after :: "u32 \<Rightarrow> nat \<Rightarrow> u16" where "id_after i k = ucast (packet_id_of (i + 1 + of_nat k))"

definition ids_from :: "u32 \<Rightarrow> nat \<Rightarrow> u16 list" where "ids_from i n = map (id_after i) [0..<n]"

lemma ids_from_Suc: "ids_from i (Suc n) = id_after i 0 # ids_from (i + 1) n"
  by (simp add: ids_from_def map_upt_Suc id_after_def algebra_simps del: upt_Suc)


lemma access_register_log:
  assumes "access_register (logged os) fd c (i, v, s) = Some (i', v', s')"
  shows "(i' = i \<and> snd s' = snd s) \<or>
    (\<exists>q. i' = i + 1 \<and> snd s' = snd s @ [q] \<and> packet_id_field q = id_after i 0)"
  using assms
  by (cases c) (auto simp: bind_eq_Some_conv next_packet_id_def id_after_def request_ids split: if_splits prod.splits
      dest!: read_register_log write_register_log listen_ack_log write_log)

lemma access_registers_log:
  "access_registers (logged os) fd cs (i, v, s) = Some (i', v', s') \<Longrightarrow>
   \<exists>qs. snd s' = snd s @ qs \<and> map packet_id_field qs = ids_from i (length qs) \<and> length qs \<le> length cs \<and>
     i' = i + of_nat (length qs)"
proof (induction cs arbitrary: i v s)
  case (Cons c cs)
  obtain i1 v1 s1 where c: "access_register (logged os) fd c (i, v, s) = Some (i1, v1, s1)"
      "access_registers (logged os) fd cs (i1, v1, s1) = Some (i', v', s')"
    using Cons.prems by (auto simp: bind_eq_Some_conv)
  obtain qs where qs: "snd s' = snd s1 @ qs" "map packet_id_field qs = ids_from i1 (length qs)" "length qs \<le> length cs"
      "i' = i1 + of_nat (length qs)"
    using Cons.IH [OF c(2)] by blast
  from access_register_log [OF c(1)] show ?case
  proof
    assume "i1 = i \<and> snd s1 = snd s"
    then show ?thesis using qs by (intro exI [of _ qs]) auto
  next
    assume "\<exists>q. i1 = i + 1 \<and> snd s1 = snd s @ [q] \<and> packet_id_field q = id_after i 0"
    then obtain q where "i1 = i + 1" "snd s1 = snd s @ [q]" "packet_id_field q = id_after i 0" by blast
    then show ?thesis using qs by (intro exI [of _ "q # qs"]) (auto simp: ids_from_Suc)
  qed
qed (simp add: ids_from_def)

text \<open>The id depends on the low 12 bits of the variable only.\<close>

lemma packet_id_of_mask: "packet_id_of i = 0xf000 OR take_bit 12 i"
  by (simp add: packet_id_of_def take_bit_eq_mask mask_eq_exp_minus_1)

lemma packet_id_low: "take_bit 12 (packet_id_of i) = take_bit 12 i"
proof -
  have "take_bit 12 (0xf000 :: u32) = 0" by simp
  then show ?thesis by (simp only: packet_id_of_mask take_bit_or take_bit_take_bit or.left_neutral) simp
qed

lemma unat_take_bit_add:
  "unat (take_bit 12 (a + b :: u32)) = (unat (take_bit 12 a) + unat (take_bit 12 b)) mod 4096"
  by (simp only: unsigned_take_bit_eq) (simp add: take_bit_eq_mod unat_word_ariths mod_mod_cancel mod_simps)

lemma packet_id_of_add: "packet_id_of (packet_id_of a + b) = packet_id_of (a + b)"
proof -
  have "unat (take_bit 12 (packet_id_of a + b)) = unat (take_bit 12 (a + b))"
    by (simp only: unat_take_bit_add packet_id_low)
  then show ?thesis unfolding packet_id_of_mask word_unat_eq_iff [symmetric] by simp
qed

lemma id_after_add: "id_after (packet_id_of a) k = id_after a k"
  using packet_id_of_add [of a "1 + of_nat k"] by (simp only: id_after_def add.assoc)

lemma id_after_Suc: "id_after (a + 1) k = id_after a (Suc k)"
  by (simp add: id_after_def algebra_simps)

lemma id_after_low: "unat (take_bit 12 (id_after i k)) = (unat i + 1 + k) mod 4096"
proof -
  let ?x = "i + 1 + of_nat k"
  have "take_bit 12 (id_after i k) = ucast (take_bit 12 (packet_id_of ?x))"
    unfolding id_after_def by (rule bit_word_eqI) (auto simp: bit_take_bit_iff bit_ucast_iff)
  also have "\<dots> = (ucast (take_bit 12 ?x) :: u16)" by (simp only: packet_id_low)
  also have "unat \<dots> = unat ?x mod 4096"
    by (simp only: unsigned_ucast_eq unsigned_take_bit_eq take_bit_take_bit) (simp add: take_bit_eq_mod)
  also have "unat ?x = (unat i + 1 + k) mod 2 ^ 32"
    by (simp add: unat_word_ariths unsigned_of_nat take_bit_eq_mod mod_simps)
  finally show ?thesis by (simp add: mod_mod_cancel)
qed

lemma mod_shift_inj:
  assumes "(c + j) mod m = (c + k) mod m" "j \<le> k" "k < m"
  shows "j = (k :: nat)"
proof -
  have "m dvd (c + k) - (c + j)" using assms by (metis add_le_cancel_left mod_eq_dvd_iff_nat)
  then show ?thesis using assms by (auto dest: dvd_imp_le)
qed

lemma ids_from_distinct: "n \<le> 4096 \<Longrightarrow> distinct (ids_from i n)"
  unfolding ids_from_def distinct_map
proof (intro conjI inj_onI)
  fix j k assume n: "n \<le> 4096" and jk: "j \<in> set [0..<n]" "k \<in> set [0..<n]" "id_after i j = id_after i k"
  then have "(unat i + 1 + j) mod 4096 = (unat i + 1 + k) mod 4096" by (metis id_after_low)
  moreover have "j < 4096" "k < 4096" using jk n by auto
  ultimately show "j = k" using mod_shift_inj [of "unat i + 1"] by (metis nat_le_linear)
qed simp


subsection \<open>A camera that answers late, or not at all\<close>

text \<open>
  A camera whose answers arrive one request late: \<open>pending x\<close> are the environments in which an answer with value
  \<open>x\<close> is still under way.
\<close>

definition late_camera_laws :: "'e gvcp_os \<Rightarrow> int \<Rightarrow> (u32 \<Rightarrow> 'e \<Rightarrow> bool) \<Rightarrow> (u32 \<Rightarrow> u32) \<Rightarrow> bool" where
  "late_camera_laws os fd pending regs \<longleftrightarrow> fd \<noteq> -1 \<and>
     (\<forall>e x a i. pending x e \<longrightarrow> (\<exists>k e'. answers_with os fd (gvcp_read_register_packet a i) e
        (gvcp_ack GVCP_COMMAND_READ_REG_ACK k x) e' \<and> pending (regs a) e'))"

lemma late_read:
  assumes "late_camera_laws os fd pending regs" "pending x e"
  shows "\<exists>e'. access_register os fd (ReadReg a) (i, v, e) = Some (i + 1, x, e') \<and> pending (regs a) e'"
proof -
  obtain k e' where e': "answers_with os fd (gvcp_read_register_packet a (packet_id_of (i + 1))) e
      (gvcp_ack GVCP_COMMAND_READ_REG_ACK k x) e'" "pending (regs a) e'"
    using assms by (fastforce simp: late_camera_laws_def)
  moreover have "fd \<noteq> -1" using assms(1) by (simp add: late_camera_laws_def)
  ultimately obtain rc where "read_register os fd a (Some v) (packet_id_of (i + 1)) e = Some (rc, Some x, e')"
    using read_register_answered [of fd os a "packet_id_of (i + 1)" e] by blast
  then show ?thesis using e'(2) by (simp add: next_packet_id_def)
qed

lemma late_reads:
  assumes laws: "late_camera_laws os fd pending regs" and e: "pending x e"
  shows "\<exists>e'. access_registers os fd (map ReadReg as) (i, v, e) =
       Some (i + of_nat (length as), if as = [] then v else last (x # map regs (butlast as)), e') \<and>
     pending (last (x # map regs as)) e'"
  using e
proof (induction as arbitrary: i v x e)
  case (Cons a as)
  obtain e1 where e1: "access_register os fd (ReadReg a) (i, v, e) = Some (i + 1, x, e1)" "pending (regs a) e1"
    using late_read [OF laws Cons.prems] by blast
  show ?case using Cons.IH [OF e1(2), of "i + 1" x] e1(1) by (auto simp: algebra_simps)
qed simp

definition silent_camera :: "'e gvcp_os \<Rightarrow> int \<Rightarrow> bool" where
  "silent_camera os fd \<longleftrightarrow> (\<forall>e. fst (os_wait os fd e) = WaitTimeout)"

lemma silent_listen: "silent_camera os fd \<Longrightarrow> \<exists>e'. listen_packet_ack_new os fd e = Some (None, e')"
  by (cases "os_epoll os fd e"; cases "os_wait os fd (snd (os_epoll os fd e))")
    (auto simp: listen_packet_ack_new_def listen_loop.simps silent_camera_def dest: spec [of _ "snd (os_epoll os fd e)"])

lemma silent_read: "silent_camera os fd \<Longrightarrow> \<exists>rc e'. read_register os fd a (Some v) i e = Some (rc, Some v, e')"
  using silent_listen [of os fd "snd (os_write os fd (gvcp_read_register_packet a i) e)"]
  by (cases "os_write os fd (gvcp_read_register_packet a i) e") (auto simp: read_register_def gvcp_register_ack_def)

lemma silent_write: "silent_camera os fd \<Longrightarrow> \<exists>rc e'. write_register os fd a x i e = Some (rc, e')"
  using silent_listen [of os fd "snd (os_write os fd (gvcp_write_register_packet a x i) e)"]
  by (cases "os_write os fd (gvcp_write_register_packet a x i) e") (auto simp: write_register_def gvcp_register_ack_def)

lemma silent_access:
  assumes "silent_camera os fd" "good_access c"
  shows "\<exists>i' e'. access_register os fd c (i, v, e) = Some (i', v, e')"
proof (cases c)
  case (ReadReg a)
  obtain rc e' where "read_register os fd a (Some v) (packet_id_of (i + 1)) e = Some (rc, Some v, e')"
    using silent_read [OF assms(1)] by blast
  then show ?thesis by (simp add: ReadReg next_packet_id_def)
next
  case (WriteReg a x)
  obtain rc e' where "write_register os fd a x (packet_id_of (i + 1)) e = Some (rc, e')"
    using silent_write [OF assms(1)] by blast
  then show ?thesis by (simp add: WriteReg next_packet_id_def)
next
  case (WriteBack a)
  obtain rc e' where "write_register os fd a v (packet_id_of (i + 1)) e = Some (rc, e')"
    using silent_write [OF assms(1)] by blast
  then show ?thesis by (simp add: WriteBack next_packet_id_def)
next
  case (WriteUnless a x)
  obtain rc e' where "write_register os fd a x (packet_id_of (i + 1)) e = Some (rc, e')"
    using silent_write [OF assms(1)] by blast
  then show ?thesis by (simp add: WriteUnless next_packet_id_def)
qed (use assms(2) in simp)

lemma silent_accesses:
  assumes "silent_camera os fd"
  shows "\<forall>c \<in> set cs. good_access c \<Longrightarrow> \<exists>i' e'. access_registers os fd cs (i, v, e) = Some (i', v, e')"
proof (induction cs arbitrary: i e)
  case (Cons c cs)
  obtain i1 e1 where "access_register os fd c (i, v, e) = Some (i1, v, e1)"
    using silent_access [OF assms, of c i v e] Cons.prems by auto
  then show ?case using Cons.IH [of i1 e1] Cons.prems by auto
qed simp


subsection \<open>A register file as a camera\<close>

definition register_file :: "((u32 \<Rightarrow> u32) \<times> byte list list) gvcp_os" where
  "register_file = \<lparr>os_write = (\<lambda>fd p (r, q). (int (length p),
       let a = of_be_bytes (take 4 (drop 8 p)) in
       if length p = 12 then (r, q @ [gvcp_ack GVCP_COMMAND_READ_REG_ACK (packet_id_field p) (r a)])
       else (r(a := of_be_bytes (take 4 (drop 12 p))), q @ [gvcp_ack GVCP_COMMAND_WRITE_REG_ACK (packet_id_field p) 1]))),
     os_epoll = (\<lambda>fd e. (True, e)),
     os_wait = (\<lambda>fd (r, q). case q of [] \<Rightarrow> (WaitTimeout, r, q) | p # q' \<Rightarrow> (Datagram p, r, q'))\<rparr>"

lemma request_fields:
  "drop 8 (gvcp_read_register_packet a i) = be_bytes 4 a"
  "take 4 (drop 8 (gvcp_write_register_packet a x i)) = be_bytes 4 a"
  "drop 12 (gvcp_write_register_packet a x i) = be_bytes 4 x"
  "length (gvcp_read_register_packet a i) = 12" "length (gvcp_write_register_packet a x i) = 16"
  by (simp_all add: gvcp_read_register_packet_def gvcp_write_register_packet_def)

lemma register_file_laws: "camera_laws register_file 3 (\<lambda>e. snd e = []) fst"
  unfolding camera_laws_def answers_with_def
  by (auto simp: register_file_def request_fields request_ids of_be_bytes_be_bytes)

lemma register_file_late:
  "late_camera_laws register_file 3 (\<lambda>x e. fst e = r \<and> (\<exists>k. snd e = [gvcp_ack GVCP_COMMAND_READ_REG_ACK k x])) r"
  unfolding late_camera_laws_def answers_with_def
  by (force simp: register_file_def request_fields request_ids of_be_bytes_be_bytes)

text \<open>A camera that is switched off: every wait ends without an answer.\<close>

definition switched_off :: "unit gvcp_os" where
  "switched_off = \<lparr>os_write = (\<lambda>fd p e. (int (length p), e)), os_epoll = (\<lambda>fd e. (True, e)),
     os_wait = (\<lambda>fd e. (WaitTimeout, e))\<rparr>"

lemma switched_off_silent: "silent_camera switched_off fd"
  by (simp add: silent_camera_def switched_off_def)

lemma gvcp_init_result:
  assumes "camera_laws os fd idle regs" "idle e"
  shows "\<exists>e'. gvcp_init os (Some (ip, port)) junk fd packet_id e =
       Some (min (regs e GV_STREAM_CHANNEL_0_PACKET_SIZE_OFFSET) DEFAULT_PACKET_SIZE, e') \<and> idle e' \<and>
     regs e' = (regs e)(GV_CONTROL_CHANNEL_PRIVILEGE_OFFSET := 2, GV_STREAM_CHANNEL_0_IP_ADDRESS_OFFSET := ip,
       GV_STREAM_CHANNEL_0_PORT_OFFSET := ucast port,
       GV_STREAM_CHANNEL_0_PACKET_SIZE_OFFSET := min (regs e GV_STREAM_CHANNEL_0_PACKET_SIZE_OFFSET) DEFAULT_PACKET_SIZE)"
proof -
  let ?cs = "[ReadReg GV_GVCP_CAPABILITY_OFFSET, WriteReg GV_CONTROL_CHANNEL_PRIVILEGE_OFFSET 0x02,
    WriteReg GV_STREAM_CHANNEL_0_IP_ADDRESS_OFFSET ip, WriteReg GV_STREAM_CHANNEL_0_PORT_OFFSET (ucast port)]"
  obtain rc v1 e1 where r1: "read_register os fd GV_REGISTER_N_STREAM_CHANNELS_OFFSET (Some (-1)) packet_id e =
      Some (rc, Some v1, e1)" "idle e1" "regs e1 = regs e"
    using camera_read [OF assms] by blast
  obtain i2 v2 e2 where r2: "access_registers os fd ?cs (packet_id, v1, e1) = Some (i2, v2, e2)" "idle e2"
      "(v2, regs e2) = reg_effects ?cs (v1, regs e1)"
    using access_registers_effects [OF assms(1) r1(2), of ?cs packet_id v1] by auto
  let ?size = "regs e GV_STREAM_CHANNEL_0_PACKET_SIZE_OFFSET"
  have regs2: "regs e2 = (regs e)(GV_CONTROL_CHANNEL_PRIVILEGE_OFFSET := 2, GV_STREAM_CHANNEL_0_IP_ADDRESS_OFFSET := ip,
      GV_STREAM_CHANNEL_0_PORT_OFFSET := ucast port)"
    using r2(3) r1(3) by simp
  have size2: "regs e2 GV_STREAM_CHANNEL_0_PACKET_SIZE_OFFSET = ?size" by (simp add: regs2 gv_register_defs)
  obtain i3 e3 where r3: "access_register os fd (ReadReg GV_STREAM_CHANNEL_0_PACKET_SIZE_OFFSET) (i2, 0, e2) =
      Some (i3, ?size, e3)" "idle e3" "regs e3 = regs e2"
    using access_register_effect [OF assms(1) r2(2), of "ReadReg GV_STREAM_CHANNEL_0_PACKET_SIZE_OFFSET" i2 0] size2 by auto
  note r = r1(1) r2(1) r3(1)
  show ?thesis
  proof (cases "DEFAULT_PACKET_SIZE < ?size")
    case True
    obtain i4 e4 where r4: "access_register os fd (WriteReg GV_STREAM_CHANNEL_0_PACKET_SIZE_OFFSET DEFAULT_PACKET_SIZE)
        (i3, DEFAULT_PACKET_SIZE, e3) = Some (i4, DEFAULT_PACKET_SIZE, e4)" "idle e4"
        "regs e4 = (regs e3)(GV_STREAM_CHANNEL_0_PACKET_SIZE_OFFSET := DEFAULT_PACKET_SIZE)"
      using access_register_effect [OF assms(1) r3(2),
        of "WriteReg GV_STREAM_CHANNEL_0_PACKET_SIZE_OFFSET DEFAULT_PACKET_SIZE" i3 DEFAULT_PACKET_SIZE] by auto
    have "gvcp_init os (Some (ip, port)) junk fd packet_id e = Some (DEFAULT_PACKET_SIZE, e4)"
      unfolding gvcp_init_def get_net_parameters_from_socket_def using True r r4(1) by (simp del: access_register.simps access_registers.simps)
    then show ?thesis using r4(2,3) r3(3) regs2 by (simp add: min.absorb4 [OF True])
  next
    case False
    have "gvcp_init os (Some (ip, port)) junk fd packet_id e = Some (?size, e3)"
      unfolding gvcp_init_def get_net_parameters_from_socket_def using False r by (simp del: access_register.simps access_registers.simps)
    moreover have "regs e3 = (regs e3)(GV_STREAM_CHANNEL_0_PACKET_SIZE_OFFSET := ?size)"
      using size2 r3(3) by (simp add: fun_eq_iff)
    moreover have "?size \<le> DEFAULT_PACKET_SIZE" using False by simp
    ultimately show ?thesis using r3(2,3) regs2 by (simp add: min.absorb1)
  qed
qed


lemma gvcp_init_silent:
  assumes "silent_camera os fd"
  shows "\<exists>e'. gvcp_init os sockname junk fd packet_id e = Some (0, e')"
proof -
  obtain rc ip port where n: "get_net_parameters_from_socket sockname junk = (rc, ip, port)" by (metis prod_cases3)
  let ?cs = "[ReadReg GV_GVCP_CAPABILITY_OFFSET, WriteReg GV_CONTROL_CHANNEL_PRIVILEGE_OFFSET 0x02,
    WriteReg GV_STREAM_CHANNEL_0_IP_ADDRESS_OFFSET ip, WriteReg GV_STREAM_CHANNEL_0_PORT_OFFSET port]"
  obtain rc1 e1 where r1: "read_register os fd GV_REGISTER_N_STREAM_CHANNELS_OFFSET (Some (-1)) packet_id e =
      Some (rc1, Some (-1), e1)"
    using silent_read [OF assms] by blast
  obtain i2 e2 where r2: "access_registers os fd ?cs (packet_id, -1, e1) = Some (i2, -1, e2)"
    using silent_accesses [OF assms, of ?cs packet_id "-1" e1] by auto
  obtain i3 e3 where r3: "access_register os fd (ReadReg GV_STREAM_CHANNEL_0_PACKET_SIZE_OFFSET) (i2, 0, e2) = Some (i3, 0, e3)"
    using silent_access [OF assms, of "ReadReg GV_STREAM_CHANNEL_0_PACKET_SIZE_OFFSET" i2 0 e2] by auto
  show ?thesis
    unfolding gvcp_init_def n using r1 r2 r3
    by (simp add: DEFAULT_PACKET_SIZE_def del: access_register.simps access_registers.simps)
qed

subsection \<open>Properties\<close>

text \<open>C15: A sequence of register accesses implements its effect on the registers: with a camera that answers in time, the
  packets sent and received change the registers of the camera, and the variable that the accesses share, exactly as the
  sequence says when it is run on a table of registers, and no answer is left over.\<close>

theorem register_accesses_refine:
  assumes "camera_laws os fd idle regs" "idle e" "\<forall>c \<in> set cs. good_access c"
  shows "\<exists>i' v' e'. access_registers os fd cs (i, v, e) = Some (i', v', e') \<and> idle e' \<and>
     (v', regs e') = reg_effects cs (v, regs e)"
  by (rule access_registers_effects [OF assms])

theorem register_accesses_refine_witness:
  "\<exists>i' v' e'. access_registers register_file 3 [ReadReg 0x10, WriteBack 0x14, WriteReg 0x10 1] (0, 7, \<lambda>a. a, []) =
     Some (i', v', e') \<and> snd e' = [] \<and> v' = 0x10 \<and> fst e' = (\<lambda>a. a)(0x14 := 0x10, 0x10 := 1)"
proof -
  let ?cs = "[ReadReg 0x10, WriteBack 0x14, WriteReg 0x10 1]"
  have "\<exists>i' v' e'. access_registers register_file 3 ?cs (0, 7, \<lambda>a. a, []) = Some (i', v', e') \<and> snd e' = [] \<and>
      (v', fst e') = reg_effects ?cs (7, \<lambda>a. a)"
    using register_accesses_refine [OF register_file_laws, of "(\<lambda>a. a, [])" ?cs 0 7] by simp
  then show ?thesis by (simp only: reg_effects.simps reg_effect.simps prod.inject)
qed

text \<open>C31: Setting up a camera: \<open>gvcp_init\<close> leaves the control privilege taken, the address and port of the data socket as the
  destination of the stream, and a packet size of at most 8000 in the camera, which it returns; every other
  register keeps its value.\<close>

theorem gvcp_init_configures_camera:
  assumes "camera_laws os fd idle regs" "idle e"
  shows "\<exists>e'. gvcp_init os (Some (ip, port)) junk fd packet_id e =
       Some (min (regs e GV_STREAM_CHANNEL_0_PACKET_SIZE_OFFSET) DEFAULT_PACKET_SIZE, e') \<and> idle e' \<and>
     regs e' = (regs e)(GV_CONTROL_CHANNEL_PRIVILEGE_OFFSET := 2, GV_STREAM_CHANNEL_0_IP_ADDRESS_OFFSET := ip,
       GV_STREAM_CHANNEL_0_PORT_OFFSET := ucast port,
       GV_STREAM_CHANNEL_0_PACKET_SIZE_OFFSET := min (regs e GV_STREAM_CHANNEL_0_PACKET_SIZE_OFFSET) DEFAULT_PACKET_SIZE)"
  using assms by (rule gvcp_init_result)

theorem gvcp_init_configures_camera_witness:
  "\<exists>e'. gvcp_init register_file (Some (0x0a000102, 3000)) (0, 0) 3 0xf001 (\<lambda>a. 9000, []) = Some (8000, e') \<and> snd e' = [] \<and>
     fst e' = (\<lambda>a. 9000)(0xa00 := 2, 0xd18 := 0x0a000102, 0xd00 := 3000, 0xd04 := 8000)"
proof -
  have "min (9000 :: u32) DEFAULT_PACKET_SIZE = 8000" by (simp add: DEFAULT_PACKET_SIZE_def min_def)
  then show ?thesis
    using gvcp_init_configures_camera [OF register_file_laws, where e = "(\<lambda>a. 9000, [])" and ip = "0x0a000102" and port = 3000
        and junk = "(0, 0)" and packet_id = "0xf001"]
    by (simp add: gv_register_defs)
qed

text \<open>A camera that does not answer is noticed: the packet size is then 0, which \<open>gige_camera_init\<close> takes for a failure.\<close>

theorem gvcp_init_silent_camera:
  assumes "silent_camera os fd"
  shows "\<exists>e'. gvcp_init os sockname junk fd packet_id e = Some (0, e')"
  using assms by (rule gvcp_init_silent)

theorem gvcp_init_silent_camera_witness:
  "\<exists>e'. gvcp_init switched_off (Some (0x0a000102, 3000)) (0, 0) 3 0xf001 () = Some (0, e')"
  by (rule gvcp_init_silent_camera [OF switched_off_silent])

text \<open>The ids of the requests of a sequence: they follow the parameter one after the other, and no two of up to 4096
  requests have the same id, whatever the camera answers.\<close>

theorem request_ids_distinct:
  assumes "access_registers (logged os) fd cs (i, v, e, []) = Some (i', v', e', ps)" "length cs \<le> 4096"
  shows "map packet_id_field ps = ids_from i (length ps) \<and> distinct (map packet_id_field ps)"
proof -
  obtain qs where "ps = qs" "map packet_id_field qs = ids_from i (length qs)" "length qs \<le> length cs"
    using access_registers_log [OF assms(1)] by auto
  then show ?thesis using assms(2) ids_from_distinct [of "length qs" i] by auto
qed

theorem request_ids_distinct_witness:
  "map packet_id_field (snd (snd (snd (the (access_registers (logged switched_off) 3 [ReadReg 1, WriteReg 2 3] (0xf001, 0, (), [])))))) =
     ids_from 0xf001 2"
proof -
  let ?s = "access_registers (logged switched_off) 3 [ReadReg 1, WriteReg 2 3] (0xf001, 0, (), [])"
  have s: "?s = Some (0xf003, 0, (), [gvcp_read_register_packet 1 0xf002, gvcp_write_register_packet 2 3 0xf003])"
    by (simp add: next_packet_id_def packet_id_of_def read_register_def write_register_def logged_def switched_off_def
        listen_packet_ack_new_def listen_loop.simps gvcp_register_ack_def)
  have "map packet_id_field (snd (snd (snd (the ?s)))) = ids_from 0xf001 (length (snd (snd (snd (the ?s)))))"
    using request_ids_distinct [OF s] unfolding s by simp
  then show ?thesis unfolding s by (simp add: numeral_2_eq_2)
qed

text \<open>C36: An answer that comes late spoils all the following reads: answers are not compared with the request, so while one
  answer is left over every read returns the register that was asked for before it, and the answer of the last
  read is left over again.\<close>

theorem late_answers_shift:
  assumes "late_camera_laws os fd pending regs" "pending x e"
  shows "\<exists>i' e'. access_registers os fd (map ReadReg (as @ [a, b])) (i, v, e) = Some (i', regs a, e') \<and> pending (regs b) e'"
  using late_reads [OF assms, of "as @ [a, b]" i v] by (auto simp: butlast_append)

theorem late_answers_shift_witness:
  "\<exists>i' e'. access_registers register_file 3 (map ReadReg ([] @ [0x10, 0x14])) (0, 0, \<lambda>a. a, [gvcp_ack GVCP_COMMAND_READ_REG_ACK 5 99]) =
     Some (i', 0x10, e') \<and> fst e' = (\<lambda>a. a)"
  using late_answers_shift [OF register_file_late [of "\<lambda>a. a"], where x = 99 and a = "0x10" and b = "0x14" and i = 0 and v = 0
      and as = "[]" and e = "(\<lambda>a. a, [gvcp_ack GVCP_COMMAND_READ_REG_ACK 5 99])"]
  by auto

end
