(* ===== verification/Discovery.thy ===== *)
theory Discovery imports Gvcp External begin

section \<open>Finding cameras\<close>

text \<open>
  \<^verbatim>\<open>libcapture/GigE/src/interface.c\<close> and \<^verbatim>\<open>device.c\<close>: the network interfaces, the broadcast on each, the answers and
  the list of devices made of them. Interfaces and devices live in stores of allocated memory; the world also has
  the open descriptors, the descriptors \<open>close\<close> was called for, and what was broadcast.
  What the system answers are arguments; memory allocation succeeds.
\<close>

definition AF_INET :: int where "AF_INET = 2"
definition GVCP_DEVICE_PORT :: u16 where "GVCP_DEVICE_PORT = 3956"
definition GV_DEVICE_BUFFER_SIZE :: nat where "GV_DEVICE_BUFFER_SIZE = 16384"

subsection \<open>Discovery\<close>

definition GVCP_MANUFACTURER_NAME_OFFSET :: nat where "GVCP_MANUFACTURER_NAME_OFFSET = 0x48"
definition GVCP_MODEL_NAME_OFFSET :: nat where "GVCP_MODEL_NAME_OFFSET = 0x68"
definition GVCP_SERIAL_NUMBER_OFFSET :: nat where "GVCP_SERIAL_NUMBER_OFFSET = 0xd8"
definition GVCP_USER_DEFINED_NAME_OFFSET :: nat where "GVCP_USER_DEFINED_NAME_OFFSET = 0xe8"
definition GVCP_DEVICE_MAC_ADDRESS_HIGH_OFFSET :: nat where "GVCP_DEVICE_MAC_ADDRESS_HIGH_OFFSET = 0x08"
definition GVCP_MANUFACTURER_NAME_SIZE :: nat where "GVCP_MANUFACTURER_NAME_SIZE = 32"
definition GVCP_MODEL_NAME_SIZE :: nat where "GVCP_MODEL_NAME_SIZE = 32"
definition GVCP_SERIAL_NUMBER_SIZE :: nat where "GVCP_SERIAL_NUMBER_SIZE = 16"
definition GVCP_USER_DEFINED_NAME_SIZE :: nat where "GVCP_USER_DEFINED_NAME_SIZE = 16"

lemmas discovery_field_defs = GVCP_MANUFACTURER_NAME_OFFSET_def GVCP_MODEL_NAME_OFFSET_def GVCP_SERIAL_NUMBER_OFFSET_def
  GVCP_USER_DEFINED_NAME_OFFSET_def GVCP_DEVICE_MAC_ADDRESS_HIGH_OFFSET_def GVCP_MANUFACTURER_NAME_SIZE_def
  GVCP_MODEL_NAME_SIZE_def GVCP_SERIAL_NUMBER_SIZE_def GVCP_USER_DEFINED_NAME_SIZE_def

text \<open>The strings of a device that the answer fills; each buffer has a byte more than the field of the packet.\<close>

record device_names =
  dn_vendor :: string
  dn_model :: string
  dn_serial :: string
  dn_user_id :: string
  dn_mac :: string

definition char_of_byte :: "byte \<Rightarrow> char" where "char_of_byte b = char_of (unat b)"

text \<open>The string at an offset of the data, up to the next NUL wherever it is, copied to a buffer of \<open>n\<close> bytes.\<close>

definition copy_packet_string :: "byte list \<Rightarrow> nat \<Rightarrow> nat \<Rightarrow> string option" where
  "copy_packet_string packet off n = do {
     s \<leftarrow> cstr (map char_of_byte (drop (8 + off) packet));
     strcpy_buf n s }"

definition hex_digit :: "nat \<Rightarrow> char" where "hex_digit n = ''0123456789abcdef'' ! n"

definition print_hhx :: "byte \<Rightarrow> string" where
  "print_hhx b = [hex_digit (unat b div 16), hex_digit (unat b mod 16)]"

definition print_mac :: "byte list \<Rightarrow> string" where
  "print_mac bs = concat (map (\<lambda>b. print_hhx b @ '':'') (butlast bs)) @ print_hhx (last bs)"

text \<open>\<open>packet\<close> is the whole buffer the datagram was received into.\<close>

definition gvcp_discovery_ack :: "device_names \<Rightarrow> byte list option \<Rightarrow> (int \<times> device_names) option" where
  "gvcp_discovery_ack d p_packet =
     (case p_packet of
        None \<Rightarrow> Some (-1, d)
      | Some packet \<Rightarrow> do {
          command \<leftarrow> region_read packet 2 2;
          i \<leftarrow> region_read packet 6 2;
          if of_be_bytes command = GVCP_COMMAND_DISCOVERY_ACK \<and> of_be_bytes i = (0xffff :: u16) then do {
            vendor \<leftarrow> copy_packet_string packet GVCP_MANUFACTURER_NAME_OFFSET (GVCP_MANUFACTURER_NAME_SIZE + 1);
            model \<leftarrow> copy_packet_string packet GVCP_MODEL_NAME_OFFSET (GVCP_MODEL_NAME_SIZE + 1);
            serial \<leftarrow> copy_packet_string packet GVCP_SERIAL_NUMBER_OFFSET (GVCP_SERIAL_NUMBER_SIZE + 1);
            user_id \<leftarrow> copy_packet_string packet GVCP_USER_DEFINED_NAME_OFFSET (GVCP_USER_DEFINED_NAME_SIZE + 1);
            bs \<leftarrow> region_read packet (8 + GVCP_DEVICE_MAC_ADDRESS_HIGH_OFFSET + 2) 6;
            mac \<leftarrow> strcpy_buf 18 (print_mac bs);
            Some (0, \<lparr>dn_vendor = vendor, dn_model = model, dn_serial = serial, dn_user_id = user_id, dn_mac = mac\<rparr>) }
          else Some (0, d) })"

subsection \<open>Data\<close>

text \<open>A \<open>struct sockaddr\<close> with the address in host order.\<close>

record sockaddr =
  sk_family :: int
  sk_ip :: u32
  sk_port :: u16

text \<open>\<open>struct interface\<close> and \<open>struct device\<close>.\<close>

record net_interface =
  ni_fd :: int
  ni_name :: string
  ni_addr :: "sockaddr option"
  ni_netmask :: "sockaddr option"

record device =
  dv_fd :: int
  dv_ip :: string
  dv_port :: string
  dv_names :: device_names
  dv_iface_addr :: sockaddr

record capture_world =
  cw_ifaces :: "addr \<Rightarrow> net_interface option"
  cw_devices :: "addr \<Rightarrow> device option"
  cw_fresh :: addr
  cw_open :: "int list"
  cw_closes :: "int list"
  cw_sent :: "(int \<times> byte list) list"

definition close_descriptor :: "int \<Rightarrow> capture_world \<Rightarrow> capture_world" where
  "close_descriptor fd w = w\<lparr>cw_open := removeAll fd (cw_open w), cw_closes := cw_closes w @ [fd]\<rparr>"

subsection \<open>Interfaces\<close>

definition interface_add ::
  "'l list_ops \<Rightarrow> 'l \<Rightarrow> int \<Rightarrow> string option \<Rightarrow> sockaddr option \<Rightarrow> sockaddr option \<Rightarrow> capture_world \<Rightarrow>
     (addr \<times> 'l \<times> int \<times> capture_world) option" where
  "interface_add L l cnt name address netmask w = do {
     n \<leftarrow> (case name of None \<Rightarrow> Some [] | Some s \<Rightarrow> strcpy_buf 80 s);
     let a = cw_fresh w;
     Some (a, list_add_back L l a, cnt + 1,
       w\<lparr>cw_ifaces := (cw_ifaces w)(a \<mapsto> \<lparr>ni_fd = -1, ni_name = n, ni_addr = address, ni_netmask = netmask\<rparr>),
         cw_fresh := Suc a\<rparr>) }"

definition interface_delete :: "'l list_ops \<Rightarrow> 'l \<Rightarrow> int \<Rightarrow> addr \<Rightarrow> capture_world \<Rightarrow> ('l \<times> int \<times> capture_world) option" where
  "interface_delete L l cnt a w = do {
     i \<leftarrow> cw_ifaces w a;
     let w = close_descriptor (ni_fd i) w;
     Some (list_remove_elem L l a, cnt - 1, w\<lparr>cw_ifaces := (cw_ifaces w)(a := None)\<rparr>) }"

partial_function (option) ifaces_destroy ::
  "'l list_ops \<Rightarrow> 'l \<Rightarrow> int \<Rightarrow> capture_world \<Rightarrow> ('l \<times> int \<times> capture_world) option" where
  "ifaces_destroy L l cnt w =
     (case list_walk L l of
        [] \<Rightarrow> Some (l, cnt, w)
      | a # _ \<Rightarrow> do {
          (l', cnt', w') \<leftarrow> interface_delete L l cnt a w;
          ifaces_destroy L l' cnt' w' })"

text \<open>
  \<open>fd\<close> is what \<open>socket\<close> answers, \<open>bound\<close> whether \<open>bind\<close> succeeds. The broadcast is the discovery packet; the result of
  \<open>sendto\<close> is not used.
\<close>

definition send_broadcast_discovery ::
  "int \<Rightarrow> bool \<Rightarrow> net_interface \<Rightarrow> capture_world \<Rightarrow> (int \<times> net_interface \<times> capture_world) option" where
  "send_broadcast_discovery fd bound iface w =
     (if fd = -1 then Some (-1, iface, w)
      else do {
        address \<leftarrow> ni_addr iface;
        let iface = iface\<lparr>ni_addr := Some (address\<lparr>sk_port := 0\<rparr>)\<rparr>;
        let w = w\<lparr>cw_open := fd # cw_open w\<rparr>;
        if \<not> bound then Some (-1, iface, w)
        else Some (fd, iface, w\<lparr>cw_sent := cw_sent w @ [(fd, gvcp_discovery_packet)]\<rparr>) })"

text \<open>An entry of \<open>getifaddrs\<close>, with what \<open>socket\<close> and \<open>bind\<close> answer for it.\<close>

record ifaddr =
  ia_up :: bool
  ia_pointopoint :: bool
  ia_name :: string
  ia_addr :: "sockaddr option"
  ia_netmask :: "sockaddr option"
  ia_socket :: int
  ia_bound :: bool

definition ifaddr_used :: "ifaddr \<Rightarrow> bool" where
  "ifaddr_used i \<longleftrightarrow> ia_up i \<and> \<not> ia_pointopoint i \<and>
     (case ia_addr i of None \<Rightarrow> False | Some address \<Rightarrow> sk_family address = AF_INET)"

fun add_interfaces ::
  "'l list_ops \<Rightarrow> ifaddr list \<Rightarrow> 'l \<times> int \<times> capture_world \<Rightarrow> ('l \<times> int \<times> capture_world) option" where
  "add_interfaces L [] s = Some s"
| "add_interfaces L (i # is) (l, cnt, w) =
     (if ifaddr_used i then do {
        (a, l, cnt, w) \<leftarrow> interface_add L l cnt (Some (ia_name i)) (ia_addr i) (ia_netmask i) w;
        iface \<leftarrow> cw_ifaces w a;
        (fd, iface, w) \<leftarrow> send_broadcast_discovery (ia_socket i) (ia_bound i) iface w;
        add_interfaces L is (l, cnt, w\<lparr>cw_ifaces := (cw_ifaces w)(a \<mapsto> iface\<lparr>ni_fd := fd\<rparr>)\<rparr>) }
      else add_interfaces L is (l, cnt, w))"

text \<open>\<open>getifaddrs\<close> may fail (\<open>None\<close>); then the result is NULL.\<close>

definition prepare_interfaces_list ::
  "'l list_ops \<Rightarrow> ifaddr list option \<Rightarrow> capture_world \<Rightarrow> (('l \<times> int) option \<times> capture_world) option" where
  "prepare_interfaces_list L ifap w =
     (case ifap of
        None \<Rightarrow> Some (None, w)
      | Some is \<Rightarrow> do { (l, cnt, w) \<leftarrow> add_interfaces L is (list_init L, 0, w); Some (Some (l, cnt), w) })"

subsection \<open>Answers\<close>

text \<open>
  What \<open>listen_discovery_answer\<close> meets on the socket of an interface: errors of \<open>select\<close> and \<open>recvfrom\<close>, with or without
  EAGAIN or EINTR, and datagrams with the address they come from. When the list is empty, \<open>select\<close> finds nothing.
\<close>

datatype discovery_event = SelectRetry | SelectFails | ReceiveRetry | ReceiveFailed | Received sockaddr "byte list"

text \<open>A descriptor that \<open>FD_SET\<close> can handle.\<close>

definition selectable :: "int \<Rightarrow> bool" where "selectable fd \<longleftrightarrow> 0 \<le> fd \<and> fd < 1024"

text \<open>Answers from the machine itself count on the loopback only, others from the network of the interface only.\<close>

definition answer_ignored :: "u32 \<Rightarrow> u32 \<Rightarrow> u32 \<Rightarrow> bool" where
  "answer_ignored ip_local ip_netmask ip_remote \<longleftrightarrow>
     ip_local = ip_remote \<and> ip_local AND ip_netmask \<noteq> 0x7f000000 \<or>
     ip_local AND ip_netmask \<noteq> ip_remote AND ip_netmask"

text \<open>
  \<open>junk\<close> is the memory the datagram is received into. The result: the packet with the sender's address and the
  events that are left, or nothing, and then the socket is closed.
\<close>

fun listen_discovery_answer ::
  "byte list \<Rightarrow> net_interface \<Rightarrow> discovery_event list \<Rightarrow> ((byte list \<times> sockaddr) option \<times> discovery_event list) option" where
  "listen_discovery_answer junk iface [] = (if selectable (ni_fd iface) then Some (None, []) else None)"
| "listen_discovery_answer junk iface (ev # evs) =
     (if \<not> selectable (ni_fd iface) then None
      else (case ev of
          SelectRetry \<Rightarrow> listen_discovery_answer junk iface evs
        | SelectFails \<Rightarrow> Some (None, evs)
        | ReceiveRetry \<Rightarrow> listen_discovery_answer junk iface evs
        | ReceiveFailed \<Rightarrow> Some (None, evs)
        | Received remote bs \<Rightarrow>
            if length bs \<le> 8 then listen_discovery_answer junk iface evs
            else do {
              address \<leftarrow> ni_addr iface;
              netmask \<leftarrow> ni_netmask iface;
              if answer_ignored (sk_ip address) (sk_ip netmask) (sk_ip remote)
              then listen_discovery_answer junk iface evs
              else let bs = take GV_DEVICE_BUFFER_SIZE bs in
                Some (Some (bs @ drop (length bs) junk, remote), evs) }))"

lemma listen_discovery_shrinks:
  "listen_discovery_answer junk iface evs = Some (Some p, rest) \<Longrightarrow> length rest < length evs"
  by (induction evs)
    (auto simp: bind_eq_Some_conv less_Suc_eq split: if_splits discovery_event.splits)

subsection \<open>Devices\<close>

text \<open>\<open>nameinfo\<close> is \<open>getnameinfo\<close> with numeric results; when it fails the strings are those of no address.\<close>

definition no_names :: device_names where
  "no_names = \<lparr>dn_vendor = [], dn_model = [], dn_serial = [], dn_user_id = [], dn_mac = []\<rparr>"

definition device_create :: "(sockaddr \<Rightarrow> (string \<times> string) option) \<Rightarrow> sockaddr \<Rightarrow> sockaddr \<Rightarrow> device" where
  "device_create nameinfo iface_addr device_addr =
     (case nameinfo device_addr of
        None \<Rightarrow> \<lparr>dv_fd = -1, dv_ip = ''0.0.0.0'', dv_port = ''0'', dv_names = no_names, dv_iface_addr = iface_addr\<rparr>
      | Some (ip, port) \<Rightarrow> \<lparr>dv_fd = -1, dv_ip = ip, dv_port = port, dv_names = no_names, dv_iface_addr = iface_addr\<rparr>)"

definition device_add ::
  "'l list_ops \<Rightarrow> device \<Rightarrow> 'l \<Rightarrow> int \<Rightarrow> capture_world \<Rightarrow> addr \<times> 'l \<times> int \<times> capture_world" where
  "device_add L dev l cnt w =
     (let a = cw_fresh w in
      (a, list_add_back L l a, cnt + 1, w\<lparr>cw_devices := (cw_devices w)(a \<mapsto> dev), cw_fresh := Suc a\<rparr>))"

definition device_delete :: "'l list_ops \<Rightarrow> 'l \<Rightarrow> int \<Rightarrow> addr \<Rightarrow> capture_world \<Rightarrow> ('l \<times> int \<times> capture_world) option" where
  "device_delete L l cnt a w = do {
     d \<leftarrow> cw_devices w a;
     let w = close_descriptor (dv_fd d) w;
     Some (list_remove_elem L l a, cnt - 1, w\<lparr>cw_devices := (cw_devices w)(a := None)\<rparr>) }"

partial_function (option) devices_destroy ::
  "'l list_ops \<Rightarrow> 'l \<Rightarrow> int \<Rightarrow> capture_world \<Rightarrow> ('l \<times> int \<times> capture_world) option" where
  "devices_destroy L l cnt w =
     (case list_walk L l of
        [] \<Rightarrow> Some (l, cnt, w)
      | a # _ \<Rightarrow> do {
          (l', cnt', w') \<leftarrow> device_delete L l cnt a w;
          devices_destroy L l' cnt' w' })"

text \<open>The answers of one interface: each becomes a device; the socket is closed when there are no more.\<close>

function interface_devices ::
  "'l list_ops \<Rightarrow> (sockaddr \<Rightarrow> (string \<times> string) option) \<Rightarrow> byte list \<Rightarrow> net_interface \<Rightarrow> discovery_event list \<Rightarrow>
     'l \<times> int \<times> capture_world \<Rightarrow> ('l \<times> int \<times> capture_world) option" where
  "interface_devices L nameinfo junk iface evs (l, cnt, w) =
     (case listen_discovery_answer junk iface evs of
        None \<Rightarrow> None
      | Some (None, rest) \<Rightarrow> Some (l, cnt, close_descriptor (ni_fd iface) w)
      | Some (Some (packet, remote), rest) \<Rightarrow> do {
          address \<leftarrow> ni_addr iface;
          (rc, names) \<leftarrow> gvcp_discovery_ack no_names (Some packet);
          let dev = (device_create nameinfo address remote)\<lparr>dv_names := names\<rparr>;
          let (a, l, cnt, w) = device_add L dev l cnt w;
          interface_devices L nameinfo junk iface rest (l, cnt, w) })"
  by pat_completeness auto
termination
  by (relation "measure (\<lambda>(L, nameinfo, junk, iface, evs, s). length evs)") (auto dest: listen_discovery_shrinks)

declare interface_devices.simps [simp del]

fun all_devices ::
  "'l list_ops \<Rightarrow> (sockaddr \<Rightarrow> (string \<times> string) option) \<Rightarrow> byte list \<Rightarrow> (addr \<Rightarrow> discovery_event list) \<Rightarrow> addr list \<Rightarrow>
     'l \<times> int \<times> capture_world \<Rightarrow> ('l \<times> int \<times> capture_world) option" where
  "all_devices L nameinfo junk evs [] s = Some s"
| "all_devices L nameinfo junk evs (a # as) (l, cnt, w) = do {
     iface \<leftarrow> cw_ifaces w a;
     address \<leftarrow> ni_addr iface;
     s \<leftarrow> interface_devices L nameinfo junk iface (evs a) (l, cnt, w);
     all_devices L nameinfo junk evs as s }"

text \<open>\<open>evs\<close> gives what arrives at an interface. The list of devices and the world.\<close>

definition prepare_devices_list ::
  "'l list_ops \<Rightarrow> ifaddr list option \<Rightarrow> (sockaddr \<Rightarrow> (string \<times> string) option) \<Rightarrow> byte list \<Rightarrow>
     (addr \<Rightarrow> discovery_event list) \<Rightarrow> capture_world \<Rightarrow> ('l \<times> int \<times> capture_world) option" where
  "prepare_devices_list L ifap nameinfo junk evs w = do {
     (p_ifaces, w) \<leftarrow> prepare_interfaces_list L ifap w;
     (ifaces, n) \<leftarrow> p_ifaces;
     (l, cnt, w) \<leftarrow> all_devices L nameinfo junk evs (list_walk L ifaces) (list_init L, 0, w);
     (ifaces, n, w) \<leftarrow> ifaces_destroy L ifaces n w;
     Some (l, cnt, w) }"

fun find_device :: "string \<Rightarrow> (addr \<Rightarrow> device option) \<Rightarrow> addr list \<Rightarrow> addr option option" where
  "find_device id_string devs [] = Some None"
| "find_device id_string devs (a # as) = do {
     d \<leftarrow> devs a;
     if dv_ip d = id_string then Some (Some a) else find_device id_string devs as }"

text \<open>\<open>device_find\<close>: the device with an address, or NULL and then the devices are freed.\<close>

definition device_find ::
  "'l list_ops \<Rightarrow> ifaddr list option \<Rightarrow> (sockaddr \<Rightarrow> (string \<times> string) option) \<Rightarrow> byte list \<Rightarrow>
     (addr \<Rightarrow> discovery_event list) \<Rightarrow> string option \<Rightarrow> capture_world \<Rightarrow> (addr option \<times> capture_world) option" where
  "device_find L ifap nameinfo junk evs p_id w =
     (case p_id of
        None \<Rightarrow> Some (None, w)
      | Some id_string \<Rightarrow>
          if id_string = [] then Some (None, w)
          else do {
            (l, cnt, w) \<leftarrow> prepare_devices_list L ifap nameinfo junk evs w;
            found \<leftarrow> find_device id_string (cw_devices w) (list_walk L l);
            (case found of
               Some a \<Rightarrow> Some (Some a, w)
             | None \<Rightarrow> do { (l, cnt, w) \<leftarrow> devices_destroy L l cnt w; Some (None, w) }) })"

text \<open>\<open>devices_discovery\<close> prints the devices and counts them.\<close>

function count_answers :: "byte list \<Rightarrow> net_interface \<Rightarrow> discovery_event list \<Rightarrow> int option" where
  "count_answers junk iface evs =
     (case listen_discovery_answer junk iface evs of
        None \<Rightarrow> None
      | Some (None, rest) \<Rightarrow> Some 0
      | Some (Some (packet, remote), rest) \<Rightarrow> do {
          address \<leftarrow> ni_addr iface;
          (rc, names) \<leftarrow> gvcp_discovery_ack no_names (Some packet);
          n \<leftarrow> count_answers junk iface rest;
          Some (n + 1) })"
  by pat_completeness auto
termination by (relation "measure (\<lambda>(junk, iface, evs). length evs)") (auto dest: listen_discovery_shrinks)

declare count_answers.simps [simp del]

fun count_all :: "byte list \<Rightarrow> (addr \<Rightarrow> discovery_event list) \<Rightarrow> addr list \<Rightarrow> int \<times> capture_world \<Rightarrow> (int \<times> capture_world) option" where
  "count_all junk evs [] s = Some s"
| "count_all junk evs (a # as) (n, w) = do {
     iface \<leftarrow> cw_ifaces w a;
     address \<leftarrow> ni_addr iface;
     k \<leftarrow> count_answers junk iface (evs a);
     count_all junk evs as (n + k, close_descriptor (ni_fd iface) w) }"

definition devices_discovery ::
  "'l list_ops \<Rightarrow> ifaddr list option \<Rightarrow> byte list \<Rightarrow> (addr \<Rightarrow> discovery_event list) \<Rightarrow> capture_world \<Rightarrow>
     (int \<times> capture_world) option" where
  "devices_discovery L ifap junk evs w = do {
     (p_ifaces, w) \<leftarrow> prepare_interfaces_list L ifap w;
     (ifaces, n) \<leftarrow> p_ifaces;
     (cnt, w) \<leftarrow> count_all junk evs (list_walk L ifaces) (0, w);
     (ifaces, n, w) \<leftarrow> ifaces_destroy L ifaces n w;
     Some (cnt, w) }"


subsection \<open>The lists of interfaces and devices\<close>

definition ifaces_ok :: "'l list_ops \<Rightarrow> 'l \<Rightarrow> capture_world \<Rightarrow> bool" where
  "ifaces_ok L l w \<longleftrightarrow> distinct (list_walk L l) \<and> set (list_walk L l) \<subseteq> dom (cw_ifaces w)"

definition devices_ok :: "'l list_ops \<Rightarrow> 'l \<Rightarrow> capture_world \<Rightarrow> bool" where
  "devices_ok L l w \<longleftrightarrow> distinct (list_walk L l) \<and> set (list_walk L l) \<subseteq> dom (cw_devices w)"

lemma close_descriptor_simps [simp]:
  "cw_ifaces (close_descriptor fd w) = cw_ifaces w" "cw_devices (close_descriptor fd w) = cw_devices w"
  "cw_fresh (close_descriptor fd w) = cw_fresh w" "cw_sent (close_descriptor fd w) = cw_sent w"
  "cw_open (close_descriptor fd w) = removeAll fd (cw_open w)"
  "cw_closes (close_descriptor fd w) = cw_closes w @ [fd]"
  by (simp_all add: close_descriptor_def)

interpretation interface_list: logged_descriptor_list
  "\<lambda>(l, cnt, w). list_laws L \<and> ifaces_ok L l w" "\<lambda>(l, cnt, w). list_walk L l"
  "\<lambda>(l, cnt, w) a. ni_fd (the (cw_ifaces w a))" "\<lambda>(l, cnt, w). set (cw_open w)"
  "\<lambda>a (l, cnt, w). interface_delete L l cnt a w" "\<lambda>(l, cnt, w). ifaces_destroy L l cnt w"
  "\<lambda>(l, cnt, w). cw_closes w" "\<lambda>(l, cnt, w). (cw_devices w, cw_fresh w)"
  for L :: "'l list_ops"
proof
  fix s :: "'l \<times> int \<times> capture_world" and a as
  obtain l cnt w where s: "s = (l, cnt, w)" by (metis prod_cases3)
  show "(case s of (l, cnt, w) \<Rightarrow> list_walk L l) = [] \<Longrightarrow> (case s of (l, cnt, w) \<Rightarrow> ifaces_destroy L l cnt w) = Some s"
    by (simp add: s ifaces_destroy.simps)
  show "(case s of (l, cnt, w) \<Rightarrow> list_walk L l) = a # as \<Longrightarrow>
      (case s of (l, cnt, w) \<Rightarrow> ifaces_destroy L l cnt w) =
      Option.bind (case s of (l, cnt, w) \<Rightarrow> interface_delete L l cnt a w) (\<lambda>(l, cnt, w). ifaces_destroy L l cnt w)"
    by (simp add: s ifaces_destroy.simps [of L l])
  assume "case s of (l, cnt, w) \<Rightarrow> list_laws L \<and> ifaces_ok L l w" "(case s of (l, cnt, w) \<Rightarrow> list_walk L l) = a # as"
  then have ok: "list_laws L" "ifaces_ok L l w" and as: "list_walk L l = a # as" by (simp_all add: s)
  have "list_walk L (list_remove_elem L l a) = as" using list_lawsD(3) [OF ok(1), of a l] by (simp add: as)
  moreover obtain i where "cw_ifaces w a = Some i" using ok(2) as by (auto simp: ifaces_ok_def)
  ultimately show "\<exists>s'. (case s of (l, cnt, w) \<Rightarrow> interface_delete L l cnt a w) = Some s' \<and>
      (case s' of (l, cnt, w) \<Rightarrow> list_laws L \<and> ifaces_ok L l w) \<and> (case s' of (l, cnt, w) \<Rightarrow> list_walk L l) = as \<and>
      (case s' of (l, cnt, w) \<Rightarrow> set (cw_open w)) = (case s of (l, cnt, w) \<Rightarrow> set (cw_open w)) -
        {(case s of (l, cnt, w) \<Rightarrow> \<lambda>a. ni_fd (the (cw_ifaces w a))) a} \<and>
      (\<forall>b \<in> set as. (case s' of (l, cnt, w) \<Rightarrow> \<lambda>a. ni_fd (the (cw_ifaces w a))) b =
        (case s of (l, cnt, w) \<Rightarrow> \<lambda>a. ni_fd (the (cw_ifaces w a))) b)"
    using ok as by (auto simp: s interface_delete_def ifaces_ok_def)
  fix s'
  assume "(case s of (l, cnt, w) \<Rightarrow> interface_delete L l cnt a w) = Some s'"
  then show "(case s' of (l, cnt, w) \<Rightarrow> cw_closes w) = (case s of (l, cnt, w) \<Rightarrow> cw_closes w) @
        [(case s of (l, cnt, w) \<Rightarrow> \<lambda>a. ni_fd (the (cw_ifaces w a))) a] \<and>
      (case s' of (l, cnt, w) \<Rightarrow> (cw_devices w, cw_fresh w)) = (case s of (l, cnt, w) \<Rightarrow> (cw_devices w, cw_fresh w))"
    by (auto simp: s interface_delete_def bind_eq_Some_conv)
qed

interpretation device_list: logged_descriptor_list
  "\<lambda>(l, cnt, w). list_laws L \<and> devices_ok L l w" "\<lambda>(l, cnt, w). list_walk L l"
  "\<lambda>(l, cnt, w) a. dv_fd (the (cw_devices w a))" "\<lambda>(l, cnt, w). set (cw_open w)"
  "\<lambda>a (l, cnt, w). device_delete L l cnt a w" "\<lambda>(l, cnt, w). devices_destroy L l cnt w"
  "\<lambda>(l, cnt, w). cw_closes w" "\<lambda>(l, cnt, w). (cw_ifaces w, cw_fresh w)"
  for L :: "'l list_ops"
proof
  fix s :: "'l \<times> int \<times> capture_world" and a as
  obtain l cnt w where s: "s = (l, cnt, w)" by (metis prod_cases3)
  show "(case s of (l, cnt, w) \<Rightarrow> list_walk L l) = [] \<Longrightarrow> (case s of (l, cnt, w) \<Rightarrow> devices_destroy L l cnt w) = Some s"
    by (simp add: s devices_destroy.simps)
  show "(case s of (l, cnt, w) \<Rightarrow> list_walk L l) = a # as \<Longrightarrow>
      (case s of (l, cnt, w) \<Rightarrow> devices_destroy L l cnt w) =
      Option.bind (case s of (l, cnt, w) \<Rightarrow> device_delete L l cnt a w) (\<lambda>(l, cnt, w). devices_destroy L l cnt w)"
    by (simp add: s devices_destroy.simps [of L l])
  assume "case s of (l, cnt, w) \<Rightarrow> list_laws L \<and> devices_ok L l w" "(case s of (l, cnt, w) \<Rightarrow> list_walk L l) = a # as"
  then have ok: "list_laws L" "devices_ok L l w" and as: "list_walk L l = a # as" by (simp_all add: s)
  have "list_walk L (list_remove_elem L l a) = as" using list_lawsD(3) [OF ok(1), of a l] by (simp add: as)
  moreover obtain d where "cw_devices w a = Some d" using ok(2) as by (auto simp: devices_ok_def)
  ultimately show "\<exists>s'. (case s of (l, cnt, w) \<Rightarrow> device_delete L l cnt a w) = Some s' \<and>
      (case s' of (l, cnt, w) \<Rightarrow> list_laws L \<and> devices_ok L l w) \<and> (case s' of (l, cnt, w) \<Rightarrow> list_walk L l) = as \<and>
      (case s' of (l, cnt, w) \<Rightarrow> set (cw_open w)) = (case s of (l, cnt, w) \<Rightarrow> set (cw_open w)) -
        {(case s of (l, cnt, w) \<Rightarrow> \<lambda>a. dv_fd (the (cw_devices w a))) a} \<and>
      (\<forall>b \<in> set as. (case s' of (l, cnt, w) \<Rightarrow> \<lambda>a. dv_fd (the (cw_devices w a))) b =
        (case s of (l, cnt, w) \<Rightarrow> \<lambda>a. dv_fd (the (cw_devices w a))) b)"
    using ok as by (auto simp: s device_delete_def devices_ok_def)
  fix s'
  assume "(case s of (l, cnt, w) \<Rightarrow> device_delete L l cnt a w) = Some s'"
  then show "(case s' of (l, cnt, w) \<Rightarrow> cw_closes w) = (case s of (l, cnt, w) \<Rightarrow> cw_closes w) @
        [(case s of (l, cnt, w) \<Rightarrow> \<lambda>a. dv_fd (the (cw_devices w a))) a] \<and>
      (case s' of (l, cnt, w) \<Rightarrow> (cw_ifaces w, cw_fresh w)) = (case s of (l, cnt, w) \<Rightarrow> (cw_ifaces w, cw_fresh w))"
    by (auto simp: s device_delete_def bind_eq_Some_conv)
qed

subsection \<open>Which interfaces are used\<close>

text \<open>An entry for which everything goes well, and the interface it becomes.\<close>

definition good_ifaddr :: "ifaddr \<Rightarrow> bool" where
  "good_ifaddr i \<longleftrightarrow> length (ia_name i) < 80 \<and> selectable (ia_socket i) \<and> ia_bound i \<and> ia_netmask i \<noteq> None"

definition iface_of :: "ifaddr \<Rightarrow> net_interface" where
  "iface_of i = \<lparr>ni_fd = ia_socket i, ni_name = ia_name i, ni_addr = map_option (\<lambda>s. s\<lparr>sk_port := 0\<rparr>) (ia_addr i),
     ni_netmask = ia_netmask i\<rparr>"

text \<open>The world after the interfaces \<open>us\<close> were added.\<close>

fun with_interfaces :: "ifaddr list \<Rightarrow> capture_world \<Rightarrow> capture_world" where
  "with_interfaces [] w = w"
| "with_interfaces (i # is) w = with_interfaces is
     (w\<lparr>cw_ifaces := (cw_ifaces w)(cw_fresh w \<mapsto> iface_of i), cw_fresh := Suc (cw_fresh w),
        cw_open := ia_socket i # cw_open w, cw_sent := cw_sent w @ [(ia_socket i, gvcp_discovery_packet)]\<rparr>)"

lemma with_interfaces_simps:
  "cw_devices (with_interfaces us w) = cw_devices w" "cw_fresh (with_interfaces us w) = cw_fresh w + length us"
  "cw_open (with_interfaces us w) = rev (map ia_socket us) @ cw_open w"
  "cw_closes (with_interfaces us w) = cw_closes w"
  "a < cw_fresh w \<Longrightarrow> cw_ifaces (with_interfaces us w) a = cw_ifaces w a"
  by (induction us arbitrary: w) auto

lemma with_interfaces_nth:
  "k < length us \<Longrightarrow> cw_ifaces (with_interfaces us w) (cw_fresh w + k) = Some (iface_of (us ! k))"
proof (induction us arbitrary: w k)
  case (Cons u us)
  then show ?case
  proof (cases k)
    case 0
    then show ?thesis by (simp add: with_interfaces_simps)
  next
    case (Suc j)
    then show ?thesis using Cons.IH [of j "w\<lparr>cw_ifaces := (cw_ifaces w)(cw_fresh w \<mapsto> iface_of u), cw_fresh := Suc (cw_fresh w),
        cw_open := ia_socket u # cw_open w, cw_sent := cw_sent w @ [(ia_socket u, gvcp_discovery_packet)]\<rparr>"] Cons.prems
      by simp
  qed
qed simp

lemma add_interface_step:
  assumes "ifaddr_used i" "good_ifaddr i"
  shows "add_interfaces L (i # is) (l, cnt, w) =
    add_interfaces L is (list_add_back L l (cw_fresh w), cnt + 1, with_interfaces [i] w)"
proof -
  obtain s where s: "ia_addr i = Some s" using assms(1) by (auto simp: ifaddr_used_def split: option.splits)
  have "ia_socket i \<noteq> -1" using assms(2) by (auto simp: good_ifaddr_def selectable_def)
  then show ?thesis
    using assms
    by (cases w) (simp add: interface_add_def good_ifaddr_def strcpy_buf_def send_broadcast_discovery_def s iface_of_def)
qed

lemma add_interfaces_result:
  assumes laws: "list_laws L" and good: "\<forall>i \<in> set is. ifaddr_used i \<longrightarrow> good_ifaddr i"
    and l: "\<forall>b \<in> set (list_walk L l). b < cw_fresh w"
  shows "\<exists>l'. add_interfaces L is (l, cnt, w) =
      Some (l', cnt + int (length (filter ifaddr_used is)), with_interfaces (filter ifaddr_used is) w) \<and>
    list_walk L l' = list_walk L l @ [cw_fresh w ..< cw_fresh w + length (filter ifaddr_used is)]"
  using good l
proof (induction "is" arbitrary: l cnt w)
  case (Cons i "is")
  show ?case
  proof (cases "ifaddr_used i")
    case True
    have n: "cw_fresh w \<notin> set (list_walk L l)" using Cons.prems(2) by blast
    note walk = list_lawsD(2) [OF laws n]
    let ?w = "with_interfaces [i] w"
    have f: "cw_fresh ?w = Suc (cw_fresh w)" by simp
    have "\<exists>l'. add_interfaces L is (list_add_back L l (cw_fresh w), cnt + 1, ?w) =
        Some (l', cnt + 1 + int (length (filter ifaddr_used is)), with_interfaces (filter ifaddr_used is) ?w) \<and>
        list_walk L l' = list_walk L (list_add_back L l (cw_fresh w)) @
          [cw_fresh ?w ..< cw_fresh ?w + length (filter ifaddr_used is)]"
      by (rule Cons.IH) (use Cons.prems walk in \<open>auto simp: f\<close>)
    moreover have "cw_fresh w # [Suc (cw_fresh w) ..< Suc (cw_fresh w + n)] = [cw_fresh w ..< Suc (cw_fresh w + n)]" for n
      by (simp add: upt_conv_Cons del: upt_Suc)
    ultimately show ?thesis
      using True Cons.prems(1) add_interface_step [of i L "is" l cnt w]
      by (auto simp: walk simp del: add_interfaces.simps upt_Suc)
  next
    case False
    then show ?thesis using Cons by simp
  qed
qed simp


subsection \<open>Which answers become devices\<close>

text \<open>The answers that count, up to the first failure of the socket.\<close>

fun event_fails :: "discovery_event \<Rightarrow> bool" where
  "event_fails SelectFails = True"
| "event_fails ReceiveFailed = True"
| "event_fails ev = False"

fun event_counts :: "u32 \<Rightarrow> u32 \<Rightarrow> discovery_event \<Rightarrow> bool" where
  "event_counts ip netmask (Received remote bs) = (8 < length bs \<and> \<not> answer_ignored ip netmask (sk_ip remote))"
| "event_counts ip netmask ev = False"

definition counted :: "u32 \<Rightarrow> u32 \<Rightarrow> discovery_event list \<Rightarrow> discovery_event list" where
  "counted ip netmask evs = filter (event_counts ip netmask) (takeWhile (\<lambda>ev. \<not> event_fails ev) evs)"

lemma counted_simps:
  "counted ip netmask [] = []"
  "counted ip netmask (ev # evs) = (if event_fails ev then [] else if event_counts ip netmask ev
     then ev # counted ip netmask evs else counted ip netmask evs)"
  by (simp_all add: counted_def)

definition received :: "byte list \<Rightarrow> byte list \<Rightarrow> byte list" where
  "received junk bs = (let bs = take GV_DEVICE_BUFFER_SIZE bs in bs @ drop (length bs) junk)"

text \<open>The device an answer becomes, if its packet can be read.\<close>

fun device_of :: "(sockaddr \<Rightarrow> (string \<times> string) option) \<Rightarrow> byte list \<Rightarrow> sockaddr \<Rightarrow> discovery_event \<Rightarrow> device option" where
  "device_of nameinfo junk address (Received remote bs) =
     map_option (\<lambda>(rc, names). (device_create nameinfo address remote)\<lparr>dv_names := names\<rparr>)
       (gvcp_discovery_ack no_names (Some (received junk bs)))"
| "device_of nameinfo junk address ev = None"

lemma listen_discovery_counted:
  assumes "selectable (ni_fd iface)" "ni_addr iface = Some address" "ni_netmask iface = Some netmask"
  shows "\<exists>r rest. listen_discovery_answer junk iface evs = Some (r, rest) \<and>
    (case r of None \<Rightarrow> counted (sk_ip address) (sk_ip netmask) evs = []
     | Some (packet, remote) \<Rightarrow> \<exists>bs. packet = received junk bs \<and>
         counted (sk_ip address) (sk_ip netmask) evs = Received remote bs # counted (sk_ip address) (sk_ip netmask) rest)"
proof (induction evs)
  case (Cons ev evs)
  then show ?case
    using assms by (cases ev) (auto simp: counted_simps received_def Let_def split: option.splits)
qed (use assms in \<open>simp add: counted_simps\<close>)

text \<open>The world and the list after devices were added.\<close>

fun with_devices :: "device list \<Rightarrow> capture_world \<Rightarrow> capture_world" where
  "with_devices [] w = w"
| "with_devices (d # ds) w =
     with_devices ds (w\<lparr>cw_devices := (cw_devices w)(cw_fresh w \<mapsto> d), cw_fresh := Suc (cw_fresh w)\<rparr>)"

lemma with_devices_simps:
  "cw_ifaces (with_devices ds w) = cw_ifaces w" "cw_fresh (with_devices ds w) = cw_fresh w + length ds"
  "cw_open (with_devices ds w) = cw_open w" "cw_closes (with_devices ds w) = cw_closes w"
  "a < cw_fresh w \<Longrightarrow> cw_devices (with_devices ds w) a = cw_devices w a"
  by (induction ds arbitrary: w) auto

lemma with_devices_append: "with_devices (ds @ es) w = with_devices es (with_devices ds w)"
  by (induction ds arbitrary: w) auto

lemma with_devices_close: "with_devices ds (close_descriptor fd w) = close_descriptor fd (with_devices ds w)"
proof (induction ds arbitrary: w)
  case (Cons d ds)
  have "(close_descriptor fd w)\<lparr>cw_devices := (cw_devices w)(cw_fresh w \<mapsto> d), cw_fresh := Suc (cw_fresh w)\<rparr> =
      close_descriptor fd (w\<lparr>cw_devices := (cw_devices w)(cw_fresh w \<mapsto> d), cw_fresh := Suc (cw_fresh w)\<rparr>)"
    by (simp add: close_descriptor_def)
  then show ?case by (simp only: with_devices.simps close_descriptor_simps Cons.IH)
qed simp

lemma with_devices_nth:
  "k < length ds \<Longrightarrow> cw_devices (with_devices ds w) (cw_fresh w + k) = Some (ds ! k)"
proof (induction ds arbitrary: w k)
  case (Cons d ds)
  then show ?case
    using Cons.IH [of _ "w\<lparr>cw_devices := (cw_devices w)(cw_fresh w \<mapsto> d), cw_fresh := Suc (cw_fresh w)\<rparr>"]
    by (cases k) (auto simp: with_devices_simps)
qed simp

definition list_after :: "'l list_ops \<Rightarrow> 'l \<Rightarrow> addr \<Rightarrow> nat \<Rightarrow> 'l \<Rightarrow> bool" where
  "list_after L l a n l' \<longleftrightarrow> list_walk L l' = list_walk L l @ [a ..< a + n]"

lemma interface_devices_result:
  assumes laws: "list_laws L"
    and iface: "selectable (ni_fd iface)" "ni_addr iface = Some address" "ni_netmask iface = Some netmask"
    and read: "\<forall>ev \<in> set (counted (sk_ip address) (sk_ip netmask) evs). device_of nameinfo junk address ev \<noteq> None"
    and l: "\<forall>b \<in> set (list_walk L l). b < cw_fresh w"
    and ds: "ds = map (\<lambda>ev. the (device_of nameinfo junk address ev)) (counted (sk_ip address) (sk_ip netmask) evs)"
  shows "\<exists>l'. interface_devices L nameinfo junk iface evs (l, cnt, w) =
      Some (l', cnt + int (length ds), close_descriptor (ni_fd iface) (with_devices ds w)) \<and>
    list_after L l (cw_fresh w) (length ds) l'"
  using read l ds
proof (induction "length evs" arbitrary: evs l cnt w ds rule: less_induct)
  case less
  obtain r rest where r: "listen_discovery_answer junk iface evs = Some (r, rest)"
    "case r of None \<Rightarrow> counted (sk_ip address) (sk_ip netmask) evs = []
     | Some (packet, remote) \<Rightarrow> \<exists>bs. packet = received junk bs \<and>
         counted (sk_ip address) (sk_ip netmask) evs = Received remote bs # counted (sk_ip address) (sk_ip netmask) rest"
    using listen_discovery_counted [OF iface] by blast
  show ?case
  proof (cases r)
    case None
    then show ?thesis using r less.prems(3) by (simp add: list_after_def interface_devices.simps)
  next
    case (Some p)
    then obtain packet remote bs where p: "p = (packet, remote)" "packet = received junk bs"
      "counted (sk_ip address) (sk_ip netmask) evs = Received remote bs # counted (sk_ip address) (sk_ip netmask) rest"
      using r(2) by (cases p) auto
    obtain rc names where n: "gvcp_discovery_ack no_names (Some packet) = Some (rc, names)"
      using less.prems(1) p by auto
    let ?d = "(device_create nameinfo address remote)\<lparr>dv_names := names\<rparr>"
    let ?w = "w\<lparr>cw_devices := (cw_devices w)(cw_fresh w \<mapsto> ?d), cw_fresh := Suc (cw_fresh w)\<rparr>"
    let ?l = "list_add_back L l (cw_fresh w)"
    let ?ds = "map (\<lambda>ev. the (device_of nameinfo junk address ev)) (counted (sk_ip address) (sk_ip netmask) rest)"
    have walk: "list_walk L ?l = list_walk L l @ [cw_fresh w]"
      by (rule list_lawsD(2) [OF laws]) (use less.prems(2) in blast)
    have ds: "ds = ?d # ?ds" using less.prems(3) p n by simp
    have "length rest < length evs" using listen_discovery_shrinks r(1) Some by simp
    then have "\<exists>l'. interface_devices L nameinfo junk iface rest (?l, cnt + 1, ?w) =
        Some (l', cnt + 1 + int (length ?ds), close_descriptor (ni_fd iface) (with_devices ?ds ?w)) \<and>
        list_after L ?l (cw_fresh ?w) (length ?ds) l'"
      by (rule less.hyps) (use less.prems p walk in auto)
    moreover have "cw_fresh w # [Suc (cw_fresh w) ..< Suc (cw_fresh w + n)] = [cw_fresh w ..< Suc (cw_fresh w + n)]" for n
      by (simp add: upt_conv_Cons del: upt_Suc)
    moreover have "interface_devices L nameinfo junk iface evs (l, cnt, w) =
        interface_devices L nameinfo junk iface rest (?l, cnt + 1, ?w)"
      using r(1) Some p(1) n iface(2)
      by (subst interface_devices.simps) (simp add: device_add_def Let_def)
    ultimately show ?thesis
      by (auto simp: ds list_after_def walk simp del: upt_Suc)
  qed
qed

end
