(* ===== verification/DeviceSearch.thy ===== *)
theory DeviceSearch imports Discovery begin

section \<open>What the search for cameras finds\<close>

text \<open>
  The result of the search of \<^verbatim>\<open>Discovery\<close> over all interfaces, the packets of the standard and how the program reads
  them, and the properties of the search.
\<close>

subsection \<open>The whole search\<close>

fun close_all :: "int list \<Rightarrow> capture_world \<Rightarrow> capture_world" where
  "close_all [] w = w"
| "close_all (fd # fds) w = close_all fds (close_descriptor fd w)"

lemma close_all_simps [simp]:
  "cw_ifaces (close_all fds w) = cw_ifaces w" "cw_devices (close_all fds w) = cw_devices w"
  "cw_fresh (close_all fds w) = cw_fresh w" "cw_closes (close_all fds w) = cw_closes w @ fds"
  "set (cw_open (close_all fds w)) = set (cw_open w) - set fds"
  by (induction fds arbitrary: w) auto

lemma with_devices_close_all: "with_devices ds (close_all fds w) = close_all fds (with_devices ds w)"
  by (induction fds arbitrary: w) (simp_all add: with_devices_close)

definition iface_devices ::
  "(sockaddr \<Rightarrow> (string \<times> string) option) \<Rightarrow> byte list \<Rightarrow> net_interface \<Rightarrow> discovery_event list \<Rightarrow> device list" where
  "iface_devices nameinfo junk iface evs =
     (case (ni_addr iface, ni_netmask iface) of
        (Some address, Some netmask) \<Rightarrow> map (\<lambda>ev. the (device_of nameinfo junk address ev))
          (counted (sk_ip address) (sk_ip netmask) evs)
      | _ \<Rightarrow> [])"

definition iface_ready ::
  "(sockaddr \<Rightarrow> (string \<times> string) option) \<Rightarrow> byte list \<Rightarrow> net_interface \<Rightarrow> discovery_event list \<Rightarrow> bool" where
  "iface_ready nameinfo junk iface evs \<longleftrightarrow> selectable (ni_fd iface) \<and>
     (\<exists>address netmask. ni_addr iface = Some address \<and> ni_netmask iface = Some netmask \<and>
        (\<forall>ev \<in> set (counted (sk_ip address) (sk_ip netmask) evs). device_of nameinfo junk address ev \<noteq> None))"

lemma list_after_trans: "list_after L l a m l1 \<Longrightarrow> list_after L l1 (a + m) n l2 \<Longrightarrow> list_after L l a (m + n) l2"
  using upt_add_eq_append [of a "a + m" n] by (simp add: list_after_def add.assoc)

lemma all_devices_result:
  assumes laws: "list_laws L"
    and "\<forall>a \<in> set as. cw_ifaces w a = Some (I a) \<and> iface_ready nameinfo junk (I a) (evs a)"
    and "\<forall>b \<in> set (list_walk L l). b < cw_fresh w"
    and ds: "ds = concat (map (\<lambda>a. iface_devices nameinfo junk (I a) (evs a)) as)"
  shows "\<exists>l'. all_devices L nameinfo junk evs as (l, cnt, w) =
      Some (l', cnt + int (length ds), close_all (map (\<lambda>a. ni_fd (I a)) as) (with_devices ds w)) \<and>
    list_after L l (cw_fresh w) (length ds) l'"
  using assms(2-4)
proof (induction as arbitrary: l cnt w ds)
  case Nil
  then show ?case by (simp add: list_after_def)
next
  case (Cons a as)
  let ?i = "I a" and ?d = "iface_devices nameinfo junk (I a) (evs a)"
  let ?ds = "concat (map (\<lambda>a. iface_devices nameinfo junk (I a) (evs a)) as)"
  let ?w = "close_descriptor (ni_fd ?i) (with_devices ?d w)"
  obtain address netmask where i: "selectable (ni_fd ?i)" "ni_addr ?i = Some address" "ni_netmask ?i = Some netmask"
    "\<forall>ev \<in> set (counted (sk_ip address) (sk_ip netmask) (evs a)). device_of nameinfo junk address ev \<noteq> None"
    using Cons.prems(1) by (auto simp: iface_ready_def)
  have "?d = map (\<lambda>ev. the (device_of nameinfo junk address ev)) (counted (sk_ip address) (sk_ip netmask) (evs a))"
    by (simp add: iface_devices_def i(2,3))
  from interface_devices_result [OF laws i(1-4) Cons.prems(2) this]
  obtain l1 where l1: "interface_devices L nameinfo junk ?i (evs a) (l, cnt, w) = Some (l1, cnt + int (length ?d), ?w)"
    "list_after L l (cw_fresh w) (length ?d) l1" by blast
  have "\<exists>l'. all_devices L nameinfo junk evs as (l1, cnt + int (length ?d), ?w) =
      Some (l', cnt + int (length ?d) + int (length ?ds), close_all (map (\<lambda>a. ni_fd (I a)) as) (with_devices ?ds ?w)) \<and>
      list_after L l1 (cw_fresh ?w) (length ?ds) l'"
    by (rule Cons.IH)
      (use Cons.prems(1,2) l1(2) in \<open>auto simp: with_devices_simps list_after_def dest!: bspec\<close>)
  moreover have "with_devices ?ds ?w = close_descriptor (ni_fd ?i) (with_devices ds w)"
    by (simp add: Cons.prems(3) with_devices_close with_devices_append)
  moreover have "cw_ifaces w a = Some ?i" using Cons.prems(1) by simp
  ultimately show ?case
    using l1(1) i(2) Cons.prems(3) list_after_trans [OF l1(2), of "length ?ds"] by (auto simp: with_devices_simps add.assoc)
qed


text \<open>All devices found, for the interfaces \<open>us\<close> allocated from address \<open>a\<close> on, and that all their answers can be read.\<close>

fun found_devices ::
  "(sockaddr \<Rightarrow> (string \<times> string) option) \<Rightarrow> byte list \<Rightarrow> (addr \<Rightarrow> discovery_event list) \<Rightarrow> addr \<Rightarrow> ifaddr list \<Rightarrow>
     device list" where
  "found_devices nameinfo junk evs a [] = []"
| "found_devices nameinfo junk evs a (u # us) =
     iface_devices nameinfo junk (iface_of u) (evs a) @ found_devices nameinfo junk evs (Suc a) us"

fun all_ready ::
  "(sockaddr \<Rightarrow> (string \<times> string) option) \<Rightarrow> byte list \<Rightarrow> (addr \<Rightarrow> discovery_event list) \<Rightarrow> addr \<Rightarrow> ifaddr list \<Rightarrow>
     bool" where
  "all_ready nameinfo junk evs a [] = True"
| "all_ready nameinfo junk evs a (u # us) =
     (iface_ready nameinfo junk (iface_of u) (evs a) \<and> all_ready nameinfo junk evs (Suc a) us)"

lemma all_ready_nth: "all_ready nameinfo junk evs a us \<Longrightarrow> k < length us \<Longrightarrow> iface_ready nameinfo junk (iface_of (us ! k)) (evs (a + k))"
proof (induction us arbitrary: a k)
  case (Cons u us)
  then show ?case using Cons.IH [of "Suc a" "k - 1"] by (cases k) auto
qed simp

lemma found_devices_concat:
  "\<forall>k < length us. I (a + k) = iface_of (us ! k) \<Longrightarrow>
     concat (map (\<lambda>x. iface_devices nameinfo junk (I x) (evs x)) [a ..< a + length us]) = found_devices nameinfo junk evs a us"
proof (induction us arbitrary: a)
  case (Cons u us)
  have "\<forall>k < length us. I (Suc a + k) = iface_of (us ! k)" using Cons.prems by (metis Suc_less_eq add_Suc_shift length_Cons nth_Cons_Suc)
  moreover have "I a = iface_of u" using Cons.prems by force
  moreover have "[a ..< a + length (u # us)] = a # [Suc a ..< Suc a + length us]" by (simp add: upt_conv_Cons del: upt_Suc)
  ultimately show ?case using Cons.IH [of "Suc a"] by (simp del: upt_Suc)
qed simp

definition good_ifaddrs :: "ifaddr list \<Rightarrow> bool" where
  "good_ifaddrs is \<longleftrightarrow> (\<forall>i \<in> set is. ifaddr_used i \<longrightarrow> good_ifaddr i)"

lemma prepare_interfaces_result:
  assumes "list_laws L" "good_ifaddrs is"
  shows "\<exists>l. prepare_interfaces_list L (Some is) w =
      Some (Some (l, int (length (filter ifaddr_used is))), with_interfaces (filter ifaddr_used is) w) \<and>
    list_walk L l = [cw_fresh w ..< cw_fresh w + length (filter ifaddr_used is)]"
  using add_interfaces_result [OF assms(1), of "is" "list_init L" w 0] assms(2) list_lawsD(1) [OF assms(1)]
  by (auto simp: prepare_interfaces_list_def good_ifaddrs_def)

lemma interfaces_at:
  assumes "us = filter ifaddr_used is"
  shows "\<forall>a \<in> set [cw_fresh w ..< cw_fresh w + length us].
    cw_ifaces (with_interfaces us w) a = Some (iface_of (us ! (a - cw_fresh w)))"
proof
  fix a assume "a \<in> set [cw_fresh w ..< cw_fresh w + length us]"
  then have "a - cw_fresh w < length us" "a = cw_fresh w + (a - cw_fresh w)" by auto
  then show "cw_ifaces (with_interfaces us w) a = Some (iface_of (us ! (a - cw_fresh w)))"
    using with_interfaces_nth [of "a - cw_fresh w" us w] by simp
qed

lemma interfaces_ready:
  assumes "us = filter ifaddr_used is" "all_ready nameinfo junk evs (cw_fresh w) us"
  shows "\<forall>x \<in> set [cw_fresh w ..< cw_fresh w + length us].
    cw_ifaces (with_interfaces us w) x = Some (iface_of (us ! (x - cw_fresh w))) \<and>
    iface_ready nameinfo junk (iface_of (us ! (x - cw_fresh w))) (evs x)"
proof
  fix x assume x: "x \<in> set [cw_fresh w ..< cw_fresh w + length us]"
  then have "iface_ready nameinfo junk (iface_of (us ! (x - cw_fresh w))) (evs x)"
    using all_ready_nth [OF assms(2), of "x - cw_fresh w"] by auto
  then show "cw_ifaces (with_interfaces us w) x = Some (iface_of (us ! (x - cw_fresh w))) \<and>
      iface_ready nameinfo junk (iface_of (us ! (x - cw_fresh w))) (evs x)"
    using interfaces_at [OF assms(1), of w] x by blast
qed

lemma map_upt_fds: "map (\<lambda>a. ni_fd (iface_of (us ! (a - f)))) [f ..< f + length us] = map ia_socket us"
  by (rule nth_equalityI) (auto simp: iface_of_def)

lemma ifaces_destroy_result:
  assumes laws: "list_laws L" and l: "list_walk L l = [a ..< a + n]"
    and i: "\<forall>x \<in> set [a ..< a + n]. cw_ifaces w x = Some (I x)"
  shows "\<exists>l' cnt' w'. ifaces_destroy L l cnt w = Some (l', cnt', w') \<and> cw_devices w' = cw_devices w \<and> cw_fresh w' = cw_fresh w \<and>
     set (cw_open w') = set (cw_open w) - set (map (\<lambda>x. ni_fd (I x)) [a ..< a + n]) \<and>
     cw_closes w' = cw_closes w @ map (\<lambda>x. ni_fd (I x)) [a ..< a + n]"
proof -
  have ok: "list_laws L \<and> ifaces_ok L l w" using laws i by (auto simp: ifaces_ok_def l)
  obtain l' cnt' w' where r: "ifaces_destroy L l cnt w = Some (l', cnt', w')"
    "set (cw_open w') = set (cw_open w) - (\<lambda>x. ni_fd (the (cw_ifaces w x))) ` set (list_walk L l)"
    using interface_list.drained [of L "(l, cnt, w)"] ok by auto
  have "cw_closes w' = cw_closes w @ map (\<lambda>x. ni_fd (the (cw_ifaces w x))) (list_walk L l) \<and>
      (cw_devices w', cw_fresh w') = (cw_devices w, cw_fresh w)"
    using interface_list.drained_closes [of L "(l, cnt, w)" "(l', cnt', w')"] ok r(1) by simp
  moreover have "map (\<lambda>x. ni_fd (the (cw_ifaces w x))) (list_walk L l) = map (\<lambda>x. ni_fd (I x)) [a ..< a + n]"
    using i by (simp add: l)
  moreover have "(\<lambda>x. ni_fd (the (cw_ifaces w x))) ` set (list_walk L l) = set (map (\<lambda>x. ni_fd (I x)) [a ..< a + n])"
    using i by (simp add: l)
  ultimately show ?thesis using r by auto
qed

lemma prepare_devices_result:
  assumes laws: "list_laws L" and good: "good_ifaddrs is" and us: "us = filter ifaddr_used is"
    and ready: "all_ready nameinfo junk evs (cw_fresh w) us"
    and ds: "ds = found_devices nameinfo junk evs (cw_fresh w) us"
  shows "\<exists>l w'. prepare_devices_list L (Some is) nameinfo junk evs w = Some (l, int (length ds), w') \<and>
     list_walk L l = [cw_fresh w + length us ..< cw_fresh w + length us + length ds] \<and>
     (\<forall>k < length ds. cw_devices w' (cw_fresh w + length us + k) = Some (ds ! k)) \<and>
     set (cw_open w') = set (cw_open w) - set (map ia_socket us) \<and>
     cw_closes w' = cw_closes w @ map ia_socket us @ map ia_socket us"
proof -
  let ?a = "cw_fresh w" and ?n = "length us" and ?I = "\<lambda>x. iface_of (us ! (x - cw_fresh w))"
  let ?w1 = "with_interfaces us w"
  obtain l1 where l1: "prepare_interfaces_list L (Some is) w = Some (Some (l1, int ?n), ?w1)"
    "list_walk L l1 = [?a ..< ?a + ?n]"
    using prepare_interfaces_result [OF laws good] us by blast
  have at: "\<forall>x \<in> set [?a ..< ?a + ?n]. cw_ifaces ?w1 x = Some (?I x) \<and> iface_ready nameinfo junk (?I x) (evs x)"
    using interfaces_ready [OF us ready] .
  have ds': "ds = concat (map (\<lambda>x. iface_devices nameinfo junk (?I x) (evs x)) [?a ..< ?a + ?n])"
    using found_devices_concat [of us ?I ?a nameinfo junk evs] ds by simp
  let ?w2 = "close_all (map (\<lambda>x. ni_fd (?I x)) [?a ..< ?a + ?n]) (with_devices ds ?w1)"
  obtain l2 where l2: "all_devices L nameinfo junk evs [?a ..< ?a + ?n] (list_init L, 0, ?w1) = Some (l2, int (length ds), ?w2)"
    "list_after L (list_init L) (cw_fresh ?w1) (length ds) l2"
    using all_devices_result [OF laws at _ ds', of "list_init L" 0] list_lawsD(1) [OF laws] by auto
  have fr: "cw_fresh ?w1 = ?a + ?n" by (simp add: with_interfaces_simps)
  have "\<forall>x \<in> set [?a ..< ?a + ?n]. cw_ifaces ?w2 x = Some (?I x)"
    using at by (simp add: with_devices_simps)
  from ifaces_destroy_result [OF laws l1(2) this, of "int ?n"] obtain l3 n3 w3 where
    r: "ifaces_destroy L l1 (int ?n) ?w2 = Some (l3, n3, w3)" "cw_devices w3 = cw_devices ?w2"
      "set (cw_open w3) = set (cw_open ?w2) - set (map ia_socket us)" "cw_closes w3 = cw_closes ?w2 @ map ia_socket us"
    unfolding map_upt_fds by blast
  have "prepare_devices_list L (Some is) nameinfo junk evs w = Some (l2, int (length ds), w3)"
    unfolding prepare_devices_list_def using l1 l2(1) r(1) by simp
  moreover have "list_walk L l2 = [?a + ?n ..< ?a + ?n + length ds]"
    using l2(2) fr list_lawsD(1) [OF laws] by (simp add: list_after_def)
  moreover have "\<forall>k < length ds. cw_devices w3 (?a + ?n + k) = Some (ds ! k)"
    using with_devices_nth [of _ ds ?w1] by (simp add: r(2) fr)
  moreover have "set (cw_open w3) = set (cw_open w) - set (map ia_socket us)"
    using r(3) by (auto simp: map_upt_fds with_devices_simps with_interfaces_simps)
  moreover have "cw_closes w3 = cw_closes w @ map ia_socket us @ map ia_socket us"
    using r(4) by (simp add: map_upt_fds with_devices_simps with_interfaces_simps)
  ultimately show ?thesis by blast
qed

subsection \<open>Packets of the standard\<close>

text \<open>
  The answer to a discovery as the standard has it: strings in fields of a fixed size, filled up with zeros. \<open>before\<close>,
  \<open>between\<close> and \<open>info\<close> are the parts of the data the program does not read.
\<close>

definition byte_of_char :: "char \<Rightarrow> byte" where "byte_of_char c = of_nat (of_char c)"

definition char_bytes :: "string \<Rightarrow> byte list" where "char_bytes s = map byte_of_char s"

definition name_field :: "nat \<Rightarrow> string \<Rightarrow> byte list" where
  "name_field n s = char_bytes s @ replicate (n - length s) 0"

record discovery_rest =
  dr_before :: "byte list"
  dr_between :: "byte list"
  dr_info :: "byte list"

definition rest_ok :: "discovery_rest \<Rightarrow> bool" where
  "rest_ok r \<longleftrightarrow> length (dr_before r) = 10 \<and> length (dr_between r) = 56 \<and> length (dr_info r) = 80"

definition discovery_answer ::
  "discovery_rest \<Rightarrow> string \<Rightarrow> string \<Rightarrow> string \<Rightarrow> string \<Rightarrow> byte list \<Rightarrow> byte list" where
  "discovery_answer r vendor model serial user_id mac =
     gvcp_header GVCP_PACKET_TYPE_ACK 0 GVCP_COMMAND_DISCOVERY_ACK 0xf8 0xffff @ dr_before r @ mac @ dr_between r @
     name_field 32 vendor @ name_field 32 model @ dr_info r @ name_field 16 serial @ name_field 16 user_id"

lemma char_of_byte_of_char [simp]: "char_of_byte (byte_of_char c) = c"
proof -
  have "(of_char c :: nat) < 256" by (metis of_char_mod_256 mod_less_divisor zero_less_numeral)
  then show ?thesis by (simp add: char_of_byte_def byte_of_char_def unsigned_of_nat take_bit_nat_eq_self)
qed

lemma char_of_byte_zero: "char_of_byte 0 = NUL"
  by (simp add: char_of_byte_def NUL_def char_of_def)

lemma map_char_bytes [simp]: "map char_of_byte (char_bytes s) = s"
  by (simp add: char_bytes_def comp_def)

lemma name_field_length [simp]: "length s \<le> n \<Longrightarrow> length (name_field n s) = n"
  by (simp add: name_field_def char_bytes_def)

lemma copy_field:
  assumes "drop (8 + off) packet = name_field n s @ rest" "length s < n" "NUL \<notin> set s" "n < m"
  shows "copy_packet_string packet off m = Some s"
proof -
  have "replicate (n - length s) 0 = (0 :: byte) # replicate (n - Suc (length s)) 0"
    using assms(2) by (metis Suc_diff_Suc replicate_Suc)
  then have "map char_of_byte (drop (8 + off) packet) = s @ NUL # map char_of_byte (replicate (n - Suc (length s)) 0 @ rest)"
    by (simp add: assms(1) name_field_def char_of_byte_zero)
  then have "cstr (map char_of_byte (drop (8 + off) packet)) = Some s" by (simp only: cstr_terminated [OF assms(3)])
  then show ?thesis using assms(2,4) by (simp add: copy_packet_string_def strcpy_buf_def)
qed

lemma copy_full_field:
  assumes "drop (8 + off) packet = char_bytes s @ rest" "NUL \<notin> set s" "m \<le> length s"
  shows "copy_packet_string packet off m = None"
proof (cases "cstr (map char_of_byte (drop (8 + off) packet))")
  case (Some t)
  have "map char_of_byte (drop (8 + off) packet) = s @ map char_of_byte rest" by (simp add: assms(1))
  then have "t = takeWhile (\<lambda>c. c \<noteq> NUL) (s @ map char_of_byte rest)"
    using Some by (auto simp: cstr_def split: if_splits)
  also have "\<dots> = s @ takeWhile (\<lambda>c. c \<noteq> NUL) (map char_of_byte rest)"
    using assms(2) by (intro takeWhile_append2) auto
  finally have "m \<le> length t" using assms(3) by simp
  then show ?thesis using Some by (simp add: copy_packet_string_def strcpy_buf_def)
qed (simp add: copy_packet_string_def)

lemma print_mac_length: "length mac = 6 \<Longrightarrow> length (print_mac mac) = 17"
proof -
  have "length (concat (map (\<lambda>b. print_hhx b @ '':'') bs)) = 3 * length bs" for bs
    by (induction bs) (simp_all add: print_hhx_def)
  then show "length mac = 6 \<Longrightarrow> length (print_mac mac) = 17" by (simp add: print_mac_def print_hhx_def)
qed

lemma discovery_answer_length:
  assumes "rest_ok r" "length vendor \<le> 32" "length model \<le> 32" "length serial \<le> 16" "length user_id \<le> 16" "length mac = 6"
  shows "length (discovery_answer r vendor model serial user_id mac) = 256"
  using assms by (simp add: discovery_answer_def rest_ok_def)

lemma received_short: "length p \<le> 16384 \<Longrightarrow> received junk p = p @ drop (length p) junk"
  by (simp add: received_def GV_DEVICE_BUFFER_SIZE_def Let_def)

lemma discovery_answer_fields:
  assumes "rest_ok r" "length vendor \<le> 32" "length model \<le> 32" "length serial \<le> 16" "length user_id \<le> 16" "length mac = 6"
    and p: "p = discovery_answer r vendor model serial user_id mac @ junk"
  shows "region_read p 2 2 = Some (be_bytes 2 GVCP_COMMAND_DISCOVERY_ACK)" "region_read p 6 2 = Some (be_bytes 2 (0xffff :: u16))"
    "drop (8 + 0x48) p = name_field 32 vendor @ name_field 32 model @ dr_info r @ name_field 16 serial @ name_field 16 user_id @ junk"
    "drop (8 + 0x68) p = name_field 32 model @ dr_info r @ name_field 16 serial @ name_field 16 user_id @ junk"
    "drop (8 + 0xd8) p = name_field 16 serial @ name_field 16 user_id @ junk"
    "drop (8 + 0xe8) p = name_field 16 user_id @ junk"
    "region_read p (8 + 0x08 + 2) 6 = Some mac"
  using assms(1-6)
  by (simp_all add: p discovery_answer_def gvcp_header_def region_read_def rest_ok_def)


lemma discovery_answer_ack:
  assumes "rest_ok r" "length mac = 6"
    and "length vendor < 32" "length model < 32" "length serial < 16" "length user_id < 16"
    and "NUL \<notin> set vendor" "NUL \<notin> set model" "NUL \<notin> set serial" "NUL \<notin> set user_id"
  shows "gvcp_discovery_ack d (Some (received junk (discovery_answer r vendor model serial user_id mac))) =
     Some (0, \<lparr>dn_vendor = vendor, dn_model = model, dn_serial = serial, dn_user_id = user_id, dn_mac = print_mac mac\<rparr>)"
proof -
  let ?m = "discovery_answer r vendor model serial user_id mac"
  let ?p = "?m @ drop 256 junk"
  have "length ?m = 256" using assms by (simp add: discovery_answer_length)
  then have p: "received junk ?m = ?p" using received_short [of ?m junk] by simp
  note f = discovery_answer_fields [OF assms(1) _ _ _ _ assms(2) refl, of vendor model serial user_id "drop 256 junk"]
  have l: "length vendor \<le> 32" "length model \<le> 32" "length serial \<le> 16" "length user_id \<le> 16" using assms by auto
  note f = f [OF l]
  have "copy_packet_string ?p 0x48 33 = Some vendor" by (rule copy_field [OF f(3)]) (use assms in auto)
  moreover have "copy_packet_string ?p 0x68 33 = Some model" by (rule copy_field [OF f(4)]) (use assms in auto)
  moreover have "copy_packet_string ?p 0xd8 17 = Some serial" by (rule copy_field [OF f(5)]) (use assms in auto)
  moreover have "copy_packet_string ?p 0xe8 17 = Some user_id" by (rule copy_field [OF f(6)]) (use assms in auto)
  moreover have "strcpy_buf 18 (print_mac mac) = Some (print_mac mac)"
    using print_mac_length [OF assms(2)] by (simp add: strcpy_buf_def)
  ultimately show ?thesis
    unfolding p gvcp_discovery_ack_def
    using f(1,2,7) by (simp add: discovery_field_defs of_be_bytes_be_bytes)
qed

subsection \<open>Counting the devices\<close>

lemma count_answers_result:
  assumes iface: "selectable (ni_fd iface)" "ni_addr iface = Some address" "ni_netmask iface = Some netmask"
    and read: "\<forall>ev \<in> set (counted (sk_ip address) (sk_ip netmask) evs). device_of nameinfo junk address ev \<noteq> None"
  shows "count_answers junk iface evs = Some (int (length (counted (sk_ip address) (sk_ip netmask) evs)))"
  using read
proof (induction "length evs" arbitrary: evs rule: less_induct)
  case less
  obtain r rest where r: "listen_discovery_answer junk iface evs = Some (r, rest)"
    "case r of None \<Rightarrow> counted (sk_ip address) (sk_ip netmask) evs = []
     | Some (packet, remote) \<Rightarrow> \<exists>bs. packet = received junk bs \<and>
         counted (sk_ip address) (sk_ip netmask) evs = Received remote bs # counted (sk_ip address) (sk_ip netmask) rest"
    using listen_discovery_counted [OF iface] by blast
  show ?case
  proof (cases r)
    case None
    then show ?thesis using r by (simp add: count_answers.simps)
  next
    case (Some p)
    then obtain packet remote bs where p: "p = (packet, remote)" "packet = received junk bs"
      "counted (sk_ip address) (sk_ip netmask) evs = Received remote bs # counted (sk_ip address) (sk_ip netmask) rest"
      using r(2) by (cases p) auto
    obtain rc names where n: "gvcp_discovery_ack no_names (Some packet) = Some (rc, names)"
      using less.prems p by auto
    have "length rest < length evs" using listen_discovery_shrinks r(1) Some by simp
    then have "count_answers junk iface rest = Some (int (length (counted (sk_ip address) (sk_ip netmask) rest)))"
      by (rule less.hyps) (use less.prems p in auto)
    then show ?thesis using r(1) Some p n iface(2) by (subst count_answers.simps) simp
  qed
qed

lemma count_all_result:
  assumes "\<forall>a \<in> set as. cw_ifaces w a = Some (I a) \<and> iface_ready nameinfo junk (I a) (evs a)"
  shows "count_all junk evs as (n, w) =
    Some (n + int (length (concat (map (\<lambda>a. iface_devices nameinfo junk (I a) (evs a)) as))),
      close_all (map (\<lambda>a. ni_fd (I a)) as) w)"
  using assms
proof (induction as arbitrary: n w)
  case (Cons a as)
  obtain address netmask where i: "selectable (ni_fd (I a))" "ni_addr (I a) = Some address" "ni_netmask (I a) = Some netmask"
    "\<forall>ev \<in> set (counted (sk_ip address) (sk_ip netmask) (evs a)). device_of nameinfo junk address ev \<noteq> None"
    using Cons.prems by (auto simp: iface_ready_def)
  have "\<forall>b \<in> set as. cw_ifaces (close_descriptor (ni_fd (I a)) w) b = Some (I b) \<and> iface_ready nameinfo junk (I b) (evs b)"
    using Cons.prems by simp
  from Cons.IH [OF this] show ?case
    using Cons.prems count_answers_result [OF i] i(2) by (simp add: iface_devices_def i(2,3))
qed simp

subsection \<open>Properties\<close>

text \<open>An answer of the standard is read right: whatever memory it was received into, the vendor, the model, the serial
  number, the user's name and the MAC address of the camera end up in the device, provided each string is
  shorter than its field.\<close>

theorem discovery_answer_read:
  assumes "rest_ok r" "length mac = 6"
    and "length vendor < 32" "length model < 32" "length serial < 16" "length user_id < 16"
    and "NUL \<notin> set vendor" "NUL \<notin> set model" "NUL \<notin> set serial" "NUL \<notin> set user_id"
  shows "gvcp_discovery_ack d (Some (received junk (discovery_answer r vendor model serial user_id mac))) =
     Some (0, \<lparr>dn_vendor = vendor, dn_model = model, dn_serial = serial, dn_user_id = user_id, dn_mac = print_mac mac\<rparr>)"
  using assms by (rule discovery_answer_ack)

definition sample_rest :: discovery_rest where
  "sample_rest = \<lparr>dr_before = replicate 10 0, dr_between = replicate 56 0, dr_info = replicate 80 0\<rparr>"

theorem discovery_answer_read_witness:
  "gvcp_discovery_ack no_names (Some (received [] (discovery_answer sample_rest ''Aravis'' ''Fake'' ''GV01'' ''cam'' [0, 1, 2, 3, 4, 5]))) =
     Some (0, \<lparr>dn_vendor = ''Aravis'', dn_model = ''Fake'', dn_serial = ''GV01'', dn_user_id = ''cam'',
       dn_mac = print_mac [0, 1, 2, 3, 4, 5]\<rparr>)"
  by (rule discovery_answer_read) (simp_all add: sample_rest_def rest_ok_def NUL_def)

text \<open>A vendor that fills its field without a NUL, which the standard allows, makes the copy run on into the name of the
  model and past the buffer of the device.\<close>

theorem full_vendor_field_overflows:
  assumes "rest_ok r" "length mac = 6" "length vendor = 32" "NUL \<notin> set vendor"
    and "0 < length model" "length model \<le> 32" "NUL \<notin> set model" "length serial \<le> 16" "length user_id \<le> 16"
  shows "gvcp_discovery_ack d (Some (received junk (discovery_answer r vendor model serial user_id mac))) = None"
proof -
  let ?m = "discovery_answer r vendor model serial user_id mac"
  let ?p = "?m @ drop 256 junk"
  have l: "length vendor \<le> 32" "length model \<le> 32" "length serial \<le> 16" "length user_id \<le> 16" using assms by auto
  have "length ?m = 256" using assms l by (simp add: discovery_answer_length)
  then have p: "received junk ?m = ?p" using received_short [of ?m junk] by simp
  note f = discovery_answer_fields [OF assms(1) l assms(2) refl, of "drop 256 junk"]
  have "name_field 32 vendor @ name_field 32 model = char_bytes (vendor @ model) @ replicate (32 - length model) 0"
    using assms(3) by (simp add: name_field_def char_bytes_def)
  then have d: "drop (8 + 0x48) ?p = char_bytes (vendor @ model) @ replicate (32 - length model) 0 @ dr_info r @
      name_field 16 serial @ name_field 16 user_id @ drop 256 junk"
    using f(3) by (metis append.assoc)
  have n: "33 \<le> length (vendor @ model)" using assms(3,5) unfolding length_append by linarith
  have "NUL \<notin> set (vendor @ model)" using assms(4,7) by simp
  from copy_full_field [OF d this n] have "copy_packet_string ?p 0x48 33 = None" .
  then show ?thesis
    unfolding p gvcp_discovery_ack_def
    using f(1,2) by (simp add: discovery_field_defs of_be_bytes_be_bytes)
qed

theorem full_vendor_field_overflows_witness:
  "gvcp_discovery_ack no_names (Some (received [] (discovery_answer sample_rest (replicate 32 (CHR ''v'')) ''m'' [] [] [0, 1, 2, 3, 4, 5]))) =
     None"
  by (rule full_vendor_field_overflows) (simp_all add: sample_rest_def rest_ok_def NUL_def)

lemma find_device_result:
  "\<forall>k < length ds. devs (a + k) = Some (ds ! k) \<Longrightarrow>
   (case find (\<lambda>d. dv_ip d = id_string) ds of
      None \<Rightarrow> find_device id_string devs [a ..< a + length ds] = Some None
    | Some d \<Rightarrow> \<exists>x. find_device id_string devs [a ..< a + length ds] = Some (Some x) \<and> devs x = Some d)"
proof (induction ds arbitrary: a)
  case (Cons d ds)
  have "\<forall>k < length ds. devs (Suc a + k) = Some (ds ! k)"
    using Cons.prems by (metis Suc_less_eq add_Suc_shift length_Cons nth_Cons_Suc)
  from Cons.IH [OF this] have ih: "case find (\<lambda>d. dv_ip d = id_string) ds of
      None \<Rightarrow> find_device id_string devs [Suc a ..< Suc a + length ds] = Some None
    | Some d \<Rightarrow> \<exists>x. find_device id_string devs [Suc a ..< Suc a + length ds] = Some (Some x) \<and> devs x = Some d" .
  have "devs a = Some d" using Cons.prems by force
  moreover have "[a ..< a + length (d # ds)] = a # [Suc a ..< Suc a + length ds]" by (simp add: upt_conv_Cons del: upt_Suc)
  ultimately show ?case using ih by (auto simp del: upt_Suc split: option.splits)
qed simp

text \<open>\<open>device_find\<close> finds the first camera with the address: among the answers that count on the interfaces that are up, in
  the order of the interfaces and of arrival, the first whose address is the one asked for, or NULL if there is none.\<close>

theorem device_find_first:
  assumes "list_laws L" "good_ifaddrs is" "us = filter ifaddr_used is" "all_ready nameinfo junk evs (cw_fresh w) us"
    and "id_string \<noteq> []"
  shows "\<exists>r w'. device_find L (Some is) nameinfo junk evs (Some id_string) w = Some (r, w') \<and>
     (case find (\<lambda>d. dv_ip d = id_string) (found_devices nameinfo junk evs (cw_fresh w) us) of
        None \<Rightarrow> r = None
      | Some d \<Rightarrow> \<exists>a. r = Some a \<and> cw_devices w' a = Some d)"
proof -
  let ?ds = "found_devices nameinfo junk evs (cw_fresh w) us" and ?a = "cw_fresh w + length us"
  obtain l w1 where p: "prepare_devices_list L (Some is) nameinfo junk evs w = Some (l, int (length ?ds), w1)"
    "list_walk L l = [?a ..< ?a + length ?ds]" "\<forall>k < length ?ds. cw_devices w1 (?a + k) = Some (?ds ! k)"
    using prepare_devices_result [OF assms(1-4) refl] by blast
  note f = find_device_result [OF p(3), of id_string]
  show ?thesis
  proof (cases "find (\<lambda>d. dv_ip d = id_string) ?ds")
    case None
    have "\<forall>x \<in> set (list_walk L l). x \<in> dom (cw_devices w1)"
    proof
      fix x assume "x \<in> set (list_walk L l)"
      then have "x - ?a < length ?ds" "x = ?a + (x - ?a)" by (auto simp: p(2))
      then show "x \<in> dom (cw_devices w1)" using p(3) by (metis domI)
    qed
    then have "devices_ok L l w1" by (auto simp: devices_ok_def p(2))
    then obtain s where "devices_destroy L l (int (length ?ds)) w1 = Some s"
      using device_list.drained [of L "(l, int (length ?ds), w1)"] assms(1) by auto
    then show ?thesis
      using f None p(1,2) assms(5) by (cases s) (simp add: device_find_def)
  next
    case (Some d)
    then show ?thesis using f p(1,2) assms(5) by (auto simp: device_find_def)
  qed
qed

text \<open>Every discovery socket is closed, and each of them twice: by the search for answers and again with its interface, when
  its number may belong to another part of the program.\<close>

theorem discovery_sockets_closed_twice:
  assumes "list_laws L" "good_ifaddrs is" "us = filter ifaddr_used is" "all_ready nameinfo junk evs (cw_fresh w) us"
    and "set (map ia_socket us) \<inter> set (cw_open w) = {}"
  shows "\<exists>l cnt w'. prepare_devices_list L (Some is) nameinfo junk evs w = Some (l, cnt, w') \<and>
     set (cw_open w') = set (cw_open w) \<and> cw_closes w' = cw_closes w @ map ia_socket us @ map ia_socket us"
  using prepare_devices_result [OF assms(1-4) refl] assms(5) by blast


text \<open>A camera at 10.0.0.2 and one on another network, both answering on the interface 10.0.0.1.\<close>

definition sample_ifaddrs :: "ifaddr list" where
  "sample_ifaddrs =
     [\<lparr>ia_up = False, ia_pointopoint = False, ia_name = ''eth0'', ia_addr = None, ia_netmask = None, ia_socket = -1,
        ia_bound = False\<rparr>,
      \<lparr>ia_up = True, ia_pointopoint = False, ia_name = ''eth1'',
        ia_addr = Some \<lparr>sk_family = AF_INET, sk_ip = 0x0a000001, sk_port = 0\<rparr>,
        ia_netmask = Some \<lparr>sk_family = AF_INET, sk_ip = 0xffffff00, sk_port = 0\<rparr>, ia_socket = 5, ia_bound = True\<rparr>]"

definition sample_packet_from :: "u32 \<Rightarrow> discovery_event" where
  "sample_packet_from ip = Received \<lparr>sk_family = AF_INET, sk_ip = ip, sk_port = 3956\<rparr>
     (discovery_answer sample_rest ''Aravis'' ''Fake'' ''GV01'' ''cam'' [0, 1, 2, 3, 4, 5])"

definition sample_events :: "addr \<Rightarrow> discovery_event list" where
  "sample_events a = [SelectRetry, sample_packet_from 0x0b000002, sample_packet_from 0x0a000002]"

definition sample_nameinfo :: "sockaddr \<Rightarrow> (string \<times> string) option" where
  "sample_nameinfo s = Some (if sk_ip s = 0x0a000002 then ''10.0.0.2'' else ''11.0.0.2'', ''3956'')"

definition empty_world :: capture_world where
  "empty_world = \<lparr>cw_ifaces = (\<lambda>_. None), cw_devices = (\<lambda>_. None), cw_fresh = 0, cw_open = [0, 1, 2], cw_closes = [], cw_sent = []\<rparr>"

lemma sample_used: "filter ifaddr_used sample_ifaddrs = [sample_ifaddrs ! 1]"
  by (simp add: sample_ifaddrs_def ifaddr_used_def)

lemma sample_good: "good_ifaddrs sample_ifaddrs"
  by (simp add: good_ifaddrs_def sample_ifaddrs_def ifaddr_used_def good_ifaddr_def selectable_def)

lemma sample_ack: "gvcp_discovery_ack no_names (Some (received [] (discovery_answer sample_rest ''Aravis'' ''Fake'' ''GV01'' ''cam'' [0, 1, 2, 3, 4, 5]))) =
     Some (0, \<lparr>dn_vendor = ''Aravis'', dn_model = ''Fake'', dn_serial = ''GV01'', dn_user_id = ''cam'',
       dn_mac = print_mac [0, 1, 2, 3, 4, 5]\<rparr>)"
  by (rule discovery_answer_ack) (simp_all add: sample_rest_def rest_ok_def NUL_def)

lemma sample_counted: "counted 0x0a000001 0xffffff00 (sample_events a) = [sample_packet_from 0x0a000002]"
proof -
  have "length (discovery_answer sample_rest ''Aravis'' ''Fake'' ''GV01'' ''cam'' [0, 1, 2, 3, 4, 5]) = 256"
    by (rule discovery_answer_length) (simp_all add: sample_rest_def rest_ok_def)
  then show ?thesis
    by (simp add: sample_events_def sample_packet_from_def counted_def answer_ignored_def)
qed

lemma sample_ready: "all_ready sample_nameinfo [] sample_events 0 [sample_ifaddrs ! 1]"
  by (simp add: iface_ready_def iface_of_def sample_ifaddrs_def sample_counted selectable_def)
    (simp add: sample_packet_from_def sample_ack)

lemma sample_found:
  "\<exists>d. find (\<lambda>d. dv_ip d = ''10.0.0.2'') (found_devices sample_nameinfo [] sample_events 0 [sample_ifaddrs ! 1]) = Some d \<and>
     dv_ip d = ''10.0.0.2'' \<and> dn_vendor (dv_names d) = ''Aravis''"
  by (simp add: iface_devices_def iface_of_def sample_ifaddrs_def sample_counted)
    (simp add: sample_packet_from_def sample_ack device_create_def sample_nameinfo_def)

theorem device_find_first_witness:
  "\<exists>a w' d. device_find list_instance (Some sample_ifaddrs) sample_nameinfo [] sample_events (Some ''10.0.0.2'') empty_world =
       Some (Some a, w') \<and> cw_devices w' a = Some d \<and> dv_ip d = ''10.0.0.2'' \<and> dn_vendor (dv_names d) = ''Aravis''"
proof -
  have r: "all_ready sample_nameinfo [] sample_events (cw_fresh empty_world) [sample_ifaddrs ! 1]"
    using sample_ready by (simp add: empty_world_def)
  obtain d where d: "find (\<lambda>d. dv_ip d = ''10.0.0.2'') (found_devices sample_nameinfo [] sample_events 0 [sample_ifaddrs ! 1]) = Some d"
    "dv_ip d = ''10.0.0.2''" "dn_vendor (dv_names d) = ''Aravis''"
    using sample_found by blast
  then show ?thesis
    using device_find_first [OF list_instance_laws sample_good sample_used [symmetric] r, of "''10.0.0.2''"]
    by (auto simp: empty_world_def)
qed

theorem discovery_sockets_closed_twice_witness:
  "\<exists>l cnt w'. prepare_devices_list list_instance (Some sample_ifaddrs) sample_nameinfo [] sample_events empty_world =
     Some (l, cnt, w') \<and> set (cw_open w') = {0, 1, 2} \<and> cw_closes w' = [5, 5]"
proof -
  have r: "all_ready sample_nameinfo [] sample_events (cw_fresh empty_world) [sample_ifaddrs ! 1]"
    using sample_ready by (simp add: empty_world_def)
  show ?thesis
    using discovery_sockets_closed_twice [OF list_instance_laws sample_good sample_used [symmetric] r]
    by (simp add: empty_world_def sample_ifaddrs_def)
qed

text \<open>The number \<open>devices_discovery\<close> reports is the number of devices that \<open>prepare_devices_list\<close> would list: the two loops, which
  repeat each other's code, agree on what counts as a camera.\<close>

theorem devices_discovery_counts:
  assumes "list_laws L" "good_ifaddrs is" "us = filter ifaddr_used is" "all_ready nameinfo junk evs (cw_fresh w) us"
  shows "\<exists>n l w1 w2. devices_discovery L (Some is) junk evs w = Some (n, w1) \<and>
     prepare_devices_list L (Some is) nameinfo junk evs w = Some (l, n, w2) \<and> n = int (length (list_walk L l))"
proof -
  let ?a = "cw_fresh w" and ?n = "length us" and ?I = "\<lambda>x. iface_of (us ! (x - cw_fresh w))"
  let ?w1 = "with_interfaces us w"
  let ?ds = "found_devices nameinfo junk evs ?a us"
  obtain l1 where l1: "prepare_interfaces_list L (Some is) w = Some (Some (l1, int ?n), ?w1)"
    "list_walk L l1 = [?a ..< ?a + ?n]"
    using prepare_interfaces_result [OF assms(1,2)] assms(3) by blast
  have at: "\<forall>x \<in> set [?a ..< ?a + ?n]. cw_ifaces ?w1 x = Some (?I x) \<and> iface_ready nameinfo junk (?I x) (evs x)"
    using interfaces_ready [OF assms(3,4)] .
  have d: "concat (map (\<lambda>x. iface_devices nameinfo junk (?I x) (evs x)) [?a ..< ?a + ?n]) = ?ds"
    by (rule found_devices_concat) simp
  let ?w2 = "close_all (map (\<lambda>x. ni_fd (?I x)) [?a ..< ?a + ?n]) ?w1"
  have c: "count_all junk evs [?a ..< ?a + ?n] (0, ?w1) = Some (int (length ?ds), ?w2)"
    using count_all_result [OF at, of 0] d by simp
  have "\<forall>x \<in> set [?a ..< ?a + ?n]. cw_ifaces ?w2 x = Some (?I x)" using at by simp
  from ifaces_destroy_result [OF assms(1) l1(2) this, of "int ?n"] obtain s where
    "ifaces_destroy L l1 (int ?n) ?w2 = Some s" by blast
  then have "\<exists>w1. devices_discovery L (Some is) junk evs w = Some (int (length ?ds), w1)"
    unfolding devices_discovery_def using l1 c by (cases s) simp
  then show ?thesis using prepare_devices_result [OF assms refl] by force
qed

theorem devices_discovery_counts_witness:
  "\<exists>n l w1 w2. devices_discovery list_instance (Some sample_ifaddrs) [] sample_events empty_world = Some (n, w1) \<and>
     prepare_devices_list list_instance (Some sample_ifaddrs) sample_nameinfo [] sample_events empty_world = Some (l, n, w2) \<and>
     n = int (length (list_walk list_instance l))"
proof -
  have "all_ready sample_nameinfo [] sample_events (cw_fresh empty_world) [sample_ifaddrs ! 1]"
    using sample_ready by (simp add: empty_world_def)
  then show ?thesis by (rule devices_discovery_counts [OF list_instance_laws sample_good sample_used [symmetric]])
qed

end
