(* ===== verification/GigeCamera.thy ===== *)
theory GigeCamera imports Discovery begin

section \<open>Cameras\<close>

text \<open>
  \<^verbatim>\<open>libcapture/GigE/src/gige_camera_ops.c\<close>, what starts, keeps and stops the stream of each known camera, and
  \<^verbatim>\<open>gige_camera.c\<close> without the thread that receives the stream (see \<^verbatim>\<open>Gvsp\<close>): choosing the operations,
  opening a camera, its end and the test.
\<close>

subsection \<open>Operations of the known cameras\<close>

definition gvcp_watchdog_no :: "reg_access list" where "gvcp_watchdog_no = []"
definition gvcp_start_no :: "reg_access list" where "gvcp_start_no = []"
definition gvcp_stop_no :: "reg_access list" where "gvcp_stop_no = []"

definition gvcp_watchdog_arvfake :: "reg_access list" where
  "gvcp_watchdog_arvfake = [ReadReg GV_CONTROL_CHANNEL_PRIVILEGE_OFFSET, WriteUnless GV_CONTROL_CHANNEL_PRIVILEGE_OFFSET 0x02]"

definition gvcp_start_arvfake :: "reg_access list" where
  "gvcp_start_arvfake = [WriteReg GV_CONTROL_CHANNEL_PRIVILEGE_OFFSET 0x02, WriteReg 0x00000124 0x01]"

definition gvcp_stop_arvfake :: "reg_access list" where
  "gvcp_stop_arvfake = [WriteReg GV_CONTROL_CHANNEL_PRIVILEGE_OFFSET 0x02, WriteReg 0x00000124 0x00]"

definition gvcp_watchdog_flir_color :: "reg_access list" where
  "gvcp_watchdog_flir_color =
     [ReadReg GV_CONTROL_CHANNEL_PRIVILEGE_OFFSET, WriteUnless GV_CONTROL_CHANNEL_PRIVILEGE_OFFSET 0x02,
      WriteReg 0xF0F04030 0x80000000, ReadReg GV_STREAM_CHANNEL_SOURCE_PORT_OFFSET]"

definition gvcp_start_flir_color :: "reg_access list" where
  "gvcp_start_flir_color =
     [WriteReg GV_CONTROL_CHANNEL_PRIVILEGE_OFFSET 0x02,
      WriteReg 0xF0F00A08 0x00000000, ReadReg 0xF0F00A0C, WriteBack 0xF0F00A0C, WriteReg 0xF0F00A08 0x00000000,
      ReadReg 0xF0F00960, ReadReg 0xF0F00964, ReadReg 0xF0F00530, ReadReg 0xF0F00830, WriteReg 0xF0F00830 0x80000000,
      ReadReg 0xF0F0083C, WriteBack 0xF0F0083C, ReadReg 0xF0F0053C, ReadReg 0xF0F0083C, WriteReg 0xF0F0083C 0xC2000610,
      WriteReg 0xF0F00968 0x41200000, ReadReg 0xF0F05410, ReadReg 0xF0F04050, ReadReg 0xF0F04054,
      ReadReg GV_STREAM_CHANNEL_0_PORT_OFFSET, ReadReg GV_STREAM_CHANNEL_SOURCE_PORT_OFFSET,
      WriteReg 0xF0F04030 0x80000000]"

definition gvcp_stop_flir_color :: "reg_access list" where
  "gvcp_stop_flir_color =
     [WriteReg GV_CONTROL_CHANNEL_PRIVILEGE_OFFSET 0x02, ReadReg 0xF0F00614, WriteReg 0xF0F00614 0x00000000]"

definition gvcp_watchdog_flir_color2 :: "reg_access list" where
  "gvcp_watchdog_flir_color2 = [WriteReg GV_CONTROL_CHANNEL_PRIVILEGE_OFFSET 0x02]"

definition gvcp_start_flir_color2 :: "reg_access list" where
  "gvcp_start_flir_color2 =
     [WriteReg GV_CONTROL_CHANNEL_PRIVILEGE_OFFSET 0x02,
      WriteReg 0x00081044 0x00000000, WriteReg 0x00081024 0x00000000, ReadReg 0x00081084, ReadReg 0x00081084,
      WriteReg 0x00081044 0x00000000, WriteReg 0x00081024 0x00000000, ReadReg 0x000C1108, ReadReg 0x000C1148,
      ReadReg 0x000C8C40, ReadReg 0x000C8C20, ReadReg 0x000C8C00, WriteReg 0x000C8424 0x00000000,
      WriteReg 0x000C1124 0x00000001, ReadReg 0x20002008,
      ReadReg GV_STREAM_CHANNEL_0_PORT_OFFSET, ReadReg GV_STREAM_CHANNEL_SOURCE_PORT_OFFSET,
      WriteReg GV_CONTROL_CHANNEL_PRIVILEGE_OFFSET 0x02, WriteReg 0x000C0004 0x00000001]"

definition gvcp_stop_flir_color2 :: "reg_access list" where
  "gvcp_stop_flir_color2 =
     [WriteReg GV_CONTROL_CHANNEL_PRIVILEGE_OFFSET 0x02, ReadReg 0x000C0004, WriteReg 0x000C0024 0x00000001]"

definition gvcp_watchdog_baumer :: "reg_access list" where
  "gvcp_watchdog_baumer = [WriteReg GV_CONTROL_CHANNEL_PRIVILEGE_OFFSET 0x801]"

text \<open>The address \<open>0x820001004\<close> of the last read does not fit into 32 bits.\<close>

definition gvcp_start_baumer :: "reg_access list" where
  "gvcp_start_baumer =
     [WriteReg GV_CONTROL_CHANNEL_PRIVILEGE_OFFSET 0x803,
      ReadReg GV_STREAM_CHANNEL_0_PORT_OFFSET, ReadReg GV_STREAM_CHANNEL_SOURCE_PORT_OFFSET,
      WriteReg GV_CONTROL_CHANNEL_PRIVILEGE_OFFSET 0x02, WriteReg 0x82000000 0x00000801,
      ReadReg (word_of_int 0x820001004)]"

definition gvcp_stop_baumer :: "reg_access list" where
  "gvcp_stop_baumer = [ReadBad GV_CONTROL_CHANNEL_PRIVILEGE_OFFSET, WriteReg 0x820C0024 0x00000001]"

definition gvcp_watchdog_lucid_polar :: "reg_access list" where
  "gvcp_watchdog_lucid_polar = [WriteReg GV_CONTROL_CHANNEL_PRIVILEGE_OFFSET 0x02]"

definition gvcp_start_lucid_polar :: "reg_access list" where
  "gvcp_start_lucid_polar = [WriteReg GV_CONTROL_CHANNEL_PRIVILEGE_OFFSET 0x02, WriteReg 0x10300004 0x01]"

definition gvcp_stop_lucid_polar :: "reg_access list" where
  "gvcp_stop_lucid_polar = [ReadReg GV_CONTROL_CHANNEL_PRIVILEGE_OFFSET, WriteReg 0x10300004 0x00]"

definition gvcp_watchdog_flir_polar :: "reg_access list" where
  "gvcp_watchdog_flir_polar = [ReadReg GV_CONTROL_CHANNEL_PRIVILEGE_OFFSET]"

definition gvcp_start_flir_polar :: "reg_access list" where
  "gvcp_start_flir_polar =
     [WriteReg GV_CONTROL_CHANNEL_PRIVILEGE_OFFSET 0x02, WriteReg 0x00081044 0x00, WriteReg 0x00081024 0x00,
      WriteReg 0x00081084 0xc8, WriteReg 0x00081064 0xc8,
      WriteReg GV_CONTROL_CHANNEL_PRIVILEGE_OFFSET 0x02, ReadReg GV_STREAM_CHANNEL_SOURCE_PORT_OFFSET,
      ReadReg GV_STREAM_CHANNEL_0_PACKET_SIZE_OFFSET, WriteReg 0x00004050 0, WriteReg 0x00004054 0,
      WriteReg GV_CONTROL_CHANNEL_PRIVILEGE_OFFSET 0x02, WriteReg 0xc00c8 0x00, WriteReg 0xc1104 0x01,
      WriteReg 0xc0004 0x01]"

definition gvcp_stop_flir_polar :: "reg_access list" where
  "gvcp_stop_flir_polar = [WriteReg GV_CONTROL_CHANNEL_PRIVILEGE_OFFSET 0x02, WriteReg 0xc1124 0x00]"

record gige_camera_ops =
  op_watchdog :: "reg_access list"
  op_start :: "reg_access list"
  op_stop :: "reg_access list"

definition gige_camera_ops_no :: gige_camera_ops where
  "gige_camera_ops_no = \<lparr>op_watchdog = gvcp_watchdog_no, op_start = gvcp_start_no, op_stop = gvcp_stop_no\<rparr>"

definition gige_camera_ops_arvfake :: gige_camera_ops where
  "gige_camera_ops_arvfake =
     \<lparr>op_watchdog = gvcp_watchdog_arvfake, op_start = gvcp_start_arvfake, op_stop = gvcp_stop_arvfake\<rparr>"

definition gige_camera_ops_flir_color :: gige_camera_ops where
  "gige_camera_ops_flir_color =
     \<lparr>op_watchdog = gvcp_watchdog_flir_color, op_start = gvcp_start_flir_color, op_stop = gvcp_stop_flir_color\<rparr>"

definition gige_camera_ops_flir_color2 :: gige_camera_ops where
  "gige_camera_ops_flir_color2 =
     \<lparr>op_watchdog = gvcp_watchdog_flir_color2, op_start = gvcp_start_flir_color2, op_stop = gvcp_stop_flir_color2\<rparr>"

definition gige_camera_ops_flir_polar :: gige_camera_ops where
  "gige_camera_ops_flir_polar =
     \<lparr>op_watchdog = gvcp_watchdog_flir_polar, op_start = gvcp_start_flir_polar, op_stop = gvcp_stop_flir_polar\<rparr>"

definition gige_camera_ops_lucid_polar :: gige_camera_ops where
  "gige_camera_ops_lucid_polar =
     \<lparr>op_watchdog = gvcp_watchdog_lucid_polar, op_start = gvcp_start_lucid_polar, op_stop = gvcp_stop_lucid_polar\<rparr>"

definition gige_camera_ops_baumer :: gige_camera_ops where
  "gige_camera_ops_baumer =
     \<lparr>op_watchdog = gvcp_watchdog_baumer, op_start = gvcp_start_baumer, op_stop = gvcp_stop_baumer\<rparr>"

definition gige_camera_identify_ops :: "string \<Rightarrow> gige_camera_ops" where
  "gige_camera_identify_ops ip =
     (if ip = ''127.0.0.1'' then gige_camera_ops_arvfake
      else if ip = ''169.254.2.134'' then gige_camera_ops_flir_color
      else if ip = ''10.0.1.1'' \<or> ip = ''10.0.1.2'' then gige_camera_ops_baumer
      else if ip = ''10.0.0.2'' \<or> ip = ''10.0.1.4'' then gige_camera_ops_flir_color2
      else if ip = ''169.254.0.1'' \<or> ip = ''10.0.0.3'' then gige_camera_ops_lucid_polar
      else gige_camera_ops_no)"

subsection \<open>A camera\<close>

definition STREAM_STOP :: int where "STREAM_STOP = 0"
definition STREAM_LIVE :: int where "STREAM_LIVE = 1"

record gige_camera =
  gc_dev :: device
  gc_state :: int
  gc_ops :: gige_camera_ops
  gc_gvcp_fd :: int
  gc_gvsp_fd :: int
  gc_last_gvcp_packet_id :: u32
  gc_timestamp_tick_frequency :: u64
  gc_packet_size :: u32

text \<open>
  A call of one of the operations with \<open>next_packet_id(cam->last_gvcp_packet_id)\<close>; each has a variable \<open>value\<close> that
  starts as -1, and returns 0.
\<close>

definition camera_op ::
  "'e gvcp_os \<Rightarrow> (gige_camera_ops \<Rightarrow> reg_access list) \<Rightarrow> gige_camera \<times> 'e \<Rightarrow> (gige_camera \<times> 'e) option" where
  "camera_op os op s = (case s of (cam, e) \<Rightarrow>
     (case next_packet_id (gc_last_gvcp_packet_id cam) of (packet_id, last_id) \<Rightarrow> do {
        (i, value, e') \<leftarrow> access_registers os (gc_gvcp_fd cam) (op (gc_ops cam)) (packet_id, -1, e);
        Some (cam\<lparr>gc_last_gvcp_packet_id := last_id\<rparr>, e') }))"

text \<open>What the system answers to \<open>gige_camera_init\<close>.\<close>

record camera_answers =
  ca_gvcp_socket :: int
  ca_gvcp_bound :: bool
  ca_connected :: bool
  ca_gvsp_socket :: int
  ca_gvsp_bound :: bool
  ca_sockname :: "(u32 \<times> u16) option"

text \<open>
  \<open>fresh\<close> is the uninitialised memory of the new camera, \<open>junk\<close> the uninitialised variables below it. The result: the
  camera or NULL, the descriptors that are open (\<open>fds\<close> were before), and the environment.
\<close>

definition gige_camera_init ::
  "'e gvcp_os \<Rightarrow> camera_answers \<Rightarrow> gige_camera \<Rightarrow> u32 \<times> u32 \<times> u32 \<times> u32 \<Rightarrow> device option \<Rightarrow> int list \<times> 'e \<Rightarrow>
     (gige_camera option \<times> int list \<times> 'e) option" where
  "gige_camera_init os ans fresh junk p_dev s = (case (junk, s) of ((j1, j2, j3, j4), fds, e) \<Rightarrow>
     (case p_dev of
        None \<Rightarrow> Some (None, fds, e)
      | Some dev \<Rightarrow>
          let cam = fresh\<lparr>gc_dev := dev, gc_ops := gige_camera_identify_ops (dv_ip dev), gc_gvsp_fd := -1,
            gc_last_gvcp_packet_id := 0xf000\<rparr> in
          if ca_gvcp_socket ans < 0 then Some (None, fds, e)
          else let fds = ca_gvcp_socket ans # fds in
            if \<not> ca_gvcp_bound ans then Some (None, fds, e)
            else if \<not> ca_connected ans then Some (None, fds, e)
            else let cam = cam\<lparr>gc_gvcp_fd := ca_gvcp_socket ans\<rparr> in
              if ca_gvsp_socket ans < 0 then Some (None, removeAll (gc_gvcp_fd cam) fds, e)
              else let fd = ca_gvsp_socket ans; fds = fd # fds in
                if \<not> ca_gvsp_bound ans then Some (None, removeAll fd (removeAll (gc_gvcp_fd cam) fds), e)
                else (case next_packet_id (gc_last_gvcp_packet_id cam) of (packet_id, last_id) \<Rightarrow> do {
                  (packet_size, e) \<leftarrow> gvcp_init os (ca_sockname ans) (j1, j2) (gc_gvcp_fd cam) packet_id e;
                  let cam = cam\<lparr>gc_last_gvcp_packet_id := last_id, gc_packet_size := packet_size\<rparr>;
                  if 0 < packet_size
                  then (case next_packet_id (gc_last_gvcp_packet_id cam) of (packet_id, last_id) \<Rightarrow> do {
                    (freq, e) \<leftarrow> gvcp_get_timestamp_tick_frequency os j3 j4 (gc_gvcp_fd cam) packet_id e;
                    Some (Some (cam\<lparr>gc_gvsp_fd := fd, gc_last_gvcp_packet_id := last_id,
                      gc_timestamp_tick_frequency := freq\<rparr>), fds, e) })
                  else Some (None, fds, e) })))"

definition gige_camera_destroy :: "gige_camera \<Rightarrow> int list \<Rightarrow> int list" where
  "gige_camera_destroy cam fds = removeAll (gc_gvcp_fd cam) (removeAll (gc_gvsp_fd cam) fds)"

text \<open>\<open>gige_camera_test\<close>: \<open>n\<close> times the watchdog, or for ever; \<open>ended\<close> says whether the data thread returns.\<close>

fun watchdogs :: "'e gvcp_os \<Rightarrow> nat \<Rightarrow> gige_camera \<times> 'e \<Rightarrow> (gige_camera \<times> 'e) option" where
  "watchdogs os 0 s = Some s"
| "watchdogs os (Suc n) s = do { s' \<leftarrow> camera_op os op_watchdog s; watchdogs os n s' }"

definition gige_camera_test ::
  "'e gvcp_os \<Rightarrow> bool \<Rightarrow> int \<Rightarrow> gige_camera \<times> 'e \<Rightarrow> (int \<times> gige_camera \<times> 'e) call_result option" where
  "gige_camera_test os ended duration s = do {
     (cam, e) \<leftarrow> camera_op os op_start s;
     let cam = cam\<lparr>gc_state := STREAM_LIVE\<rparr>;
     if duration = 0 then Some Hangs
     else do {
       (cam, e) \<leftarrow> watchdogs os (nat duration) (cam, e);
       (cam, e) \<leftarrow> camera_op os op_stop (cam, e);
       let cam = cam\<lparr>gc_state := STREAM_STOP, gc_gvcp_fd := -1, gc_gvsp_fd := -1\<rparr>;
       Some (if ended then Returns (0, cam, e) else Hangs) } }"


subsection \<open>Library\<close>

lemmas camera_ops_defs = gige_camera_ops_no_def gige_camera_ops_arvfake_def gige_camera_ops_flir_color_def
  gige_camera_ops_flir_color2_def gige_camera_ops_flir_polar_def gige_camera_ops_lucid_polar_def
  gige_camera_ops_baumer_def

lemmas operation_defs = gvcp_watchdog_arvfake_def gvcp_start_arvfake_def gvcp_stop_arvfake_def
  gvcp_watchdog_flir_color_def gvcp_start_flir_color_def gvcp_stop_flir_color_def
  gvcp_watchdog_flir_color2_def gvcp_start_flir_color2_def gvcp_stop_flir_color2_def
  gvcp_watchdog_lucid_polar_def gvcp_start_lucid_polar_def gvcp_stop_lucid_polar_def
  gvcp_watchdog_flir_polar_def gvcp_start_flir_polar_def gvcp_stop_flir_polar_def

text \<open>The operations that keep the privilege of control at 2: all but those of Baumer's cameras and of unknown ones.\<close>

definition controlling_ops :: "gige_camera_ops list" where
  "controlling_ops = [gige_camera_ops_arvfake, gige_camera_ops_flir_color, gige_camera_ops_flir_color2,
     gige_camera_ops_flir_polar, gige_camera_ops_lucid_polar]"

definition has_control :: "(u32 \<Rightarrow> u32) \<Rightarrow> bool" where
  "has_control r \<longleftrightarrow> r GV_CONTROL_CHANNEL_PRIVILEGE_OFFSET = 2"

lemma start_takes_control:
  "ops \<in> set controlling_ops \<Longrightarrow> has_control (snd (reg_effects (op_start ops) (v, r))) \<and> (\<forall>c \<in> set (op_start ops). good_access c)"
  by (auto simp: controlling_ops_def camera_ops_defs operation_defs has_control_def gv_register_defs)

lemma watchdog_keeps_control:
  "ops \<in> set controlling_ops \<Longrightarrow> has_control r \<Longrightarrow>
     has_control (snd (reg_effects (op_watchdog ops) (v, r))) \<and> (\<forall>c \<in> set (op_watchdog ops). good_access c)"
  by (auto simp: controlling_ops_def camera_ops_defs operation_defs has_control_def gv_register_defs)

lemma stop_keeps_control:
  "ops \<in> set controlling_ops \<Longrightarrow> has_control r \<Longrightarrow>
     has_control (snd (reg_effects (op_stop ops) (v, r))) \<and> (\<forall>c \<in> set (op_stop ops). good_access c)"
  by (auto simp: controlling_ops_def camera_ops_defs operation_defs has_control_def gv_register_defs)

text \<open>An operation changes the registers as its list of accesses says, and only the id in the camera.\<close>

lemma camera_op_result:
  assumes "camera_laws os (gc_gvcp_fd cam) idle regs" "idle e" "\<forall>c \<in> set (op (gc_ops cam)). good_access c"
  shows "\<exists>e'. camera_op os op (cam, e) = Some (cam\<lparr>gc_last_gvcp_packet_id := gc_last_gvcp_packet_id cam + 1\<rparr>, e') \<and> idle e' \<and>
     regs e' = snd (reg_effects (op (gc_ops cam)) (-1, regs e))"
proof -
  let ?i = "packet_id_of (gc_last_gvcp_packet_id cam + 1)"
  obtain i' v' e' where r: "access_registers os (gc_gvcp_fd cam) (op (gc_ops cam)) (?i, -1, e) = Some (i', v', e')" "idle e'"
    "(v', regs e') = reg_effects (op (gc_ops cam)) (-1, regs e)"
    using access_registers_effects [OF assms, of ?i "-1"] by blast
  have "regs e' = snd (reg_effects (op (gc_ops cam)) (-1, regs e))" by (metis r(3) snd_conv)
  then show ?thesis using r(1,2) by (auto simp: camera_op_def next_packet_id_def)
qed

text \<open>Operations change nothing but the id, so the laws go on to hold for the camera.\<close>

definition same_camera :: "gige_camera \<Rightarrow> gige_camera \<Rightarrow> bool" where
  "same_camera cam cam' \<longleftrightarrow> gc_ops cam' = gc_ops cam \<and> gc_gvcp_fd cam' = gc_gvcp_fd cam"

lemma camera_step_control:
  assumes "camera_laws os (gc_gvcp_fd cam) idle regs" "idle e" "\<forall>c \<in> set (op (gc_ops cam)). good_access c"
    and "has_control (snd (reg_effects (op (gc_ops cam)) (-1, regs e)))"
  shows "\<exists>cam' e'. camera_op os op (cam, e) = Some (cam', e') \<and> same_camera cam cam' \<and> idle e' \<and> has_control (regs e')"
  using camera_op_result [OF assms(1,2), where op = op] assms(3,4) by (auto simp: same_camera_def)

lemma watchdogs_control:
  assumes "camera_laws os (gc_gvcp_fd cam) idle regs" "idle e" "gc_ops cam \<in> set controlling_ops" "has_control (regs e)"
  shows "\<exists>cam' e'. watchdogs os n (cam, e) = Some (cam', e') \<and> same_camera cam cam' \<and> idle e' \<and> has_control (regs e')"
  using assms
proof (induction n arbitrary: cam e)
  case 0
  then show ?case by (simp add: same_camera_def)
next
  case (Suc n)
  obtain cam1 e1 where s: "camera_op os op_watchdog (cam, e) = Some (cam1, e1)" "same_camera cam cam1" "idle e1" "has_control (regs e1)"
    using camera_step_control [OF Suc.prems(1,2), of op_watchdog] watchdog_keeps_control [OF Suc.prems(3,4)] by blast
  have "\<exists>cam' e'. watchdogs os n (cam1, e1) = Some (cam', e') \<and> same_camera cam1 cam' \<and> idle e' \<and> has_control (regs e')"
    by (rule Suc.IH) (use s Suc.prems in \<open>simp_all add: same_camera_def\<close>)
  then show ?case using s(1,2) by (auto simp: same_camera_def)
qed

lemma timestamp_result:
  assumes "camera_laws os fd idle regs" "idle e"
  shows "\<exists>e'. gvcp_get_timestamp_tick_frequency os high low fd packet_id e =
      Some (push_bit 32 (ucast (regs e GV_TIMESTAMP_TICK_FREQUENCY_HIGH_OFFSET)) OR
        ucast (regs e GV_TIMESTAMP_TICK_FREQUENCY_LOW_OFFSET), e') \<and> idle e' \<and> regs e' = regs e"
proof -
  obtain i1 e1 where 1: "access_register os fd (ReadReg GV_TIMESTAMP_TICK_FREQUENCY_HIGH_OFFSET) (packet_id, high, e) =
      Some (i1, regs e GV_TIMESTAMP_TICK_FREQUENCY_HIGH_OFFSET, e1)" "idle e1" "regs e1 = regs e"
    using access_register_effect [OF assms, of "ReadReg GV_TIMESTAMP_TICK_FREQUENCY_HIGH_OFFSET" packet_id high] by auto
  obtain i2 e2 where 2: "access_register os fd (ReadReg GV_TIMESTAMP_TICK_FREQUENCY_LOW_OFFSET) (i1, low, e1) =
      Some (i2, regs e GV_TIMESTAMP_TICK_FREQUENCY_LOW_OFFSET, e2)" "idle e2" "regs e2 = regs e"
    using access_register_effect [OF assms(1) 1(2), of "ReadReg GV_TIMESTAMP_TICK_FREQUENCY_LOW_OFFSET" i1 low] 1(3) by auto
  show ?thesis
    unfolding gvcp_get_timestamp_tick_frequency_def using 1 2 by (simp del: access_register.simps)
qed

text \<open>Both sockets could be opened.\<close>

definition sockets_ok :: "camera_answers \<Rightarrow> bool" where
  "sockets_ok ans \<longleftrightarrow> 0 \<le> ca_gvcp_socket ans \<and> ca_gvcp_bound ans \<and> ca_connected ans \<and> 0 \<le> ca_gvsp_socket ans \<and> ca_gvsp_bound ans"


text \<open>A device and a camera to apply the properties to.\<close>

definition known_device :: "string \<Rightarrow> device" where
  "known_device ip = \<lparr>dv_fd = 5, dv_ip = ip, dv_port = ''3956'', dv_names = no_names, dv_iface_addr = \<lparr>sk_family = AF_INET, sk_ip = 0x7f000001, sk_port = 0\<rparr>\<rparr>"

definition known_camera :: "string \<Rightarrow> gige_camera" where
  "known_camera ip = \<lparr>gc_dev = known_device ip, gc_state = STREAM_STOP, gc_ops = gige_camera_identify_ops ip, gc_gvcp_fd = 3,
     gc_gvsp_fd = 4, gc_last_gvcp_packet_id = 0xf002, gc_timestamp_tick_frequency = 1, gc_packet_size = 8000\<rparr>"

definition good_answers :: camera_answers where
  "good_answers = \<lparr>ca_gvcp_socket = 3, ca_gvcp_bound = True, ca_connected = True, ca_gvsp_socket = 4, ca_gvsp_bound = True,
     ca_sockname = Some (0x7f000001, 3000)\<rparr>"

lemma good_answers_ok: "sockets_ok good_answers"
  by (simp add: sockets_ok_def good_answers_def)


text \<open>Opening a camera that answers.\<close>

lemma camera_opened:
  assumes "sockets_ok ans" "camera_laws os (ca_gvcp_socket ans) idle regs" "idle e" "ca_sockname ans = Some (ip, port)"
    and "0 < regs e GV_STREAM_CHANNEL_0_PACKET_SIZE_OFFSET"
  shows "\<exists>cam e'. gige_camera_init os ans fresh junk (Some dev) (fds, e) =
       Some (Some cam, ca_gvsp_socket ans # ca_gvcp_socket ans # fds, e') \<and>
     gc_dev cam = dev \<and> gc_ops cam = gige_camera_identify_ops (dv_ip dev) \<and>
     gc_gvcp_fd cam = ca_gvcp_socket ans \<and> gc_gvsp_fd cam = ca_gvsp_socket ans \<and>
     gc_packet_size cam = regs e' GV_STREAM_CHANNEL_0_PACKET_SIZE_OFFSET \<and> gc_packet_size cam \<le> DEFAULT_PACKET_SIZE \<and>
     gc_timestamp_tick_frequency cam = push_bit 32 (ucast (regs e' GV_TIMESTAMP_TICK_FREQUENCY_HIGH_OFFSET)) OR
       ucast (regs e' GV_TIMESTAMP_TICK_FREQUENCY_LOW_OFFSET) \<and>
     has_control (regs e') \<and> idle e'"
proof -
  obtain j1 j2 j3 j4 where j: "junk = (j1, j2, j3, j4)" by (metis prod_cases4)
  let ?fd = "ca_gvcp_socket ans" and ?size = "min (regs e GV_STREAM_CHANNEL_0_PACKET_SIZE_OFFSET) DEFAULT_PACKET_SIZE"
  obtain e1 where 1: "gvcp_init os (Some (ip, port)) (j1, j2) ?fd (packet_id_of 0xf001) e = Some (?size, e1)" "idle e1"
    "regs e1 = (regs e)(GV_CONTROL_CHANNEL_PRIVILEGE_OFFSET := 2, GV_STREAM_CHANNEL_0_IP_ADDRESS_OFFSET := ip,
       GV_STREAM_CHANNEL_0_PORT_OFFSET := ucast port, GV_STREAM_CHANNEL_0_PACKET_SIZE_OFFSET := ?size)"
    using gvcp_init_result [OF assms(2,3)] by blast
  obtain e2 where 2: "gvcp_get_timestamp_tick_frequency os j3 j4 ?fd (packet_id_of 0xf002) e1 =
      Some (push_bit 32 (ucast (regs e1 GV_TIMESTAMP_TICK_FREQUENCY_HIGH_OFFSET)) OR
        ucast (regs e1 GV_TIMESTAMP_TICK_FREQUENCY_LOW_OFFSET), e2)" "idle e2" "regs e2 = regs e1"
    using timestamp_result [OF assms(2) 1(2)] by blast
  have pos: "0 < ?size" using assms(5) by (simp add: min_def DEFAULT_PACKET_SIZE_def)
  have regs: "regs e2 GV_STREAM_CHANNEL_0_PACKET_SIZE_OFFSET = ?size" "has_control (regs e2)"
    using 1(3) 2(3) by (simp_all add: has_control_def gv_register_defs)
  show ?thesis
    using assms(1,4) pos 1(1) 2(1,2) regs
    by (simp add: gige_camera_init_def sockets_ok_def j Let_def next_packet_id_def 2(3))
qed

subsection \<open>Properties\<close>

text \<open>Opening a camera that answers: the camera gets both sockets, a packet size of at most 8000 bytes that it also has in its
  register, the frequency of its clock from the two halves, and the control; both sockets stay open.\<close>

theorem gige_camera_opened:
  assumes "sockets_ok ans" "camera_laws os (ca_gvcp_socket ans) idle regs" "idle e" "ca_sockname ans = Some (ip, port)"
    and "0 < regs e GV_STREAM_CHANNEL_0_PACKET_SIZE_OFFSET"
  shows "\<exists>cam e'. gige_camera_init os ans fresh junk (Some dev) (fds, e) =
       Some (Some cam, ca_gvsp_socket ans # ca_gvcp_socket ans # fds, e') \<and>
     gc_dev cam = dev \<and> gc_ops cam = gige_camera_identify_ops (dv_ip dev) \<and>
     gc_gvcp_fd cam = ca_gvcp_socket ans \<and> gc_gvsp_fd cam = ca_gvsp_socket ans \<and>
     gc_packet_size cam = regs e' GV_STREAM_CHANNEL_0_PACKET_SIZE_OFFSET \<and> gc_packet_size cam \<le> DEFAULT_PACKET_SIZE \<and>
     gc_timestamp_tick_frequency cam = push_bit 32 (ucast (regs e' GV_TIMESTAMP_TICK_FREQUENCY_HIGH_OFFSET)) OR
       ucast (regs e' GV_TIMESTAMP_TICK_FREQUENCY_LOW_OFFSET) \<and>
     has_control (regs e') \<and> idle e'"
  by (rule camera_opened [OF assms])

theorem gige_camera_opened_witness:
  "\<exists>cam e'. gige_camera_init register_file good_answers (known_camera []) (0, 0, 0, 0) (Some (known_device ''127.0.0.1'')) ([], \<lambda>a. 9000, []) =
       Some (Some cam, [4, 3], e') \<and> gc_ops cam = gige_camera_ops_arvfake \<and> gc_packet_size cam \<le> 8000 \<and> fst e' 0xa00 = 2"
  using gige_camera_opened [OF good_answers_ok, where os = register_file and idle = "\<lambda>e. snd e = []" and regs = fst
      and e = "(\<lambda>a. 9000, [])" and ip = "0x7f000001" and port = 3000 and fresh = "known_camera []" and junk = "(0, 0, 0, 0)"
      and fds = "[]" and dev = "known_device ''127.0.0.1''"] register_file_laws
  by (auto simp: good_answers_def known_device_def gige_camera_identify_ops_def has_control_def DEFAULT_PACKET_SIZE_def
      GV_CONTROL_CHANNEL_PRIVILEGE_OFFSET_def)

text \<open>Opening a camera that does not answer: NULL is returned, but both sockets stay open and nothing refers to them.\<close>

theorem gige_camera_init_leaks_sockets:
  assumes "sockets_ok ans" "silent_camera os (ca_gvcp_socket ans)"
  shows "\<exists>e'. gige_camera_init os ans fresh junk (Some dev) (fds, e) =
       Some (None, ca_gvsp_socket ans # ca_gvcp_socket ans # fds, e')"
proof -
  obtain j1 j2 j3 j4 where j: "junk = (j1, j2, j3, j4)" by (metis prod_cases4)
  obtain e1 where "gvcp_init os (ca_sockname ans) (j1, j2) (ca_gvcp_socket ans) (packet_id_of 0xf001) e = Some (0, e1)"
    using gvcp_init_silent [OF assms(2)] by blast
  then show ?thesis
    using assms(1) by (simp add: gige_camera_init_def sockets_ok_def j Let_def next_packet_id_def)
qed

theorem gige_camera_init_leaks_sockets_witness:
  "\<exists>e'. gige_camera_init switched_off good_answers (known_camera []) (0, 0, 0, 0) (Some (known_device ''127.0.0.1'')) ([], ()) =
     Some (None, [4, 3], e')"
  using gige_camera_init_leaks_sockets [OF good_answers_ok switched_off_silent, where fresh = "known_camera []"
      and junk = "(0, 0, 0, 0)" and dev = "known_device ''127.0.0.1''" and fds = "[]" and e = "()"]
  by (simp add: good_answers_def)



text \<open>Stopping a Baumer camera that answers is undefined: the code passes the number 0x801 where the address of a variable
  belongs, and the answer is stored there.\<close>

theorem baumer_stop_undefined:
  assumes "camera_laws os (gc_gvcp_fd cam) idle regs" "idle e" "gc_ops cam = gige_camera_ops_baumer"
  shows "camera_op os op_stop (cam, e) = None"
proof -
  let ?i = "packet_id_of (packet_id_of (gc_last_gvcp_packet_id cam + 1) + 1)"
  have fd: "gc_gvcp_fd cam \<noteq> -1" by (rule camera_lawsD(1) [OF assms(1)])
  let ?ack = "gvcp_ack GVCP_COMMAND_READ_REG_ACK (ucast ?i) (regs e GV_CONTROL_CHANNEL_PRIVILEGE_OFFSET)"
  obtain e' where "answers_with os (gc_gvcp_fd cam) (gvcp_read_register_packet GV_CONTROL_CHANNEL_PRIVILEGE_OFFSET ?i) e ?ack e'"
    using camera_lawsD(2) [OF assms(1,2)] by blast
  then obtain rc e1 e2 where w: "os_write os (gc_gvcp_fd cam) (gvcp_read_register_packet GV_CONTROL_CHANNEL_PRIVILEGE_OFFSET ?i) e = (rc, e1)"
      "os_epoll os (gc_gvcp_fd cam) e1 = (True, e2)" "os_wait os (gc_gvcp_fd cam) e2 = (Datagram ?ack, e')"
    by (auto simp: answers_with_def)
  have "listen_packet_ack_new os (gc_gvcp_fd cam) e1 = Some (Some (take 12 ?ack), e')"
    by (rule listen_ack [OF fd w(2,3)]) simp
  then show ?thesis
    using w(1) assms(3) by (simp add: camera_op_def next_packet_id_def gige_camera_ops_baumer_def gvcp_stop_baumer_def)
qed

theorem baumer_stop_undefined_witness:
  "camera_op register_file op_stop (known_camera ''10.0.1.1'', \<lambda>a. 0, []) = None"
  by (rule baumer_stop_undefined [where idle = "\<lambda>e. snd e = []" and regs = fst])
    (simp_all add: known_camera_def gige_camera_identify_ops_def register_file_laws)

text \<open>The ids of requests are not unique: an operation starts from the id that follows the camera's last operation by one,
  however many requests that operation sent, so the requests of an operation repeat the ids of those of the
  operation before.\<close>

theorem operations_share_ids:
  assumes "camera_op (logged os) op1 (cam, e, []) = Some (cam1, e1, ps1)"
    and "camera_op (logged os) op2 (cam1, e1, []) = Some (cam2, e2, ps2)"
    and "Suc k < length ps1" "k < length ps2"
  shows "packet_id_field (ps2 ! k) = packet_id_field (ps1 ! Suc k)"
proof -
  let ?c = "gc_last_gvcp_packet_id cam"
  have c1: "gc_last_gvcp_packet_id cam1 = ?c + 1"
    using assms(1) by (auto simp: camera_op_def next_packet_id_def bind_eq_Some_conv)
  have p: "map packet_id_field ps1 = ids_from (packet_id_of (?c + 1)) (length ps1)"
    "map packet_id_field ps2 = ids_from (packet_id_of (?c + 2)) (length ps2)"
    using assms(1,2) c1 by (auto simp: camera_op_def next_packet_id_def bind_eq_Some_conv add.assoc dest!: access_registers_log)
  have "packet_id_field (ps1 ! Suc k) = ids_from (packet_id_of (?c + 1)) (length ps1) ! Suc k"
    using assms(3) by (simp add: p(1) [symmetric])
  moreover have "packet_id_field (ps2 ! k) = ids_from (packet_id_of (?c + 2)) (length ps2) ! k"
    using assms(4) by (simp add: p(2) [symmetric])
  moreover have "id_after (?c + 2) k = id_after (?c + 1) (Suc k)"
    using id_after_Suc [of "?c + 1" k] by (simp add: add.assoc)
  ultimately show ?thesis using assms(3,4) by (simp add: ids_from_def id_after_add)
qed

theorem operations_share_ids_witness:
  "(do { (cam1, e1, ps1) \<leftarrow> camera_op (logged switched_off) op_start (known_camera ''127.0.0.1'', (), []);
         (cam2, e2, ps2) \<leftarrow> camera_op (logged switched_off) op_stop (cam1, e1, []);
         Some (packet_id_field (ps2 ! 0) = packet_id_field (ps1 ! 1)) }) = Some True"
proof -
  let ?cam = "known_camera ''127.0.0.1''"
  have 1: "camera_op (logged switched_off) op_start (?cam, (), []) = Some (?cam\<lparr>gc_last_gvcp_packet_id := 0xf003\<rparr>, (),
      [gvcp_write_register_packet GV_CONTROL_CHANNEL_PRIVILEGE_OFFSET 2 0xf004, gvcp_write_register_packet 0x124 1 0xf005])"
    by (simp add: camera_op_def known_camera_def gige_camera_identify_ops_def gige_camera_ops_arvfake_def gvcp_start_arvfake_def
        next_packet_id_def packet_id_of_def write_register_def logged_def switched_off_def
        listen_packet_ack_new_def listen_loop.simps gvcp_register_ack_def)
  have 2: "camera_op (logged switched_off) op_stop (?cam\<lparr>gc_last_gvcp_packet_id := 0xf003\<rparr>, (), []) =
      Some (?cam\<lparr>gc_last_gvcp_packet_id := 0xf004\<rparr>, (),
      [gvcp_write_register_packet GV_CONTROL_CHANNEL_PRIVILEGE_OFFSET 2 0xf005, gvcp_write_register_packet 0x124 0 0xf006])"
    by (simp add: camera_op_def known_camera_def gige_camera_identify_ops_def gige_camera_ops_arvfake_def gvcp_stop_arvfake_def
        next_packet_id_def packet_id_of_def write_register_def logged_def switched_off_def
        listen_packet_ack_new_def listen_loop.simps gvcp_register_ack_def)
  show ?thesis using operations_share_ids [OF 1 2, of 0] unfolding 1 2 bind.bind_lunit case_prod_conv by simp
qed

end
