(* ===== verification/Gvsp.thy ===== *)
theory Gvsp imports GigeCamera begin

section \<open>The stream of a camera\<close>

text \<open>
  \<^verbatim>\<open>libcapture/GigE/include/udpcapture/gvsp.h\<close>, the fields of the packets a camera streams, and
  \<^verbatim>\<open>camera_gvsp_thread\<close> of \<^verbatim>\<open>gige_camera.c\<close>, which puts the packets together to frames. A packet is the
  memory it was received in, so it has the bytes of older packets behind those of a short datagram.
\<close>

subsection \<open>Fields of packets\<close>

definition GVSP_PACKET_EXTENDED_ID_MODE_MASK :: byte where "GVSP_PACKET_EXTENDED_ID_MODE_MASK = 0x80"
definition GVSP_PACKET_ID_MASK :: u32 where "GVSP_PACKET_ID_MASK = 0x00ffffff"
definition GVSP_PACKET_INFO_CONTENT_TYPE_MASK :: u32 where "GVSP_PACKET_INFO_CONTENT_TYPE_MASK = 0x7f000000"
definition GVSP_PACKET_INFO_CONTENT_TYPE_POS :: nat where "GVSP_PACKET_INFO_CONTENT_TYPE_POS = 24"

definition IP_HEADER_SIZE :: u32 where "IP_HEADER_SIZE = 20"
definition UDP_HEADER_SIZE :: u32 where "UDP_HEADER_SIZE = 8"

definition GVSP_CONTENT_TYPE_DATA_LEADER :: u32 where "GVSP_CONTENT_TYPE_DATA_LEADER = 0x01"
definition GVSP_CONTENT_TYPE_DATA_TRAILER :: u32 where "GVSP_CONTENT_TYPE_DATA_TRAILER = 0x02"
definition GVSP_CONTENT_TYPE_DATA_BLOCK :: u32 where "GVSP_CONTENT_TYPE_DATA_BLOCK = 0x03"

definition GVSP_PAYLOAD_TYPE_UNKNOWN :: int where "GVSP_PAYLOAD_TYPE_UNKNOWN = -1"
definition GVSP_PAYLOAD_TYPE_IMAGE :: int where "GVSP_PAYLOAD_TYPE_IMAGE = 0x0001"
definition GVSP_PAYLOAD_TYPE_FILE :: int where "GVSP_PAYLOAD_TYPE_FILE = 0x0003"

definition GVSP_PACKET_TYPE_PACKET_UNAVAILABLE :: u16 where "GVSP_PACKET_TYPE_PACKET_UNAVAILABLE = 0x800c"

text \<open>The sizes of \<open>struct gvsp_packet\<close> and of the two headers behind it.\<close>

definition gvsp_packet_bytes :: u64 where "gvsp_packet_bytes = 2"
definition gvsp_header_bytes :: u64 where "gvsp_header_bytes = 6"
definition gvsp_extended_header_bytes :: u64 where "gvsp_extended_header_bytes = 18"

definition gvsp_packet_type_is_error :: "u16 \<Rightarrow> bool" where
  "gvsp_packet_type_is_error packet_type \<longleftrightarrow> packet_type = ucast GVCP_PACKET_TYPE_ERROR"

definition gvsp_packet_get_packet_type :: "byte list \<Rightarrow> u16 option" where
  "gvsp_packet_get_packet_type packet = do { bs \<leftarrow> region_read packet 0 2; Some (of_be_bytes bs) }"

definition gvsp_packet_has_extended_ids :: "byte list \<Rightarrow> bool option" where
  "gvsp_packet_has_extended_ids packet = do {
     bs \<leftarrow> region_read packet 4 1;
     Some ((bs ! 0) AND GVSP_PACKET_EXTENDED_ID_MODE_MASK \<noteq> 0) }"

text \<open>\<open>packet_info\<close> is at the same place in both headers.\<close>

definition gvsp_packet_get_content_type :: "byte list \<Rightarrow> u32 option" where
  "gvsp_packet_get_content_type packet = do {
     extended \<leftarrow> gvsp_packet_has_extended_ids packet;
     bs \<leftarrow> region_read packet 4 4;
     Some (drop_bit GVSP_PACKET_INFO_CONTENT_TYPE_POS (of_be_bytes bs AND GVSP_PACKET_INFO_CONTENT_TYPE_MASK)) }"

definition gvsp_packet_get_packet_id :: "byte list \<Rightarrow> u32 option" where
  "gvsp_packet_get_packet_id packet = do {
     extended \<leftarrow> gvsp_packet_has_extended_ids packet;
     if extended then do { bs \<leftarrow> region_read packet 16 4; Some (of_be_bytes bs) }
     else do { bs \<leftarrow> region_read packet 4 4; Some (of_be_bytes bs AND GVSP_PACKET_ID_MASK) } }"

text \<open>The extended id is read in the order of the machine, not of the network.\<close>

definition gvsp_packet_get_frame_id :: "byte list \<Rightarrow> u64 option" where
  "gvsp_packet_get_frame_id packet = do {
     extended \<leftarrow> gvsp_packet_has_extended_ids packet;
     if extended then do { bs \<leftarrow> region_read packet 8 8; Some (of_le_bytes bs) }
     else do { bs \<leftarrow> region_read packet 2 2; Some (ucast (of_be_bytes bs :: u16)) } }"

text \<open>Where the data starts in the packet.\<close>

definition gvsp_packet_get_data :: "byte list \<Rightarrow> nat option" where
  "gvsp_packet_get_data packet = do {
     extended \<leftarrow> gvsp_packet_has_extended_ids packet;
     Some (if extended then 20 else 8) }"

definition gvsp_packet_get_data_size :: "byte list \<Rightarrow> u64 \<Rightarrow> u64 option" where
  "gvsp_packet_get_data_size packet packet_size = do {
     extended \<leftarrow> gvsp_packet_has_extended_ids packet;
     Some (if extended then packet_size - gvsp_packet_bytes - gvsp_extended_header_bytes
       else packet_size - gvsp_packet_bytes - gvsp_header_bytes) }"

text \<open>A number of \<open>struct gvsp_data_leader\<close>, \<open>off\<close> bytes from its start.\<close>

definition leader_field :: "byte list \<Rightarrow> nat \<Rightarrow> u32 option" where
  "leader_field packet off = do {
     leader \<leftarrow> gvsp_packet_get_data packet;
     bs \<leftarrow> region_read packet (leader + off) 4;
     Some (of_be_bytes bs) }"

definition gvsp_packet_get_payload_type :: "byte list \<Rightarrow> int option" where
  "gvsp_packet_get_payload_type packet = do {
     leader \<leftarrow> gvsp_packet_get_data packet;
     bs \<leftarrow> region_read packet (leader + 2) 2;
     let payload_type = uint (of_be_bytes bs :: u16) in
       Some (if payload_type = GVSP_PAYLOAD_TYPE_IMAGE \<or> payload_type = GVSP_PAYLOAD_TYPE_FILE then GVSP_PAYLOAD_TYPE_IMAGE
         else GVSP_PAYLOAD_TYPE_UNKNOWN) }"

definition gvsp_packet_get_pixel_format :: "byte list \<Rightarrow> u32 option" where
  "gvsp_packet_get_pixel_format packet = leader_field packet 12"

definition gvsp_packet_get_width :: "byte list \<Rightarrow> u32 option" where
  "gvsp_packet_get_width packet = leader_field packet 16"

definition gvsp_packet_get_height :: "byte list \<Rightarrow> u32 option" where
  "gvsp_packet_get_height packet = leader_field packet 20"

definition gvsp_packet_get_x_offset :: "byte list \<Rightarrow> u32 option" where
  "gvsp_packet_get_x_offset packet = leader_field packet 24"

definition gvsp_packet_get_y_offset :: "byte list \<Rightarrow> u32 option" where
  "gvsp_packet_get_y_offset packet = leader_field packet 28"

definition gvsp_packet_get_timestamp :: "byte list \<Rightarrow> u64 \<Rightarrow> u64 option" where
  "gvsp_packet_get_timestamp packet timestamp_tick_frequency = do {
     leader \<leftarrow> gvsp_packet_get_data packet;
     if timestamp_tick_frequency < 1 then Some 0
     else do {
       high \<leftarrow> leader_field packet 4;
       low \<leftarrow> leader_field packet 8;
       let timestamp = push_bit 32 (ucast high) OR ucast low;
           timestamp_s = timestamp div timestamp_tick_frequency;
           timestamp_ns = ((timestamp mod timestamp_tick_frequency) * 1000000000) div timestamp_tick_frequency
       in Some (timestamp_ns + timestamp_s * 1000000000) } }"

subsection \<open>The thread\<close>

definition MAX_FRAME_SIZE :: nat where "MAX_FRAME_SIZE = 120000000"

text \<open>\<open>struct iframe_data\<close>; its buffer has \<open>MAX_FRAME_SIZE\<close> bytes.\<close>

record iframe_data =
  if_frame_id :: u64
  if_buffer_size :: u64
  if_buffer :: "byte list"

text \<open>The fields of \<open>struct gige_camera\<close> that the thread uses besides those of \<open>gige_camera\<close>; \<open>sc_action\<close> says whether
  \<open>new_frame_action\<close> is set. Counters are unbounded here.\<close>

record stream_camera = gige_camera +
  sc_last_frame_id :: u32
  sc_n_received_packets :: int
  sc_n_error_packets :: int
  sc_n_ignored_packets :: int
  sc_iframe :: iframe_data
  sc_action :: bool

text \<open>What is used of \<open>struct frame_data\<close>. Its \<open>packet_data\<close> is never set, so the entries cannot be read.\<close>

record frame_data =
  fr_is_started :: bool
  fr_frame_id :: u64
  fr_payload_type :: u16
  fr_has_extended_ids :: bool
  fr_n_packets :: u32
  fr_error_packets_received :: u32
  fr_last_valid_packet :: u32

text \<open>What is printed of a leader: timestamp, width, height, offsets and format.\<close>

type_synonym image_line = "u64 \<times> u32 \<times> u32 \<times> u32 \<times> u32 \<times> u32"

text \<open>The variables of the thread (\<open>st_packet\<close>: the receive buffer or \<open>None\<close> when freed), what it printed of images, and the
  frames it has handed to \<open>new_frame_action\<close>.\<close>

record stream =
  st_cam :: stream_camera
  st_frame :: frame_data
  st_packet :: "byte list option"
  st_frame_id :: u64
  st_last_frame_id :: u64
  st_received :: int
  st_errors :: int
  st_ignored :: int
  st_images :: "image_line list"
  st_frames :: "iframe_data list"

text \<open>The numbers of a leader, as the arguments of \<open>fprintf\<close>.\<close>

definition image_line :: "byte list \<Rightarrow> u64 \<Rightarrow> image_line option" where
  "image_line packet freq = do {
     t \<leftarrow> gvsp_packet_get_timestamp packet freq;
     w \<leftarrow> gvsp_packet_get_width packet;
     h \<leftarrow> gvsp_packet_get_height packet;
     x \<leftarrow> gvsp_packet_get_x_offset packet;
     y \<leftarrow> gvsp_packet_get_y_offset packet;
     f \<leftarrow> gvsp_packet_get_pixel_format packet;
     Some (t, w, h, x, y, f) }"

text \<open>The start of a new frame: the old one, if any, is handed over.\<close>

definition gvsp_new_frame :: "bool \<Rightarrow> u64 \<Rightarrow> stream \<Rightarrow> stream" where
  "gvsp_new_frame extended_ids frame_id s =
     (let cam = st_cam s;
          s = (if fr_is_started (st_frame s)
            then let iframe = (sc_iframe cam)\<lparr>if_frame_id := st_last_frame_id s\<rparr> in
              s\<lparr>st_cam := cam\<lparr>sc_iframe := iframe\<rparr>, st_frames := st_frames s @ (if sc_action cam then [iframe] else [])\<rparr>
            else s);
          cam = st_cam s
      in s\<lparr>st_cam := cam\<lparr>sc_iframe := (sc_iframe cam)\<lparr>if_buffer_size := 0\<rparr>\<rparr>,
           st_frame := (st_frame s)\<lparr>fr_frame_id := frame_id, fr_last_valid_packet := -1, fr_has_extended_ids := extended_ids,
             fr_is_started := True, fr_n_packets := 0, fr_error_packets_received := 0\<rparr>,
           st_last_frame_id := frame_id\<rparr>)"

text \<open>The cases of \<open>switch (content_type)\<close>.\<close>

definition gvsp_content :: "u32 \<Rightarrow> byte list \<Rightarrow> stream \<Rightarrow> stream option" where
  "gvsp_content packet_size packet s = do {
     content_type \<leftarrow> gvsp_packet_get_content_type packet;
     if content_type = GVSP_CONTENT_TYPE_DATA_LEADER then do {
       payload_type \<leftarrow> gvsp_packet_get_payload_type packet;
       let s = s\<lparr>st_frame := (st_frame s)\<lparr>fr_payload_type := word_of_int payload_type\<rparr>\<rparr>;
       if uint (fr_payload_type (st_frame s)) = GVSP_PAYLOAD_TYPE_IMAGE then do {
         line \<leftarrow> image_line packet (gc_timestamp_tick_frequency (st_cam s));
         Some (s\<lparr>st_images := st_images s @ [line]\<rparr>) }
       else Some s }
     else if content_type = GVSP_CONTENT_TYPE_DATA_BLOCK then do {
       let iframe = sc_iframe (st_cam s);
       off \<leftarrow> gvsp_packet_get_data packet;
       n \<leftarrow> gvsp_packet_get_data_size packet (ucast packet_size);
       data \<leftarrow> region_read packet off (unat n);
       buffer \<leftarrow> region_write (if_buffer iframe) (unat (if_buffer_size iframe)) data;
       Some (s\<lparr>st_cam := (st_cam s)\<lparr>sc_iframe := iframe\<lparr>if_buffer := buffer, if_buffer_size := if_buffer_size iframe + n\<rparr>\<rparr>\<rparr>) }
     else if content_type = GVSP_CONTENT_TYPE_DATA_TRAILER then Some s
     else Some (s\<lparr>st_ignored := st_ignored s + 1\<rparr>) }"

text \<open>A packet: reading or writing an entry of \<open>packet_data\<close> is undefined, also in the loop that counts the valid packets.\<close>

definition gvsp_packet :: "u32 \<Rightarrow> byte list \<Rightarrow> stream \<Rightarrow> stream option" where
  "gvsp_packet packet_size packet s = do {
     let s = s\<lparr>st_received := st_received s + 1\<rparr>;
     extended_ids \<leftarrow> gvsp_packet_has_extended_ids packet;
     frame_id \<leftarrow> gvsp_packet_get_frame_id packet;
     packet_id \<leftarrow> gvsp_packet_get_packet_id packet;
     let s = s\<lparr>st_frame_id := frame_id\<rparr>;
     let s = (if frame_id \<noteq> st_last_frame_id s then gvsp_new_frame extended_ids frame_id s else s);
     if fr_is_started (st_frame s) then do {
       packet_type \<leftarrow> gvsp_packet_get_packet_type packet;
       if gvsp_packet_type_is_error packet_type
       then Some (s\<lparr>st_errors := st_errors s + 1, st_frame := (st_frame s)
         \<lparr>fr_error_packets_received := fr_error_packets_received (st_frame s) + 1\<rparr>\<rparr>)
       else if packet_id < fr_n_packets (st_frame s) then None
       else if fr_last_valid_packet (st_frame s) + 1 < fr_n_packets (st_frame s) then None
       else gvsp_content packet_size packet s }
     else Some (s\<lparr>st_ignored := st_ignored s + 1\<rparr>) }"

text \<open>One round of the loop: what \<open>epoll_wait\<close> and \<open>recvfrom\<close> answer. A datagram is cut to the buffer.\<close>

datatype stream_round = WaitInterrupted | WaitBroken | WaitEmpty | ReceiveInterrupted | ReceiveBroken | StreamPacket "byte list"

text \<open>How the thread ends: it exits the process, returns before the loop, in the loop, or after it.\<close>

datatype stream_end = ExitsProcess | NoEpoll | WaitError | SocketError | Stopped

definition receive_into :: "byte list \<Rightarrow> byte list \<Rightarrow> byte list" where
  "receive_into bs packet = take (length packet) bs @ drop (length bs) packet"

text \<open>The loop ends after the last round, when the camera is stopped or its sockets are closed.\<close>

definition gvsp_stop :: "stream \<Rightarrow> (stream_end \<times> stream) option" where
  "gvsp_stop s = do {
     packet \<leftarrow> st_packet s;
     Some (Stopped, s\<lparr>st_packet := None, st_cam := (st_cam s)\<lparr>sc_last_frame_id := ucast (st_frame_id s),
       sc_n_received_packets := st_received s, sc_n_ignored_packets := st_ignored s, sc_n_error_packets := st_errors s,
       gc_state := STREAM_STOP\<rparr>\<rparr>) }"

fun gvsp_loop :: "u32 \<Rightarrow> stream_round list \<Rightarrow> stream \<Rightarrow> (stream_end \<times> stream) option" where
  "gvsp_loop packet_size [] s = gvsp_stop s"
| "gvsp_loop packet_size (WaitInterrupted # rs) s = gvsp_loop packet_size rs s"
| "gvsp_loop packet_size (WaitBroken # rs) s = Some (WaitError, s)"
| "gvsp_loop packet_size (WaitEmpty # rs) s = gvsp_loop packet_size rs s"
| "gvsp_loop packet_size (ReceiveInterrupted # rs) s = do {
     packet \<leftarrow> st_packet s;
     gvsp_loop packet_size rs (s\<lparr>st_packet := None\<rparr>) }"
| "gvsp_loop packet_size (ReceiveBroken # rs) s = do {
     packet \<leftarrow> st_packet s;
     Some (SocketError, s\<lparr>st_packet := None\<rparr>) }"
| "gvsp_loop packet_size (StreamPacket bs # rs) s = do {
     packet \<leftarrow> st_packet s;
     s' \<leftarrow> gvsp_packet packet_size (receive_into bs packet) (s\<lparr>st_packet := Some (receive_into bs packet)\<rparr>);
     gvsp_loop packet_size rs s' }"

text \<open>\<open>epoll\<close> says whether the descriptor is created and the socket added; \<open>junk\<close> (and zeros behind it) is what the memory that
  \<open>malloc\<close> returns for the packet holds, \<open>frame\<close> what that for \<open>frame_data\<close> holds.\<close>

definition malloc_packet :: "nat \<Rightarrow> byte list \<Rightarrow> byte list" where
  "malloc_packet n junk = take n (junk @ replicate n 0)"

definition camera_gvsp_thread ::
  "bool \<times> bool \<Rightarrow> byte list \<Rightarrow> frame_data \<Rightarrow> stream_round list \<Rightarrow> stream_camera \<Rightarrow> (stream_end \<times> stream) option" where
  "camera_gvsp_thread epoll junk frame rs cam =
     (let s = \<lparr>st_cam = cam, st_frame = frame\<lparr>fr_is_started := False\<rparr>, st_packet = None, st_frame_id = 0, st_last_frame_id = 0,
            st_received = 0, st_errors = 0, st_ignored = 0, st_images = [], st_frames = []\<rparr> in
      if \<not> fst epoll then Some (ExitsProcess, s)
      else if \<not> snd epoll then Some (NoEpoll, s)
      else let packet_size = gc_packet_size cam - IP_HEADER_SIZE - UDP_HEADER_SIZE in
        gvsp_loop packet_size rs (s\<lparr>st_packet := Some (malloc_packet (unat packet_size) junk)\<rparr>))"

subsection \<open>Library\<close>

lemma receive_length [simp]: "length (receive_into bs packet) = length packet"
  by (auto simp: receive_into_def)

lemma receive_into_full: "length bs = length packet \<Longrightarrow> receive_into bs packet = bs"
  by (simp add: receive_into_def)

lemma malloc_packet_length [simp]: "length (malloc_packet n junk) = n"
  by (simp add: malloc_packet_def)

lemma region_read_in: "off + k \<le> length p \<Longrightarrow> region_read p off k = Some (take k (drop off p))"
  by (simp add: region_read_def)

text \<open>The frame a packet belongs to, and what it adds to the frame.\<close>

definition packet_frame :: "byte list \<Rightarrow> u64" where "packet_frame p = the (gvsp_packet_get_frame_id p)"

definition packet_block :: "byte list \<Rightarrow> byte list" where
  "packet_block p = (if gvsp_packet_get_content_type p = Some GVSP_CONTENT_TYPE_DATA_BLOCK
     then drop (the (gvsp_packet_get_data p)) p else [])"

definition packet_status :: "byte list \<Rightarrow> u16" where "packet_status p = the (gvsp_packet_get_packet_type p)"

lemma packet_fields:
  assumes "52 \<le> length p"
  obtains e i c pay line where "gvsp_packet_has_extended_ids p = Some e" "gvsp_packet_get_frame_id p = Some (packet_frame p)"
    "gvsp_packet_get_packet_id p = Some i" "gvsp_packet_get_packet_type p = Some (packet_status p)"
    "gvsp_packet_get_content_type p = Some c" "gvsp_packet_get_payload_type p = Some pay" "image_line p freq = Some line"
    "gvsp_packet_get_data p = Some (if e then 20 else 8)"
proof -
  have r: "off + k \<le> 52 \<Longrightarrow> region_read p off k = Some (take k (drop off p))" for off k
    using assms by (intro region_read_in) simp
  obtain e where e: "gvsp_packet_has_extended_ids p = Some e"
    by (simp add: gvsp_packet_has_extended_ids_def r)
  have d: "gvsp_packet_get_data p = Some (if e then 20 else 8)" by (simp add: gvsp_packet_get_data_def e)
  have l: "\<exists>v. leader_field p off = Some v" if "off + 4 \<le> 32" for off
    using that by (simp add: leader_field_def d r)
  have t: "\<exists>v. gvsp_packet_get_timestamp p freq = Some v"
    using l [of 4] l [of 8] by (auto simp: gvsp_packet_get_timestamp_def d Let_def)
  have "\<exists>line. image_line p freq = Some line"
    using t l [of 12] l [of 16] l [of 20] l [of 24] l [of 28]
    by (auto simp: image_line_def gvsp_packet_get_width_def gvsp_packet_get_height_def gvsp_packet_get_x_offset_def
        gvsp_packet_get_y_offset_def gvsp_packet_get_pixel_format_def)
  moreover have "\<exists>i. gvsp_packet_get_packet_id p = Some i" by (simp add: gvsp_packet_get_packet_id_def e r)
  moreover have "\<exists>c. gvsp_packet_get_content_type p = Some c" by (simp add: gvsp_packet_get_content_type_def e r)
  moreover have "\<exists>pay. gvsp_packet_get_payload_type p = Some pay"
    by (simp add: gvsp_packet_get_payload_type_def d r Let_def)
  moreover have "gvsp_packet_get_frame_id p = Some (packet_frame p)"
    by (simp add: packet_frame_def gvsp_packet_get_frame_id_def e r)
  moreover have "gvsp_packet_get_packet_type p = Some (packet_status p)"
    by (simp add: packet_status_def gvsp_packet_get_packet_type_def r)
  ultimately show ?thesis using that e d by blast
qed

lemma data_size:
  assumes "gvsp_packet_has_extended_ids p = Some e" "20 \<le> unat ps"
  shows "\<exists>k. gvsp_packet_get_data_size p (ucast (ps :: u32)) = Some k \<and> unat k = unat ps - (if e then 20 else 8)"
proof -
  have u: "unat (ucast ps :: u64) = unat ps" by (simp add: unsigned_ucast_eq take_bit_nat_eq_self unsigned_less order_less_trans [OF unsigned_less])
  have "unat ((ucast ps :: u64) - c) = unat ps - unat c" if "unat c \<le> 20" for c
  proof -
    have "c \<le> ucast ps" using that assms(2) u by (simp add: word_le_nat_alt)
    then show ?thesis using u by (simp add: unat_sub)
  qed
  then have "unat ((ucast ps :: u64) - 20) = unat ps - 20" "unat ((ucast ps :: u64) - 8) = unat ps - 8" by force+
  then show ?thesis
    using assms(1) by (simp add: gvsp_packet_get_data_size_def gvsp_packet_bytes_def gvsp_header_bytes_def gvsp_extended_header_bytes_def)
qed

text \<open>Between two packets: the packets of frame \<open>prev\<close>, if it is started, have brought \<open>cont\<close>.\<close>

definition collecting :: "u64 \<Rightarrow> bool \<Rightarrow> byte list \<Rightarrow> stream \<Rightarrow> bool" where
  "collecting prev started cont s \<longleftrightarrow>
     st_last_frame_id s = prev \<and> fr_is_started (st_frame s) = started \<and> length (if_buffer (sc_iframe (st_cam s))) = MAX_FRAME_SIZE \<and>
     (started \<longrightarrow> fr_n_packets (st_frame s) = 0 \<and> fr_last_valid_packet (st_frame s) = -1 \<and>
        unat (if_buffer_size (sc_iframe (st_cam s))) = length cont \<and> take (length cont) (if_buffer (sc_iframe (st_cam s))) = cont)"

definition frame_of :: "iframe_data \<Rightarrow> u64 \<times> byte list" where
  "frame_of f = (if_frame_id f, take (unat (if_buffer_size f)) (if_buffer f))"

lemma content_step:
  assumes s: "collecting prev True cont s" and p: "length p = n" "52 \<le> n" "unat ps = n"
    and fits: "length cont + length (packet_block p) \<le> MAX_FRAME_SIZE"
  shows "\<exists>s'. gvsp_content ps p s = Some s' \<and> collecting prev True (cont @ packet_block p) s' \<and>
    sc_action (st_cam s') = sc_action (st_cam s) \<and> st_packet s' = st_packet s \<and> st_frames s' = st_frames s"
proof -
  obtain e i c pay line where f: "gvsp_packet_has_extended_ids p = Some e" "gvsp_packet_get_content_type p = Some c"
      "gvsp_packet_get_payload_type p = Some pay" "image_line p (gc_timestamp_tick_frequency (st_cam s)) = Some line"
      "gvsp_packet_get_data p = Some (if e then 20 else 8)"
    using packet_fields [of p "gc_timestamp_tick_frequency (st_cam s)"] p by metis
  show ?thesis
  proof (cases "c = GVSP_CONTENT_TYPE_DATA_BLOCK")
    case True
    let ?off = "if e then 20 else 8 :: nat" and ?if = "sc_iframe (st_cam s)"
    obtain k where k: "gvsp_packet_get_data_size p (ucast ps) = Some k" "unat k = n - ?off"
      using data_size [OF f(1), of ps] p by auto
    have block: "packet_block p = drop ?off p" using True f by (simp add: packet_block_def)
    have read: "region_read p ?off (unat k) = Some (packet_block p)"
      using p k(2) by (simp add: block region_read_def)
    have len: "length (packet_block p) = unat k" using p k(2) by (simp add: block)
    obtain buf where w: "region_write (if_buffer ?if) (length cont) (packet_block p) = Some buf"
      using region_write_Some fits s by (metis collecting_def)
    have sz: "unat (if_buffer_size ?if + k) = length (cont @ packet_block p)"
      using fits s len by (simp add: collecting_def MAX_FRAME_SIZE_def unat_add_small)
    have "take (length (cont @ packet_block p)) buf = cont @ packet_block p"
      using region_write_take [OF w] s by (simp add: collecting_def)
    moreover have "length buf = MAX_FRAME_SIZE" using region_write_length [OF w] s by (simp add: collecting_def)
    moreover have "c \<noteq> GVSP_CONTENT_TYPE_DATA_LEADER" using True by (simp add: GVSP_CONTENT_TYPE_DATA_BLOCK_def GVSP_CONTENT_TYPE_DATA_LEADER_def)
    ultimately show ?thesis
      using True f k read w s sz by (simp add: gvsp_content_def Let_def collecting_def)
  next
    case False
    then have "packet_block p = []" using f by (simp add: packet_block_def)
    then show ?thesis using False f s by (auto simp: gvsp_content_def Let_def collecting_def)
  qed
qed
lemma gvsp_new_frame_step:
  assumes "collecting prev started cont s"
  shows "collecting f True [] (gvsp_new_frame e f s) \<and> sc_action (st_cam (gvsp_new_frame e f s)) = sc_action (st_cam s) \<and>
    st_packet (gvsp_new_frame e f s) = st_packet s \<and>
    map frame_of (st_frames (gvsp_new_frame e f s)) =
      map frame_of (st_frames s) @ (if started \<and> sc_action (st_cam s) then [(prev, cont)] else [])"
  using assms by (auto simp: collecting_def gvsp_new_frame_def Let_def frame_of_def)

text \<open>The state in which \<open>gvsp_content\<close> is called.\<close>

definition at_content :: "byte list \<Rightarrow> stream \<Rightarrow> stream" where
  "at_content p s = (let s = s\<lparr>st_received := st_received s + 1, st_frame_id := packet_frame p\<rparr> in
     if packet_frame p \<noteq> st_last_frame_id s then gvsp_new_frame (the (gvsp_packet_has_extended_ids p)) (packet_frame p) s else s)"

lemma at_content_step:
  assumes "collecting prev started cont s" "new = (packet_frame p \<noteq> prev)"
  shows "collecting (packet_frame p) (new \<or> started) (if new then [] else cont) (at_content p s) \<and>
    sc_action (st_cam (at_content p s)) = sc_action (st_cam s) \<and> st_packet (at_content p s) = st_packet s \<and>
    map frame_of (st_frames (at_content p s)) = map frame_of (st_frames s) @
      (if new \<and> started \<and> sc_action (st_cam s) then [(prev, cont)] else [])"
proof -
  have s0: "collecting prev started cont (s\<lparr>st_received := st_received s + 1, st_frame_id := packet_frame p\<rparr>)"
    "st_last_frame_id s = prev"
    using assms(1) by (simp_all add: collecting_def)
  show ?thesis using gvsp_new_frame_step [OF s0(1)] s0 assms(2) by (auto simp: at_content_def Let_def)
qed

lemma packet_run:
  assumes s: "collecting prev started cont s" and p: "52 \<le> length p" "packet_status p \<noteq> 0x80"
  shows "gvsp_packet ps p s = (if packet_frame p \<noteq> prev \<or> started then gvsp_content ps p (at_content p s)
    else Some ((at_content p s)\<lparr>st_ignored := st_ignored (at_content p s) + 1\<rparr>))"
proof -
  obtain e i where f: "gvsp_packet_has_extended_ids p = Some e" "gvsp_packet_get_frame_id p = Some (packet_frame p)"
      "gvsp_packet_get_packet_id p = Some i" "gvsp_packet_get_packet_type p = Some (packet_status p)"
    using packet_fields [of p 0] p by metis
  have noerr: "\<not> gvsp_packet_type_is_error (packet_status p)"
    using p(2) by (simp add: gvsp_packet_type_is_error_def GVCP_PACKET_TYPE_ERROR_def)
  have c: "collecting (packet_frame p) (packet_frame p \<noteq> prev \<or> started) (if packet_frame p \<noteq> prev then [] else cont) (at_content p s)"
    using at_content_step [OF s refl] by blast
  show ?thesis
    using f noerr s c unfolding gvsp_packet_def by (auto simp: Let_def at_content_def collecting_def)
qed

lemma packet_step:
  assumes s: "collecting prev started cont s" and p: "length p = n" "52 \<le> n" "unat ps = n" "packet_status p \<noteq> 0x80"
    and new: "new = (packet_frame p \<noteq> prev)"
    and fits: "new \<or> started \<Longrightarrow> length (if new then [] else cont) + length (packet_block p) \<le> MAX_FRAME_SIZE"
  shows "\<exists>s'. gvsp_packet ps p s = Some s' \<and> sc_action (st_cam s') = sc_action (st_cam s) \<and> st_packet s' = st_packet s \<and>
    collecting (packet_frame p) (new \<or> started) ((if new then [] else cont) @ packet_block p) s' \<and>
    map frame_of (st_frames s') = map frame_of (st_frames s) @ (if new \<and> started \<and> sc_action (st_cam s) then [(prev, cont)] else [])"
proof -
  note s1 = at_content_step [OF s new]
  have run: "gvsp_packet ps p s = (if new \<or> started then gvsp_content ps p (at_content p s)
      else Some ((at_content p s)\<lparr>st_ignored := st_ignored (at_content p s) + 1\<rparr>))"
    using packet_run [OF s, of p ps] p new by simp
  show ?thesis
  proof (cases "new \<or> started")
    case True
    then have c: "collecting (packet_frame p) True (if new then [] else cont) (at_content p s)" using s1 by simp
    obtain s2 where "gvsp_content ps p (at_content p s) = Some s2"
        "collecting (packet_frame p) True ((if new then [] else cont) @ packet_block p) s2"
        "sc_action (st_cam s2) = sc_action (st_cam (at_content p s))" "st_packet s2 = st_packet (at_content p s)"
        "st_frames s2 = st_frames (at_content p s)"
      using content_step [OF c p(1-3) fits [OF True]] by blast
    then show ?thesis using run True s1 by auto
  next
    case False
    then show ?thesis using run s1 by (auto simp: collecting_def)
  qed
qed

lemma content_overflow:
  assumes s: "collecting prev True cont s" and p: "length p = n" "52 \<le> n" "unat ps = n"
    and big: "MAX_FRAME_SIZE < length cont + length (packet_block p)" "length cont \<le> MAX_FRAME_SIZE"
  shows "gvsp_content ps p s = None"
proof -
  obtain e c where f: "gvsp_packet_has_extended_ids p = Some e" "gvsp_packet_get_content_type p = Some c"
      "gvsp_packet_get_data p = Some (if e then 20 else 8)"
    using packet_fields [of p 0] p by metis
  have c: "c = GVSP_CONTENT_TYPE_DATA_BLOCK" using big f(2) by (auto simp: packet_block_def split: if_splits)
  let ?off = "if e then 20 else 8 :: nat"
  obtain k where k: "gvsp_packet_get_data_size p (ucast ps) = Some k" "unat k = n - ?off"
    using data_size [OF f(1), of ps] p by auto
  have "packet_block p = drop ?off p" using c f by (simp add: packet_block_def)
  then have "region_read p ?off (unat k) = Some (packet_block p)" using p k(2) by (simp add: region_read_def)
  moreover have "region_write (if_buffer (sc_iframe (st_cam s))) (length cont) (packet_block p) = None"
    using s big(1) by (simp add: region_write_def collecting_def)
  moreover have "c \<noteq> GVSP_CONTENT_TYPE_DATA_LEADER" using c by (simp add: GVSP_CONTENT_TYPE_DATA_BLOCK_def GVSP_CONTENT_TYPE_DATA_LEADER_def)
  ultimately show ?thesis using f k(1) c s by (simp add: gvsp_content_def Let_def collecting_def)
qed

lemma packet_overflow:
  assumes s: "collecting prev started cont s" and p: "length p = n" "52 \<le> n" "unat ps = n" "packet_status p \<noteq> 0x80"
    and new: "new = (packet_frame p \<noteq> prev)" "new \<or> started" "started \<Longrightarrow> length cont \<le> MAX_FRAME_SIZE"
    and big: "MAX_FRAME_SIZE < length (if new then [] else cont) + length (packet_block p)"
  shows "gvsp_packet ps p s = None"
proof -
  have c: "collecting (packet_frame p) True (if new then [] else cont) (at_content p s)"
    using at_content_step [OF s new(1)] new(2) by simp
  have "gvsp_content ps p (at_content p s) = None"
    by (rule content_overflow [OF c p(1-3) big]) (use new(2,3) in auto)
  then show ?thesis using packet_run [OF s, of p ps] p new(1,2) by auto
qed

text \<open>
  The reference: packets as pairs of a frame id and the bytes they add. Neighbours with one id make a frame; \<open>reported\<close>
  is what is handed over of the packets after those of frame \<open>prev\<close>.
\<close>

function group_frames :: "(u64 \<times> byte list) list \<Rightarrow> (u64 \<times> byte list) list" where
  "group_frames [] = []"
| "group_frames ((f, d) # ps) = (f, d @ concat (map snd (takeWhile (\<lambda>p. fst p = f) ps))) # group_frames (dropWhile (\<lambda>p. fst p = f) ps)"
  by pat_completeness auto
termination by (relation "measure length") (auto simp: less_Suc_eq_le length_dropWhile_le)

fun reported :: "u64 \<Rightarrow> bool \<Rightarrow> byte list \<Rightarrow> (u64 \<times> byte list) list \<Rightarrow> (u64 \<times> byte list) list" where
  "reported prev started cont [] = []"
| "reported prev started cont ((f, d) # ps) =
     (if f \<noteq> prev then (if started then [(prev, cont)] else []) @ reported f True d ps
      else reported prev started (cont @ d) ps)"

lemma frames_join: "group_frames ((f, c) # (f, d) # ps) = group_frames ((f, c @ d) # ps)"
  by simp

lemma report_frames: "reported f True c ps = butlast (group_frames ((f, c) # ps))"
proof (induction ps arbitrary: f c)
  case (Cons p ps)
  obtain g d where p: "p = (g, d)" by (cases p)
  show ?case
  proof (cases "g = f")
    case True
    then show ?thesis using Cons [of f "c @ d"] by (simp add: p del: group_frames.simps add: frames_join)
  next
    case False
    then show ?thesis using Cons [of g d] by (simp add: p)
  qed
qed simp

lemma report_first: "reported f False c ps = butlast (group_frames (dropWhile (\<lambda>p. fst p = f) ps))"
  by (induction ps arbitrary: c) (auto simp: report_frames simp del: group_frames.simps(2))

text \<open>What the receive buffer holds after each datagram.\<close>

fun memory_after :: "byte list \<Rightarrow> stream_round list \<Rightarrow> byte list list" where
  "memory_after p [] = []"
| "memory_after p (StreamPacket bs # rs) = receive_into bs p # memory_after (receive_into bs p) rs"
| "memory_after p (r # rs) = memory_after p rs"

definition packet_parts :: "byte list \<Rightarrow> u64 \<times> byte list" where
  "packet_parts p = (packet_frame p, packet_block p)"

fun good_round :: "stream_round \<Rightarrow> bool" where
  "good_round WaitInterrupted = True"
| "good_round WaitEmpty = True"
| "good_round (StreamPacket bs) = True"
| "good_round r = False"

text \<open>\<open>fitting prev started cont ps\<close>: no frame is longer than the buffer.\<close>

fun fitting :: "u64 \<Rightarrow> bool \<Rightarrow> byte list \<Rightarrow> (u64 \<times> byte list) list \<Rightarrow> bool" where
  "fitting prev started cont [] = True"
| "fitting prev started cont ((f, d) # ps) =
     (if f \<noteq> prev then length d \<le> MAX_FRAME_SIZE \<and> fitting f True d ps
      else (started \<longrightarrow> length (cont @ d) \<le> MAX_FRAME_SIZE) \<and> fitting prev started (cont @ d) ps)"
lemma fitting_frames: "length c \<le> MAX_FRAME_SIZE \<Longrightarrow>
  fitting f True c ps \<longleftrightarrow> (\<forall>g \<in> set (group_frames ((f, c) # ps)). length (snd g) \<le> MAX_FRAME_SIZE)"
proof (induction ps arbitrary: f c)
  case (Cons p ps)
  obtain g d where p: "p = (g, d)" by (cases p)
  show ?case
  proof (cases "g = f")
    case True
    show ?thesis
    proof (cases "length (c @ d) \<le> MAX_FRAME_SIZE")
      case True
      then show ?thesis using Cons.IH [OF True, of f] \<open>g = f\<close> by (simp add: p del: group_frames.simps add: frames_join)
    next
      case False
      then show ?thesis using \<open>g = f\<close> by (simp add: p)
    qed
  next
    case False
    then show ?thesis
    proof (cases "length d \<le> MAX_FRAME_SIZE")
      case True
      have "group_frames ((f, c) # p # ps) = (f, c) # group_frames ((g, d) # ps)" using \<open>g \<noteq> f\<close> by (simp add: p)
      then show ?thesis using Cons.IH [OF True, of g] \<open>g \<noteq> f\<close> Cons.prems True by (simp add: p del: group_frames.simps)
    next
      case False
      then show ?thesis using \<open>g \<noteq> f\<close> by (simp add: p)
    qed
  qed
qed simp

lemma fitting_first:
  "fitting f False c ps \<longleftrightarrow> (\<forall>g \<in> set (group_frames (dropWhile (\<lambda>p. fst p = f) ps)). length (snd g) \<le> MAX_FRAME_SIZE)"
proof (induction ps arbitrary: c)
  case (Cons p ps)
  obtain g d where p: "p = (g, d)" by (cases p)
  show ?case
  proof (cases "g = f \<or> MAX_FRAME_SIZE < length d")
    case True
    then show ?thesis using Cons by (auto simp: p)
  next
    case False
    then show ?thesis using fitting_frames [of d g ps] by (simp add: p del: group_frames.simps)
  qed
qed simp

text \<open>Rounds that bring packets of at least 52 bytes' buffer and no status 0x0080.\<close>

definition good_stream :: "byte list \<Rightarrow> stream_round list \<Rightarrow> bool" where
  "good_stream p rs \<longleftrightarrow> 52 \<le> length p \<and> (\<forall>r \<in> set rs. good_round r) \<and> (\<forall>q \<in> set (memory_after p rs). packet_status q \<noteq> 0x80)"

lemma good_stream_Cons:
  "good_stream p (r # rs) \<longleftrightarrow> (case r of WaitInterrupted \<Rightarrow> good_stream p rs | WaitEmpty \<Rightarrow> good_stream p rs
     | StreamPacket bs \<Rightarrow> packet_status (receive_into bs p) \<noteq> 0x80 \<and> good_stream (receive_into bs p) rs | _ \<Rightarrow> False)"
  by (cases r) (auto simp: good_stream_def)

lemma loop_frames:
  assumes "collecting prev started cont s" "st_packet s = Some p" "unat ps = length p" "good_stream p rs"
    and "fitting prev started cont (map packet_parts (memory_after p rs))" "sc_action (st_cam s)"
  shows "\<exists>s'. gvsp_loop ps rs s = Some (Stopped, s') \<and>
     map frame_of (st_frames s') = map frame_of (st_frames s) @ reported prev started cont (map packet_parts (memory_after p rs))"
  using assms
proof (induction rs arbitrary: prev started cont s p)
  case Nil
  then show ?case by (simp add: gvsp_stop_def)
next
  case (Cons r rs)
  show ?case
  proof (cases r)
    case (StreamPacket bs)
    let ?p = "receive_into bs p" and ?s = "s\<lparr>st_packet := Some (receive_into bs p)\<rparr>"
    have p: "52 \<le> length p" "packet_status ?p \<noteq> 0x80" "good_stream ?p rs"
      using Cons.prems(4) StreamPacket by (auto simp: good_stream_Cons) (simp add: good_stream_def)
    have s: "collecting prev started cont ?s" using Cons.prems(1) by (simp add: collecting_def)
    let ?new = "packet_frame ?p \<noteq> prev"
    have fit: "?new \<or> started \<Longrightarrow> length (if ?new then [] else cont) + length (packet_block ?p) \<le> MAX_FRAME_SIZE"
      "fitting (packet_frame ?p) (?new \<or> started) ((if ?new then [] else cont) @ packet_block ?p) (map packet_parts (memory_after ?p rs))"
      using Cons.prems(5) StreamPacket by (auto simp: packet_parts_def [of "?p"] split: if_splits)
    obtain s' where s': "gvsp_packet ps ?p ?s = Some s'" "sc_action (st_cam s') = sc_action (st_cam ?s)" "st_packet s' = st_packet ?s"
        "collecting (packet_frame ?p) (?new \<or> started) ((if ?new then [] else cont) @ packet_block ?p) s'"
        "map frame_of (st_frames s') = map frame_of (st_frames ?s) @
          (if ?new \<and> started \<and> sc_action (st_cam ?s) then [(prev, cont)] else [])"
      using packet_step [OF s _ p(1) _ p(2) refl fit(1)] Cons.prems(3) by auto
    obtain s2 where "gvsp_loop ps rs s' = Some (Stopped, s2)"
        "map frame_of (st_frames s2) = map frame_of (st_frames s') @
          reported (packet_frame ?p) (?new \<or> started) ((if ?new then [] else cont) @ packet_block ?p) (map packet_parts (memory_after ?p rs))"
      using Cons.IH [OF s'(4), of ?p] s'(2,3) fit(2) p(3) Cons.prems(3,6) by auto
    then show ?thesis using s'(1,5) Cons.prems(2,6) StreamPacket by (auto simp: packet_parts_def [of ?p])
  qed (use Cons in \<open>auto simp: good_stream_Cons\<close>)
qed

lemma loop_overflow:
  assumes "collecting prev started cont s" "st_packet s = Some p" "unat ps = length p" "good_stream p rs"
    and "\<not> fitting prev started cont (map packet_parts (memory_after p rs))" "started \<Longrightarrow> length cont \<le> MAX_FRAME_SIZE"
  shows "gvsp_loop ps rs s = None"
  using assms
proof (induction rs arbitrary: prev started cont s p)
  case (Cons r rs)
  show ?case
  proof (cases r)
    case (StreamPacket bs)
    let ?p = "receive_into bs p" and ?s = "s\<lparr>st_packet := Some (receive_into bs p)\<rparr>"
    have p: "52 \<le> length p" "packet_status ?p \<noteq> 0x80" "good_stream ?p rs"
      using Cons.prems(4) StreamPacket by (auto simp: good_stream_Cons) (simp add: good_stream_def)
    have s: "collecting prev started cont ?s" using Cons.prems(1) by (simp add: collecting_def)
    let ?new = "packet_frame ?p \<noteq> prev"
    show ?thesis
    proof (cases "?new \<or> started \<longrightarrow> length (if ?new then [] else cont) + length (packet_block ?p) \<le> MAX_FRAME_SIZE")
      case True
      then have fit: "?new \<or> started \<Longrightarrow> length (if ?new then [] else cont) + length (packet_block ?p) \<le> MAX_FRAME_SIZE" by blast
      obtain s' where s': "gvsp_packet ps ?p ?s = Some s'" "st_packet s' = Some ?p"
          "collecting (packet_frame ?p) (?new \<or> started) ((if ?new then [] else cont) @ packet_block ?p) s'"
        using packet_step [OF s _ p(1) _ p(2) refl fit] Cons.prems(3) by auto
      have "\<not> fitting (packet_frame ?p) (?new \<or> started) ((if ?new then [] else cont) @ packet_block ?p) (map packet_parts (memory_after ?p rs))"
        using Cons.prems(5) StreamPacket True by (auto simp: packet_parts_def [of "?p"] split: if_splits)
      then have "gvsp_loop ps rs s' = None"
        using Cons.IH [OF s'(3,2)] Cons.prems(3) p(3) fit by auto
      then show ?thesis using s'(1) Cons.prems(2) StreamPacket by simp
    next
      case False
      then have "gvsp_packet ps ?p ?s = None"
        using packet_overflow [OF s _ p(1) _ p(2) refl] Cons.prems(3,6) by auto
      then show ?thesis using Cons.prems(2) StreamPacket by simp
    qed
  qed (use Cons in \<open>auto simp: good_stream_Cons\<close>)
qed simp
lemma memory_after_length: "q \<in> set (memory_after p rs) \<Longrightarrow> length q = length p"
  by (induction p rs rule: memory_after.induct) auto

lemma group_frames_dvd: "\<forall>f \<in> set ps. k dvd length (snd f) \<Longrightarrow> \<forall>f \<in> set (group_frames ps). k dvd length (snd f)"
proof (induction ps rule: group_frames.induct)
  case (2 f d ps)
  have "k dvd length (concat (map snd qs))" if "\<forall>g \<in> set qs. k dvd length (snd g)" for qs :: "(u64 \<times> byte list) list"
    using that by (induction qs) auto
  then have "k dvd length (concat (map snd (takeWhile (\<lambda>p. fst p = f) ps)))"
    using 2 by (auto dest!: set_takeWhileD)
  moreover have "\<forall>g \<in> set (dropWhile (\<lambda>p. fst p = f) ps). k dvd length (snd g)" using 2 by (auto dest!: set_dropWhileD)
  ultimately show ?case using 2 by simp
qed simp

text \<open>The thread with its sockets watched, from a camera whose frame buffer is whole.\<close>

definition first_packet :: "stream_camera \<Rightarrow> byte list \<Rightarrow> byte list" where
  "first_packet cam junk = malloc_packet (unat (gc_packet_size cam - 28)) junk"

lemma thread_loop:
  assumes "length (if_buffer (sc_iframe cam)) = MAX_FRAME_SIZE"
  obtains s where "camera_gvsp_thread (True, True) junk frame rs cam = gvsp_loop (gc_packet_size cam - 28) rs s"
    "collecting 0 False [] s" "st_packet s = Some (first_packet cam junk)" "st_cam s = cam" "st_frames s = []"
proof -
  let ?s = "\<lparr>st_cam = cam, st_frame = frame\<lparr>fr_is_started := False\<rparr>, st_packet = Some (first_packet cam junk), st_frame_id = 0,
    st_last_frame_id = 0, st_received = 0, st_errors = 0, st_ignored = 0, st_images = [], st_frames = []\<rparr>"
  have "camera_gvsp_thread (True, True) junk frame rs cam = gvsp_loop (gc_packet_size cam - 28) rs ?s"
    by (simp add: camera_gvsp_thread_def Let_def IP_HEADER_SIZE_def UDP_HEADER_SIZE_def first_packet_def)
  then show ?thesis using that assms by (simp add: collecting_def)
qed

text \<open>The frames of a run: those of its packets, without the packets of frame 0 that come first.\<close>

definition stream_frames :: "stream_camera \<Rightarrow> byte list \<Rightarrow> stream_round list \<Rightarrow> (u64 \<times> byte list) list" where
  "stream_frames cam junk rs =
     group_frames (dropWhile (\<lambda>p. fst p = 0) (map packet_parts (memory_after (first_packet cam junk) rs)))"

definition frames_fit :: "(u64 \<times> byte list) list \<Rightarrow> bool" where
  "frames_fit fs \<longleftrightarrow> (\<forall>f \<in> set fs. length (snd f) \<le> MAX_FRAME_SIZE)"

lemma thread_frames:
  assumes "length (if_buffer (sc_iframe cam)) = MAX_FRAME_SIZE" "good_stream (first_packet cam junk) rs" "sc_action cam"
  shows "if frames_fit (stream_frames cam junk rs)
    then \<exists>s'. camera_gvsp_thread (True, True) junk frame rs cam = Some (Stopped, s') \<and>
      map frame_of (st_frames s') = butlast (stream_frames cam junk rs)
    else camera_gvsp_thread (True, True) junk frame rs cam = None"
proof -
  obtain s where s: "camera_gvsp_thread (True, True) junk frame rs cam = gvsp_loop (gc_packet_size cam - 28) rs s"
    "collecting 0 False [] s" "st_packet s = Some (first_packet cam junk)" "st_cam s = cam" "st_frames s = []"
    using thread_loop [OF assms(1)] by metis
  have n: "unat (gc_packet_size cam - 28) = length (first_packet cam junk)" by (simp add: first_packet_def)
  show ?thesis
    using loop_frames [OF s(2,3) n assms(2)] loop_overflow [OF s(2,3) n assms(2)] assms(3) s(1,4,5)
    by (auto simp: stream_frames_def frames_fit_def fitting_first report_first)
qed

text \<open>A standard packet: status, frame id, content type and packet id, and its data.\<close>

definition standard_packet :: "u16 \<Rightarrow> u16 \<Rightarrow> byte \<Rightarrow> u32 \<Rightarrow> byte list \<Rightarrow> byte list" where
  "standard_packet status frame_id content_type packet_id data =
     be_bytes 2 status @ be_bytes 2 frame_id @ content_type # be_bytes 3 packet_id @ data"

lemma info_bytes:
  assumes "content_type < 0x80" "packet_id < 2 ^ 24"
  shows "of_be_bytes (content_type # be_bytes 3 packet_id) = (push_bit 24 (ucast (content_type :: byte)) OR packet_id :: u32)"
proof -
  have "unat (take_bit 24 packet_id) = unat packet_id"
    using assms(2) by (simp add: unsigned_take_bit_eq take_bit_nat_eq_self word_less_nat_alt)
  then have t: "take_bit 24 packet_id = packet_id" by (simp only: word_unat_eq_iff)
  have "of_le_bytes (le_bytes 3 packet_id @ [content_type]) = (push_bit 24 (ucast content_type) OR take_bit 24 packet_id :: u32)"
    by (rule bit_word_eqI)
      (auto simp: numeral_3_eq_3 bit_or_iff bit_push_bit_iff bit_drop_bit_eq bit_ucast_iff bit_take_bit_iff dest: bit_imp_le_length)
  then show ?thesis using t by (simp add: of_be_bytes_def be_bytes_def)
qed
lemma low_content_type:
  assumes "(content_type :: byte) < 0x80"
  shows "content_type AND 0x80 = 0" "take_bit 7 content_type = content_type"
proof -
  have "unat (take_bit 7 content_type) = unat content_type"
    using assms by (simp add: unsigned_take_bit_eq take_bit_nat_eq_self word_less_nat_alt)
  then show t: "take_bit 7 content_type = content_type" by (simp only: word_unat_eq_iff)
  have "take_bit n c AND push_bit n d = 0" for n and c d :: byte
    by (rule bit_word_eqI) (auto simp: bit_and_iff bit_take_bit_iff bit_push_bit_iff)
  from this [of 7 content_type 1] have "take_bit 7 content_type AND 0x80 = 0" by simp
  then show "content_type AND 0x80 = 0" using t by simp
qed
text \<open>The accessors give back the parts of a packet.\<close>

lemma standard_reads:
  assumes p_def: "p = standard_packet status frame_id content_type packet_id data"
  shows "region_read p 0 2 = Some (be_bytes 2 status)" "region_read p 2 2 = Some (be_bytes 2 frame_id)"
    "region_read p 4 (Suc 0) = Some [content_type]" "region_read p 4 4 = Some (content_type # be_bytes 3 packet_id)"
    "drop 8 p = data" "length p = 8 + length data"
  by (simp_all add: p_def standard_packet_def region_read_def)

lemma standard_fields:
  assumes ok: "content_type < 0x80" "packet_id < 2 ^ 24" and p_def: "p = standard_packet status frame_id content_type packet_id data"
  shows "gvsp_packet_has_extended_ids p = Some False" "gvsp_packet_get_frame_id p = Some (ucast frame_id)"
    "gvsp_packet_get_packet_id p = Some packet_id" "gvsp_packet_get_packet_type p = Some status"
    "gvsp_packet_get_content_type p = Some (ucast content_type)" "gvsp_packet_get_data p = Some 8"
proof -
  note r = standard_reads [OF p_def]
  show e: "gvsp_packet_has_extended_ids p = Some False"
    using low_content_type(1) [OF ok(1)] by (simp add: gvsp_packet_has_extended_ids_def r GVSP_PACKET_EXTENDED_ID_MODE_MASK_def)
  show "gvsp_packet_get_frame_id p = Some (ucast frame_id)"
    by (simp add: gvsp_packet_get_frame_id_def e r of_be_bytes_be_bytes)
  have m: "GVSP_PACKET_ID_MASK = mask 24" "GVSP_PACKET_INFO_CONTENT_TYPE_MASK = push_bit 24 (mask 7)"
    by (simp_all add: GVSP_PACKET_ID_MASK_def GVSP_PACKET_INFO_CONTENT_TYPE_MASK_def mask_eq_exp_minus_1)
  have "unat (take_bit 24 packet_id) = unat packet_id"
    using ok(2) by (simp add: unsigned_take_bit_eq take_bit_nat_eq_self word_less_nat_alt)
  then have t: "take_bit 24 packet_id = packet_id" by (simp only: word_unat_eq_iff)
  have "(push_bit 24 (ucast content_type) OR take_bit 24 packet_id :: u32) AND mask 24 = take_bit 24 packet_id"
    by (rule bit_word_eqI) (auto simp: bit_and_iff bit_or_iff bit_push_bit_iff bit_mask_iff bit_take_bit_iff)
  then show "gvsp_packet_get_packet_id p = Some packet_id"
    by (simp add: gvsp_packet_get_packet_id_def e r info_bytes [OF ok] m t)
  show "gvsp_packet_get_packet_type p = Some status"
    by (simp add: gvsp_packet_get_packet_type_def r of_be_bytes_be_bytes)
  have "drop_bit 24 ((push_bit 24 (ucast (take_bit 7 content_type)) OR take_bit 24 packet_id :: u32) AND push_bit 24 (mask 7)) =
      ucast (take_bit 7 content_type)"
    by (rule bit_word_eqI)
      (auto simp: bit_and_iff bit_or_iff bit_push_bit_iff bit_mask_iff bit_take_bit_iff bit_drop_bit_eq bit_ucast_iff dest: bit_imp_le_length)
  then show "gvsp_packet_get_content_type p = Some (ucast content_type)"
    by (simp add: gvsp_packet_get_content_type_def e r info_bytes [OF ok] m t GVSP_PACKET_INFO_CONTENT_TYPE_POS_def low_content_type(2) [OF ok(1)])
  show "gvsp_packet_get_data p = Some 8" by (simp add: gvsp_packet_get_data_def e)
qed

lemma receive_standard:
  assumes "8 + length data \<le> length p"
  shows "receive_into (standard_packet status frame_id content_type packet_id data) p =
    standard_packet status frame_id content_type packet_id (data @ drop (length data) (drop 8 p))"
  using assms by (simp add: receive_into_def standard_packet_def add.commute)

lemma standard_parts:
  assumes "content_type < 0x80" "packet_id < 2 ^ 24"
  shows "packet_parts (standard_packet status frame_id content_type packet_id data) =
      (ucast frame_id, if content_type = 3 then data else [])"
    and "packet_status (standard_packet status frame_id content_type packet_id data) = status"
proof -
  have "(ucast content_type :: u32) = 3 \<longleftrightarrow> content_type = 3"
    by (simp add: word_unat_eq_iff unsigned_ucast_eq take_bit_nat_eq_self order_less_trans [OF unsigned_less])
  then show "packet_parts (standard_packet status frame_id content_type packet_id data) =
      (ucast frame_id, if content_type = 3 then data else [])"
    using standard_fields [OF assms refl, of status frame_id data] standard_reads(5) [OF refl, of status frame_id content_type packet_id data]
    by (auto simp: packet_parts_def packet_frame_def packet_block_def GVSP_CONTENT_TYPE_DATA_BLOCK_def)
  show "packet_status (standard_packet status frame_id content_type packet_id data) = status"
    by (simp add: packet_status_def standard_fields [OF assms refl])
qed
text \<open>A camera to apply the properties to, and its stream.\<close>

definition streaming_camera :: "u32 \<Rightarrow> stream_camera" where
  "streaming_camera packet_size = \<lparr>gc_dev = known_device ''127.0.0.1'', gc_state = STREAM_LIVE, gc_ops = gige_camera_ops_arvfake,
     gc_gvcp_fd = 3, gc_gvsp_fd = 4, gc_last_gvcp_packet_id = 0xf002, gc_timestamp_tick_frequency = 1, gc_packet_size = packet_size,
     sc_last_frame_id = 0, sc_n_received_packets = 0, sc_n_error_packets = 0, sc_n_ignored_packets = 0,
     sc_iframe = \<lparr>if_frame_id = 0, if_buffer_size = 0, if_buffer = replicate MAX_FRAME_SIZE 0\<rparr>, sc_action = True\<rparr>"

definition blank_frame :: frame_data where
  "blank_frame = \<lparr>fr_is_started = False, fr_frame_id = 0, fr_payload_type = 0, fr_has_extended_ids = False, fr_n_packets = 0,
     fr_error_packets_received = 0, fr_last_valid_packet = 0\<rparr>"

text \<open>Two frames of two blocks each, the second block of the first one short, and the start of a third.\<close>

definition two_frames :: "stream_round list" where
  "two_frames = [StreamPacket (standard_packet 0 1 1 0 (replicate 44 0)), WaitEmpty,
     StreamPacket (standard_packet 0 1 3 1 (replicate 44 7)), StreamPacket (standard_packet 0 1 3 2 [8, 9]),
     StreamPacket (standard_packet 0 2 3 2 (replicate 44 6)), StreamPacket (standard_packet 0 2 3 1 (replicate 44 5)),
     StreamPacket (standard_packet 0 3 1 0 [])]"

lemma first_packet_streaming: "first_packet (streaming_camera 80) [] = replicate 52 0"
  by (simp add: first_packet_def streaming_camera_def malloc_packet_def)

lemma two_frames_packets:
  "memory_after (replicate 52 0) two_frames =
    [standard_packet 0 1 1 0 (replicate 44 0), standard_packet 0 1 3 1 (replicate 44 7), standard_packet 0 1 3 2 (8 # 9 # replicate 42 7),
     standard_packet 0 2 3 2 (replicate 44 6), standard_packet 0 2 3 1 (replicate 44 5), standard_packet 0 3 1 0 (replicate 44 5)]"
  by (simp add: two_frames_def receive_standard standard_reads [OF refl] del: drop_drop)

lemma two_frames_parts:
  "map packet_parts (memory_after (replicate 52 0) two_frames) =
    [(1, []), (1, replicate 44 7), (1, 8 # 9 # replicate 42 7), (2, replicate 44 6), (2, replicate 44 5), (3, [])]"
  by (simp add: two_frames_packets standard_parts)

lemma two_frames_frames:
  "stream_frames (streaming_camera 80) [] two_frames =
     [(1, replicate 44 7 @ 8 # 9 # replicate 42 7), (2, replicate 44 6 @ replicate 44 5), (3, [])]"
  by (simp add: stream_frames_def first_packet_streaming two_frames_parts)

lemma two_frames_good: "good_stream (first_packet (streaming_camera 80) []) two_frames"
  unfolding good_stream_def first_packet_streaming two_frames_packets by (simp add: standard_parts two_frames_def)

subsection \<open>Properties\<close>

text \<open>C13: The thread implements the grouping of the packets: when no frame is longer than the buffer, the frames handed over are the
  runs of neighbouring packets with one frame id, each with the data of its blocks in the order of their arrival (whatever
  their packet ids), but for the last run, and for packets with the id 0 that come first.\<close>

theorem frames_collected:
  assumes "length (if_buffer (sc_iframe cam)) = MAX_FRAME_SIZE" "good_stream (first_packet cam junk) rs" "sc_action cam"
    and "frames_fit (stream_frames cam junk rs)"
  shows "\<exists>s'. camera_gvsp_thread (True, True) junk frame rs cam = Some (Stopped, s') \<and>
     map frame_of (st_frames s') = butlast (stream_frames cam junk rs)"
  using thread_frames [OF assms(1-3)] assms(4) by simp

theorem frames_collected_witness:
  "\<exists>s'. camera_gvsp_thread (True, True) [] blank_frame two_frames (streaming_camera 80) = Some (Stopped, s') \<and>
     map frame_of (st_frames s') = [(1, replicate 44 7 @ 8 # 9 # replicate 42 7), (2, replicate 44 6 @ replicate 44 5)]"
proof -
  have "length (if_buffer (sc_iframe (streaming_camera 80))) = MAX_FRAME_SIZE" "sc_action (streaming_camera 80)"
    by (simp_all add: streaming_camera_def)
  moreover have "frames_fit (stream_frames (streaming_camera 80) [] two_frames)"
    by (simp add: two_frames_frames frames_fit_def MAX_FRAME_SIZE_def)
  ultimately show ?thesis
    using frames_collected [OF _ two_frames_good, of blank_frame] by (simp add: two_frames_frames)
qed

text \<open>Whether a stream is received without undefined behaviour depends on the lengths of its frames alone: the blocks of a frame
  are copied behind each other without a look at the size of the buffer, so one frame that is longer is written behind
  it.\<close>

theorem stream_defined_iff_frames_fit:
  assumes "length (if_buffer (sc_iframe cam)) = MAX_FRAME_SIZE" "good_stream (first_packet cam junk) rs" "sc_action cam"
  shows "camera_gvsp_thread (True, True) junk frame rs cam = None \<longleftrightarrow> \<not> frames_fit (stream_frames cam junk rs)"
  using thread_frames [OF assms, of frame] by (auto split: if_splits)

theorem stream_defined_iff_frames_fit_witness:
  "camera_gvsp_thread (True, True) [] blank_frame [StreamPacket (standard_packet 0 1 3 1 [])] (streaming_camera 120000100) = None"
proof -
  let ?cam = "streaming_camera 120000100" and ?rs = "[StreamPacket (standard_packet 0 1 3 1 [])]"
  have cam: "length (if_buffer (sc_iframe ?cam)) = MAX_FRAME_SIZE" "sc_action ?cam" "length (first_packet ?cam []) = 120000072"
    by (simp_all add: streaming_camera_def first_packet_def)
  have p: "receive_into (standard_packet 0 1 3 1 []) (first_packet ?cam []) = standard_packet 0 1 3 1 (drop 8 (first_packet ?cam []))"
    using cam(3) by (simp add: receive_standard)
  then have g: "good_stream (first_packet ?cam []) ?rs"
    using cam(3) by (simp add: good_stream_def standard_parts)
  have "stream_frames ?cam [] ?rs = [(1, drop 8 (first_packet ?cam []))]"
    by (simp add: stream_frames_def p standard_parts)
  then have "\<not> frames_fit (stream_frames ?cam [] ?rs)" using cam(3) by (simp add: frames_fit_def MAX_FRAME_SIZE_def)
  then show ?thesis using stream_defined_iff_frames_fit [OF cam(1) g cam(2), of blank_frame] by blast
qed

text \<open>A short block brings bytes of an older packet: the code adds as many bytes as a packet can hold, not as many as were
  received, so behind the data of the block the frame gets what the receive buffer held there.\<close>

theorem short_block_padded:
  assumes "8 + length data \<le> length p" "packet_id < 2 ^ 24"
  shows "packet_parts (receive_into (standard_packet status frame_id 3 packet_id data) p) =
    (ucast frame_id, data @ drop (8 + length data) p)"
proof -
  have "data @ drop (8 + length data) p = data @ drop (length data) (drop 8 p)" by (simp add: add.commute)
  then show ?thesis
    using standard_parts(1) [OF _ assms(2), of 3 status frame_id "data @ drop (length data) (drop 8 p)"]
    by (simp only: receive_standard [OF assms(1)]) simp
qed

theorem short_block_padded_witness:
  "packet_parts (receive_into (standard_packet 0 1 3 2 [8, 9]) (standard_packet 0 1 3 1 [1, 2, 3, 4])) = (1, [8, 9, 3, 4])"
proof -
  have "8 + length [8, 9 :: byte] \<le> length (standard_packet 0 1 3 1 [1, 2, 3, 4])" by (simp add: standard_reads(6) [OF refl])
  from short_block_padded [OF this, of 2 0 1] show ?thesis by (simp add: standard_packet_def)
qed

text \<open>A receive that is interrupted ruins the thread: it frees the receive buffer and goes on, so it is undefined what
  happens next, be it a packet, an error or the stop of the camera, unless waiting fails first.\<close>

theorem receive_interrupted_undefined:
  assumes "WaitBroken \<notin> set rs"
  shows "gvsp_loop packet_size (ReceiveInterrupted # rs) s = None"
proof -
  have "gvsp_loop packet_size rs s = None" if "st_packet s = None" for s
    using assms that
  proof (induction rs arbitrary: s)
    case Nil
    then show ?case by (simp add: gvsp_stop_def)
  next
    case (Cons r rs)
    then show ?case by (cases r) auto
  qed
  then show ?thesis by (cases "st_packet s") simp_all
qed

theorem receive_interrupted_undefined_witness:
  "camera_gvsp_thread (True, True) [] blank_frame [ReceiveInterrupted, WaitEmpty] (streaming_camera 80) = None"
proof -
  have "gvsp_loop packet_size [ReceiveInterrupted, WaitEmpty] s = None" for packet_size s
    by (rule receive_interrupted_undefined) simp
  then show ?thesis by (simp only: camera_gvsp_thread_def Let_def fst_conv snd_conv simp_thms if_False)
qed

text \<open>Every frame of standard packets is a whole number of full blocks long, whatever the size of the image.\<close>

theorem frame_size_multiple:
  assumes "length (if_buffer (sc_iframe cam)) = MAX_FRAME_SIZE" "good_stream (first_packet cam junk) rs" "sc_action cam"
    and "\<forall>q \<in> set (memory_after (first_packet cam junk) rs). gvsp_packet_has_extended_ids q = Some False"
    and "camera_gvsp_thread (True, True) junk frame rs cam = Some (Stopped, s')"
  shows "\<forall>f \<in> set (st_frames s'). (length (first_packet cam junk) - 8) dvd length (snd (frame_of f))"
proof -
  let ?n = "length (first_packet cam junk)"
  have frames: "map frame_of (st_frames s') = butlast (stream_frames cam junk rs)"
    using thread_frames [OF assms(1-3), of frame] assms(5) by (auto split: if_splits)
  have len: "length q = ?n" if "q \<in> set (memory_after (first_packet cam junk) rs)" for q
    using that memory_after_length by blast
  have "?n - 8 dvd length (packet_block q)" if q: "q \<in> set (memory_after (first_packet cam junk) rs)" for q
  proof -
    have "gvsp_packet_get_data q = Some 8" using assms(4) q by (simp add: gvsp_packet_get_data_def)
    then show ?thesis using len [OF q] by (simp add: packet_block_def)
  qed
  then have "\<forall>f \<in> set (stream_frames cam junk rs). ?n - 8 dvd length (snd f)"
    unfolding stream_frames_def
    by (intro group_frames_dvd) (auto simp: packet_parts_def dest!: set_dropWhileD)
  then have "\<forall>f \<in> set (map frame_of (st_frames s')). ?n - 8 dvd length (snd f)" unfolding frames by (auto dest: in_set_butlastD)
  then show ?thesis by simp
qed

theorem frame_size_multiple_witness:
  "\<exists>s'. camera_gvsp_thread (True, True) [] blank_frame two_frames (streaming_camera 80) = Some (Stopped, s') \<and>
     (\<forall>f \<in> set (map frame_of (st_frames s')). 44 dvd length (snd f))"
proof -
  have c: "length (if_buffer (sc_iframe (streaming_camera 80))) = MAX_FRAME_SIZE" "sc_action (streaming_camera 80)"
    by (simp_all add: streaming_camera_def)
  have "frames_fit (stream_frames (streaming_camera 80) [] two_frames)"
    by (simp add: two_frames_frames frames_fit_def MAX_FRAME_SIZE_def)
  then obtain s' where s': "camera_gvsp_thread (True, True) [] blank_frame two_frames (streaming_camera 80) = Some (Stopped, s')"
    using thread_frames [OF c(1) two_frames_good c(2), of blank_frame] by auto
  have "\<forall>q \<in> set (memory_after (first_packet (streaming_camera 80) []) two_frames). gvsp_packet_has_extended_ids q = Some False"
    by (simp add: first_packet_streaming two_frames_packets standard_fields(1) [OF _ _ refl])
  from frame_size_multiple [OF c(1) two_frames_good c(2) this s'] show ?thesis
    using s' by (simp add: first_packet_streaming)
qed

text \<open>Reading a standard packet gives what it was put together from.\<close>

theorem standard_packet_fields:
  assumes "content_type < 0x80" "packet_id < 2 ^ 24" "length data + 8 = unat n"
  shows "let p = standard_packet status frame_id content_type packet_id data in
    gvsp_packet_get_packet_type p = Some status \<and> gvsp_packet_get_frame_id p = Some (ucast frame_id) \<and>
    gvsp_packet_get_content_type p = Some (ucast content_type) \<and> gvsp_packet_get_packet_id p = Some packet_id \<and>
    do { off \<leftarrow> gvsp_packet_get_data p; k \<leftarrow> gvsp_packet_get_data_size p n; region_read p off (unat k) } = Some data"
proof -
  have n: "unat (n - 8) = length data" using assms(3) by (simp add: unat_sub word_le_nat_alt)
  let ?p = "standard_packet status frame_id content_type packet_id data"
  have "gvsp_packet_get_data_size ?p n = Some (n - 8)"
    by (simp add: gvsp_packet_get_data_size_def standard_fields [OF assms(1,2) refl] gvsp_packet_bytes_def gvsp_header_bytes_def)
  then show ?thesis
    using n by (simp add: Let_def standard_fields [OF assms(1,2) refl] standard_reads [OF refl] region_read_def)
qed

theorem standard_packet_fields_witness:
  "do { off \<leftarrow> gvsp_packet_get_data (standard_packet 0 9 3 7 [1, 2]); k \<leftarrow> gvsp_packet_get_data_size (standard_packet 0 9 3 7 [1, 2]) 10;
     region_read (standard_packet 0 9 3 7 [1, 2]) off (unat k) } = Some [1, 2]"
  using standard_packet_fields [of 3 7 "[1, 2]" 10 0 9] by (simp add: Let_def)

end
