(* ===== verification/Dclprocessor.thy ===== *)
theory Dclprocessor imports Pipeline PipelineClient Collector SystemJson begin

section \<open>The processor\<close>

text \<open>
  \<^verbatim>\<open>processor/src/dclprocessor.c\<close>, which puts the subsystems together: the server (\<open>dclprocessor_init\<close>) creates the
  common segment, writes the text of the system's description into it and starts the pipeline; a module
  (\<open>dclprocessor_get\<close>) reads the text back, and serves the pipeline with one of three actions. \<open>first_action\<close> is in
  \<^verbatim>\<open>CollectorThread\<close>. Here characters become bytes of the segment and bytes characters.
\<close>

definition bytes_of_string :: "string \<Rightarrow> byte list" where
  "bytes_of_string = map (\<lambda>c. of_nat (of_char c))"

definition string_of_bytes :: "byte list \<Rightarrow> string" where
  "string_of_bytes = map (\<lambda>b. char_of (unat b))"

definition DCL_MAX_DATA_SIZE :: int where "DCL_MAX_DATA_SIZE = 128"

text \<open>The fields of \<open>struct dclprocessor\<close> that the code uses; \<open>dp_action\<close> is the client's callback, if it is set.\<close>

record ('l, 'r, 'u) dclprocessor =
  dp_type :: int
  dp_action :: bool
  dp_desc :: "dclprocessor_description option"
  dp_shmem :: "nat option"
  dp_pipeline :: "'l pipeline option"
  dp_user_data :: "'u option"
  dp_collector :: "'r data_collector option"
  dp_need_to_free :: int

definition new_dclprocessor :: "('l, 'r, 'u) dclprocessor" where
  "new_dclprocessor = \<lparr>dp_type = 0, dp_action = False, dp_desc = None, dp_shmem = None, dp_pipeline = None, dp_user_data = None,
     dp_collector = None, dp_need_to_free = 1\<rparr>"

subsection \<open>The server\<close>

text \<open>
  What \<open>out_dclprocessor_description\<close> reads of the description: the modules by their count, and the fields of the
  collector's description, which has to be there.
\<close>

definition readable :: "int \<Rightarrow> 'a list option \<Rightarrow> bool" where
  "readable n p \<longleftrightarrow> nat n \<le> (case p of None \<Rightarrow> 0 | Some xs \<Rightarrow> length xs)"

definition out_dclprocessor_description :: "dclprocessor_description \<Rightarrow> unit option" where
  "out_dclprocessor_description desc = do {
     _ \<leftarrow> (case dd_pipeline_desc desc of
        None \<Rightarrow> Some ()
      | Some pdesc \<Rightarrow> if readable (pd_modules_cnt pdesc) (pd_minfos pdesc) then Some () else None);
     cdesc \<leftarrow> dd_collector_desc desc;
     if (cd_sinfos cdesc = None \<or> readable (cd_sources_cnt cdesc) (cd_sinfos cdesc)) \<and>
       (cd_sdescs cdesc = None \<or> readable (cd_sources_cnt cdesc) (cd_sdescs cdesc))
     then Some () else None }"

text \<open>The counts and sizes of the segment: places for the processes of the modules and two more.\<close>

definition dclprocessor_map :: "pipeline_description \<Rightarrow> memory_map" where
  "dclprocessor_map pdesc =
     (let proc_cnt = pd_modules_cnt pdesc + 2;
          d_cnt = (if pd_data_cnt pdesc > proc_cnt + 2 then pd_data_cnt pdesc else proc_cnt + 2)
      in memory_map_create proc_cnt pipeline_get_procinfo_size d_cnt (size_of_int (int_of_size (pd_data_size pdesc)))
        1 (size_of_int DESCRIPTOR_DATA_MAX_LEN))"

text \<open>The text in a buffer that \<open>strlen\<close> is called on.\<close>

definition text_of :: "char_buffer \<Rightarrow> string option" where
  "text_of b = (case b of Chars cs \<Rightarrow> cstr cs | _ \<Rightarrow> None)"

text \<open>The length of the text, and the text, are written to the start of the description zone.\<close>

definition write_full_json :: "char_buffer \<Rightarrow> byte list \<Rightarrow> byte list option" where
  "write_full_json buf shm = do {
     text \<leftarrow> text_of buf;
     let n = (of_nat (length text) :: u64);
     (shm1, p1) \<leftarrow> shared_memory_write_descriptions_segment shm 0 (Some (le_bytes 8 n)) 8;
     (shm2, p2) \<leftarrow> shared_memory_write_descriptions_segment shm1 8 (Some (bytes_of_string text)) n;
     Some shm2 }"

text \<open>
  The common segment. The result: its number, or \<open>None\<close> when it could not be created, and the description, then with
  the path and the size, also in the description of the pipeline.
\<close>

definition create_common_shmem ::
  "shm_faults \<Rightarrow> string \<Rightarrow> dclprocessor_description \<Rightarrow> shm_os \<Rightarrow> (nat option \<times> dclprocessor_description \<times> shm_os) option" where
  "create_common_shmem flt path desc os = do {
     pdesc \<leftarrow> dd_pipeline_desc desc;
     let pdesc = pdesc\<lparr>pd_proc_cnt := pd_modules_cnt pdesc + 2\<rparr>;
     let os1 = shared_memory_unlink path os;
     (shm, os2) \<leftarrow> shared_memory_server_init flt (Some path) (Some (dclprocessor_map pdesc)) os1;
     (case shm of
        None \<Rightarrow> Some (None, desc\<lparr>dd_pipeline_desc := Some pdesc\<rparr>, os2)
      | Some ob \<Rightarrow> do {
          sz \<leftarrow> shared_memory_get_size (shm_objects os2 ob);
          let desc = desc\<lparr>dd_shmsize := sz, dd_pipeline_desc :=
            Some (pdesc\<lparr>pd_shmpath := Some path, pd_shmsize := sz, pd_use_common_shmem := 1\<rparr>)\<rparr>;
          (rc, os3) \<leftarrow> shared_memory_setenv flt (Some path) (shm_objects os2 ob) os2;
          shm' \<leftarrow> write_full_json (dd_full_json desc) (shm_objects os3 ob);
          Some (Some ob, desc, os3\<lparr>shm_objects := (shm_objects os3)(ob := shm')\<rparr>) }) }"

text \<open>
  \<open>dclprocessor_init\<close>: \<open>mem\<close> and \<open>mem_desc\<close> say whether the allocations succeed, \<open>obs\<close> are the states of the pipeline that
  \<open>pipeline_start\<close> sees. The result has the return value, \<open>*p_dclproc\<close> (unchanged if \<open>None\<close>), the description as it is
  afterwards, the system and the modules. \<open>dclproc->desc\<close> is set only for a description that is created here.
\<close>

type_synonym ('l, 'r, 'u) init_result =
  "int \<times> ('l, 'r, 'u) dclprocessor option \<times> dclprocessor_description option \<times> shm_os \<times> module_heap"

definition start_pipeline ::
  "'l list_ops \<Rightarrow> shm_faults \<Rightarrow> int list \<Rightarrow> ('l, 'r, 'u) dclprocessor \<Rightarrow> dclprocessor_description \<Rightarrow> shm_os \<Rightarrow> module_heap \<Rightarrow>
     ('l, 'r, 'u) init_result call_result option" where
  "start_pipeline L flt obs dclproc desc os h = do {
     (rc, p_pl, os1, h1) \<leftarrow> pipeline_init L flt None (dd_pipeline_desc desc) os h;
     if rc \<noteq> 0 then Some (Returns (-1, None, Some desc, os1, h1))
     else do {
       pl \<leftarrow> p_pl;
       r \<leftarrow> pipeline_start L obs pl h1;
       (case r of
          Hangs \<Rightarrow> Some Hangs
        | Returns (pl1, h2) \<Rightarrow> do {
            (pl2, h3) \<leftarrow> pipeline_live L pl1 h2;
            Some (Returns (0, Some (dclproc\<lparr>dp_pipeline := Some pl2\<rparr>), Some desc, os1, h3)) }) } }"

definition dclprocessor_init ::
  "'l list_ops \<Rightarrow> shm_faults \<Rightarrow> bool \<Rightarrow> bool \<Rightarrow> int list \<Rightarrow> dclprocessor_description option \<Rightarrow> shm_os \<Rightarrow> module_heap \<Rightarrow>
     ('l, 'r, 'u) init_result call_result option" where
  "dclprocessor_init L flt mem mem_desc obs p_desc os h =
     (if \<not> mem then Some (Returns (-1, None, p_desc, os, h))
      else let dclproc = new_dclprocessor in
        (case (case p_desc of None \<Rightarrow> dclprocessor_description_create mem_desc | Some d \<Rightarrow> Some d) of
           None \<Rightarrow> Some (Returns (-1, None, None, os, h))
         | Some desc \<Rightarrow> do {
             let dclproc = (if p_desc = None then dclproc\<lparr>dp_desc := Some desc\<rparr> else dclproc);
             _ \<leftarrow> out_dclprocessor_description desc;
             (case (if dd_use_shmem desc \<noteq> 0 then dd_shmpath desc else None) of
                None \<Rightarrow> start_pipeline L flt obs dclproc desc os h
              | Some path \<Rightarrow> do {
                  (shm, desc', os1) \<leftarrow> create_common_shmem flt path desc os;
                  (case shm of
                     None \<Rightarrow> Some (Returns (-1, None, Some desc', os1, h))
                   | Some ob \<Rightarrow>
                       start_pipeline L flt obs (dclproc\<lparr>dp_shmem := Some ob\<rparr>) desc' os1 h) }) }))"

subsection \<open>A module\<close>

text \<open>
  \<open>read_full_json junk tail\<close>: the length, and a new buffer of that many bytes (\<open>junk\<close>) with the text, which is then parsed as a
  string. \<open>tail\<close> are the characters behind the buffer that can be read; by the standard there are none.
\<close>

definition read_full_json :: "'j json_ops \<Rightarrow> bool \<Rightarrow> byte \<Rightarrow> string \<Rightarrow> byte list \<Rightarrow> dclprocessor_description option" where
  "read_full_json J mem junk tail shm = do {
     (b1, p1) \<leftarrow> shared_memory_read_descriptions_segment shm 0 (Some (replicate 8 0)) 8;
     size_bytes \<leftarrow> b1;
     let n = (of_le_bytes size_bytes :: u64);
     (b2, p2) \<leftarrow> shared_memory_read_descriptions_segment shm 8 (Some (replicate (unat n) junk)) n;
     buffer \<leftarrow> b2;
     load_dclprocessor_description_from_buffer J mem (string_of_bytes buffer @ tail) n }"

text \<open>What the rest of the system answers to \<open>dclprocessor_get\<close>: see \<open>collector_init\<close> for all but the first three.\<close>

record 'r get_answers =
  ga_mem :: bool
  ga_mem_desc :: bool
  ga_mem_collector :: bool
  ga_junk :: "nat \<Rightarrow> byte list"
  ga_fresh :: data_source
  ga_sources :: "nat \<Rightarrow> source_answers"
  ga_sem_data :: bool
  ga_sem_empty :: bool
  ga_ring :: 'r

text \<open>\<open>size0\<close> is the uninitialised \<open>shm_size\<close>. The results: the processor or NULL, and the system.\<close>

definition dclprocessor_get ::
  "'j json_ops \<Rightarrow> shm_faults \<Rightarrow> 'r get_answers \<Rightarrow> byte \<Rightarrow> string \<Rightarrow> u64 \<Rightarrow> int \<Rightarrow> shm_os \<Rightarrow>
     (('l, 'r, 'u) dclprocessor option \<times> shm_os) option" where
  "dclprocessor_get J flt ans junk tail size0 ty os =
     (if \<not> ga_mem ans then Some (None, os)
      else do {
        let dclproc = new_dclprocessor\<lparr>dp_type := ty\<rparr>;
        (rc, shm_path, shm_size) \<leftarrow> shared_memory_getenv None size0 os;
        (shmem, os1) \<leftarrow> shared_memory_client_init flt shm_path shm_size os;
        (case shmem of
           None \<Rightarrow> Some (None, os1)
         | Some ob \<Rightarrow> do {
             desc \<leftarrow> read_full_json J (ga_mem_desc ans) junk tail (shm_objects os1 ob);
             cdesc \<leftarrow> dd_collector_desc desc;
             let dclproc = dclproc\<lparr>dp_desc := Some desc\<rparr>;
             if ty = 1 then do {
               c \<leftarrow> collector_init (ga_junk ans) (ga_fresh ans) (ga_sources ans) (ga_mem_collector ans) (ga_sem_data ans)
                 (ga_sem_empty ans) (ga_ring ans) (Some cdesc);
               Some (Some (dclproc\<lparr>dp_collector := c\<rparr>), os1) }
             else do {
               c \<leftarrow> collector_create (ga_mem_collector ans) (ga_ring ans);
               c' \<leftarrow> collector_set_boost_shmem c (cd_use_boost_shmem cdesc) (cd_boost_path cdesc) (cd_boost_size cdesc);
               Some (Some (dclproc\<lparr>dp_collector := Some c'\<rparr>), os1) } }) })"

text \<open>
  The actions on the object whose name is in the pipeline's data (an array of characters). The results: \<open>*status\<close>, the calls
  of the client's callback with the boost path and the name, and the objects that are freed.
\<close>

type_synonym action_result = "int \<times> (string \<times> string) list \<times> (string \<times> string) list"

definition client_calls :: "('l, 'r, 'u) dclprocessor \<Rightarrow> 'r data_collector \<Rightarrow> string \<Rightarrow> (string \<times> string) list" where
  "client_calls dclproc collector name = (if dp_action dclproc then [(co_boost_path collector, name)] else [])"

definition middle_action :: "('l, 'r, 'u) dclprocessor option \<Rightarrow> string \<Rightarrow> int \<Rightarrow> action_result option" where
  "middle_action internal_data data status =
     (case internal_data of
        None \<Rightarrow> Some (status, [], [])
      | Some dclproc \<Rightarrow>
          (case dp_collector dclproc of
             None \<Rightarrow> Some (status, [], [])
           | Some collector \<Rightarrow> do {
               obj_name \<leftarrow> cstr data;
               Some (if length obj_name > 0 then (0, client_calls dclproc collector obj_name, []) else (1, [], [])) }))"

definition last_action :: "('l, 'r, 'u) dclprocessor option \<Rightarrow> string \<Rightarrow> int \<Rightarrow> action_result option" where
  "last_action internal_data data status = do {
     dclproc \<leftarrow> internal_data;
     (case dp_collector dclproc of
        None \<Rightarrow> Some (status, [], [])
      | Some collector \<Rightarrow> do {
          obj_name \<leftarrow> cstr data;
          Some (0, client_calls dclproc collector obj_name, [(co_boost_path collector, obj_name)]) }) }"

text \<open>\<open>attach_to_pipeline\<close>: the action that \<open>pipeline_process\<close> is called with, if it is called.\<close>

datatype pipeline_action = LastAction | FirstActionOf | MiddleAction

definition attach_to_pipeline ::
  "('l, 'r, 'u) dclprocessor option \<Rightarrow> 'u option \<Rightarrow> bool \<Rightarrow> ('l, 'r, 'u) dclprocessor option \<times> pipeline_action option" where
  "attach_to_pipeline p user_data_ptr work_with_object =
     (case p of
        None \<Rightarrow> (None, None)
      | Some dclproc \<Rightarrow>
          let dclproc = dclproc\<lparr>dp_user_data := user_data_ptr, dp_action := work_with_object\<rparr> in
          (Some dclproc,
           if dp_type dclproc = 0 then Some LastAction
           else if dp_type dclproc = 1 then (if dp_collector dclproc = None then None else Some FirstActionOf)
           else if dp_type dclproc = 2 then Some MiddleAction else None))"

subsection \<open>The end\<close>

text \<open>
  \<open>ended\<close>: the pipeline's thread has returned; \<open>col_ended\<close> and \<open>src_ended\<close>: those of the collector and of its sources. The pointer is
  NULL afterwards.
\<close>

definition dclprocessor_destroy ::
  "'l list_ops \<Rightarrow> bool \<Rightarrow> bool \<Rightarrow> (nat \<Rightarrow> bool) \<Rightarrow> ('l, 'r, 'u) dclprocessor option \<Rightarrow> shm_os \<Rightarrow> module_heap \<Rightarrow>
     (shm_os \<times> module_heap) call_result option" where
  "dclprocessor_destroy L ended col_ended src_ended p os h =
     (case p of
        None \<Rightarrow> Some (Returns (os, h))
      | Some dclproc \<Rightarrow> do {
          os1 \<leftarrow> (case dp_desc dclproc of
             None \<Rightarrow> Some os
           | Some desc \<Rightarrow>
               (case (if dd_use_shmem desc \<noteq> 0 then dd_shmpath desc else None) of
                  None \<Rightarrow> Some os
                | Some path \<Rightarrow> do { ob \<leftarrow> dp_shmem dclproc; shared_memory_destroy path (shm_objects os ob) os }));
          r \<leftarrow> (case dp_pipeline dclproc of
             None \<Rightarrow> Some (Returns (os1, h)) | Some pl \<Rightarrow> pipeline_destroy L ended pl os1 h);
          (case r of
             Hangs \<Rightarrow> Some Hangs
           | Returns s \<Rightarrow>
               (case dp_collector dclproc of
                  None \<Rightarrow> Some (Returns s)
                | Some c \<Rightarrow> map_option (\<lambda>r. case r of Hangs \<Rightarrow> Hangs | Returns fs \<Rightarrow> Returns s)
                    (collector_destroy col_ended src_ended c))) })"

subsection \<open>Library\<close>

lemma bytes_of_string_length [simp]: "length (bytes_of_string s) = length s"
  by (simp add: bytes_of_string_def)

lemma string_of_bytes_of_string [codec]: "string_of_bytes (bytes_of_string s) = s"
  by (induction s) (simp_all add: string_of_bytes_def bytes_of_string_def unsigned_of_nat take_bit_eq_mod)

lemma dclprocessor_map_extent:
  "map_fits (dclprocessor_map pdesc) \<Longrightarrow> segment_extent (dclprocessor_map pdesc) DescriptionSegment = 16384"
  by (simp add: description_size_fits) (simp add: dclprocessor_map_def Let_def memory_map_create_def part_size_def align_up_def
      size_of_int_def DESCRIPTOR_DATA_MAX_LEN_def)

lemma dclprocessor_map_proc_cnt [simp]: "dclprocessor_map (pdesc\<lparr>pd_proc_cnt := n\<rparr>) = dclprocessor_map pdesc"
  by (simp add: dclprocessor_map_def Let_def)

text \<open>The first write, of the length.\<close>

lemma write_length:
  assumes v: "valid_shm mp shm" and fit: "8 \<le> segment_extent mp DescriptionSegment"
  obtains shm1 where
    "shared_memory_write_descriptions_segment shm 0 (Some (le_bytes 8 (n :: u64))) 8 = Some (shm1, memory_get_description_offset mp)"
    "valid_shm mp shm1" "region_write shm (segment_start mp DescriptionSegment) (le_bytes 8 n) = Some shm1"
proof -
  have "le_bytes 8 n \<noteq> []" by (simp flip: length_greater_0_conv)
  then obtain shm1 where "shm_write DescriptionSegment shm 0 (Some (le_bytes 8 n)) (of_nat (length (le_bytes 8 n))) =
      Some (shm1, segment_offset mp DescriptionSegment + 0)" "valid_shm mp shm1"
      "region_write shm (segment_start mp DescriptionSegment + unat (0 :: u64)) (le_bytes 8 n) = Some shm1"
    using fit by (auto intro: shm_write_inside [OF v, of DescriptionSegment 0 "le_bytes 8 n"])
  then show ?thesis using that by simp
qed

text \<open>What is written is read, as long as it fits.\<close>

lemma write_full_json_inside:
  assumes v: "valid_shm mp shm" and t: "text_of buf = Some t" "t \<noteq> []"
    and fit: "8 + length t \<le> segment_extent mp DescriptionSegment"
  obtains shm' where "write_full_json buf shm = Some shm'" "valid_shm mp shm'"
    "\<And>(J :: 'j json_ops) mem junk tail. read_full_json J mem junk tail shm' =
       load_dclprocessor_description_from_buffer J mem (t @ tail) (of_nat (length t))"
proof -
  let ?n = "of_nat (length t) :: u64" and ?start = "segment_start mp DescriptionSegment" and ?tb = "bytes_of_string t"
  have f: "map_fits mp" using v by (simp add: valid_shm_def)
  have n: "unat ?n = length t" using unat_of_nat_length [OF f, of ?tb DescriptionSegment] fit by simp
  obtain shm1 where w1: "shared_memory_write_descriptions_segment shm 0 (Some (le_bytes 8 ?n)) 8 =
      Some (shm1, memory_get_description_offset mp)" "valid_shm mp shm1" "region_write shm ?start (le_bytes 8 ?n) = Some shm1"
    using write_length [OF v, of ?n] fit by auto
  have ne: "?tb \<noteq> []" using t(2) by (simp add: bytes_of_string_def)
  obtain shm2 where w2: "shm_write DescriptionSegment shm1 8 (Some ?tb) (of_nat (length ?tb)) =
      Some (shm2, segment_offset mp DescriptionSegment + 8)" "valid_shm mp shm2" "region_write shm1 (?start + 8) ?tb = Some shm2"
    using shm_write_inside [OF w1(2), of DescriptionSegment 8 ?tb] fit ne by auto
  have w: "write_full_json buf shm = Some shm2"
    using w1(1) w2(1) by (simp add: write_full_json_def t(1))
  have "region_read shm1 ?start 8 = Some (le_bytes 8 ?n)" using region_read_write_same [OF w1(3)] by simp
  then have r1: "region_read shm2 ?start 8 = Some (le_bytes 8 ?n)"
    using region_read_write_other [OF w2(3), of ?start 8] by simp
  have r2: "region_read shm2 (?start + 8) (length t) = Some ?tb" using region_read_write_same [OF w2(3)] by simp
  have "read_full_json J mem junk tail shm2 =
      load_dclprocessor_description_from_buffer J mem (t @ tail) (of_nat (length t))" for J :: "'j json_ops" and mem junk tail
  proof -
    have "shared_memory_read_descriptions_segment shm2 0 (Some (replicate 8 0)) 8 =
        Some (Some (le_bytes 8 ?n), memory_get_description_offset mp)"
      using shm_read_inside [OF w2(2), of DescriptionSegment 0 "replicate 8 0"] fit r1 by simp
    moreover have "shared_memory_read_descriptions_segment shm2 8 (Some (replicate (length t) junk)) ?n =
        Some (Some ?tb, memory_get_description_offset mp + 8)"
      using shm_read_inside [OF w2(2), of DescriptionSegment 8 "replicate (length t) junk"] fit r2 t(2) by simp
    ultimately show ?thesis
      using n by (simp add: read_full_json_def of_le_bytes_le_bytes string_of_bytes_of_string)
  qed
  then show ?thesis using that w w2(2) by blast
qed

lemma write_full_json_long:
  assumes v: "valid_shm mp shm" and t: "text_of buf = Some t" "length t < 2 ^ 64"
    and long: "segment_extent mp DescriptionSegment < 8 + length t" "8 \<le> segment_extent mp DescriptionSegment"
  shows "write_full_json buf shm = None"
proof -
  let ?n = "of_nat (length t) :: u64" and ?tb = "bytes_of_string t"
  have f: "map_fits mp" using v by (simp add: valid_shm_def)
  obtain shm1 where w1: "shared_memory_write_descriptions_segment shm 0 (Some (le_bytes 8 ?n)) 8 =
      Some (shm1, memory_get_description_offset mp)" "valid_shm mp shm1"
    using write_length [OF v long(2), of ?n] by auto
  have len: "length shm1 = segment_start mp DescriptionSegment + segment_extent mp DescriptionSegment" "map_of_bytes shm1 = Some mp"
    using w1(2) offsets_fit [OF f] by (simp_all add: valid_shm_def)
  have a: "unat (memory_get_description_offset mp + 8) = segment_start mp DescriptionSegment + 8"
    using segment_address [OF f, of 8 DescriptionSegment] long(2) by simp
  have n: "unat ?n = length t" "0 < ?n" using t(2) long by (auto simp: unat_of_nat_small word_less_nat_alt)
  have "copy_in shm1 (memory_get_description_offset mp + 8) (Some ?tb) ?n = None"
    using a n len(1) long(1) by (simp add: copy_in_def region_read_def region_write_def)
  then have "shared_memory_write_descriptions_segment shm1 8 (Some ?tb) ?n = None"
    by (simp add: shared_memory_write_descriptions_segment_def len(2))
  then show ?thesis using w1(1) by (simp add: write_full_json_def t(1))
qed

text \<open>The sizes of the common segment can be computed, and it can be mapped.\<close>

definition segment_possible :: "pipeline_description \<Rightarrow> bool" where
  "segment_possible pdesc \<longleftrightarrow> map_fits (dclprocessor_map pdesc) \<and> 0 \<le> sint (memory_get_size (dclprocessor_map pdesc))"

definition shared_description :: "dclprocessor_description \<Rightarrow> pipeline_description \<Rightarrow> string \<Rightarrow> dclprocessor_description" where
  "shared_description desc pdesc path =
     (let sz = memory_get_size (dclprocessor_map pdesc) in
      desc\<lparr>dd_shmsize := sz, dd_pipeline_desc := Some (pdesc\<lparr>pd_proc_cnt := pd_modules_cnt pdesc + 2, pd_shmpath := Some path,
        pd_shmsize := sz, pd_use_common_shmem := 1\<rparr>)\<rparr>)"

lemma create_common_shmem_result:
  assumes pd: "dd_pipeline_desc desc = Some pdesc" and ok: "segment_possible pdesc"
  obtains shm where "valid_shm (dclprocessor_map pdesc) shm" "memory_get_size (dclprocessor_map pdesc) \<noteq> 0"
    "create_common_shmem no_faults path desc os = do {
       shm' \<leftarrow> write_full_json (dd_full_json desc) shm;
       Some (Some (shm_next os), shared_description desc pdesc path,
         os\<lparr>shm_names := (shm_names os)(path := Some (shm_next os)), shm_next := Suc (shm_next os),
           environ := (environ os)(SHMEM_NAME_ENV \<mapsto> path, SHMEM_SIZE_ENV \<mapsto> print_zd (memory_get_size (dclprocessor_map pdesc))),
           shm_objects := (shm_objects os)(shm_next os := shm')\<rparr>) }"
proof -
  let ?mp = "dclprocessor_map pdesc" and ?os1 = "shared_memory_unlink path os"
  have free: "shm_names ?os1 path = None" by (simp add: shared_memory_unlink_def shm_unlink_def)
  obtain shm where s: "valid_shm ?mp shm" "memory_get_size ?mp \<noteq> 0"
    "shared_memory_server_init no_faults (Some path) (Some ?mp) ?os1 = Some (Some (shm_next ?os1),
       ?os1\<lparr>shm_names := (shm_names ?os1)(path := Some (shm_next ?os1)),
         shm_objects := (shm_objects ?os1)(shm_next ?os1 := shm), shm_next := Suc (shm_next ?os1)\<rparr>)"
    using server_init_fresh [OF _ _ free, of ?mp] ok by (auto simp: segment_possible_def)
  have sz: "shared_memory_get_size shm = Some (memory_get_size ?mp)"
    using s(1) by (simp add: shared_memory_get_size_def valid_shm_def)
  show ?thesis
    by (rule that [OF s(1,2)])
      (use pd s(3) sz setenv_ok [OF sz] in \<open>simp add: create_common_shmem_def Let_def shared_description_def
        shared_memory_unlink_def shm_unlink_def cong: option.case_cong\<close>)
qed

lemma set_all_pdesc: "set_all L md st pl h = Some (pl', h') \<Longrightarrow> pl_pdesc pl' = pl_pdesc pl"
  by (auto simp: set_all_def bind_eq_Some_conv)

lemma start_pipeline_common:
  assumes s: "start_pipeline L no_faults obs dp desc os h = Some (Returns (0, p, p_desc, os', h'))"
    and pd: "dd_pipeline_desc desc = Some pdesc" "pd_use_common_shmem pdesc \<noteq> 0" "pd_shmpath pdesc = Some path" "pd_shmsize pdesc \<noteq> 0"
    and ob: "shm_names os path = Some ob"
  shows "\<exists>pl. p = Some (dp\<lparr>dp_pipeline := Some pl\<rparr>) \<and> pl_pdesc pl = Some pdesc \<and> os' = os \<and> p_desc = Some desc"
proof -
  obtain rc p_pl os1 h1 where i: "pipeline_init L no_faults None (Some pdesc) os h = Some (rc, p_pl, os1, h1)"
    using s by (auto simp: start_pipeline_def pd(1) bind_eq_Some_conv)
  have os1: "os1 = os" "\<forall>pl. p_pl = Some pl \<longrightarrow> pl_pdesc pl = Some pdesc"
    using i client_init_ok [OF ob pd(4)]
    by (auto simp: pipeline_init_def pd(2,3) pipeline_init_modules_def Let_def bind_eq_Some_conv split: if_splits)
  have rc: "rc = 0" using s i by (auto simp: start_pipeline_def pd(1) split: if_splits)
  obtain pl r where r0: "p_pl = Some pl" "pipeline_start L obs pl h1 = Some r"
    using s i rc by (auto simp: start_pipeline_def pd(1) bind_eq_Some_conv)
  obtain pl1 h2 where r1: "r = Returns (pl1, h2)" using s i rc r0 by (cases r) (auto simp: start_pipeline_def pd(1))
  obtain pl2 h3 where r: "pipeline_start L obs pl h1 = Some (Returns (pl1, h2))" "pipeline_live L pl1 h2 = Some (pl2, h3)"
      "p = Some (dp\<lparr>dp_pipeline := Some pl2\<rparr>)" "p_desc = Some desc" "os' = os1" "p_pl = Some pl"
    using s i rc r0 r1 by (auto simp: start_pipeline_def pd(1) bind_eq_Some_conv)
  have "pl_pdesc pl1 = pl_pdesc pl" using r(1) by (auto simp: pipeline_start_def set_all_pdesc split: if_splits)
  moreover have "pl_pdesc pl2 = pl_pdesc pl1" using r(2) by (auto simp: pipeline_live_def set_all_pdesc split: if_splits)
  ultimately show ?thesis using os1 r by auto
qed

text \<open>A description for a common segment: its path, the pipeline and the text.\<close>

definition sharing :: "dclprocessor_description \<Rightarrow> pipeline_description \<Rightarrow> string \<Rightarrow> string \<Rightarrow> bool" where
  "sharing desc pdesc path t \<longleftrightarrow> dd_use_shmem desc \<noteq> 0 \<and> dd_shmpath desc = Some path \<and> dd_pipeline_desc desc = Some pdesc \<and>
     segment_possible pdesc \<and> text_of (dd_full_json desc) = Some t \<and> t \<noteq> [] \<and> length t < 2 ^ 64"

lemma init_long:
  assumes "sharing desc pdesc path t" "16384 < 8 + length t"
  shows "dclprocessor_init L no_faults True mem_desc obs (Some desc) os h = None"
proof -
  have d: "dd_use_shmem desc \<noteq> 0" "dd_shmpath desc = Some path" "dd_pipeline_desc desc = Some pdesc" "segment_possible pdesc"
      "text_of (dd_full_json desc) = Some t" "length t < 2 ^ 64"
    using assms(1) by (auto simp: sharing_def)
  obtain shm where c: "valid_shm (dclprocessor_map pdesc) shm" "create_common_shmem no_faults path desc os = do {
       shm' \<leftarrow> write_full_json (dd_full_json desc) shm;
       Some (Some (shm_next os), shared_description desc pdesc path,
         os\<lparr>shm_names := (shm_names os)(path := Some (shm_next os)), shm_next := Suc (shm_next os),
           environ := (environ os)(SHMEM_NAME_ENV \<mapsto> path, SHMEM_SIZE_ENV \<mapsto> print_zd (memory_get_size (dclprocessor_map pdesc))),
           shm_objects := (shm_objects os)(shm_next os := shm')\<rparr>) }"
    using create_common_shmem_result [OF d(3,4)] by metis
  have "write_full_json (dd_full_json desc) shm = None"
    by (rule write_full_json_long [OF c(1) d(5,6)])
      (use dclprocessor_map_extent d(4) assms(2) in \<open>simp_all add: segment_possible_def\<close>)
  then have "create_common_shmem no_faults path desc os = None" using c(2) by simp
  then show ?thesis using d(1,2) by (cases "out_dclprocessor_description desc") (simp_all add: dclprocessor_init_def Let_def)
qed

lemma init_shared:
  assumes sh: "sharing desc pdesc path t"
    and init: "dclprocessor_init L no_faults True mem_desc obs (Some desc) os h = Some (Returns (0, p, p_desc, os', h'))"
  obtains ob dp pl where "p = Some dp" "dp_desc dp = None" "dp_shmem dp = Some ob" "dp_collector dp = None" "dp_pipeline dp = Some pl"
    "pl_pdesc pl = dd_pipeline_desc (shared_description desc pdesc path)" "shm_names os' path = Some ob"
    "shared_memory_getenv None size0 os' = Some (0, Some path, memory_get_size (dclprocessor_map pdesc))"
    "memory_get_size (dclprocessor_map pdesc) \<noteq> 0"
    "\<And>(J :: 'j json_ops) mem junk tail. read_full_json J mem junk tail (shm_objects os' ob) =
       load_dclprocessor_description_from_buffer J mem (t @ tail) (of_nat (length t))"
proof -
  have d: "dd_use_shmem desc \<noteq> 0" "dd_shmpath desc = Some path" "dd_pipeline_desc desc = Some pdesc" "segment_possible pdesc"
      "text_of (dd_full_json desc) = Some t" "t \<noteq> []"
    using sh by (auto simp: sharing_def)
  let ?ob = "shm_next os" and ?sz = "memory_get_size (dclprocessor_map pdesc)"
  have fit: "8 + length t \<le> segment_extent (dclprocessor_map pdesc) DescriptionSegment"
  proof -
    have "\<not> 16384 < 8 + length t"
    proof
      assume "16384 < 8 + length t"
      from init_long [OF sh this] init show False by (metis option.distinct(1))
    qed
    then show ?thesis using dclprocessor_map_extent [of pdesc] d(4) by (simp add: segment_possible_def)
  qed
  obtain shm where c: "valid_shm (dclprocessor_map pdesc) shm" "?sz \<noteq> 0" "create_common_shmem no_faults path desc os = do {
       shm' \<leftarrow> write_full_json (dd_full_json desc) shm;
       Some (Some (shm_next os), shared_description desc pdesc path,
         os\<lparr>shm_names := (shm_names os)(path := Some (shm_next os)), shm_next := Suc (shm_next os),
           environ := (environ os)(SHMEM_NAME_ENV \<mapsto> path, SHMEM_SIZE_ENV \<mapsto> print_zd (memory_get_size (dclprocessor_map pdesc))),
           shm_objects := (shm_objects os)(shm_next os := shm')\<rparr>) }"
    using create_common_shmem_result [OF d(3,4)] by metis
  obtain shm' where w: "write_full_json (dd_full_json desc) shm = Some shm'"
    "\<And>(J :: 'j json_ops) mem junk tail. read_full_json J mem junk tail shm' =
       load_dclprocessor_description_from_buffer J mem (t @ tail) (of_nat (length t))"
    using write_full_json_inside [OF c(1) d(5,6) fit] by metis
  define os1 where "os1 = os\<lparr>shm_names := (shm_names os)(path := Some ?ob), shm_next := Suc ?ob,
      environ := (environ os)(SHMEM_NAME_ENV \<mapsto> path, SHMEM_SIZE_ENV \<mapsto> print_zd ?sz),
      shm_objects := (shm_objects os)(?ob := shm')\<rparr>"
  have cr: "create_common_shmem no_faults path desc os = Some (Some ?ob, shared_description desc pdesc path, os1)"
    using c(3) w(1) by (simp add: os1_def)
  have st: "start_pipeline L no_faults obs (new_dclprocessor\<lparr>dp_shmem := Some ?ob\<rparr>) (shared_description desc pdesc path) os1 h =
      Some (Returns (0, p, p_desc, os', h'))"
    using init d(1,2) cr by (auto simp: dclprocessor_init_def Let_def bind_eq_Some_conv)
  obtain pl where pl: "p = Some (new_dclprocessor\<lparr>dp_shmem := Some ?ob, dp_pipeline := Some pl\<rparr>)"
      "pl_pdesc pl = dd_pipeline_desc (shared_description desc pdesc path)" "os' = os1"
    using start_pipeline_common [OF st, where path = path and ob = ?ob] c(2)
    by (auto simp: shared_description_def Let_def os1_def)
  have objs: "shm_objects os' ?ob = shm'" by (simp add: pl(3) os1_def)
  show ?thesis
    by (rule that [OF pl(1) _ _ _ _ pl(2) _ _ c(2) w(2) [folded objs]])
      (use pl(3) in \<open>simp_all add: new_dclprocessor_def os1_def shared_memory_getenv_def SHMEM_NAME_ENV_def SHMEM_SIZE_ENV_def
        scan_zu_print_zd\<close>)
qed

text \<open>A module that is not the first one, after the text was read.\<close>

lemma get_other:
  assumes "ga_mem ans" "shared_memory_getenv None size0 os = Some (0, Some path, sz)" "shm_names os path = Some ob" "sz \<noteq> 0" "ty \<noteq> 1"
  shows "dclprocessor_get J no_faults ans junk tail size0 ty os = do {
     desc \<leftarrow> read_full_json J (ga_mem_desc ans) junk tail (shm_objects os ob);
     cdesc \<leftarrow> dd_collector_desc desc;
     c \<leftarrow> collector_create (ga_mem_collector ans) (ga_ring ans);
     c' \<leftarrow> collector_set_boost_shmem c (cd_use_boost_shmem cdesc) (cd_boost_path cdesc) (cd_boost_size cdesc);
     Some (Some (new_dclprocessor\<lparr>dp_type := ty, dp_desc := Some desc, dp_collector := Some c'\<rparr>), os) }"
  using assms client_init_ok [of os path ob sz] by (simp add: dclprocessor_get_def)

lemma pipeline_destroy_common:
  assumes "pipeline_destroy L ended pl os h = Some (Returns (os', h'))" "pl_pdesc pl = Some pdesc" "pd_use_common_shmem pdesc \<noteq> 0"
  shows "os' = os"
  using assms
  by (cases "list_walk L (pl_modules_list pl)") (auto simp: pipeline_destroy_def bind_eq_Some_conv split: if_splits)

lemma description_got:
  assumes J: "json_laws J" "load_dclprocessor_description J (ga_mem_desc ans) fname = Some desc"
      "construct_full_object J (json_from_file J fname) = Some sys"
      "json_tokener_parse J (json_to_string J sys) = Some sys" "NUL \<notin> set (json_to_string J sys)"
    and sh: "sharing desc pdesc path (json_to_string J sys)"
    and init: "dclprocessor_init L no_faults True mem_desc obs (Some desc) os h = Some (Returns (0, p, p_desc, os', h'))"
    and get: "ga_mem ans" "ga_mem_collector ans" "ty \<noteq> 1"
    and boost: "dd_collector_desc desc = Some cdesc" "length (cd_boost_path cdesc) < MAX_SHMEM_NAME_LEN"
  shows "\<exists>dp. dclprocessor_get J no_faults ans junk (NUL # rest) size0 ty os' = Some (Some dp, os') \<and>
    dp_desc dp = Some (desc\<lparr>dd_full_json := Chars (json_to_string J sys)\<rparr>) \<and> dp_type dp = ty"
proof -
  let ?t = "json_to_string J sys"
  have len: "length ?t < 2 ^ 64" using sh by (simp add: sharing_def)
  have size': "dd_full_json_size desc = of_nat (length ?t)"
    using load_dclprocessor_description_Some [OF J(1,2)] J(3) by (metis dclprocessor_description.select_convs(7)
        dclprocessor_description.surjective dclprocessor_description.update_convs(7) option.inject)
  obtain ob where o: "shm_names os' path = Some ob"
    "shared_memory_getenv None size0 os' = Some (0, Some path, memory_get_size (dclprocessor_map pdesc))"
    "memory_get_size (dclprocessor_map pdesc) \<noteq> 0"
    "read_full_json J (ga_mem_desc ans) junk (NUL # rest) (shm_objects os' ob) =
       load_dclprocessor_description_from_buffer J (ga_mem_desc ans) (?t @ NUL # rest) (of_nat (length ?t))"
    using init_shared [OF sh init] by metis
  have "load_dclprocessor_description_from_buffer J (ga_mem_desc ans) (?t @ NUL # rest) (of_nat (length ?t)) =
      Some (desc\<lparr>dd_full_json := Chars ?t\<rparr>)"
    using full_json_reloaded [OF J(1-5) len, of rest] by (simp add: size')
  then show ?thesis
    using boost get(2) o(4)
    by (simp add: get_other [OF get(1) o(2,1,3) get(3)] collector_create_def collector_set_boost_shmem_def strcpy_buf_def)
qed

text \<open>A middle module and one object.\<close>

lemma middle_serves:
  assumes "dclprocessor_get J flt ans junk tail size0 2 os = Some (Some dp, os')" "NUL \<notin> set name"
  shows "\<exists>dp' desc cdesc. attach_to_pipeline (Some dp) u True = (Some dp', Some MiddleAction) \<and>
    dp_desc dp = Some desc \<and> dd_collector_desc desc = Some cdesc \<and>
    middle_action (Some dp') (name @ NUL # rest) status = Some (if name = [] then (1, [], [])
      else (0, [(if cd_use_boost_shmem cdesc \<noteq> 0 then cd_boost_path cdesc else [], name)], []))"
proof -
  obtain desc cdesc c c' where g: "dd_collector_desc desc = Some cdesc" "collector_create (ga_mem_collector ans) (ga_ring ans) = Some c"
    "collector_set_boost_shmem c (cd_use_boost_shmem cdesc) (cd_boost_path cdesc) (cd_boost_size cdesc) = Some c'"
    "dp = new_dclprocessor\<lparr>dp_type := 2, dp_desc := Some desc, dp_collector := Some c'\<rparr>"
    using assms(1) by (auto simp: dclprocessor_get_def bind_eq_Some_conv split: if_splits option.splits)
  have "co_boost_path c' = (if cd_use_boost_shmem cdesc \<noteq> 0 then cd_boost_path cdesc else [])"
    using g(2,3) by (auto simp: collector_create_def collector_set_boost_shmem_def strcpy_buf_def bind_eq_Some_conv split: if_splits)
  then show ?thesis
    using g(1,4) by (simp add: attach_to_pipeline_def Let_def middle_action_def client_calls_def cstr_terminated [OF assms(2)] new_dclprocessor_def)
qed

text \<open>A system to apply the properties to: a pipeline without modules on the common segment \<open>/dcl\<close>.\<close>

definition running_files :: "string \<Rightarrow> json option" where
  "running_files f =
     (if f = ''system'' then Some (JObject [(''dclprocessor'', Some (JObject [(''use_shmem'', Some (JNum 1)),
        (''shmem_segment_name'', Some (JText ''/dcl'')),
        (''pipeline'', Some (JObject [(''data_chunk_count'', Some (JNum 4))]))]))])
      else None)"

definition running_library :: "json json_ops" where
  "running_library = (json_instance running_files)\<lparr>json_to_string := (\<lambda>_. ''{}''),
     json_tokener_parse := (\<lambda>_. construct_full_object (json_instance running_files) (running_files ''system''))\<rparr>"

definition running_pipeline :: pipeline_description where
  "running_pipeline = pipeline_description_create\<lparr>pd_data_cnt := 4\<rparr>"

definition running_desc :: dclprocessor_description where
  "running_desc = \<lparr>dd_use_shmem = 1, dd_shmpath = Some ''/dcl'', dd_shmsize = 0, dd_pipeline_desc = Some running_pipeline,
     dd_collector_desc = Some collector_description_create, dd_full_json = Chars (''{}'' @ [NUL]), dd_full_json_size = 2\<rparr>"

lemma running_library_laws: "json_laws running_library"
  using json_instance_laws [of running_files] by (simp add: json_laws_def running_library_def)

lemma running_system:
  "construct_full_object running_library (json_from_file running_library ''system'') =
     construct_full_object (json_instance running_files) (running_files ''system'')"
  "\<exists>sys. construct_full_object (json_instance running_files) (running_files ''system'') = Some sys"
  by (simp_all add: running_library_def construct_full_object_def embed_part_def find_in_json_def get_part_defs
      get_dclprocessor_json_def json_instance_def running_files_def)

lemma running_loaded: "load_dclprocessor_description running_library True ''system'' = Some running_desc"
  using running_system
  by (auto simp: load_dclprocessor_description_def load_object_json_def parse_dclprocessor_json_def
      dclprocessor_description_create_def parse_pipeline_json_def parse_collector_json_def parse_boost_def
      get_part_defs get_dclprocessor_json_def write_object_to_buffer_def Let_def)
    (simp_all add: running_library_def json_instance_def running_files_def parse_modules_json_def parse_sources_json_def
      pipeline_description_create_def collector_description_create_def running_desc_def running_pipeline_def)

lemma running_map: "dclprocessor_map running_pipeline = memory_map_create 2 2208 4 0 1 16384"
  by (simp add: dclprocessor_map_def running_pipeline_def pipeline_description_create_def int_of_size_def size_of_int_def
      pipeline_get_procinfo_size_def PROCESS_INFO_SIZE_def DESCRIPTOR_DATA_MAX_LEN_def)

lemma running_size: "memory_get_size (memory_map_create 2 2208 4 0 1 16384) = 21248"
  by (simp add: memory_get_size_def memory_map_create_def MEMORY_MAP_SIZE_value MEMORY_ALIGN_def size_of_int_def)

lemma running_possible: "segment_possible running_pipeline"
proof -
  have "map_fits (memory_map_create 2 2208 4 0 1 16384)"
    by (simp add: map_fits_def memory_map_create_def part_size_def)
  then show ?thesis by (simp add: segment_possible_def running_map running_size)
qed

lemma sharing_text:
  "NUL \<notin> set t \<Longrightarrow> t \<noteq> [] \<Longrightarrow> length t < 2 ^ 64 \<Longrightarrow>
     sharing (running_desc\<lparr>dd_full_json := Chars (t @ [NUL])\<rparr>) running_pipeline ''/dcl'' t"
  using running_possible by (simp add: sharing_def running_desc_def text_of_def cstr_terminated)

lemma running_sharing: "sharing running_desc running_pipeline ''/dcl'' ''{}''"
  using sharing_text [of "''{}''"] by (simp add: running_desc_def NUL_def)

definition running_pl :: "addr list pipeline" where
  "running_pl = (zero_pipeline list_instance)\<lparr>pl_need_to_free := 1,
     pl_pdesc := dd_pipeline_desc (shared_description running_desc running_pipeline ''/dcl''), pl_state := PL_STATE_LIVE,
     pl_proc_cnt := 4, pl_data_cnt := 4, pl_data_size := 0, pl_shmpath := Some ''/dcl'', pl_shmem := Some 0\<rparr>"

definition running_shared :: dclprocessor_description where
  "running_shared = shared_description running_desc running_pipeline ''/dcl''"

definition running_processor :: "(addr list, 'r, 'u) dclprocessor" where
  "running_processor = new_dclprocessor\<lparr>dp_shmem := Some 0, dp_pipeline := Some running_pl\<rparr>"

lemma running_collector:
  "dd_collector_desc running_desc = Some collector_description_create" "cd_boost_path collector_description_create = []"
  by (simp_all add: running_desc_def collector_description_create_def)

lemma running_init:
  "\<exists>os'. dclprocessor_init list_instance no_faults True True [PL_STATE_INIT] (Some running_desc) no_shm empty_heap =
     Some (Returns (0, Some (running_processor :: (addr list, 'r, 'u) dclprocessor), Some running_shared, os', empty_heap))"
proof -
  let ?mp = "dclprocessor_map running_pipeline" and ?d = "shared_description running_desc running_pipeline ''/dcl''"
  have d: "dd_pipeline_desc running_desc = Some running_pipeline" "text_of (dd_full_json running_desc) = Some ''{}''"
    using running_sharing by (simp_all add: sharing_def)
  obtain shm where c: "valid_shm ?mp shm" "memory_get_size ?mp \<noteq> 0"
    "create_common_shmem no_faults ''/dcl'' running_desc no_shm = do {
       shm' \<leftarrow> write_full_json (dd_full_json running_desc) shm;
       Some (Some (shm_next no_shm), ?d,
         no_shm\<lparr>shm_names := (shm_names no_shm)(''/dcl'' := Some (shm_next no_shm)), shm_next := Suc (shm_next no_shm),
           environ := (environ no_shm)(SHMEM_NAME_ENV \<mapsto> ''/dcl'', SHMEM_SIZE_ENV \<mapsto> print_zd (memory_get_size ?mp)),
           shm_objects := (shm_objects no_shm)(shm_next no_shm := shm')\<rparr>) }"
    using create_common_shmem_result [OF d(1) running_possible] by metis
  have "8 + length ''{}'' \<le> segment_extent ?mp DescriptionSegment"
    using dclprocessor_map_extent running_possible by (simp add: segment_possible_def)
  then obtain shm' where w: "write_full_json (dd_full_json running_desc) shm = Some shm'"
    using write_full_json_inside [OF c(1) d(2)] by (metis list.distinct(1))
  obtain os1 where os1: "create_common_shmem no_faults ''/dcl'' running_desc no_shm = Some (Some 0, ?d, os1)"
    "shm_names os1 ''/dcl'' = Some 0"
    using c(3) w by (simp add: no_shm_def)
  have "out_dclprocessor_description running_desc = Some ()"
    by (simp add: out_dclprocessor_description_def running_desc_def running_pipeline_def pipeline_description_create_def
        collector_description_create_def readable_def)
  moreover have "start_pipeline list_instance no_faults [PL_STATE_INIT] (new_dclprocessor\<lparr>dp_shmem := Some 0\<rparr>) ?d os1 empty_heap =
      Some (Returns (0, Some (running_processor :: (addr list, 'r, 'u) dclprocessor), Some ?d, os1, empty_heap))"
    using client_init_ok [OF os1(2) c(2)]
    by (simp add: start_pipeline_def shared_description_def Let_def pipeline_init_def pipeline_init_modules_def running_pipeline_def
        pipeline_description_create_def pipeline_modules_update_def list_instance_def zero_pipeline_def pipeline_start_def
        pipeline_live_def set_all_def pipeline_modules_set_state_def running_pl_def running_processor_def
        int_of_size_def pl_state_defs)
  moreover have "dd_use_shmem running_desc = 1" "dd_shmpath running_desc = Some ''/dcl''" by (simp_all add: running_desc_def)
  ultimately show ?thesis using os1 by (simp add: dclprocessor_init_def Let_def running_shared_def)
qed

definition module_answers :: "unit get_answers" where
  "module_answers = \<lparr>ga_mem = True, ga_mem_desc = True, ga_mem_collector = True, ga_junk = (\<lambda>_. []), ga_fresh = blank_source,
     ga_sources = sample_answers, ga_sem_data = True, ga_sem_empty = True, ga_ring = ()\<rparr>"

lemma running_get:
  "\<exists>os' (dp :: (addr list, unit, unit) dclprocessor).
     dclprocessor_get running_library no_faults module_answers 0 [NUL] 0 2 os' = Some (Some dp, os') \<and>
     dp_desc dp = Some (running_desc\<lparr>dd_full_json := Chars ''{}''\<rparr>)"
proof -
  obtain os' where i: "dclprocessor_init list_instance no_faults True True [PL_STATE_INIT] (Some running_desc) no_shm empty_heap =
      Some (Returns (0, Some (running_processor :: (addr list, unit, unit) dclprocessor), Some running_shared, os', empty_heap))"
    using running_init by blast
  obtain sys where s: "construct_full_object running_library (json_from_file running_library ''system'') = Some sys"
    "construct_full_object (json_instance running_files) (running_files ''system'') = Some sys"
    using running_system by auto
  have t: "json_to_string running_library sys = ''{}''" "json_tokener_parse running_library ''{}'' = Some sys"
    by (simp_all add: running_library_def s(2))
  have l: "load_dclprocessor_description running_library (ga_mem_desc module_answers) ''system'' = Some running_desc"
    using running_loaded by (simp add: module_answers_def)
  have "\<exists>dp :: (addr list, unit, unit) dclprocessor.
      dclprocessor_get running_library no_faults module_answers 0 (NUL # []) 0 2 os' = Some (Some dp, os') \<and>
      dp_desc dp = Some (running_desc\<lparr>dd_full_json := Chars (json_to_string running_library sys)\<rparr>) \<and> dp_type dp = 2"
    by (rule description_got [OF running_library_laws l s(1) _ _ _ i, where pdesc = running_pipeline and path = "''/dcl''"
        and cdesc = collector_description_create])
      (simp_all add: t NUL_def running_sharing module_answers_def running_collector MAX_SHMEM_NAME_LEN_def)
  then show ?thesis unfolding t by blast
qed

subsection \<open>Properties\<close>



text \<open>By the standard the module's buffer is followed by nothing: it has exactly as many bytes as the text has characters, so parsing
  it as a string reads behind its end, for every description the server wrote.\<close>

theorem module_reads_behind_buffer:
  assumes "sharing desc pdesc path t"
    and "dclprocessor_init L no_faults True mem_desc obs (Some desc) os h = Some (Returns (0, p, p_desc, os', h'))"
    and "ga_mem ans"
  shows "dclprocessor_get J no_faults ans junk [] size0 ty os' = None"
proof -
  obtain ob where o: "shm_names os' path = Some ob"
    "shared_memory_getenv None size0 os' = Some (0, Some path, memory_get_size (dclprocessor_map pdesc))"
    "memory_get_size (dclprocessor_map pdesc) \<noteq> 0"
    "read_full_json J (ga_mem_desc ans) junk [] (shm_objects os' ob) =
       load_dclprocessor_description_from_buffer J (ga_mem_desc ans) (t @ []) (of_nat (length t))"
    using init_shared [OF assms(1,2)] by metis
  obtain cs where "dd_full_json desc = Chars cs" "cstr cs = Some t"
    using assms(1) by (auto simp: sharing_def text_of_def split: char_buffer.splits)
  then have "cstr t = None" using cstr_no_NUL by (auto simp: cstr_def [of t])
  then have "read_full_json J (ga_mem_desc ans) junk [] (shm_objects os' ob) = None"
    using o(4) by (simp add: load_dclprocessor_description_from_buffer_def read_object_from_buffer_def)
  then show ?thesis
    using assms(3) o client_init_ok [OF o(1,3)] by (simp add: dclprocessor_get_def)
qed

theorem module_reads_behind_buffer_witness:
  "\<exists>os' :: shm_os. shm_names os' ''/dcl'' \<noteq> None \<and>
     dclprocessor_get running_library no_faults module_answers 0 [] 0 2 os' = (None :: ((addr list, unit, unit) dclprocessor option \<times> shm_os) option)"
proof -
  obtain os' where i: "dclprocessor_init list_instance no_faults True True [PL_STATE_INIT] (Some running_desc) no_shm empty_heap =
      Some (Returns (0, Some (running_processor :: (addr list, unit, unit) dclprocessor), Some running_shared, os', empty_heap))"
    using running_init by blast
  have "shm_names os' ''/dcl'' \<noteq> None" by (rule init_shared [OF running_sharing i]) simp
  moreover have "dclprocessor_get running_library no_faults module_answers 0 [] 0 2 os' = (None :: ((addr list, unit, unit) dclprocessor option \<times> shm_os) option)"
    by (rule module_reads_behind_buffer [OF running_sharing i]) (simp add: module_answers_def)
  ultimately show ?thesis by blast
qed

text \<open>A description longer than its zone is written behind the end of the segment: with 8 bytes for the length, a text of more than
  16376 characters makes \<open>dclprocessor_init\<close> undefined.\<close>

theorem long_description_undefined:
  assumes "sharing desc pdesc path t" "16384 < 8 + length t"
  shows "dclprocessor_init L no_faults True mem_desc obs (Some desc) os h = None"
  using assms by (rule init_long)

theorem long_description_undefined_witness:
  "dclprocessor_init list_instance no_faults True True [PL_STATE_INIT]
     (Some (running_desc\<lparr>dd_full_json := Chars (replicate 16377 CHR ''a'' @ [NUL])\<rparr>)) no_shm empty_heap =
     (None :: (addr list, unit, unit) init_result call_result option)"
  by (rule long_description_undefined [OF sharing_text]) (simp_all add: NUL_def)

text \<open>The common segment outlives the processor: only a description that \<open>dclprocessor_init\<close> made itself is remembered in the
  processor, so for the server's description \<open>dclprocessor_destroy\<close> never gives the segment back.\<close>

theorem segment_outlives_processor:
  assumes "sharing desc pdesc path t"
    and "dclprocessor_init L no_faults True mem_desc obs (Some desc) os h = Some (Returns (0, p, p_desc, os', h'))"
    and "dclprocessor_destroy L ended col_ended src_ended p os' h' = Some (Returns (os2, h2))"
  shows "shm_names os2 path \<noteq> None \<and> os2 = os'"
proof -
  obtain ob dp pl where i: "p = Some dp" "dp_desc dp = None" "dp_collector dp = None" "dp_pipeline dp = Some pl"
    "pl_pdesc pl = dd_pipeline_desc (shared_description desc pdesc path)" "shm_names os' path = Some ob"
    using init_shared [OF assms(1,2)] by metis
  have "pipeline_destroy L ended pl os' h' = Some (Returns (os2, h2))"
    using assms(3) i
    by (cases "pipeline_destroy L ended pl os' h'")
      (auto simp: dclprocessor_destroy_def split: call_result.split_asm prod.split_asm)
  moreover obtain pd where "pl_pdesc pl = Some pd" "pd_use_common_shmem pd \<noteq> 0"
    using i(5) by (auto simp: shared_description_def Let_def)
  ultimately have "os2 = os'" by (rule pipeline_destroy_common)
  then show ?thesis using i(6) by simp
qed

theorem segment_outlives_processor_witness:
  "\<exists>os'. dclprocessor_destroy list_instance True True (\<lambda>_. True) (Some (running_processor :: (addr list, unit, unit) dclprocessor)) os' empty_heap =
     Some (Returns (os', empty_heap)) \<and> shm_names os' ''/dcl'' \<noteq> None"
proof -
  obtain os' where i: "dclprocessor_init list_instance no_faults True True [PL_STATE_INIT] (Some running_desc) no_shm empty_heap =
      Some (Returns (0, Some (running_processor :: (addr list, unit, unit) dclprocessor), Some running_shared, os', empty_heap))"
    using running_init by blast
  have d: "dclprocessor_destroy list_instance True True (\<lambda>_. True) (Some (running_processor :: (addr list, unit, unit) dclprocessor)) os' empty_heap =
      Some (Returns (os', empty_heap))"
    by (simp add: dclprocessor_destroy_def running_processor_def new_dclprocessor_def pipeline_destroy_def running_pl_def
        shared_description_def Let_def zero_pipeline_def set_all_def pipeline_modules_set_state_def list_instance_def empty_heap_def)
  show ?thesis using segment_outlives_processor [OF running_sharing i d] d by blast
qed

text \<open>A middle module serves its objects: after \<open>dclprocessor_get\<close> and \<open>attach_to_pipeline\<close> the action passes every object with a name
  to the callback, with the boost segment of the description, and reports success; without a name it reports 1.\<close>

theorem middle_module_serves:
  assumes "dclprocessor_get J flt ans junk tail size0 2 os = Some (Some dp, os')" "NUL \<notin> set name"
  shows "\<exists>dp' desc cdesc. attach_to_pipeline (Some dp) u True = (Some dp', Some MiddleAction) \<and>
    dp_desc dp = Some desc \<and> dd_collector_desc desc = Some cdesc \<and>
    middle_action (Some dp') (name @ NUL # rest) status = Some (if name = [] then (1, [], [])
      else (0, [(if cd_use_boost_shmem cdesc \<noteq> 0 then cd_boost_path cdesc else [], name)], []))"
  by (rule middle_serves [OF assms])

theorem middle_module_serves_witness:
  "\<exists>os' dp dp' :: (addr list, unit, unit) dclprocessor.
     dclprocessor_get running_library no_faults module_answers 0 [NUL] 0 2 os' = Some (Some dp, os') \<and>
     attach_to_pipeline (Some dp) None True = (Some dp', Some MiddleAction) \<and>
     middle_action (Some dp') (''object'' @ NUL # []) 5 = Some (0, [([], ''object'')], [])"
proof -
  obtain os' and dp :: "(addr list, unit, unit) dclprocessor" where
    g: "dclprocessor_get running_library no_faults module_answers 0 [NUL] 0 2 os' = Some (Some dp, os')"
      "dp_desc dp = Some (running_desc\<lparr>dd_full_json := Chars ''{}''\<rparr>)"
    using running_get by blast
  then show ?thesis
    using middle_module_serves [OF g(1), of "''object''" None "[]" 5] 
    by (auto simp: NUL_def running_desc_def collector_description_create_def)
qed

text \<open>Without a description the processor cannot be initialised: the description that is made then has no collector, and printing
  it reads the collector's fields.\<close>

theorem default_description_undefined: "dclprocessor_init L flt True True obs None os h = None"
  by (simp add: dclprocessor_init_def Let_def dclprocessor_description_create_def out_dclprocessor_description_def)

end
