(* ===== verification/SignalThread.thy ===== *)
theory SignalThread imports ProcessMngr begin

section \<open>The life of the signal thread\<close>

text \<open>
  The creation, the cancellation and the steps of the thread of \<^verbatim>\<open>process/src/signal_reaction.c\<close>; what it does with a signal is
  in \<^verbatim>\<open>ProcessMngr\<close>. Cancellation is deferred: a request is kept until the thread, with cancellation enabled, comes to
  \<open>sigwaitinfo\<close>. A thread inherits the signal mask of its creator, and waiting for a signal that is not blocked is undefined.
\<close>

subsection \<open>Steps\<close>

datatype signal_pc = SigStarting | SigEnabling | SigWaiting | SigHandling "int option" | SigEnded

record signals =
  sg_setup :: signal_setup
  sg_thread :: "signal_pc option"
  sg_inherited :: "int list"
  sg_cancel :: bool
  sg_flag :: int
  sg_children :: children

text \<open>\<open>None\<close>: the program ends because the thread cannot be created.\<close>

definition signal_thread_init :: "bool \<Rightarrow> signals \<Rightarrow> signals option" where
  "signal_thread_init create_ok s =
     (if create_ok then Some (s\<lparr>sg_thread := Some SigStarting, sg_inherited := blocked (sg_setup s), sg_cancel := False\<rparr>) else None)"

text \<open>One step of the thread; \<open>sg\<close> is what \<open>sigwaitinfo\<close> answers if the step is its call.\<close>

definition signal_step :: "int option \<Rightarrow> signals \<Rightarrow> signals outcome" where
  "signal_step sg s =
     (case sg_thread s of
        None \<Rightarrow> Blocked
      | Some SigStarting \<Rightarrow> Step (s\<lparr>sg_thread := Some SigEnabling\<rparr>)
      | Some SigEnabling \<Rightarrow> Step (s\<lparr>sg_thread := Some SigWaiting\<rparr>)
      | Some SigWaiting \<Rightarrow>
          if sg_cancel s then Step (s\<lparr>sg_thread := Some SigEnded\<rparr>)
          else if \<not> set watched_signals \<subseteq> set (sg_inherited s) then Crash
          else Step (s\<lparr>sg_thread := Some (SigHandling sg)\<rparr>)
      | Some (SigHandling sg') \<Rightarrow> (case signal_thread_round sg' (sg_flag s, sg_children s) of (f, cs) \<Rightarrow>
          Step (s\<lparr>sg_flag := f, sg_children := cs, sg_thread := Some SigEnabling\<rparr>))
      | Some SigEnded \<Rightarrow> Blocked)"

text \<open>\<open>signal_thread_destroy\<close>: the request, undefined without a thread, and the join, after which there is none.\<close>

definition signal_cancel :: "signals \<Rightarrow> signals option" where
  "signal_cancel s = (if sg_thread s = None then None else Some (s\<lparr>sg_cancel := True\<rparr>))"

definition signal_join :: "signals \<Rightarrow> signals call_result" where
  "signal_join s = (if sg_thread s = Some SigEnded then Returns (s\<lparr>sg_thread := None\<rparr>) else Hangs)"

text \<open>The thread alone, one answer for each of its steps.\<close>

fun signal_steps :: "int option list \<Rightarrow> signals \<Rightarrow> signals outcome" where
  "signal_steps [] s = Step s"
| "signal_steps (sg # sgs) s = (case signal_step sg s of Step s' \<Rightarrow> signal_steps sgs s' | Blocked \<Rightarrow> Step s | Crash \<Rightarrow> Crash)"

definition signal_thread_destroy :: "int option list \<Rightarrow> signals \<Rightarrow> signals call_result outcome" where
  "signal_thread_destroy sgs s =
     (case signal_cancel s of
        None \<Rightarrow> Crash
      | Some s \<Rightarrow> (case signal_steps sgs s of Crash \<Rightarrow> Crash | Blocked \<Rightarrow> Blocked | Step s' \<Rightarrow> Step (signal_join s')))"

text \<open>The states from \<open>s0\<close> on, with the answers of \<open>sigwaitinfo\<close> that the thread has taken.\<close>

inductive signal_reach :: "signals \<Rightarrow> int option list \<Rightarrow> signals \<Rightarrow> bool" for s0 where
  sig_start: "signal_reach s0 [] s0"
| sig_step: "signal_reach s0 sgs s \<Longrightarrow> signal_step sg s = Step s' \<Longrightarrow>
     signal_reach s0 (if sg_thread s = Some SigWaiting \<and> \<not> sg_cancel s then sgs @ [sg] else sgs) s'"
| sig_cancel: "signal_reach s0 sgs s \<Longrightarrow> signal_cancel s = Some s' \<Longrightarrow> signal_reach s0 sgs s'"

subsection \<open>Library\<close>

text \<open>The signals that have been handled: all that were taken but the one in hand.\<close>

definition signals_handled :: "int \<times> children \<Rightarrow> int option list \<Rightarrow> signals \<Rightarrow> bool" where
  "signals_handled st sgs s \<longleftrightarrow>
     (case sg_thread s of
        Some (SigHandling sg) \<Rightarrow> \<exists>before. sgs = before @ [sg] \<and> (sg_flag s, sg_children s) = signal_thread before st
      | _ \<Rightarrow> (sg_flag s, sg_children s) = signal_thread sgs st)"

lemma signal_thread_append: "signal_thread (a @ b) st = signal_thread b (signal_thread a st)"
  by (simp add: signal_thread_def)

lemma signals_handled_reach:
  assumes "signal_reach s0 sgs s" "sg_thread s0 = Some SigStarting"
  shows "signals_handled (sg_flag s0, sg_children s0) sgs s \<and> sg_inherited s = sg_inherited s0 \<and> sg_thread s \<noteq> None"
  using assms(1)
proof induction
  case sig_start
  then show ?case using assms(2) by (simp add: signals_handled_def)
next
  case (sig_step sgs s sg s')
  show ?case
  proof (cases "sg_thread s")
    case (Some pc)
    show ?thesis
    proof (cases pc)
      case (SigHandling sg')
      then obtain before where b: "sgs = before @ [sg']" "(sg_flag s, sg_children s) = signal_thread before (sg_flag s0, sg_children s0)"
        using sig_step.IH Some by (auto simp: signals_handled_def)
      then show ?thesis using sig_step.hyps(2) sig_step.IH Some SigHandling
        by (auto simp: signal_step_def signals_handled_def signal_thread_append split: prod.splits)
    qed (use Some sig_step in \<open>auto simp: signal_step_def signals_handled_def split: if_splits\<close>)
  qed (use sig_step in auto)
next
  case (sig_cancel sgs s s')
  then show ?case
    by (auto simp: signal_cancel_def signals_handled_def split: if_splits option.splits signal_pc.splits)
qed

text \<open>After the request the thread finishes what it has in hand and ends.\<close>

lemma cancelled_ends:
  assumes "sg_cancel s" "sg_thread s \<noteq> None" "signals_handled st sgs s"
  shows "\<exists>s'. signal_steps (a # b # c # rest) s = Step s' \<and> sg_thread s' = Some SigEnded \<and>
     (sg_flag s', sg_children s') = signal_thread sgs st"
proof -
  have ended: "sg_thread s' = Some SigEnded \<Longrightarrow> signal_steps sgs s' = Step s'" for sgs s'
    by (cases sgs) (simp_all add: signal_step_def)
  obtain pc where pc: "sg_thread s = Some pc" using assms(2) by auto
  show ?thesis
  proof (cases pc)
    case (SigHandling sg)
    obtain f cs where r: "signal_thread_round sg (sg_flag s, sg_children s) = (f, cs)" by force
    have "signal_thread sgs st = (f, cs)"
      using assms(3) pc SigHandling r by (auto simp: signals_handled_def signal_thread_append)
    then show ?thesis using assms(1) pc SigHandling r ended by (simp add: signal_step_def)
  qed (use assms pc ended in \<open>auto simp: signal_step_def signals_handled_def\<close>)
qed

lemma waiting_reached:
  assumes "sg_thread s0 = Some SigStarting" "\<not> sg_cancel s0"
  shows "\<exists>sgs s. signal_reach s0 sgs s \<and> sg_thread s = Some SigWaiting \<and> \<not> sg_cancel s"
proof -
  let ?s1 = "s0\<lparr>sg_thread := Some SigEnabling\<rparr>" and ?s2 = "s0\<lparr>sg_thread := Some SigWaiting\<rparr>"
  have "signal_step None s0 = Step ?s1" "signal_step None ?s1 = Step ?s2" using assms by (simp_all add: signal_step_def)
  from sig_step [OF sig_start this(1)] this(2) have "signal_reach s0 [] ?s2"
    using sig_step [of s0 "[]" ?s1 None ?s2] assms(1) by simp
  then show ?thesis using assms(2) by (intro exI [of _ "[]"] exI [of _ ?s2]) simp
qed

subsection \<open>Properties\<close>

text \<open>C22: The destruction ends, and no signal is half handled: wherever the thread is when it is asked to end, the join returns after at
  most three steps, whatever signals arrive, and the flag and the children are as the complete handling of all
  signals taken leaves them.\<close>

theorem signal_destroy_completes:
  assumes "signal_thread_init True s = Some s0" "signal_reach s0 sgs s1" "3 \<le> length answers"
  shows "\<exists>s'. signal_thread_destroy answers s1 = Step (Returns s') \<and> sg_thread s' = None \<and>
     (sg_flag s', sg_children s') = signal_thread sgs (sg_flag s, sg_children s)"
proof -
  have s0: "sg_thread s0 = Some SigStarting" "sg_flag s0 = sg_flag s" "sg_children s0 = sg_children s"
    using assms(1) by (auto simp: signal_thread_init_def)
  obtain a b c rest where as: "answers = a # b # c # rest"
    using assms(3) by (metis (no_types, lifting) Suc_le_length_iff numeral_3_eq_3)
  let ?s = "s1\<lparr>sg_cancel := True\<rparr>"
  note i = signals_handled_reach [OF assms(2) s0(1)]
  have c: "signal_cancel s1 = Some ?s" using i by (simp add: signal_cancel_def)
  have h: "signals_handled (sg_flag s, sg_children s) sgs ?s"
    using signals_handled_reach [OF signal_reach.sig_cancel [OF assms(2) c] s0(1)] by (simp add: s0)
  have n: "sg_cancel ?s" "sg_thread ?s \<noteq> None" using i by auto
  obtain s' where "signal_steps (a # b # c # rest) ?s = Step s'" "sg_thread s' = Some SigEnded"
      "(sg_flag s', sg_children s') = signal_thread sgs (sg_flag s, sg_children s)"
    using cancelled_ends [OF n h, of a b c rest] by blast
  then show ?thesis by (auto simp: signal_thread_destroy_def c as signal_join_def simp del: signal_steps.simps)
qed

text \<open>The order of the two set-up calls matters: exactly when the three signals were blocked before the thread was created its
  waits are always defined; created first, as the tests of the repository do, it waits for signals it does not block.\<close>

theorem signal_wait_undefined_iff:
  assumes "signal_thread_init True s = Some s0"
  shows "(\<exists>sgs s1 sg. signal_reach s0 sgs s1 \<and> signal_step sg s1 = Crash) \<longleftrightarrow>
     \<not> set watched_signals \<subseteq> set (blocked (sg_setup s))"
proof -
  have s0: "sg_thread s0 = Some SigStarting" "sg_inherited s0 = blocked (sg_setup s)" "\<not> sg_cancel s0"
    using assms by (auto simp: signal_thread_init_def)
  show ?thesis
  proof
    assume "\<exists>sgs s1 sg. signal_reach s0 sgs s1 \<and> signal_step sg s1 = Crash"
    then obtain sgs s1 sg where r: "signal_reach s0 sgs s1" "signal_step sg s1 = Crash" by blast
    then have "\<not> set watched_signals \<subseteq> set (sg_inherited s1)"
      by (auto simp: signal_step_def split: option.splits signal_pc.splits if_splits prod.splits)
    then show "\<not> set watched_signals \<subseteq> set (blocked (sg_setup s))" using signals_handled_reach [OF r(1) s0(1)] s0(2) by simp
  next
    assume u: "\<not> set watched_signals \<subseteq> set (blocked (sg_setup s))"
    obtain sgs s1 where r: "signal_reach s0 sgs s1" "sg_thread s1 = Some SigWaiting" "\<not> sg_cancel s1"
      using waiting_reached [OF s0(1,3)] by blast
    then have "signal_step None s1 = Crash" using u signals_handled_reach [OF r(1) s0(1)] s0(2) by (auto simp: signal_step_def)
    then show "\<exists>sgs s1 sg. signal_reach s0 sgs s1 \<and> signal_step sg s1 = Crash" using r(1) by blast
  qed
qed

subsection \<open>Witnesses\<close>

definition before_signals :: signals where
  "before_signals = \<lparr>sg_setup = \<lparr>handled = [], blocked = []\<rparr>, sg_thread = None, sg_inherited = [], sg_cancel = False, sg_flag = 0,
     sg_children = [(5, True), (6, False)]\<rparr>"

definition with_reactions :: "signals" where
  "with_reactions = before_signals\<lparr>sg_setup := the (set_signal_reactions (\<lambda>_. True) True (sg_setup before_signals))\<rparr>"

text \<open>The thread after it has taken a signal.\<close>

lemma taken_reach:
  "signal_reach (with_reactions\<lparr>sg_thread := Some SigStarting, sg_inherited := watched_signals\<rparr>) [sg]
     (with_reactions\<lparr>sg_thread := Some (SigHandling sg), sg_inherited := watched_signals\<rparr>)"
proof -
  let ?s0 = "with_reactions\<lparr>sg_thread := Some SigStarting, sg_inherited := watched_signals\<rparr>"
  have "signal_reach ?s0 [] (?s0\<lparr>sg_thread := Some SigEnabling\<rparr>)"
    using sig_step [OF sig_start [of ?s0], of None] by (simp add: signal_step_def)
  then have "signal_reach ?s0 [] (?s0\<lparr>sg_thread := Some SigWaiting\<rparr>)"
    using sig_step [of ?s0 "[]" "?s0\<lparr>sg_thread := Some SigEnabling\<rparr>" None] by (simp add: signal_step_def)
  from sig_step [OF this, of sg] show ?thesis
    by (simp add: signal_step_def with_reactions_def before_signals_def)
qed

theorem signal_destroy_completes_witness:
  "\<exists>s1 s'. signal_thread_destroy [None, None, Some SIGTERM] s1 = Step (Returns s') \<and> sg_thread s' = None \<and>
     (sg_flag s', sg_children s') = (0, [(6, False)])"
proof -
  have i: "signal_thread_init True with_reactions = Some (with_reactions\<lparr>sg_thread := Some SigStarting, sg_inherited := watched_signals\<rparr>)"
    by (simp add: signal_thread_init_def with_reactions_def set_signal_reactions_def before_signals_def watched_signals_def)
  have "signal_thread [Some SIGCHLD] (sg_flag with_reactions, sg_children with_reactions) = (0, [(6, False)])"
    by (simp add: signal_thread_round_def with_reactions_def before_signals_def process_cleanup.simps)
  with signal_destroy_completes [OF i taken_reach [of "Some SIGCHLD"], of "[None, None, Some SIGTERM]"]
  show ?thesis by (auto simp del: signal_thread_simps)
qed

theorem signal_wait_undefined_iff_witness:
  "(\<exists>s0 sgs s1 sg. signal_thread_init True before_signals = Some s0 \<and> signal_reach s0 sgs s1 \<and> signal_step sg s1 = Crash) \<and>
   (\<exists>s0. signal_thread_init True with_reactions = Some s0 \<and> \<not> (\<exists>sgs s1 sg. signal_reach s0 sgs s1 \<and> signal_step sg s1 = Crash))"
proof -
  have "\<not> set watched_signals \<subseteq> set (blocked (sg_setup before_signals))"
    "set watched_signals \<subseteq> set (blocked (sg_setup with_reactions))"
    by (simp_all add: watched_signals_def before_signals_def with_reactions_def set_signal_reactions_def)
  moreover have "signal_thread_init True s = Some (s\<lparr>sg_thread := Some SigStarting, sg_inherited := blocked (sg_setup s), sg_cancel := False\<rparr>)"
    for s by (simp add: signal_thread_init_def)
  ultimately show ?thesis using signal_wait_undefined_iff [of before_signals] signal_wait_undefined_iff [of with_reactions]
    by (metis (no_types, lifting))
qed

end
