(* ===== verification/ObjectDetection.thy ===== *)
theory ObjectDetection imports Collector begin

section \<open>Finding objects in a stream of frames\<close>

text \<open>
  A source (\<^verbatim>\<open>new_frame_action\<close> of \<^verbatim>\<open>collector/src/source.c\<close>) and the stand-alone collector of \<^verbatim>\<open>libcapture/FakeTCP\<close>
  both keep counters and decide after each frame whether a new object starts. Here is what the two have in common:
  a detector whose counters stand for the frames seen since the last start. The detector of a source is here too,
  the other one is in \<^verbatim>\<open>CvCollector\<close>.
\<close>

subsection \<open>Detectors\<close>

text \<open>The answers of a detector to a list of frames.\<close>

fun detect_run :: "('r \<Rightarrow> 'c \<Rightarrow> ('c \<times> bool) option) \<Rightarrow> 'c \<Rightarrow> 'r list \<Rightarrow> bool list option" where
  "detect_run detect c [] = Some []"
| "detect_run detect c (r # rs) = do {
     (c, p) \<leftarrow> detect r c;
     ps \<leftarrow> detect_run detect c rs;
     Some (p # ps) }"

text \<open>The same from the history: \<open>passed\<close> looks at the frames since the last start, \<open>restart\<close> says what is kept after one.\<close>

fun passes :: "('r list \<Rightarrow> bool) \<Rightarrow> ('r \<Rightarrow> 'r list) \<Rightarrow> 'r list \<Rightarrow> 'r list \<Rightarrow> bool list" where
  "passes passed restart h [] = []"
| "passes passed restart h (r # rs) =
     passed (h @ [r]) # passes passed restart (if passed (h @ [r]) then restart r else h @ [r]) rs"

lemma passes_length [simp]: "length (passes passed restart h rs) = length rs"
  by (induction rs arbitrary: h) auto

locale object_detector =
  fixes detect :: "'r \<Rightarrow> 'c \<Rightarrow> ('c \<times> bool) option"
    and counts_of :: "'r list \<Rightarrow> 'c"
    and passed :: "'r list \<Rightarrow> bool"
    and restart :: "'r \<Rightarrow> 'r list"
  assumes detects: "detect r (counts_of h) =
    Some (if passed (h @ [r]) then (counts_of (restart r), True) else (counts_of (h @ [r]), False))"
begin

lemma run_passes: "detect_run detect (counts_of h) rs = Some (passes passed restart h rs)"
  by (induction rs arbitrary: h) (simp_all add: detects)

end

text \<open>A detector that needs a number of frames for an object.\<close>

locale sparse_detector = object_detector detect counts_of passed restart
  for detect :: "'r \<Rightarrow> 'c \<Rightarrow> ('c \<times> bool) option" and counts_of :: "'r list \<Rightarrow> 'c" and passed :: "'r list \<Rightarrow> bool"
    and restart :: "'r \<Rightarrow> 'r list" +
  fixes least :: nat
  assumes long_enough: "passed h \<Longrightarrow> least + length (restart (last h)) \<le> length h"
begin

lemma starts_bound: "detect_run detect (counts_of h) rs = Some ps \<Longrightarrow> least * length (filter id ps) \<le> length h + length rs"
proof (induction rs arbitrary: h ps)
  case Nil
  then show ?case by simp
next
  case (Cons r rs)
  show ?case
  proof (cases "passed (h @ [r])")
    case True
    then obtain qs where "ps = True # qs" "detect_run detect (counts_of (restart r)) rs = Some qs"
      using Cons.prems by (auto simp: detects bind_eq_Some_conv)
    then show ?thesis using Cons.IH [of "restart r" qs] long_enough [OF True] by simp
  next
    case False
    then obtain qs where "ps = False # qs" "detect_run detect (counts_of (h @ [r])) rs = Some qs"
      using Cons.prems by (auto simp: detects bind_eq_Some_conv)
    then show ?thesis using Cons.IH [of "h @ [r]" qs] by simp
  qed
qed

end

subsection \<open>The detector of a source\<close>

text \<open>
  The decision of \<open>new_frame_action\<close> and what becomes of \<open>frames_in_object\<close>, which is reset when an object starts and then
  counts the frame.
\<close>

definition source_detect :: "'a data_source_scheme \<Rightarrow> frame \<Rightarrow> int \<Rightarrow> (int \<times> bool) option" where
  "source_detect s f n = do {
     p \<leftarrow> object_detected (s\<lparr>so_frames_in_object := n\<rparr>) f;
     Some ((if p then 0 else n) + 1, p) }"

definition source_passed :: "'a data_source_scheme \<Rightarrow> frame list \<Rightarrow> bool" where
  "source_passed s h \<longleftrightarrow> (case so_detect s of None \<Rightarrow> False | Some cb \<Rightarrow> cb (so_sid s) (last h)) \<or>
     int (length h - 1) mod so_object_detection_frame_limit s = 0"

text \<open>A source with the limit it is set up with.\<close>

definition limited :: "'a data_source_scheme \<Rightarrow> 'a data_source_scheme" where
  "limited s = s\<lparr>so_object_detection_frame_limit := OBJECT_DETECTION_FRAME_LIMIT\<rparr>"

interpretation source_detector: object_detector "source_detect (limited s)" "\<lambda>h. int (length h)" "source_passed (limited s)" "\<lambda>f. [f]"
  for s :: "'a data_source_scheme"
  by unfold_locales
    (auto simp: source_detect_def object_detected_def source_passed_def limited_def OBJECT_DETECTION_FRAME_LIMIT_def split: option.splits)

text \<open>Without a callback the history does not matter, only how many frames there are.\<close>

lemma passes_by_length:
  assumes "\<And>h. h \<noteq> [] \<Longrightarrow> passed h \<longleftrightarrow> (length h - 1) mod m = 0" "0 < m"
  shows "passes passed (\<lambda>f. [f]) h rs = map (\<lambda>k. (length h + k) mod m = 0) [0..<length rs]"
proof -
  have "passes passed (\<lambda>f. [f]) h rs = map (\<lambda>k. (n + k) mod m = 0) [0..<length rs]" if "length h mod m = n mod m" for n
    using that
  proof (induction rs arbitrary: h n)
    case Nil
    then show ?case by simp
  next
    case (Cons r rs)
    have p: "passed (h @ [r]) \<longleftrightarrow> n mod m = 0" using assms(1) [of "h @ [r]"] Cons.prems by simp
    let ?h = "if passed (h @ [r]) then [r] else h @ [r]"
    have "length ?h mod m = Suc n mod m"
      using Cons.prems p by (auto simp: mod_Suc)
    from Cons.IH [OF this] show ?case
      by (simp add: p upt_conv_Cons map_Suc_upt [symmetric] o_def del: upt_Suc)
  qed
  then show ?thesis by blast
qed

subsection \<open>Properties\<close>

text \<open>Where a source starts objects: with its first frame and with every 50th after it, whatever the sender's numbers and bytes are, as
  long as nobody has set a callback.\<close>

theorem objects_every_50_frames:
  assumes "so_detect s = None"
  shows "detect_run (source_detect (limited s)) 0 fs = Some (map (\<lambda>k. k mod 50 = 0) [0..<length fs])"
proof -
  have "detect_run (source_detect (limited s)) 0 fs = Some (passes (source_passed (limited s)) (\<lambda>f. [f]) [] fs)"
    using source_detector.run_passes [of s "[]" fs] by simp
  moreover have "passes (source_passed (limited s)) (\<lambda>f. [f]) [] fs = map (\<lambda>k. (length ([] :: frame list) + k) mod 50 = 0) [0..<length fs]"
    using assms by (intro passes_by_length)
      (auto simp: source_passed_def limited_def OBJECT_DETECTION_FRAME_LIMIT_def zmod_int [of _ 50, simplified, symmetric])
  ultimately show ?thesis by simp
qed

theorem objects_every_50_frames_witness:
  "detect_run (source_detect (limited blank_source)) 0 (replicate 51 (7, [])) = Some (True # replicate 49 False @ [True])"
proof -
  have "map (\<lambda>k :: nat. k mod 50 = 0) [0..<51] = True # replicate 49 False @ [True]" by code_simp
  then show ?thesis using objects_every_50_frames [of blank_source "replicate 51 (7, [])"]
    by (simp add: blank_source_def)
qed

end
