(* ===== verification/FakeGenerator.thy ===== *)
theory FakeGenerator imports Source Decimal "HOL-Library.Signed_Division" begin

section \<open>The sender of test frames\<close>

text \<open>
  \<^verbatim>\<open>libcapture/FakeTCP/src/cvgenerator.cpp\<close>: a server that sends images from files in a circle to whoever connects. The
  images are loaded into one block of memory, each behind the header that \<^verbatim>\<open>source.c\<close> reads. What \<open>cv::imread\<close> finds in
  a file (its bytes, none when it cannot be read) and what the system calls answer are arguments. The memory is
  allocated; printing and the pause between two frames are not modelled.
\<close>

subsection \<open>The images\<close>

definition SOURCE_PATH_ENV :: string where "SOURCE_PATH_ENV = ''TEST_SOURCE_PATH''"
definition DATA_CNT :: nat where "DATA_CNT = 10"
definition IMAGE_HEADER_SIZE :: nat where "IMAGE_HEADER_SIZE = 12"
definition IMAGE_RAW_SIZE :: nat where "IMAGE_RAW_SIZE = 960 * 1920 * 3 * 8 div 8"
definition DATA_SIZE :: nat where "DATA_SIZE = IMAGE_HEADER_SIZE + IMAGE_RAW_SIZE"

text \<open>\<open>sprintf(name, "%s/%d.%s", ...)\<close> into 256 characters.\<close>

definition image_name :: "string \<Rightarrow> nat \<Rightarrow> string" where
  "image_name path i = path @ ''/'' @ dec_int (int i) @ ''.jpg''"

text \<open>One round of the loop of \<open>test_data_create\<close>: the header, then the bytes of the image, as many as an image has.\<close>

definition create_chunk :: "(string \<Rightarrow> byte list) \<Rightarrow> string option \<Rightarrow> nat \<Rightarrow> byte list \<Rightarrow> byte list option" where
  "create_chunk imread env i data = do {
     data \<leftarrow> region_write data (i * DATA_SIZE) (le_bytes 8 (of_nat DATA_SIZE :: u64));
     data \<leftarrow> region_write data (i * DATA_SIZE + 8) (le_bytes 4 (of_nat i :: u32));
     path \<leftarrow> env;
     name \<leftarrow> strcpy_buf 256 (image_name path i);
     orig \<leftarrow> region_read (imread name) 0 IMAGE_RAW_SIZE;
     region_write data (i * DATA_SIZE + IMAGE_HEADER_SIZE) orig }"

fun create_chunks :: "(string \<Rightarrow> byte list) \<Rightarrow> string option \<Rightarrow> nat list \<Rightarrow> byte list \<Rightarrow> byte list option" where
  "create_chunks imread env [] data = Some data"
| "create_chunks imread env (i # is) data = do {
     data \<leftarrow> create_chunk imread env i data;
     create_chunks imread env is data }"

definition test_data_create :: "(string \<Rightarrow> byte list) \<Rightarrow> string option \<Rightarrow> byte list \<Rightarrow> byte list option" where
  "test_data_create imread env data = create_chunks imread env [0..<DATA_CNT] data"

subsection \<open>Sending\<close>

record data_generator =
  dg_fd :: int
  dg_exit_flag :: int
  dg_thread :: bool
  dg_data :: "byte list"
  dg_curr :: int

text \<open>
  \<open>next_image\<close>: the place of the image in the data, as the code computes it: \<open>%\<close> rounds to zero and its \<open>int\<close> becomes a
  \<open>size_t\<close>. The counter overflows after the largest \<open>int\<close>.
\<close>

definition next_image :: "data_generator \<Rightarrow> (u64 \<times> data_generator) option" where
  "next_image g =
     (let curr = dg_curr g in
      if curr = 2 ^ 31 - 1 then None
      else let g = g\<lparr>dg_curr := dg_curr g + 1\<rparr>;
               curr = (if curr smod int DATA_CNT = 0 then 0 else curr)
        in Some (size_of_int (curr smod int DATA_CNT) * of_nat DATA_SIZE, g))"

text \<open>
  The thread, given what its calls of \<open>write\<close> answer: the results are the bytes each call has sent, whether the
  thread has ended and closed its connection, and the generator. The exit flag is copied before the loop.
\<close>

fun send_images :: "bool \<Rightarrow> int list \<Rightarrow> data_generator \<Rightarrow> (byte list list \<times> bool \<times> data_generator) option" where
  "send_images exit_flag lns g =
     (if exit_flag then Some ([], True, g)
      else (case lns of
          [] \<Rightarrow> Some ([], False, g)
        | ln # lns \<Rightarrow> do {
            (off, g) \<leftarrow> next_image g;
            size_bytes \<leftarrow> region_read (dg_data g) (unat off) 8;
            let buf_size = (of_le_bytes size_bytes :: u64);
            buf \<leftarrow> region_read (dg_data g) (unat off) (unat buf_size);
            let sent = take (nat ln) buf;
            if ln < 0 \<or> ln \<noteq> sint buf_size then Some ([sent], True, g)
            else do {
              (cs, e, g) \<leftarrow> send_images exit_flag lns g;
              Some (sent # cs, e, g) } }))"

declare send_images.simps [simp del]

definition generate_data_thread :: "int list \<Rightarrow> data_generator \<Rightarrow> (byte list list \<times> bool \<times> data_generator) option" where
  "generate_data_thread lns g = send_images (dg_exit_flag g \<noteq> 0) lns g"

subsection \<open>Waiting for connections\<close>

text \<open>
  The first address of the list for which a socket can be made, its option set and the socket bound: its descriptor, and
  those that were closed on the way.
\<close>

fun generator_bind :: "(int \<times> bool \<times> bool) list \<Rightarrow> int option \<times> int list" where
  "generator_bind [] = (None, [])"
| "generator_bind ((fd, reuse, bound) # rest) =
     (if fd = -1 then generator_bind rest
      else if reuse \<and> bound then (Some fd, [])
      else (case generator_bind rest of (r, cs) \<Rightarrow> (r, fd # cs)))"

datatype select_answer = SelectFails | SelectTimeout | NotSet | AcceptFails bool | Accepted int bool

datatype generator_result = ExitFailure | ReturnsNull | ReturnsGenerator data_generator | StillWaiting data_generator

text \<open>
  The loop, with the connections a thread was started for and those that were accepted and forgotten. \<open>AcceptFails\<close> says
  whether the error is one after which the loop goes on, \<open>Accepted\<close> whether \<open>getnameinfo\<close> finds a name.
\<close>

fun accept_loop :: "bool \<Rightarrow> select_answer list \<Rightarrow> data_generator \<Rightarrow> generator_result \<times> int list \<times> int list" where
  "accept_loop exit_flag as g =
     (if exit_flag then (ReturnsGenerator g, [], [])
      else (case as of
          [] \<Rightarrow> (StillWaiting g, [], [])
        | SelectFails # as \<Rightarrow> (ExitFailure, [], [])
        | SelectTimeout # as \<Rightarrow> accept_loop exit_flag as g
        | NotSet # as \<Rightarrow> accept_loop exit_flag as g
        | AcceptFails again # as \<Rightarrow> if again then accept_loop exit_flag as g else (ReturnsNull, [], [])
        | Accepted fd named # as \<Rightarrow>
            if named then (case accept_loop exit_flag as (g\<lparr>dg_fd := fd, dg_thread := True\<rparr>) of (r, ts, ls) \<Rightarrow> (r, fd # ts, ls))
            else (case accept_loop exit_flag as g of (r, ts, ls) \<Rightarrow> (r, ts, fd # ls))))"

declare accept_loop.simps [simp del]

record generator_answers =
  gn_resolved :: bool
  gn_sockets :: "(int \<times> bool \<times> bool) list"
  gn_listen :: bool
  gn_selects :: "select_answer list"

text \<open>\<open>junk\<close> gives the content of new memory, \<open>fd0\<close> is the uninitialised field of the new generator.\<close>

definition new_generator :: "int \<Rightarrow> byte list \<Rightarrow> data_generator" where
  "new_generator fd0 data = \<lparr>dg_fd = fd0, dg_exit_flag = 0, dg_thread = False, dg_data = data, dg_curr = -1\<rparr>"

definition generator_init ::
  "(string \<Rightarrow> byte list) \<Rightarrow> string option \<Rightarrow> generator_answers \<Rightarrow> int \<Rightarrow> (nat \<Rightarrow> byte list) \<Rightarrow> (generator_result \<times> int list \<times> int list) option" where
  "generator_init imread env ans fd0 junk = do {
     data \<leftarrow> test_data_create imread env (junk (DATA_CNT * DATA_SIZE));
     let g = new_generator fd0 data;
     Some (if \<not> gn_resolved ans then (ExitFailure, [], [])
       else (case fst (generator_bind (gn_sockets ans)) of
           None \<Rightarrow> (ExitFailure, [], [])
         | Some fd \<Rightarrow> if gn_listen ans then accept_loop False (gn_selects ans) g else (ExitFailure, [], []))) }"

text \<open>
  The end. A thread that has detached itself cannot be joined, and without a thread there is no id; a thread that has
  not yet run finds the exit flag set and closes the descriptor that is closed again here. The result: the descriptors closed.
\<close>

datatype generator_thread = NoThread | NotYetRun | DetachedThread

definition generator_destroy :: "generator_thread \<Rightarrow> data_generator \<Rightarrow> int list option" where
  "generator_destroy th g = (case th of NotYetRun \<Rightarrow> Some [dg_fd g, dg_fd g] | _ \<Rightarrow> None)"

subsection \<open>Library\<close>

lemmas image_sizes = DATA_SIZE_def IMAGE_HEADER_SIZE_def IMAGE_RAW_SIZE_def

text \<open>A chunk: the header of the frame and the bytes of the image.\<close>

definition image_chunk :: "(string \<Rightarrow> byte list) \<Rightarrow> string \<Rightarrow> nat \<Rightarrow> byte list" where
  "image_chunk imread path i = frame_header (of_nat DATA_SIZE) (int i) @ take IMAGE_RAW_SIZE (imread (image_name path i))"

lemma create_chunk_Some:
  assumes "create_chunk imread env i data = Some data'"
  obtains path where "env = Some path" "length (image_name path i) < 256" "IMAGE_RAW_SIZE \<le> length (imread (image_name path i))"
    "region_write data (i * DATA_SIZE) (image_chunk imread path i) = Some data'"
proof -
  obtain path d1 d2 orig where d: "region_write data (i * DATA_SIZE) (le_bytes 8 (of_nat DATA_SIZE :: u64)) = Some d1"
      "region_write d1 (i * DATA_SIZE + 8) (le_bytes 4 (of_nat i :: u32)) = Some d2" "env = Some path" "length (image_name path i) < 256"
      "region_read (imread (image_name path i)) 0 IMAGE_RAW_SIZE = Some orig"
      "region_write d2 (i * DATA_SIZE + IMAGE_HEADER_SIZE) orig = Some data'"
    using assms by (auto simp: create_chunk_def bind_eq_Some_conv strcpy_buf_Some)
  have o: "orig = take IMAGE_RAW_SIZE (imread (image_name path i))" "IMAGE_RAW_SIZE \<le> length (imread (image_name path i))"
    using d(5) by (auto simp: region_read_def split: if_splits)
  have "region_write data (i * DATA_SIZE) (le_bytes 8 (of_nat DATA_SIZE :: u64) @ le_bytes 4 (of_nat i :: u32)) = Some d2"
    using d(1,2) by (intro region_write_append) auto
  then have "region_write data (i * DATA_SIZE) (frame_header (of_nat DATA_SIZE) (int i)) = Some d2"
    by (simp add: frame_header_def)
  then have "region_write data (i * DATA_SIZE) (image_chunk imread path i) = Some data'"
    unfolding image_chunk_def o(1) [symmetric] using d(6)
    by (intro region_write_append) (auto simp: frame_header_length IMAGE_HEADER_SIZE_def)
  then show thesis using that d(3,4) o(2) by blast
qed

lemma image_chunk_length:
  "IMAGE_RAW_SIZE \<le> length (imread (image_name path i)) \<Longrightarrow> length (image_chunk imread path i) = DATA_SIZE"
  by (simp add: image_chunk_def frame_header_length DATA_SIZE_def IMAGE_HEADER_SIZE_def)

text \<open>The chunks after the loop.\<close>

definition chunk_at :: "(string \<Rightarrow> byte list) \<Rightarrow> string \<Rightarrow> byte list \<Rightarrow> nat \<Rightarrow> bool" where
  "chunk_at imread path data i \<longleftrightarrow> region_read data (i * DATA_SIZE) DATA_SIZE = Some (image_chunk imread path i)"

lemma create_chunk_reads:
  assumes c: "create_chunk imread (Some path) i data = Some data'"
  shows "chunk_at imread path data' i" "length data' = length data"
    "j \<noteq> i \<Longrightarrow> chunk_at imread path data' j = chunk_at imread path data j"
proof -
  obtain p where "Some path = Some p" "IMAGE_RAW_SIZE \<le> length (imread (image_name p i))"
    "region_write data (i * DATA_SIZE) (image_chunk imread p i) = Some data'"
    using create_chunk_Some [OF c] by metis
  then have w: "IMAGE_RAW_SIZE \<le> length (imread (image_name path i))"
    "region_write data (i * DATA_SIZE) (image_chunk imread path i) = Some data'" by simp_all
  note l = image_chunk_length [of imread path i, OF w(1)]
  show "length data' = length data" by (rule region_write_length [OF w(2)])
  show "chunk_at imread path data' i" using region_read_write_same [OF w(2)] by (simp add: chunk_at_def l)
  show "chunk_at imread path data' j = chunk_at imread path data j" if "j \<noteq> i"
  proof -
    have "j * DATA_SIZE + DATA_SIZE \<le> i * DATA_SIZE \<or> i * DATA_SIZE + DATA_SIZE \<le> j * DATA_SIZE"
      using that by (cases "j < i") (metis Suc_leI mult_Suc add.commute mult_le_mono1,
        metis Suc_leI mult_Suc add.commute mult_le_mono1 linorder_neqE_nat)
    then show ?thesis using region_read_write_other [OF w(2), of "j * DATA_SIZE" DATA_SIZE] by (simp add: chunk_at_def l)
  qed
qed

lemma create_chunks_reads:
  "create_chunks imread (Some path) is data = Some data' \<Longrightarrow> distinct is \<Longrightarrow>
     length data' = length data \<and> (\<forall>i \<in> set is. chunk_at imread path data' i) \<and>
     (\<forall>j. j \<notin> set is \<longrightarrow> chunk_at imread path data' j = chunk_at imread path data j)"
proof (induction "is" arbitrary: data)
  case Nil
  then show ?case by simp
next
  case (Cons i "is")
  then obtain d where d: "create_chunk imread (Some path) i data = Some d" "create_chunks imread (Some path) is d = Some data'"
    by (auto simp: bind_eq_Some_conv)
  show ?case using Cons.IH [OF d(2)] Cons.prems(2) create_chunk_reads [OF d(1)] by auto
qed

lemma test_data_reads:
  assumes "test_data_create imread env data = Some data'"
  obtains path where "env = Some path" "\<And>i. i < DATA_CNT \<Longrightarrow> chunk_at imread path data' i"
proof -
  obtain path where p: "env = Some path"
    using assms by (cases env) (auto simp: test_data_create_def DATA_CNT_def upt_rec create_chunk_def bind_eq_Some_conv)
  then have "create_chunks imread (Some path) [0..<DATA_CNT] data = Some data'" using assms by (simp add: test_data_create_def)
  from create_chunks_reads [OF this] show thesis by (intro that [OF p]) auto
qed

text \<open>One image of the circle.\<close>

lemma next_image_from_0:
  assumes "0 \<le> dg_curr g" "dg_curr g < 2 ^ 31 - 1"
  shows "\<exists>off. next_image g = Some (off, g\<lparr>dg_curr := dg_curr g + 1\<rparr>) \<and> unat off = (nat (dg_curr g) mod DATA_CNT) * DATA_SIZE"
proof -
  define c where "c = nat (dg_curr g)"
  have c: "dg_curr g = int c" using assms by (simp add: c_def)
  have m: "int c smod int DATA_CNT = int (c mod DATA_CNT)" by (simp add: signed_modulo_int_def sgn_if zmod_int DATA_CNT_def)
  have b: "c mod DATA_CNT < 10" by (simp add: DATA_CNT_def)
  have "unat (size_of_int (int (c mod DATA_CNT)) * of_nat DATA_SIZE :: u64) = (c mod DATA_CNT) * DATA_SIZE"
  proof -
    have u: "unat (size_of_int (int (c mod DATA_CNT))) = c mod DATA_CNT" "unat (of_nat DATA_SIZE :: u64) = DATA_SIZE"
      using b by (simp_all add: unat_size_of_int unat_of_nat_small image_sizes)
    have "(c mod DATA_CNT) * DATA_SIZE \<le> 9 * DATA_SIZE" using b by (intro mult_le_mono1) simp
    then have "(c mod DATA_CNT) * DATA_SIZE < 2 ^ 64" by (simp add: image_sizes)
    then show ?thesis using u by (simp add: unat_mult_small)
  qed
  moreover have "next_image g = Some (size_of_int (int (c mod DATA_CNT)) * of_nat DATA_SIZE, g\<lparr>dg_curr := dg_curr g + 1\<rparr>)"
    using assms m by (simp add: next_image_def Let_def c)
  ultimately show ?thesis by (simp add: c)
qed

lemma send_images_full:
  assumes "\<And>i. i < DATA_CNT \<Longrightarrow> chunk_at imread path (dg_data g) i" "0 \<le> dg_curr g" "dg_curr g + int k < 2 ^ 31"
  shows "send_images False (replicate k (int DATA_SIZE)) g =
     Some (map (\<lambda>j. image_chunk imread path ((nat (dg_curr g) + j) mod DATA_CNT)) [0..<k], False, g\<lparr>dg_curr := dg_curr g + int k\<rparr>)"
  using assms
proof (induction k arbitrary: g)
  case 0
  then show ?case by (simp add: send_images.simps)
next
  case (Suc k)
  let ?i = "nat (dg_curr g) mod DATA_CNT" and ?g = "g\<lparr>dg_curr := dg_curr g + 1\<rparr>"
  have "dg_curr g < 2 ^ 31 - 1" using Suc.prems(3) by simp
  then obtain off where off: "next_image g = Some (off, ?g)" "unat off = ?i * DATA_SIZE"
    using next_image_from_0 [OF Suc.prems(2)] by blast
  have r: "region_read (dg_data g) (?i * DATA_SIZE) DATA_SIZE = Some (image_chunk imread path ?i)"
    using Suc.prems(1) [of ?i] by (simp add: chunk_at_def DATA_CNT_def)
  have l: "length (image_chunk imread path ?i) = DATA_SIZE" by (rule region_read_length [OF r])
  have r8: "region_read (dg_data g) (?i * DATA_SIZE) 8 = Some (le_bytes 8 (of_nat DATA_SIZE :: u64))"
  proof -
    have f: "?i * DATA_SIZE + DATA_SIZE \<le> length (dg_data g)"
      and d: "take DATA_SIZE (drop (?i * DATA_SIZE) (dg_data g)) = image_chunk imread path ?i"
      using r by (simp_all add: region_read_def split: if_splits)
    have m: "8 \<le> DATA_SIZE" by (simp add: image_sizes)
    have "take 8 (drop (?i * DATA_SIZE) (dg_data g)) = take 8 (take DATA_SIZE (drop (?i * DATA_SIZE) (dg_data g)))"
      using m by (simp add: min_def)
    then show ?thesis using f m by (simp add: region_read_def d) (simp add: image_chunk_def frame_header_def)
  qed
  have s: "of_le_bytes (le_bytes 8 (of_nat DATA_SIZE :: u64)) = (of_nat DATA_SIZE :: u64)" by (rule of_le_bytes_le_bytes) simp
  have u: "unat (of_nat DATA_SIZE :: u64) = DATA_SIZE" "sint (of_nat DATA_SIZE :: u64) = int DATA_SIZE"
    by (simp_all add: unat_of_nat_small image_sizes)
  have ih: "send_images False (replicate k (int DATA_SIZE)) ?g =
      Some (map (\<lambda>j. image_chunk imread path ((nat (dg_curr ?g) + j) mod DATA_CNT)) [0..<k], False, ?g\<lparr>dg_curr := dg_curr ?g + int k\<rparr>)"
    using Suc.prems by (intro Suc.IH) auto
  have n: "nat (dg_curr g + 1) = Suc (nat (dg_curr g))" using Suc.prems(2) by simp
  have one: "send_images False (replicate (Suc k) (int DATA_SIZE)) g =
      Some (image_chunk imread path ?i # map (\<lambda>j. image_chunk imread path ((nat (dg_curr ?g) + j) mod DATA_CNT)) [0..<k], False,
        ?g\<lparr>dg_curr := dg_curr ?g + int k\<rparr>)"
    by (subst send_images.simps) (simp add: off r8 s u r l ih)
  have "map (\<lambda>j. f (a + j)) [0..<Suc k] = f a # map (\<lambda>j. f (Suc a + j)) [0..<k]" for f :: "nat \<Rightarrow> byte list" and a
    by (simp add: upt_conv_Cons map_Suc_upt [symmetric] o_def del: upt_Suc)
  from this [of "\<lambda>m. image_chunk imread path (m mod DATA_CNT)" "nat (dg_curr g)"]
  show ?case by (simp add: one n add.assoc del: upt_Suc replicate_Suc)
qed

lemma accept_loop_waiting:
  "accept_loop False [] g = (StillWaiting g, [], [])"
  "accept_loop False (SelectFails # as) g = (ExitFailure, [], [])"
  "accept_loop False (SelectTimeout # as) g = accept_loop False as g"
  "accept_loop False (NotSet # as) g = accept_loop False as g"
  "accept_loop False (AcceptFails again # as) g = (if again then accept_loop False as g else (ReturnsNull, [], []))"
  "accept_loop False (Accepted fd named # as) g =
     (if named then (case accept_loop False as (g\<lparr>dg_fd := fd, dg_thread := True\<rparr>) of (r, ts, ls) \<Rightarrow> (r, fd # ts, ls))
      else (case accept_loop False as g of (r, ts, ls) \<Rightarrow> (r, ts, fd # ls)))"
  by (subst accept_loop.simps; simp)+

text \<open>What the loop leaves of the generator: only the descriptor changes.\<close>

definition same_images :: "data_generator \<Rightarrow> data_generator \<Rightarrow> bool" where
  "same_images g g' \<longleftrightarrow> dg_data g' = dg_data g \<and> dg_curr g' = dg_curr g \<and> dg_exit_flag g' = dg_exit_flag g"

lemma accept_loop_generator:
  "accept_loop False as g = (r, ts, ls) \<Longrightarrow> (\<forall>g'. r \<noteq> ReturnsGenerator g') \<and> (\<forall>g'. r = StillWaiting g' \<longrightarrow> same_images g g')"
proof (induction as arbitrary: g r ts ls)
  case Nil
  then show ?case by (auto simp: accept_loop_waiting same_images_def)
next
  case (Cons a as)
  show ?case
  proof (cases a)
    case (Accepted fd named)
    then obtain r1 ts1 ls1 g1 where 1: "accept_loop False as g1 = (r1, ts1, ls1)" "r = r1" "same_images g1 = same_images g"
      using Cons.prems by (auto simp: accept_loop_waiting same_images_def fun_eq_iff split: if_splits prod.splits)
    then show ?thesis using Cons.IH [OF 1(1)] by auto
  qed (use Cons in \<open>auto simp: accept_loop_waiting split: if_splits\<close>)
qed

text \<open>What arrives of a chunk: its header in one piece, the image in any pieces.\<close>

definition arrives_as :: "byte list \<Rightarrow> byte list list \<Rightarrow> bool" where
  "arrives_as chunk pieces \<longleftrightarrow>
     (\<exists>css. pieces = take 12 chunk # css \<and> [] \<notin> set css \<and> concat css = drop 12 chunk)"

lemma arriving_chunks:
  assumes "list_all2 arrives_as (map (image_chunk imread path) is) pss" "\<forall>i \<in> set is. i < DATA_CNT"
    and "\<forall>i \<in> set is. IMAGE_RAW_SIZE \<le> length (imread (image_name path i))"
  shows "\<exists>fs. concat (map (map ReadData) pss) = concat (map (sent_frame (of_nat IMAGE_RAW_SIZE)) fs) \<and>
     (\<forall>f \<in> set fs. frame_ok (of_nat IMAGE_RAW_SIZE) f) \<and>
     map (\<lambda>f. (fst f, concat (snd f))) fs = map (\<lambda>i. (int i, take IMAGE_RAW_SIZE (imread (image_name path i)))) is"
  using assms
proof (induction "is" arbitrary: pss)
  case Nil
  then show ?case by (auto intro: exI [of _ "[]"])
next
  case (Cons i "is")
  then obtain ps pss' where p: "pss = ps # pss'" "arrives_as (image_chunk imread path i) ps"
      "list_all2 arrives_as (map (image_chunk imread path) is) pss'"
    by (auto simp: list_all2_Cons1)
  obtain css where css: "ps = take 12 (image_chunk imread path i) # css" "[] \<notin> set css" "concat css = drop 12 (image_chunk imread path i)"
    using p(2) by (auto simp: arrives_as_def)
  have h: "take 12 (image_chunk imread path i) = frame_header (of_nat DATA_SIZE) (int i)"
    "drop 12 (image_chunk imread path i) = take IMAGE_RAW_SIZE (imread (image_name path i))"
    by (simp_all add: image_chunk_def frame_header_length)
  have n: "of_nat IMAGE_RAW_SIZE + 12 = (of_nat DATA_SIZE :: u64)" by (simp add: image_sizes)
  have s: "map ReadData ps = sent_frame (of_nat IMAGE_RAW_SIZE) (int i, css)" by (simp add: sent_frame_def css(1) h n)
  have ok: "frame_ok (of_nat IMAGE_RAW_SIZE) (int i, css)"
    using Cons.prems(2,3) css(2,3) h(2) by (simp add: frame_ok_def DATA_CNT_def unat_of_nat_small image_sizes)
  obtain fs where fs: "concat (map (map ReadData) pss') = concat (map (sent_frame (of_nat IMAGE_RAW_SIZE)) fs)"
      "\<forall>f \<in> set fs. frame_ok (of_nat IMAGE_RAW_SIZE) f"
      "map (\<lambda>f. (fst f, concat (snd f))) fs = map (\<lambda>i. (int i, take IMAGE_RAW_SIZE (imread (image_name path i)))) is"
    using Cons.IH [OF p(3)] Cons.prems(2,3) by auto
  show ?case
    by (intro exI [of _ "(int i, css) # fs"]) (simp add: p(1) s fs ok css(3) h(2))
qed

lemma image_name_length: "i < DATA_CNT \<Longrightarrow> length (image_name path i) = length path + 6"
  by (simp add: image_name_def dec_int_def dec_nat.simps DATA_CNT_def)

lemma create_chunk_defined:
  assumes "(i + 1) * DATA_SIZE \<le> length data"
  shows "create_chunk imread (Some path) i data \<noteq> None \<longleftrightarrow>
     length (image_name path i) < 256 \<and> IMAGE_RAW_SIZE \<le> length (imread (image_name path i))"
    (is "?L \<longleftrightarrow> ?R")
proof
  assume ?L
  then obtain d where "create_chunk imread (Some path) i data = Some d" by auto
  then show ?R by (auto elim: create_chunk_Some)
next
  assume r: ?R
  let ?o = "take IMAGE_RAW_SIZE (imread (image_name path i))"
  have f: "i * DATA_SIZE + 8 \<le> length data" "i * DATA_SIZE + 8 + 4 \<le> length data"
    "i * DATA_SIZE + IMAGE_HEADER_SIZE + IMAGE_RAW_SIZE \<le> length data"
    using assms by (simp_all add: image_sizes)
  obtain d1 where 1: "region_write data (i * DATA_SIZE) (le_bytes 8 (of_nat DATA_SIZE :: u64)) = Some d1" "length d1 = length data"
    using region_write_Some [of "i * DATA_SIZE" "le_bytes 8 (of_nat DATA_SIZE :: u64)" data] f(1) region_write_length by fastforce
  obtain d2 where 2: "region_write d1 (i * DATA_SIZE + 8) (le_bytes 4 (of_nat i :: u32)) = Some d2" "length d2 = length data"
    using region_write_Some [of "i * DATA_SIZE + 8" "le_bytes 4 (of_nat i :: u32)" d1] f(2) 1(2) region_write_length by fastforce
  obtain d3 where 3: "region_write d2 (i * DATA_SIZE + IMAGE_HEADER_SIZE) ?o = Some d3"
    using region_write_Some [of "i * DATA_SIZE + IMAGE_HEADER_SIZE" ?o d2] f(3) r 2(2) by auto
  have o: "region_read (imread (image_name path i)) 0 IMAGE_RAW_SIZE = Some ?o" using r by (simp add: region_read_def)
  have n: "strcpy_buf 256 (image_name path i) = Some (image_name path i)" using r by (simp add: strcpy_buf_Some)
  show ?L by (simp add: create_chunk_def 1 2 3 o n)
qed

lemma create_chunks_defined:
  assumes "\<forall>i \<in> set is. (i + 1) * DATA_SIZE \<le> length data"
  shows "create_chunks imread (Some path) is data \<noteq> None \<longleftrightarrow>
     (\<forall>i \<in> set is. length (image_name path i) < 256 \<and> IMAGE_RAW_SIZE \<le> length (imread (image_name path i)))"
  using assms
proof (induction "is" arbitrary: data)
  case Nil
  then show ?case by simp
next
  case (Cons i "is")
  show ?case
  proof (cases "create_chunk imread (Some path) i data")
    case None
    then show ?thesis using create_chunk_defined [of i data imread path] Cons.prems by auto
  next
    case (Some d)
    have "length d = length data" by (rule create_chunk_reads(2) [OF Some])
    then show ?thesis using create_chunk_defined [of i data imread path] Cons Some by auto
  qed
qed

lemma create_chunks_no_path: "is \<noteq> [] \<Longrightarrow> create_chunks imread None is data = None"
  by (cases "is") (auto simp: create_chunk_def bind_eq_None_conv split: bind_split)

lemma test_data_create_defined:
  assumes "length data = DATA_CNT * DATA_SIZE"
  shows "test_data_create imread env data \<noteq> None \<longleftrightarrow>
     (\<exists>path. env = Some path \<and> length path < 250 \<and> (\<forall>i < DATA_CNT. IMAGE_RAW_SIZE \<le> length (imread (image_name path i))))"
proof (cases env)
  case None
  then show ?thesis by (simp add: test_data_create_def create_chunks_no_path DATA_CNT_def)
next
  case (Some path)
  have "\<forall>i \<in> set [0..<DATA_CNT]. (i + 1) * DATA_SIZE \<le> length data"
    using assms by (auto simp del: mult_Suc intro!: mult_le_mono1)
  from create_chunks_defined [OF this, of imread path]
  have "test_data_create imread env data \<noteq> None \<longleftrightarrow>
      (\<forall>i < DATA_CNT. length path + 6 < 256 \<and> IMAGE_RAW_SIZE \<le> length (imread (image_name path i)))"
    by (auto simp: Some test_data_create_def image_name_length)
  moreover have "0 < DATA_CNT" by (simp add: DATA_CNT_def)
  ultimately show ?thesis using Some by auto
qed

subsection \<open>Properties\<close>


text \<open>The first image cannot be sent: the counter of a new generator is -1, \<open>%\<close> keeps the sign, and the thread of the first
  connection reads the size of an image in front of the memory of the images.\<close>

theorem first_image_undefined:
  assumes "generator_init imread env ans fd0 junk = Some (StillWaiting g, ts, ls)" "\<And>n. length (junk n) = n"
  shows "generate_data_thread (ln # lns) g = None"
proof -
  obtain data as where d: "test_data_create imread env (junk (DATA_CNT * DATA_SIZE)) = Some data"
      "accept_loop False as (new_generator fd0 data) = (StillWaiting g, ts, ls)"
    using assms(1) by (auto simp: generator_init_def bind_eq_Some_conv split: if_splits option.splits)
  have g: "dg_data g = data" "dg_curr g = -1" "dg_exit_flag g = 0"
    using accept_loop_generator [OF d(2)] by (simp_all add: same_images_def new_generator_def)
  obtain path where "env = Some path" using test_data_reads [OF d(1)] by metis
  then have l: "length data = DATA_CNT * DATA_SIZE"
    using d(1) create_chunks_reads [of imread path "[0..<DATA_CNT]"] assms(2) by (simp add: test_data_create_def)
  have n: "next_image g = Some (- of_nat DATA_SIZE, g\<lparr>dg_curr := 0\<rparr>)"
    by (simp add: next_image_def g DATA_CNT_def signed_modulo_int_def size_of_int_def)
  have "unat (- of_nat DATA_SIZE :: u64) = 2 ^ 64 - DATA_SIZE"
    by (simp add: image_sizes)
  then have "region_read data (unat (- of_nat DATA_SIZE :: u64)) 8 = None"
    using l by (simp add: region_read_def image_sizes DATA_CNT_def)
  then show ?thesis by (simp add: generate_data_thread_def send_images.simps g n)
qed

text \<open>Nobody gets a generator: the flag that would end the loop for connections is a local variable nobody sets, so
  \<open>generator_init\<close> waits for ever, gives NULL, or ends the program.\<close>

theorem generator_never_returned:
  assumes "generator_init imread env ans fd0 junk = Some (r, ts, ls)"
  shows "r \<noteq> ReturnsGenerator g"
  using assms accept_loop_generator
  by (fastforce simp: generator_init_def bind_eq_Some_conv split: if_splits option.splits)

text \<open>Exactly when the images can be loaded: the path has to be set and short enough, and every image has to be there in full
  size; a smaller one, or a missing file, is only reported and then read behind its end.\<close>

theorem generator_images_defined_iff:
  assumes "\<And>n. length (junk n) = n"
  shows "generator_init imread env ans fd0 junk \<noteq> None \<longleftrightarrow>
     (\<exists>path. env = Some path \<and> length path < 250 \<and> (\<forall>i < DATA_CNT. IMAGE_RAW_SIZE \<le> length (imread (image_name path i))))"
  using test_data_create_defined [of "junk (DATA_CNT * DATA_SIZE)" imread env] assms
  by (cases "test_data_create imread env (junk (DATA_CNT * DATA_SIZE))") (auto simp: generator_init_def)

subsection \<open>Witnesses\<close>

definition grey_images :: "string \<Rightarrow> byte list" where
  "grey_images name = replicate IMAGE_RAW_SIZE 7"

definition zeros :: "nat \<Rightarrow> byte list" where "zeros n = replicate n 0"

lemma zeros_length: "length (zeros n) = n" by (simp add: zeros_def)

lemma grey_data:
  obtains data where "test_data_create grey_images (Some ''data'') (zeros (DATA_CNT * DATA_SIZE)) = Some data"
proof -
  have "test_data_create grey_images (Some ''data'') (zeros (DATA_CNT * DATA_SIZE)) \<noteq> None"
    by (subst test_data_create_defined) (simp_all add: zeros_length grey_images_def)
  then show thesis using that by blast
qed

definition listening :: "select_answer list \<Rightarrow> generator_answers" where
  "listening as = \<lparr>gn_resolved = True, gn_sockets = [(3, True, True)], gn_listen = True, gn_selects = as\<rparr>"

lemma grey_generator:
  obtains g where
    "generator_init grey_images (Some ''data'') (listening [SelectTimeout, Accepted 4 True]) 0 zeros = Some (StillWaiting g, [4], [])"
  by (rule grey_data) (auto simp: generator_init_def listening_def accept_loop_waiting)


theorem first_image_undefined_witness:
  "\<exists>g. generator_init grey_images (Some ''data'') (listening [SelectTimeout, Accepted 4 True]) 0 zeros = Some (StillWaiting g, [4], []) \<and>
     generate_data_thread [5529612] g = None"
proof -
  obtain g where g: "generator_init grey_images (Some ''data'') (listening [SelectTimeout, Accepted 4 True]) 0 zeros =
      Some (StillWaiting g, [4], [])" by (rule grey_generator)
  from first_image_undefined [OF g zeros_length] g show ?thesis by blast
qed

theorem generator_never_returned_witness:
  "\<exists>r ts ls. generator_init grey_images (Some ''data'') (listening [SelectTimeout, Accepted 4 True]) 0 zeros = Some (r, ts, ls) \<and>
     (\<forall>g. r \<noteq> ReturnsGenerator g)"
proof -
  obtain g where g: "generator_init grey_images (Some ''data'') (listening [SelectTimeout, Accepted 4 True]) 0 zeros =
      Some (StillWaiting g, [4], [])" by (rule grey_generator)
  from generator_never_returned [OF g] g show ?thesis by blast
qed

theorem generator_images_defined_iff_witness:
  "generator_init grey_images (Some ''data'') (listening []) 0 zeros \<noteq> None \<and>
   generator_init (\<lambda>name. []) (Some ''data'') (listening []) 0 zeros = None"
  using generator_images_defined_iff [of zeros grey_images "Some ''data''" "listening []" 0, OF zeros_length]
    generator_images_defined_iff [of zeros "\<lambda>name. []" "Some ''data''" "listening []" 0, OF zeros_length]
  by (auto simp: grey_images_def IMAGE_RAW_SIZE_def DATA_CNT_def dest: spec [of _ "0 :: nat"])

end
