(* ===== verification/CvCollector.thy ===== *)
theory CvCollector imports FakeGenerator ObjectDetection Complex_Main begin

section \<open>The stand-alone collector of frames\<close>

text \<open>
  \<^verbatim>\<open>libcapture/FakeTCP/src/cvcollector.cpp\<close>: a collector for one TCP sender that finds the objects in the stream by itself,
  from the size of what \<open>findRadius\<close> (a library that is not part of the repository) sees in each frame: an object has
  passed when 16 frames up to the last large one are followed by 8 small ones. The thread is a function of
  what it reads and of the exit flag it sees; its result is the list of what it does with its semaphores and the
  storage. The counters are unbounded.
\<close>

subsection \<open>Reading frames\<close>

text \<open>One round of the loop: the header and the image are local memory of fixed size.\<close>

definition cv_read :: "tcp_answer \<Rightarrow> byte list \<times> byte list \<times> tcp_loop \<Rightarrow> ((byte list \<times> byte list \<times> tcp_loop) \<times> tcp_result) option" where
  "cv_read rd s = (case s of (header, img, lo) \<Rightarrow>
     let header_len = of_nat IMAGE_HEADER_SIZE; img_len = of_nat IMAGE_RAW_SIZE in
     if tl_remaining lo = 0 then Some ((header, img, lo\<lparr>tl_remaining := header_len\<rparr>), RoundAgain)
     else (case rd of
         ReadFails \<Rightarrow> Some ((header, img, lo), RoundFails)
       | ReadData avail \<Rightarrow>
           let bs = take (unat (tl_remaining lo)) avail; bytes = of_nat (length bs) in
           if bs = [] then Some ((header, img, lo), RoundAgain)
           else do {
             (header, img) \<leftarrow> (if tl_header_ok lo
               then map_option (\<lambda>m. (header, m)) (region_write img (unat (tl_received lo)) bs)
               else map_option (\<lambda>m. (m, img)) (region_write header (unat (tl_received lo)) bs));
             let lo = lo\<lparr>tl_received := tl_received lo + bytes\<rparr>;
             let lo = (if \<not> tl_header_ok lo \<and> tl_received lo < header_len
               then lo\<lparr>tl_remaining := tl_remaining lo - bytes\<rparr> else lo);
             lo \<leftarrow> (if \<not> tl_header_ok lo \<and> tl_received lo = header_len
               then do {
                 (n, i) \<leftarrow> header_fields header;
                 Some (lo\<lparr>tl_data_size := n, tl_frame_id := i, tl_received := 0, tl_remaining := n, tl_header_ok := True\<rparr>) }
               else Some lo);
             let lo = (if tl_header_ok lo \<and> tl_received lo < img_len
               then lo\<lparr>tl_remaining := tl_remaining lo - bytes\<rparr> else lo);
             if tl_header_ok lo \<and> tl_received lo = img_len
             then Some ((header, img, lo\<lparr>tl_remaining := header_len, tl_received := 0, tl_header_ok := False\<rparr>),
               FrameReady (tl_frame_id lo, img))
             else Some ((header, img, lo), RoundAgain) }))"

subsection \<open>Finding objects\<close>

text \<open>A \<open>float\<close>: a number or not a number, which no comparison holds for.\<close>

type_synonym radius = "real option"

definition small_radius :: "radius \<Rightarrow> bool" where
  "small_radius r = (case r of None \<Rightarrow> False | Some x \<Rightarrow> x < 135)"

definition large_radius :: "radius \<Rightarrow> bool" where
  "large_radius r = (case r of None \<Rightarrow> False | Some x \<Rightarrow> 150 \<le> x)"

record cv_counts =
  cc_obj :: int
  cc_empty :: int
  cc_non :: int
  cc_new_object :: int

definition cv_counts_start :: cv_counts where
  "cv_counts_start = \<lparr>cc_obj = 0, cc_empty = 0, cc_non = 0, cc_new_object = 0\<rparr>"

text \<open>The counters after a frame, and whether an object has passed.\<close>

definition cv_detect :: "radius \<Rightarrow> cv_counts \<Rightarrow> cv_counts \<times> bool" where
  "cv_detect r c =
     (if small_radius r \<and> cc_new_object c = 0
      then let c = c\<lparr>cc_empty := cc_empty c + 1\<rparr> in
        if cc_obj c \<ge> 16 \<and> cc_empty c \<ge> 8 then (\<lparr>cc_obj = 0, cc_empty = 0, cc_non = 0, cc_new_object = 0\<rparr>, True)
        else (c, False)
      else if large_radius r
      then (c\<lparr>cc_obj := cc_obj c + 1 + cc_empty c + cc_non c, cc_empty := 0, cc_non := 0\<rparr>, False)
      else (c\<lparr>cc_non := cc_non c + 1\<rparr>, False))"

subsection \<open>The thread\<close>

datatype cv_action = CvWaitEmpty | CvPostData | CvAddFrame frame | CvSetExit

text \<open>
  A round sees the exit flag in the test of the loop, reads, and after an object has passed looks at the flag once more. The
  result: the actions, and whether the thread has ended.
\<close>

type_synonym cv_input = "bool \<times> tcp_answer \<times> bool"

fun cv_rounds ::
  "(byte list \<Rightarrow> radius) \<Rightarrow> cv_input list \<Rightarrow> byte list \<times> byte list \<times> tcp_loop \<Rightarrow> cv_counts \<Rightarrow> (cv_action list \<times> bool) option" where
  "cv_rounds find_radius [] s c = Some ([], False)"
| "cv_rounds find_radius ((exit_flag, rd, exit_later) # is) s c =
     (if exit_flag then Some ([CvPostData], True)
      else do {
        (s, r) \<leftarrow> cv_read rd s;
        (case r of
           RoundFails \<Rightarrow> Some ([CvSetExit, CvPostData], True)
         | RoundAgain \<Rightarrow> cv_rounds find_radius is s c
         | FrameReady f \<Rightarrow> (case cv_detect (find_radius (snd f)) c of (c, passed) \<Rightarrow> do {
             (as, e) \<leftarrow> cv_rounds find_radius is s c;
             Some ((if passed then CvPostData # (if exit_later then [] else [CvWaitEmpty]) else []) @ CvAddFrame f # as, e) })) })"

text \<open>The names of the storage and of the first object, \<open>None\<close> while they have not been written.\<close>

record cv_data_collector =
  cv_exit_flag :: int
  cv_fd :: int
  cv_segment :: "string option"
  cv_data :: "string option"
  cv_empty_ready :: "nat option"
  cv_data_ready :: "nat option"

text \<open>\<open>header\<close> is the uninitialised array for the header.\<close>

definition cv_collect_data_thread ::
  "(byte list \<Rightarrow> radius) \<Rightarrow> byte list \<Rightarrow> cv_input list \<Rightarrow> cv_data_collector \<Rightarrow> (cv_action list \<times> bool) option" where
  "cv_collect_data_thread find_radius header is collector = do {
     segment \<leftarrow> cv_segment collector;
     data \<leftarrow> cv_data collector;
     (as, e) \<leftarrow> cv_rounds find_radius is (header, replicate IMAGE_RAW_SIZE 0,
       \<lparr>tl_data_size = 0, tl_received = 0, tl_remaining = of_nat IMAGE_HEADER_SIZE, tl_frame_id = -1, tl_header_ok = False\<rparr>)
       cv_counts_start;
     Some (CvWaitEmpty # as, e) }"

subsection \<open>Set-up and end\<close>

text \<open>The members of the union are written one over the other, each as long as its own array.\<close>

definition cv_collector_init :: "source_answers \<Rightarrow> string \<Rightarrow> string \<Rightarrow> cv_data_collector option option" where
  "cv_collector_init ans addr port =
     (if \<not> sa_resolved ans then Some None
      else (case source_connect (sa_sockets ans) of
          None \<Rightarrow> Some None
        | Some fd \<Rightarrow> do {
            _ \<leftarrow> strcpy_buf 12 addr;
            _ \<leftarrow> strcpy_buf 8 port;
            let collector = \<lparr>cv_exit_flag = 0, cv_fd = fd, cv_segment = None, cv_data = None, cv_empty_ready = None, cv_data_ready = None\<rparr>;
            Some (if \<not> sa_sem_data ans \<or> \<not> sa_sem_empty ans then None
              else Some (collector\<lparr>cv_data_ready := Some 0, cv_empty_ready := Some 0\<rparr>)) }))"

text \<open>\<open>ended\<close> says whether the thread returns; the descriptor is closed.\<close>

definition cv_collector_destroy :: "bool \<Rightarrow> cv_data_collector \<Rightarrow> int call_result" where
  "cv_collector_destroy ended collector = (if ended then Returns (cv_fd collector) else Hangs)"

subsection \<open>Library\<close>

text \<open>The packet of a source with the same memory.\<close>

definition cv_packet :: "byte list \<Rightarrow> byte list \<Rightarrow> data_packet" where
  "cv_packet header img = \<lparr>pk_header = header, pk_header_len = of_nat IMAGE_HEADER_SIZE, pk_data = img, pk_data_len = of_nat IMAGE_RAW_SIZE\<rparr>"

lemma cv_read_tcp_round:
  "tcp_round rd (cv_packet header img, lo) =
     map_option (\<lambda>((header, img, lo), r). ((cv_packet header img, lo), r)) (cv_read rd (header, img, lo))"
  by (cases rd)
    (auto simp: tcp_round_def cv_read_def Let_def cv_packet_def map_option_case split: option.splits bind_split)

text \<open>What is done with frames: when an object has passed the next one is started, and every frame is added.\<close>

definition object_actions :: "frame list \<Rightarrow> bool list \<Rightarrow> cv_action list" where
  "object_actions fs ps = concat (map2 (\<lambda>f p. (if p then [CvPostData, CvWaitEmpty] else []) @ [CvAddFrame f]) fs ps)"

lemma object_actions_simps [simp]:
  "object_actions [] ps = []"
  "object_actions (f # fs) (p # ps) = (if p then [CvPostData, CvWaitEmpty] else []) @ CvAddFrame f # object_actions fs ps"
  by (simp_all add: object_actions_def)

lemma object_actions_posts:
  "length fs = length ps \<Longrightarrow> length (filter (\<lambda>a. a = CvPostData) (object_actions fs ps)) = length (filter id ps)"
  by (induction fs ps rule: list_induct2) simp_all

text \<open>The actions from the answers of the detector.\<close>

lemma cv_rounds_frames:
  assumes "tcp_rounds rds (cv_packet header img, lo) = Some (s, fs)" "ReadFails \<notin> set rds"
    and "detect_run (\<lambda>r c. Some (cv_detect r c)) c (map (find_radius \<circ> snd) fs) = Some ps"
  shows "cv_rounds find_radius (map (\<lambda>rd. (False, rd, False)) rds) (header, img, lo) c = Some (object_actions fs ps, False)"
  using assms
proof (induction rds arbitrary: header img lo c fs ps)
  case Nil
  then show ?case by simp
next
  case (Cons rd rds)
  obtain header' img' lo' r where r: "cv_read rd (header, img, lo) = Some ((header', img', lo'), r)"
    using Cons.prems(1) by (cases "cv_read rd (header, img, lo)") (auto simp: cv_read_tcp_round)
  have nf: "r \<noteq> RoundFails"
    using r Cons.prems(2) by (cases rd) (auto simp: cv_read_def Let_def bind_eq_Some_conv split: if_splits)
  show ?case
  proof (cases r)
    case RoundAgain
    then show ?thesis using Cons r by (simp add: cv_read_tcp_round)
  next
    case (FrameReady f)
    then obtain fs' where fs: "tcp_rounds rds (cv_packet header' img', lo') = Some (s, fs')" "fs = f # fs'"
      using Cons.prems(1) r by (auto simp: cv_read_tcp_round bind_eq_Some_conv)
    obtain c' p where c: "cv_detect (find_radius (snd f)) c = (c', p)" by force
    obtain qs where qs: "detect_run (\<lambda>r c. Some (cv_detect r c)) c' (map (find_radius \<circ> snd) fs') = Some qs" "ps = p # qs"
      using Cons.prems(3) fs(2) c by (auto simp: bind_eq_Some_conv comp_def)
    have "ReadFails \<notin> set rds" using Cons.prems(2) by simp
    from Cons.IH [OF fs(1) this qs(1)] show ?thesis using r FrameReady c fs(2) qs(2) by simp
  qed (use nf in simp)
qed

text \<open>
  An object from the sizes seen since the last one, the latest one last: how many frames there are up to the last large
  one, and how many small ones after it.
\<close>

definition up_to_last_large :: "radius list \<Rightarrow> nat" where
  "up_to_last_large rs = length (dropWhile (Not \<circ> large_radius) (rev rs))"

definition small_after_large :: "radius list \<Rightarrow> nat" where
  "small_after_large rs = length (filter small_radius (takeWhile (Not \<circ> large_radius) (rev rs)))"

definition object_passed :: "radius list \<Rightarrow> bool" where
  "object_passed rs \<longleftrightarrow> rs \<noteq> [] \<and> small_radius (last rs) \<and> 16 \<le> up_to_last_large rs \<and> 8 \<le> small_after_large rs"

definition counts_of :: "radius list \<Rightarrow> cv_counts" where
  "counts_of rs = \<lparr>cc_obj = int (up_to_last_large rs), cc_empty = int (small_after_large rs),
     cc_non = int (length (filter (Not \<circ> small_radius) (takeWhile (Not \<circ> large_radius) (rev rs)))), cc_new_object = 0\<rparr>"

lemma counts_of_Nil: "counts_of [] = cv_counts_start"
  by (simp add: counts_of_def cv_counts_start_def up_to_last_large_def small_after_large_def)

lemma small_not_large: "small_radius r \<Longrightarrow> \<not> large_radius r"
  by (auto simp: small_radius_def large_radius_def split: option.splits)

lemma parts_length: "length (dropWhile P xs) + length (filter Q (takeWhile P xs)) + length (filter (Not \<circ> Q) (takeWhile P xs)) = length xs"
proof -
  have "length (filter Q (takeWhile P xs)) + length (filter (Not \<circ> Q) (takeWhile P xs)) = length (takeWhile P xs)"
    using sum_length_filter_compl [of Q "takeWhile P xs"] by (simp add: comp_def)
  moreover have "length (takeWhile P xs) + length (dropWhile P xs) = length xs"
    by (metis length_append takeWhile_dropWhile_id)
  ultimately show ?thesis by simp
qed

lemma cv_detect_counts_of:
  "cv_detect r (counts_of rs) = (if object_passed (rs @ [r]) then (counts_of [], True) else (counts_of (rs @ [r]), False))"
proof (cases "large_radius r")
  case True
  then have "\<not> small_radius r" using small_not_large by blast
  then show ?thesis using True parts_length [of "Not \<circ> large_radius" "rev rs" small_radius]
    by (simp add: cv_detect_def object_passed_def counts_of_def up_to_last_large_def small_after_large_def)
next
  case False
  then show ?thesis
    by (auto simp: cv_detect_def object_passed_def counts_of_def up_to_last_large_def small_after_large_def Let_def)
qed

lemma object_passed_length: "object_passed rs \<Longrightarrow> 24 \<le> length rs"
  using parts_length [of "Not \<circ> large_radius" "rev rs" small_radius]
  by (simp add: object_passed_def up_to_last_large_def small_after_large_def)

interpretation cv_detector: sparse_detector "\<lambda>r c. Some (cv_detect r c)" counts_of object_passed "\<lambda>r. []" 24
  by unfold_locales (simp_all add: cv_detect_counts_of object_passed_length)

text \<open>The objects in a list of frames, and the whole thread over the frames of a sender.\<close>

definition frame_objects :: "(byte list \<Rightarrow> radius) \<Rightarrow> frame list \<Rightarrow> bool list" where
  "frame_objects find_radius fs = passes object_passed (\<lambda>r. []) [] (map (find_radius \<circ> snd) fs)"

lemma frame_objects_bound: "24 * length (filter (\<lambda>a. a = CvPostData) (object_actions fs (frame_objects find_radius fs))) \<le> length fs"
  using cv_detector.starts_bound [OF cv_detector.run_passes, of "[]" "map (find_radius \<circ> snd) fs"]
  by (simp add: frame_objects_def object_actions_posts)

definition cv_inputs :: "(int \<times> byte list list) list \<Rightarrow> cv_input list" where
  "cv_inputs fs = map (\<lambda>rd. (False, rd, False)) (concat (map (sent_frame (of_nat IMAGE_RAW_SIZE)) fs))"

definition sent_data :: "(int \<times> byte list list) list \<Rightarrow> frame list" where
  "sent_data fs = map (\<lambda>f. (fst f, concat (snd f))) fs"

lemma cv_thread_frames:
  assumes "cv_segment collector = Some segment" "cv_data collector = Some data" "length header = IMAGE_HEADER_SIZE"
    and "\<forall>f \<in> set fs. frame_ok (of_nat IMAGE_RAW_SIZE) f"
  shows "cv_collect_data_thread find_radius header (cv_inputs fs) collector =
     Some (CvWaitEmpty # object_actions (sent_data fs) (frame_objects find_radius (sent_data fs)), False)"
proof -
  let ?img = "replicate IMAGE_RAW_SIZE 0" and ?rds = "concat (map (sent_frame (of_nat IMAGE_RAW_SIZE)) fs)"
  let ?pk = "cv_packet header ?img"
  have pk: "packet_ok ?pk" "at_header (tcp_start ?pk)" "pk_data_len ?pk = of_nat IMAGE_RAW_SIZE"
    using assms(3) by (simp_all add: packet_ok_def cv_packet_def at_header_def tcp_start_def unat_of_nat_small image_sizes)
  obtain s where s: "tcp_rounds ?rds (?pk, tcp_start ?pk) = Some (s, sent_data fs)"
    using sent_frames [OF pk(1,2), of fs] assms(4) pk(3) by (auto simp: sent_data_def)
  have nf: "ReadFails \<notin> set ?rds" by (auto simp: sent_frame_def)
  have d: "detect_run (\<lambda>r c. Some (cv_detect r c)) (counts_of []) (map (find_radius \<circ> snd) (sent_data fs)) =
      Some (frame_objects find_radius (sent_data fs))"
    by (simp add: cv_detector.run_passes frame_objects_def)
  from cv_rounds_frames [OF s nf d] show ?thesis
    by (simp add: cv_collect_data_thread_def assms(1,2) cv_inputs_def counts_of_Nil [symmetric] tcp_start_def cv_packet_def)
qed

subsection \<open>Properties\<close>


text \<open>At most one object for 24 frames is handed over, whatever the sizes are.\<close>

theorem objects_at_most:
  assumes "cv_segment collector = Some segment" "cv_data collector = Some data" "length header = IMAGE_HEADER_SIZE"
    and "\<forall>f \<in> set fs. frame_ok (of_nat IMAGE_RAW_SIZE) f"
    and "cv_collect_data_thread find_radius header (cv_inputs fs) collector = Some (as, ended)"
  shows "24 * length (filter (\<lambda>a. a = CvPostData) as) \<le> length fs"
  using cv_thread_frames [OF assms(1-4), of find_radius] assms(5) frame_objects_bound [of "sent_data fs" find_radius]
  by (auto simp: sent_data_def)

text \<open>The reader is the one of \<^verbatim>\<open>collector/src/source.c\<close>: with a packet for the header and an image of this size both make the same
  steps, also on answers after which the behaviour is undefined.\<close>

theorem cv_read_equals_source:
  "tcp_round rd (cv_packet header img, lo) =
     map_option (\<lambda>((header, img, lo), r). ((cv_packet header img, lo), r)) (cv_read rd (header, img, lo))"
  by (rule cv_read_tcp_round)

text \<open>A collector that is set up starts its thread before anybody can name the storage: the thread opens the segment whose name
  has not been written.\<close>

theorem cv_thread_before_names:
  assumes "cv_collector_init ans addr port = Some (Some collector)"
  shows "cv_collect_data_thread find_radius header is collector = None"
  using assms by (auto simp: cv_collector_init_def cv_collect_data_thread_def bind_eq_Some_conv split: if_splits option.splits)

text \<open>Exactly when the set-up is undefined: a connection was made and the address has 12 characters or more (as
  \<^verbatim>\<open>192.168.10.10\<close>), or the port 8.\<close>

theorem cv_collector_init_undefined_iff:
  "cv_collector_init ans addr port = None \<longleftrightarrow>
     sa_resolved ans \<and> source_connect (sa_sockets ans) \<noteq> None \<and> (12 \<le> length addr \<or> 8 \<le> length port)"
  by (auto simp: cv_collector_init_def strcpy_buf_def split: option.split)

subsection \<open>Witnesses\<close>

definition running_collector :: cv_data_collector where
  "running_collector = \<lparr>cv_exit_flag = 0, cv_fd = 5, cv_segment = Some ''boostsegment'', cv_data = Some ''object'',
     cv_empty_ready = Some 0, cv_data_ready = Some 0\<rparr>"

definition first_byte_radius :: "byte list \<Rightarrow> radius" where
  "first_byte_radius img = Some (if hd img = 1 then 200 else 100)"

definition image_of :: "byte \<Rightarrow> byte list" where "image_of b = replicate IMAGE_RAW_SIZE b"

definition passing_object :: "(int \<times> byte list list) list" where
  "passing_object = replicate 16 (0, [image_of 1]) @ replicate 8 (1, [image_of 0])"

lemma image_radius: "first_byte_radius (image_of 1) = Some 200" "first_byte_radius (image_of 0) = Some 100"
  by (simp_all add: first_byte_radius_def image_of_def IMAGE_RAW_SIZE_def)

lemma passing_object_ok: "\<forall>f \<in> set passing_object. frame_ok (of_nat IMAGE_RAW_SIZE) f"
  by (auto simp: passing_object_def frame_ok_def image_of_def image_sizes unat_of_nat_small)

lemma passing_object_actions:
  "object_actions (sent_data passing_object) (frame_objects first_byte_radius (sent_data passing_object)) =
     replicate 16 (CvAddFrame (0, image_of 1)) @ replicate 7 (CvAddFrame (1, image_of 0)) @
     [CvPostData, CvWaitEmpty, CvAddFrame (1, image_of 0)]"
  by (simp add: passing_object_def sent_data_def frame_objects_def eval_nat_numeral image_radius Let_def object_passed_def up_to_last_large_def
      small_after_large_def small_radius_def large_radius_def)


theorem objects_at_most_witness:
  "\<exists>as. cv_collect_data_thread first_byte_radius (zeros 12) (cv_inputs passing_object) running_collector = Some (as, False) \<and>
     24 * length (filter (\<lambda>a. a = CvPostData) as) \<le> length passing_object"
proof -
  have c: "cv_segment running_collector = Some ''boostsegment''" "cv_data running_collector = Some ''object''"
    "length (zeros 12) = IMAGE_HEADER_SIZE"
    by (simp_all add: running_collector_def zeros_length IMAGE_HEADER_SIZE_def)
  from objects_at_most [OF c passing_object_ok] cv_thread_frames [OF c passing_object_ok] show ?thesis by blast
qed

theorem cv_thread_before_names_witness:
  "\<exists>collector. cv_collector_init \<lparr>sa_resolved = True, sa_sockets = [(5, True)], sa_device = None, sa_camera = None, sa_sem_data = True,
       sa_sem_empty = True\<rparr> ''localhost'' ''9000'' = Some (Some collector) \<and>
     cv_collect_data_thread first_byte_radius (zeros 12) [] collector = None"
proof -
  let ?ans = "\<lparr>sa_resolved = True, sa_sockets = [(5, True)], sa_device = None, sa_camera = None, sa_sem_data = True, sa_sem_empty = True\<rparr>"
  obtain collector where "cv_collector_init ?ans ''localhost'' ''9000'' = Some (Some collector)"
    by (simp add: cv_collector_init_def strcpy_buf_def)
  from cv_thread_before_names [OF this] this show ?thesis by blast
qed

end
