(* ===== verification/CameraTools.thy ===== *)
theory CameraTools imports GigeCamera Decimal begin

section \<open>What uses a camera once\<close>

text \<open>
  The camera library's tools \<^verbatim>\<open>libcapture/GigE/tools/udptest.c\<close> (find a camera, open it, let it run, close it) and
  \<^verbatim>\<open>udpfinder.c\<close> (find cameras), and the callback for new devices of \<^verbatim>\<open>collector/src/source.c\<close>. The arguments are those of
  \<^verbatim>\<open>GigeCamera\<close>; what the searches of \<^verbatim>\<open>Discovery\<close> find is an argument; printing is not modelled.
\<close>

subsection \<open>Callbacks\<close>

text \<open>The callback of \<open>source.c\<close> opens the camera and frees the structure. The result: the open descriptors and the environment.\<close>

definition new_device_callback ::
  "'e gvcp_os \<Rightarrow> camera_answers \<Rightarrow> gige_camera \<Rightarrow> u32 \<times> u32 \<times> u32 \<times> u32 \<Rightarrow> device option \<Rightarrow> int list \<times> 'e \<Rightarrow> (int list \<times> 'e) option" where
  "new_device_callback os ans fresh junk dev s = do {
     (cam, fds, e) \<leftarrow> gige_camera_init os ans fresh junk dev s;
     Some (fds, e) }"

text \<open>The callback of \<open>udptest.c\<close>; \<open>ended\<close> says whether the data thread returns.\<close>

definition udptest_device_callback ::
  "'e gvcp_os \<Rightarrow> camera_answers \<Rightarrow> gige_camera \<Rightarrow> u32 \<times> u32 \<times> u32 \<times> u32 \<Rightarrow> bool \<Rightarrow> int \<Rightarrow> device option \<Rightarrow> int list \<times> 'e \<Rightarrow>
     (int list \<times> 'e) call_result option" where
  "udptest_device_callback os ans fresh junk ended duration dev s = do {
     (p_cam, fds, e) \<leftarrow> gige_camera_init os ans fresh junk dev s;
     (case p_cam of
        None \<Rightarrow> Some (Returns (fds, e))
      | Some cam \<Rightarrow> do {
          r \<leftarrow> gige_camera_test os ended duration (cam, e);
          Some (case r of
              Hangs \<Rightarrow> Hangs
            | Returns (rc, cam', e) \<Rightarrow>
                Returns (gige_camera_destroy cam' (removeAll (gc_gvsp_fd cam) (removeAll (gc_gvcp_fd cam) fds)), e)) }) }"

subsection \<open>Programs\<close>

definition atoi :: "string \<Rightarrow> int" where
  "atoi s = (case scan_d s of None \<Rightarrow> 0 | Some n \<Rightarrow> n)"

text \<open>
  \<open>main\<close> of \<open>udptest.c\<close> over the words of its command line: which device it looks for and how long it runs it. \<open>None\<close>: only
  the usage is printed.
\<close>

definition udptest_arguments :: "string list \<Rightarrow> (string \<times> int) option" where
  "udptest_arguments argv =
     (if length argv < 2 \<or> length argv > 4 then None
      else Some (argv ! 1, if length argv = 3 then atoi (argv ! 2) else 4))"

definition udptest_main ::
  "(string \<Rightarrow> device option) \<Rightarrow> 'e gvcp_os \<Rightarrow> camera_answers \<Rightarrow> gige_camera \<Rightarrow> u32 \<times> u32 \<times> u32 \<times> u32 \<Rightarrow> bool \<Rightarrow> string list \<Rightarrow>
     int list \<times> 'e \<Rightarrow> (int list \<times> 'e) call_result option" where
  "udptest_main look_for os ans fresh junk ended argv s =
     (case udptest_arguments argv of
        None \<Rightarrow> Some (Returns s)
      | Some (ip, duration) \<Rightarrow>
          (case look_for ip of
             None \<Rightarrow> Some (Returns s)
           | Some dev \<Rightarrow> udptest_device_callback os ans fresh junk ended duration (Some dev) s))"

text \<open>
  \<open>main\<close> of \<open>udpfinder.c\<close>: without arguments all devices are searched, otherwise each address in turn until one is not found. The
  result has the addresses of the devices printed.
\<close>

fun udpfinder_loop :: "(string \<Rightarrow> 'w \<Rightarrow> ('d option \<times> 'w) option) \<Rightarrow> string list \<Rightarrow> 'w \<Rightarrow> ('d list \<times> 'w) option" where
  "udpfinder_loop look_for [] w = Some ([], w)"
| "udpfinder_loop look_for (ip # ips) w = do {
     (dev, w) \<leftarrow> look_for ip w;
     (case dev of
        None \<Rightarrow> Some ([], w)
      | Some d \<Rightarrow> do { (ds, w) \<leftarrow> udpfinder_loop look_for ips w; Some (d # ds, w) }) }"

definition udpfinder_main ::
  "('w \<Rightarrow> (int \<times> 'w) option) \<Rightarrow> (string \<Rightarrow> 'w \<Rightarrow> ('d option \<times> 'w) option) \<Rightarrow> string list \<Rightarrow> 'w \<Rightarrow> ('d list \<times> 'w) option" where
  "udpfinder_main discover look_for argv w =
     (if length argv = 1 then do { (n, w) \<leftarrow> discover w; Some ([], w) } else udpfinder_loop look_for (tl argv) w)"

subsection \<open>Library\<close>

text \<open>One session with a camera.\<close>

lemma test_session:
  assumes "camera_laws os (gc_gvcp_fd cam) idle regs" "idle e" "gc_ops cam \<in> set controlling_ops" "duration \<noteq> 0"
  shows "\<exists>cam' e'. gige_camera_test os True duration (cam, e) = Some (Returns (0, cam', e')) \<and> has_control (regs e') \<and> idle e' \<and>
     gc_gvcp_fd cam' = -1 \<and> gc_gvsp_fd cam' = -1"
proof -
  obtain cam1 e1 where 1: "camera_op os op_start (cam, e) = Some (cam1, e1)" "same_camera cam cam1" "idle e1" "has_control (regs e1)"
    using camera_step_control [OF assms(1,2), of op_start] start_takes_control [OF assms(3)] by blast
  let ?cam1 = "cam1\<lparr>gc_state := STREAM_LIVE\<rparr>"
  have l1: "camera_laws os (gc_gvcp_fd ?cam1) idle regs" "gc_ops ?cam1 \<in> set controlling_ops"
    using 1(2) assms by (simp_all add: same_camera_def)
  obtain cam2 e2 where 2: "watchdogs os (nat duration) (?cam1, e1) = Some (cam2, e2)" "same_camera ?cam1 cam2" "idle e2" "has_control (regs e2)"
    using watchdogs_control [OF l1(1) 1(3) l1(2) 1(4)] by blast
  have l2: "camera_laws os (gc_gvcp_fd cam2) idle regs" "gc_ops cam2 \<in> set controlling_ops"
    using 2(2) l1 by (simp_all add: same_camera_def)
  obtain cam3 e3 where "camera_op os op_stop (cam2, e2) = Some (cam3, e3)" "idle e3" "has_control (regs e3)"
    using camera_step_control [OF l2(1) 2(3), of op_stop] stop_keeps_control [OF l2(2) 2(4)] by blast
  then show ?thesis using 1(1) 2(1) assms(4) by (simp add: gige_camera_test_def Let_def)
qed

lemma opened_fds:
  assumes "0 \<le> a" "0 \<le> b" "a \<notin> set fds" "b \<notin> set fds" "\<forall>fd \<in> set fds. 0 \<le> fd" "gc_gvcp_fd cam' = -1" "gc_gvsp_fd cam' = -1"
  shows "gige_camera_destroy cam' (removeAll b (removeAll a (b # a # fds))) = (fds :: int list)"
proof -
  have "-1 \<notin> set fds" using assms(5) by force
  then show ?thesis using assms by (auto simp: gige_camera_destroy_def removeAll_id)
qed

subsection \<open>Properties\<close>

text \<open>A session of the test program: for a camera that answers and is known (not Baumer's), whatever time but 0 it is given, also -1, for
  which the usage promises no test, the program starts, runs and stops it, returns, and closes both sockets; but the
  camera still says that it is under control.\<close>

theorem udptest_session:
  assumes "udptest_arguments argv = Some (ip, duration)" "duration \<noteq> 0" "look_for ip = Some dev"
    and "sockets_ok ans" "camera_laws os (ca_gvcp_socket ans) idle regs" "idle e" "ca_sockname ans = Some (addr, port)"
    and "0 < regs e GV_STREAM_CHANNEL_0_PACKET_SIZE_OFFSET" "gige_camera_identify_ops (dv_ip dev) \<in> set controlling_ops"
    and "ca_gvcp_socket ans \<notin> set fds" "ca_gvsp_socket ans \<notin> set fds" "\<forall>fd \<in> set fds. 0 \<le> fd"
  shows "\<exists>e'. udptest_main look_for os ans fresh junk True argv (fds, e) = Some (Returns (fds, e')) \<and> has_control (regs e')"
proof -
  obtain cam e1 where 1: "gige_camera_init os ans fresh junk (Some dev) (fds, e) =
      Some (Some cam, ca_gvsp_socket ans # ca_gvcp_socket ans # fds, e1)" "gc_ops cam = gige_camera_identify_ops (dv_ip dev)"
      "gc_gvcp_fd cam = ca_gvcp_socket ans" "gc_gvsp_fd cam = ca_gvsp_socket ans" "idle e1"
    using camera_opened [OF assms(4-8)] by blast
  have l: "camera_laws os (gc_gvcp_fd cam) idle regs" "gc_ops cam \<in> set controlling_ops" using assms(5,9) 1 by simp_all
  obtain cam' e' where 2: "gige_camera_test os True duration (cam, e1) = Some (Returns (0, cam', e'))" "has_control (regs e')"
      "gc_gvcp_fd cam' = -1" "gc_gvsp_fd cam' = -1"
    using test_session [OF l(1) 1(5) l(2) assms(2)] by blast
  have s: "0 \<le> ca_gvcp_socket ans" "0 \<le> ca_gvsp_socket ans" using assms(4) by (simp_all add: sockets_ok_def)
  show ?thesis
    using 1(1,3,4) 2(1,2) opened_fds [OF s assms(10-12) 2(3,4)]
    by (simp add: udptest_main_def assms(1,3) udptest_device_callback_def del: removeAll.simps)
qed

text \<open>The callback of the collector for a new device leaves both sockets of the camera open, and the camera under control, with nothing
  that refers to them.\<close>

theorem new_device_left_open:
  assumes "sockets_ok ans" "camera_laws os (ca_gvcp_socket ans) idle regs" "idle e" "ca_sockname ans = Some (addr, port)"
    and "0 < regs e GV_STREAM_CHANNEL_0_PACKET_SIZE_OFFSET"
  shows "\<exists>e'. new_device_callback os ans fresh junk (Some dev) (fds, e) =
     Some (ca_gvsp_socket ans # ca_gvcp_socket ans # fds, e') \<and> has_control (regs e')"
  using camera_opened [OF assms, of fresh junk dev fds] by (auto simp: new_device_callback_def)

text \<open>The search for cameras by address stops at the first one that is not there: the devices printed are those of the addresses before it,
  the later ones are not looked for.\<close>

theorem udpfinder_stops:
  assumes "\<And>ip w. look_for ip w = Some (known ip, w)"
  shows "udpfinder_main discover look_for (prog # ip # ips) w =
     Some (map (the \<circ> known) (takeWhile (\<lambda>ip. known ip \<noteq> None) (ip # ips)), w)"
proof -
  have "udpfinder_loop look_for l w = Some (map (the \<circ> known) (takeWhile (\<lambda>ip. known ip \<noteq> None) l), w)" for l
    by (induction l) (auto simp: assms split: option.splits)
  from this [of "ip # ips"] show ?thesis by (simp add: udpfinder_main_def del: udpfinder_loop.simps takeWhile.simps)
qed

subsection \<open>Witnesses\<close>

theorem udptest_session_witness:
  "\<exists>e'. udptest_main (\<lambda>ip. Some (known_device ip)) register_file good_answers (known_camera []) (0, 0, 0, 0) True
      [''udptest'', ''127.0.0.1'', ''-1''] ([0, 1, 2], \<lambda>a. 9000, []) = Some (Returns ([0, 1, 2], e')) \<and> has_control (fst e')"
proof -
  have "udptest_arguments [''udptest'', ''127.0.0.1'', ''-1''] = Some (''127.0.0.1'', -1)" by code_simp
  then show ?thesis
    by (rule udptest_session [where idle = "\<lambda>e. snd e = []" and dev = "known_device ''127.0.0.1''" and addr = "0x7f000001" and port = 3000])
      (simp_all add: good_answers_ok register_file_laws, simp_all add: good_answers_def register_file_laws known_device_def
        gige_camera_identify_ops_def controlling_ops_def)
qed

theorem new_device_left_open_witness:
  "\<exists>e'. new_device_callback register_file good_answers (known_camera []) (0, 0, 0, 0) (Some (known_device ''10.0.0.2'')) ([], \<lambda>a. 9000, []) =
     Some ([4, 3], e') \<and> has_control (fst e')"
  using new_device_left_open [OF good_answers_ok, where os = register_file and idle = "\<lambda>e. snd e = []" and regs = fst
      and e = "(\<lambda>a. 9000, [])" and addr = "0x7f000001" and port = 3000 and fresh = "known_camera []" and junk = "(0, 0, 0, 0)"
      and fds = "[]" and dev = "known_device ''10.0.0.2''"] register_file_laws
  by (simp add: good_answers_def)

theorem udpfinder_stops_witness:
  "udpfinder_main (\<lambda>w. None) (\<lambda>ip w. Some (if ip = ''a'' then Some (1 :: nat) else None, w)) [''udpfinder'', ''a'', ''b'', ''a''] () = Some ([1], ())"
  using udpfinder_stops [of "\<lambda>ip w. Some (if ip = ''a'' then Some (1 :: nat) else None, w)" "\<lambda>ip. if ip = ''a'' then Some 1 else None"
      "\<lambda>w. None" "''udpfinder''" "''a''" "[''b'', ''a'']" "()"] by simp

end
