(* ===== verification/DemoPrograms.thy ===== *)
theory DemoPrograms imports Dclprocessor Decimal begin

section \<open>The programs of the demo\<close>

text \<open>
  \<^verbatim>\<open>dclcomponents\<close>: the server (\<^verbatim>\<open>examples_c/server_block.c\<close>) and the three modules of a system (\<^verbatim>\<open>first_block.c\<close>,
  \<^verbatim>\<open>middle_block.c\<close>, \<^verbatim>\<open>last_block.c\<close>), and the two modules of a plain pipeline (\<^verbatim>\<open>pipelinedemo/src/capturer.c\<close>,
  \<^verbatim>\<open>filter.c\<close>). What they call is in the theories of the components; what \<open>scanf\<close> reads is an argument.
\<close>

subsection \<open>The plain pipeline\<close>

text \<open>
  The action of \<open>capturer\<close>: a word from standard input into 80 characters (at the end of the input there is none, and the array is not
  written), then the number of the chunk and the word into the data. \<open>cnt\<close> is the static counter, which is unbounded here.
\<close>

definition capturer_action :: "string option \<Rightarrow> int \<Rightarrow> string \<Rightarrow> (int \<times> int \<times> string) option" where
  "capturer_action input cnt data = do {
     word \<leftarrow> input;
     s \<leftarrow> strcpy_buf 80 word;
     data \<leftarrow> region_write data 0 (dec_int cnt @ s @ [NUL]);
     Some (0, cnt + 1, data) }"

text \<open>The action of \<open>filter\<close>: the status.\<close>

definition filter_action :: "string \<Rightarrow> int option" where
  "filter_action data = do {
     s \<leftarrow> cstr data;
     Some (if CHR ''*'' \<in> set s then 0 else 1) }"

subsection \<open>The modules of a system\<close>

text \<open>
  \<open>first_block.c\<close>: the fields of the processor and of its collector are used without a test, and the callbacks of every source are
  set: frames are added to the object, and neither detected nor saved.
\<close>

fun set_callbacks :: "nat \<Rightarrow> nat \<Rightarrow> data_source option list \<Rightarrow> data_source option list option" where
  "set_callbacks i 0 srcs = Some srcs"
| "set_callbacks i (Suc n) srcs =
     (if i < length srcs then do {
        s \<leftarrow> srcs ! i;
        set_callbacks (Suc i) n (srcs[i := Some (s\<lparr>so_detect := None, so_add := True, so_save := False\<rparr>)]) }
      else None)"

type_synonym ('l, 'r, 'u) module_result = "(('l, 'r, 'u) dclprocessor option \<times> pipeline_action option) \<times> shm_os"

definition first_block_main ::
  "'j json_ops \<Rightarrow> shm_faults \<Rightarrow> 'r get_answers \<Rightarrow> byte \<Rightarrow> string \<Rightarrow> u64 \<Rightarrow> shm_os \<Rightarrow> ('l, 'r, 'u) module_result option" where
  "first_block_main J flt ans junk tail size0 os = do {
     (p, os') \<leftarrow> dclprocessor_get J flt ans junk tail size0 1 os;
     dclproc \<leftarrow> p;
     collector \<leftarrow> dp_collector dclproc;
     srcs \<leftarrow> set_callbacks 0 (nat (co_sources_cnt collector)) (co_sources collector);
     Some (attach_to_pipeline (Some (dclproc\<lparr>dp_collector := Some (collector\<lparr>co_sources := srcs\<rparr>)\<rparr>)) None False, os') }"

definition middle_block_main ::
  "'j json_ops \<Rightarrow> shm_faults \<Rightarrow> 'r get_answers \<Rightarrow> byte \<Rightarrow> string \<Rightarrow> u64 \<Rightarrow> 'u \<Rightarrow> shm_os \<Rightarrow> ('l, 'r, 'u) module_result option" where
  "middle_block_main J flt ans junk tail size0 user_data os = do {
     (p, os') \<leftarrow> dclprocessor_get J flt ans junk tail size0 2 os;
     Some (attach_to_pipeline p (Some user_data) True, os') }"

definition last_block_main ::
  "'j json_ops \<Rightarrow> shm_faults \<Rightarrow> 'r get_answers \<Rightarrow> byte \<Rightarrow> string \<Rightarrow> u64 \<Rightarrow> shm_os \<Rightarrow> ('l, 'r, 'u) module_result option" where
  "last_block_main J flt ans junk tail size0 os = do {
     (p, os') \<leftarrow> dclprocessor_get J flt ans junk tail size0 0 os;
     Some (attach_to_pipeline p None True, os') }"

subsection \<open>The server\<close>

text \<open>
  \<open>server_block.c\<close> with the name of a configuration: it waits until it sees the exit flag of the pipeline set (\<open>flags\<close> are the values
  it sees). The result is the system it leaves. Without a name \<open>argv[1]\<close> is NULL, which the loader hands on to json-c.
\<close>

definition server_block_main ::
  "'j json_ops \<Rightarrow> 'l list_ops \<Rightarrow> shm_faults \<Rightarrow> bool \<Rightarrow> bool \<Rightarrow> int list \<Rightarrow> int list \<Rightarrow> string option \<Rightarrow> shm_os \<Rightarrow> module_heap \<Rightarrow>
     shm_os call_result option" where
  "server_block_main J L flt mem mem_desc obs flags config os h = do {
     fname \<leftarrow> config;
     desc \<leftarrow> load_dclprocessor_description J mem_desc fname;
     r \<leftarrow> (dclprocessor_init L flt mem mem_desc obs (Some desc) os h :: ('l, unit, unit) init_result call_result option);
     (case r of
        Hangs \<Rightarrow> Some Hangs
      | Returns (rc, p, p_desc, os', h') \<Rightarrow>
          if rc \<noteq> 0 then do { _ \<leftarrow> dclprocessor_description_destroy p_desc; Some (Returns os') }
          else do {
            dclproc \<leftarrow> p;
            pl \<leftarrow> dp_pipeline dclproc;
            if list_all (\<lambda>f. f = 0) flags then Some Hangs
            else do { _ \<leftarrow> dclprocessor_description_destroy p_desc; Some (Returns os') } }) }"

subsection \<open>Library\<close>

lemma digit_char_not_special: "d < 10 \<Longrightarrow> digit_char d \<noteq> CHR ''*'' \<and> digit_char d \<noteq> NUL"
proof -
  assume d: "d < 10"
  have "of_char (digit_char d) = 48 + d" using d by (simp add: digit_char_def)
  then show ?thesis using d by (auto simp: NUL_def)
qed

lemma dec_nat_not_special: "CHR ''*'' \<notin> set (dec_nat n) \<and> NUL \<notin> set (dec_nat n)"
proof (induction n rule: dec_nat.induct)
  case (1 n)
  show ?case
  proof (cases "n < 10")
    case True
    then show ?thesis using digit_char_not_special [OF True] by (auto simp: dec_nat.simps [of n])
  next
    case False
    then show ?thesis using 1 digit_char_not_special [of "n mod 10"] by (auto simp: dec_nat.simps [of n])
  qed
qed

lemma set_callbacks_length: "set_callbacks i n srcs = Some srcs' \<Longrightarrow> length srcs' = length srcs"
  by (induction i n srcs arbitrary: srcs' rule: set_callbacks.induct) (auto simp: bind_eq_Some_conv split: if_splits)

lemma set_callbacks_result:
  "set_callbacks i n srcs = Some srcs' \<Longrightarrow> k < i + n \<Longrightarrow> i \<le> k \<Longrightarrow>
     \<exists>s. srcs ! k = Some s \<and> srcs' ! k = Some (s\<lparr>so_detect := None, so_add := True, so_save := False\<rparr>)"
proof (induction i n srcs arbitrary: srcs' rule: set_callbacks.induct)
  case (1 i srcs)
  then show ?case by simp
next
  case (2 i n srcs)
  then obtain s where s: "i < length srcs" "srcs ! i = Some s"
    "set_callbacks (Suc i) n (srcs[i := Some (s\<lparr>so_detect := None, so_add := True, so_save := False\<rparr>)]) = Some srcs'"
    by (auto simp: bind_eq_Some_conv split: if_splits)
  show ?case
  proof (cases "k = i")
    case True
    have "\<And>j n l l'. set_callbacks j n l = Some l' \<Longrightarrow> i < j \<Longrightarrow> l' ! i = l ! i"
    proof -
      fix j n l l' show "set_callbacks j n l = Some l' \<Longrightarrow> i < j \<Longrightarrow> l' ! i = l ! i"
        by (induction j n l arbitrary: l' rule: set_callbacks.induct) (auto simp: bind_eq_Some_conv split: if_splits)
    qed
    from this [OF s(3)] show ?thesis using s True by simp
  next
    case False
    then show ?thesis using "2.IH" [OF s(1,2,3)] "2.prems"(2,3) by auto
  qed
qed

lemma dec_int_not_special: "CHR ''*'' \<notin> set (dec_int n) \<and> NUL \<notin> set (dec_int n)"
  using dec_nat_not_special by (auto simp: dec_int_def NUL_def)

subsection \<open>Properties\<close>

text \<open>The plain pipeline selects the words with a star: what the capturer puts into a chunk for a word, its number and the word, the filter
  lets pass exactly when the word has a star; the numbers go up by one.\<close>

theorem demo_filter_selects:
  assumes "capturer_action (Some word) n data = Some (status, n', data')" "NUL \<notin> set word"
  shows "status = 0 \<and> n' = n + 1 \<and> length data' = length data \<and>
     cstr data' = Some (dec_int n @ word) \<and> filter_action data' = Some (if CHR ''*'' \<in> set word then 0 else 1)"
proof -
  have w: "status = 0" "n' = n + 1" "region_write data 0 (dec_int n @ word @ [NUL]) = Some data'"
    using assms(1) by (auto simp: capturer_action_def bind_eq_Some_conv strcpy_buf_Some)
  have "data' = (dec_int n @ word) @ NUL # drop (length (dec_int n @ word) + 1) data"
    using w(3) by (simp add: region_write_def split: if_splits)
  then have c: "cstr data' = Some (dec_int n @ word)"
    using cstr_terminated [of "dec_int n @ word"] assms(2) dec_int_not_special [of n] by simp
  then show ?thesis using w region_write_length [OF w(3)] dec_int_not_special [of n] by (simp add: filter_action_def)
qed

text \<open>Exactly which words overflow a buffer of the capturer: those of 80 characters or more, and those that do not fit into the chunk
  behind the number, with the NUL; and the end of the input, after which an array that was never written is printed.\<close>

theorem capturer_undefined_iff:
  "capturer_action input n data = None \<longleftrightarrow>
     (case input of None \<Rightarrow> True | Some word \<Rightarrow> 80 \<le> length word \<or> length data \<le> length (dec_int n) + length word)"
  by (auto simp: capturer_action_def strcpy_buf_def region_write_def split: option.split)


text \<open>What \<open>first_block\<close> starts with: if it gets as far as the pipeline, every source of its collector adds its frames to the objects, and
  none looks for objects itself or saves frames.\<close>

theorem first_block_sources:
  assumes "first_block_main J flt ans junk tail size0 os = Some ((p, act), os')"
  shows "\<exists>dp c. p = Some dp \<and> act = Some FirstActionOf \<and> dp_collector dp = Some c \<and> \<not> dp_action dp \<and>
     (\<forall>k < nat (co_sources_cnt c). \<exists>s. co_sources c ! k = Some s \<and> so_detect s = None \<and> so_add s \<and> \<not> so_save s)"
proof -
  obtain dp c srcs where g: "dclprocessor_get J flt ans junk tail size0 1 os = Some (Some dp, os')" "dp_collector dp = Some c"
      "set_callbacks 0 (nat (co_sources_cnt c)) (co_sources c) = Some srcs"
      "attach_to_pipeline (Some (dp\<lparr>dp_collector := Some (c\<lparr>co_sources := srcs\<rparr>)\<rparr>)) None False = (p, act)"
    using assms by (auto simp: first_block_main_def bind_eq_Some_conv)
  have ty: "dp_type dp = 1"
    using g(1) by (auto simp: dclprocessor_get_def bind_eq_Some_conv new_dclprocessor_def split: if_splits option.splits)
  have "\<exists>s. srcs ! k = Some s \<and> so_detect s = None \<and> so_add s \<and> \<not> so_save s" if "k < nat (co_sources_cnt c)" for k
    using set_callbacks_result [OF g(3)] that by fastforce
  then show ?thesis using g(4) ty by (auto simp: attach_to_pipeline_def Let_def)
qed

text \<open>The server program leaves its segment behind: it ends without \<open>dclprocessor_destroy\<close>, so after it the name of the common segment
  is still there.\<close>

theorem server_block_leaves_segment:
  assumes "load_dclprocessor_description J mem_desc fname = Some desc" "sharing desc pdesc path t"
    and "dclprocessor_init L no_faults True mem_desc obs (Some desc) os h =
      (Some (Returns (0, p, p_desc, os1, h1)) :: ('l, unit, unit) init_result call_result option)"
    and "server_block_main J L no_faults True mem_desc obs flags (Some fname) os h = Some (Returns os')"
  shows "os' = os1 \<and> shm_names os' path \<noteq> None"
proof -
  have "shm_names os1 path \<noteq> None" by (rule init_shared [OF assms(2,3)]) simp
  moreover have "os' = os1" using assms(1,3,4)
    by (auto simp: server_block_main_def bind_eq_Some_conv split: if_splits)
  ultimately show ?thesis by simp
qed

subsection \<open>Witnesses\<close>

theorem demo_filter_selects_witness:
  "\<exists>data'. capturer_action (Some ''a*'') 12 (replicate 8 NUL) = Some (0, 13, data') \<and> filter_action data' = Some 0 \<and>
     cstr data' = Some ''12a*''"
proof -
  have d: "dec_int 12 = ''12''" by code_simp
  obtain data' where c: "capturer_action (Some ''a*'') 12 (replicate 8 NUL) = Some (0, 13, data')"
    by (simp add: capturer_action_def strcpy_buf_def region_write_def d)
  have "NUL \<notin> set ''a*''" by (simp add: NUL_def)
  from demo_filter_selects [OF c this] c show ?thesis by (simp add: d)
qed

text \<open>The running system of \<^verbatim>\<open>Dclprocessor\<close>.\<close>

lemma running_server:
  obtains os' where "dclprocessor_init list_instance no_faults True True [PL_STATE_INIT] (Some running_desc) no_shm empty_heap =
      Some (Returns (0, Some (running_processor :: (addr list, unit, unit) dclprocessor), Some running_shared, os', empty_heap))"
  using running_init by blast


theorem server_block_leaves_segment_witness:
  "\<exists>os'. server_block_main running_library list_instance no_faults True True [PL_STATE_INIT] [0, 1] (Some ''system'') no_shm empty_heap =
     Some (Returns os') \<and> shm_names os' ''/dcl'' \<noteq> None"
proof -
  obtain os1 where i: "dclprocessor_init list_instance no_faults True True [PL_STATE_INIT] (Some running_desc) no_shm empty_heap =
      Some (Returns (0, Some (running_processor :: (addr list, unit, unit) dclprocessor), Some running_shared, os1, empty_heap))"
    by (rule running_server)
  have d: "dclprocessor_description_destroy (Some running_shared) = Some None"
    by (simp add: dclprocessor_description_destroy_def running_shared_def shared_description_def Let_def running_desc_def
      running_pipeline_def pipeline_description_create_def collector_description_create_def pipeline_description_destroy_def
      collector_description_destroy_def)
  have m: "server_block_main running_library list_instance no_faults True True [PL_STATE_INIT] [0, 1] (Some ''system'') no_shm empty_heap =
      Some (Returns os1)"
    using i d by (simp add: server_block_main_def running_loaded running_processor_def)
  from server_block_leaves_segment [OF running_loaded running_sharing i m] m show ?thesis by blast
qed

theorem first_block_sources_witness:
  "\<exists>os' (dp :: (addr list, unit, unit) dclprocessor) c.
     first_block_main running_library no_faults module_answers 0 [NUL] 0 os' = Some ((Some dp, Some FirstActionOf), os') \<and>
     dp_collector dp = Some c \<and> \<not> dp_action dp"
proof -
  obtain os' and dp :: "(addr list, unit, unit) dclprocessor" where
    g: "dclprocessor_get running_library no_faults module_answers 0 [NUL] 0 2 os' = Some (Some dp, os')"
      "dp_desc dp = Some (running_desc\<lparr>dd_full_json := Chars ''{}''\<rparr>)"
    using running_get by blast
  obtain rc path sz ob where r: "shared_memory_getenv None 0 os' = Some (rc, path, sz)"
      "shared_memory_client_init no_faults path sz os' = Some (Some ob, os')"
      "read_full_json running_library True 0 [NUL] (shm_objects os' ob) = Some (running_desc\<lparr>dd_full_json := Chars ''{}''\<rparr>)"
    using g by (auto simp: dclprocessor_get_def bind_eq_Some_conv module_answers_def new_dclprocessor_def split: if_splits option.splits)
  obtain c where "collector_init (\<lambda>_. []) blank_source sample_answers True True True () (Some collector_description_create) = Some (Some c)"
      "co_sources_cnt c = 0"
    by (simp add: collector_init_def collector_create_def collector_description_create_def collector_set_boost_shmem_def)
  then have "first_block_main running_library no_faults module_answers 0 [NUL] 0 os' =
      Some ((Some (new_dclprocessor\<lparr>dp_type := 1, dp_desc := Some (running_desc\<lparr>dd_full_json := Chars ''{}''\<rparr>), dp_collector := Some c\<rparr> :: (addr list, unit, unit) dclprocessor),
        Some FirstActionOf), os')"
    using r by (simp add: first_block_main_def dclprocessor_get_def module_answers_def running_collector attach_to_pipeline_def
        new_dclprocessor_def)
  from first_block_sources [OF this] this show ?thesis by blast
qed

end
