(* ===== verification/DemoDescriptions.thy ===== *)
theory DemoDescriptions imports Pipeline begin

section \<open>Descriptions made by the program\<close>

text \<open>
  \<^verbatim>\<open>pipeline/examples/pipeline_examples.c\<close>: the descriptions of pipelines that need no file, by name. The pointers the functions
  get are NULL, and memory can be allocated.
\<close>

definition DEFAULT_WAIT_ON_START :: int where "DEFAULT_WAIT_ON_START = 3"

definition create_initial_module_info :: "int \<Rightarrow> int \<Rightarrow> pipeline_module_info" where
  "create_initial_module_info id' next =
     \<lparr>minfo_id = id', minfo_type = MT_FIRST, minfo_mode = MT_MODE_INTERNAL, minfo_next = next, minfo_argv = None\<rparr>"

definition create_first_module_info :: "int \<Rightarrow> int \<Rightarrow> string list \<Rightarrow> pipeline_module_info" where
  "create_first_module_info id' next argv =
     \<lparr>minfo_id = id', minfo_type = MT_FIRST, minfo_mode = MT_MODE_EXTERNAL, minfo_next = next, minfo_argv = Some argv\<rparr>"

definition create_middle_module_info :: "int \<Rightarrow> int \<Rightarrow> string list \<Rightarrow> pipeline_module_info" where
  "create_middle_module_info id' next argv =
     \<lparr>minfo_id = id', minfo_type = MT_MIDDLE, minfo_mode = MT_MODE_EXTERNAL, minfo_next = next, minfo_argv = Some argv\<rparr>"

definition create_last_module_info :: "int \<Rightarrow> int \<Rightarrow> pipeline_module_info" where
  "create_last_module_info id' next =
     \<lparr>minfo_id = id', minfo_type = MT_LAST, minfo_mode = MT_MODE_INTERNAL, minfo_next = next, minfo_argv = Some []\<rparr>"

text \<open>The module at a place of the description's array.\<close>

definition put_module :: "nat \<Rightarrow> pipeline_module_info \<Rightarrow> pipeline_description \<Rightarrow> pipeline_description option" where
  "put_module i m desc = do {
     ms \<leftarrow> pd_minfos desc;
     if i < length ms then Some (desc\<lparr>pd_minfos := Some (ms[i := Some m])\<rparr>) else None }"

definition procsegment_description :: "int \<Rightarrow> pipeline_description option" where
  "procsegment_description modules_cnt =
     pipeline_description_init DEFAULT_WAIT_ON_START (Some ''/procsegment'') 512 256 modules_cnt"

definition create_empty_pipeline_description :: "pipeline_description option" where
  "create_empty_pipeline_description = do {
     desc \<leftarrow> procsegment_description 2;
     desc \<leftarrow> put_module 0 (create_initial_module_info 0 1) desc;
     put_module 1 (create_last_module_info 1 (-1)) desc }"

definition create_minimal_pipeline_description :: "pipeline_description option" where
  "create_minimal_pipeline_description = do {
     desc \<leftarrow> procsegment_description 3;
     desc \<leftarrow> put_module 2 (create_last_module_info 2 (-1)) desc;
     desc \<leftarrow> put_module 0 (create_first_module_info 0 1 [''bin/psource'']) desc;
     put_module 1 (create_middle_module_info 1 2 [''bin/phandler'']) desc }"

definition create_demo_pipeline_description :: "pipeline_description option" where
  "create_demo_pipeline_description = do {
     desc \<leftarrow> procsegment_description 3;
     desc \<leftarrow> put_module 2 (create_last_module_info 2 (-1)) desc;
     desc \<leftarrow> put_module 0 (create_first_module_info 0 1 [''bin/tmk-demo-capturer'']) desc;
     put_module 1 (create_middle_module_info 1 2 [''bin/tmk-demo-filter'']) desc }"

definition create_default_pipeline_description :: "pipeline_description option" where
  "create_default_pipeline_description = do {
     desc \<leftarrow> procsegment_description 4;
     desc \<leftarrow> put_module 3 (create_last_module_info 3 (-1)) desc;
     desc \<leftarrow> put_module 0 (create_first_module_info 0 1 [''bin/tmk-first'']) desc;
     desc \<leftarrow> put_module 1 (create_middle_module_info 1 2 [''bin/tmk-middle'']) desc;
     put_module 2 (create_middle_module_info 2 3 [''bin/tmk-last'']) desc }"

text \<open>The last module of this one goes to the place that already has the final module.\<close>

definition create_pg_pipeline_description :: "pipeline_description option" where
  "create_pg_pipeline_description = do {
     desc \<leftarrow> procsegment_description 4;
     desc \<leftarrow> put_module 3 (create_last_module_info 3 (-1)) desc;
     desc \<leftarrow> put_module 0 (create_first_module_info 0 1 [''bin/tmk-first'']) desc;
     desc \<leftarrow> put_module 1 (create_middle_module_info 1 2 [''bin/tmk-pg'']) desc;
     put_module 3 (create_middle_module_info 2 3 [''bin/tmk-last'']) desc }"

text \<open>The choice by name; the inner result is \<open>*p_pdesc\<close>, which is left as it was for other names.\<close>

definition create_pipeline_description :: "string \<Rightarrow> pipeline_description option \<Rightarrow> pipeline_description option option" where
  "create_pipeline_description init_string p_pdesc =
     (if init_string = ''empty'' then map_option Some create_empty_pipeline_description
      else if init_string = ''minimal'' then map_option Some create_minimal_pipeline_description
      else if init_string = ''demo'' then map_option Some create_demo_pipeline_description
      else if init_string = ''default'' then map_option Some create_default_pipeline_description
      else if init_string = ''pg'' then map_option Some create_default_pipeline_description
      else Some p_pdesc)"

subsection \<open>Library\<close>

lemmas module_infos = create_initial_module_info_def create_first_module_info_def create_middle_module_info_def create_last_module_info_def

lemma procsegment_Some:
  "procsegment_description n = Some (pipeline_description_create\<lparr>pd_wait_on_start := 3, pd_shmpath := Some ''/procsegment'',
     pd_data_cnt := 512, pd_data_size := 256, pd_modules_cnt := n, pd_proc_cnt := n + 1, pd_minfos := Some (replicate (nat n) None)\<rparr>)"
  by (simp add: procsegment_description_def pipeline_description_init_def DEFAULT_WAIT_ON_START_def size_of_int_def)

text \<open>The modules of a description, one after the other.\<close>

definition chain :: "pipeline_module_info list \<Rightarrow> bool" where
  "chain infos \<longleftrightarrow> infos \<noteq> [] \<and> (\<forall>i < length infos. minfo_id (infos ! i) = int i \<and>
     minfo_next (infos ! i) = (if Suc i < length infos then int (Suc i) else -1))"

definition chain_description :: "pipeline_description \<Rightarrow> pipeline_module_info list \<Rightarrow> bool" where
  "chain_description pd infos \<longleftrightarrow> chain infos \<and> length infos \<le> 4 \<and> pd_minfos pd = Some (map Some infos) \<and>
     pd_modules_cnt pd = int (length infos) \<and> pd_proc_cnt pd = int (length infos) + 1 \<and> pd_shmpath pd = Some ''/procsegment'' \<and>
     pd_use_common_shmem pd = 0 \<and> pd_data_cnt pd = 512 \<and> pd_data_size pd = 256"

lemma find_chain:
  assumes "chain infos" "i < length infos"
  shows "find (\<lambda>x. minfo_id x = minfo_next (infos ! i)) infos = (if Suc i < length infos then Some (infos ! Suc i) else None)"
proof (cases "Suc i < length infos")
  case True
  have n: "minfo_next (infos ! i) = int (Suc i)" using assms True by (simp add: chain_def)
  have id: "minfo_id (infos ! k) = int k" if "k < length infos" for k using assms(1) that by (simp add: chain_def)
  have "find (\<lambda>x. minfo_id x = minfo_next (infos ! i)) infos = Some (infos ! Suc i)"
    unfolding find_Some_iff n using id True by (intro exI [of _ "Suc i"]) auto
  then show ?thesis using True by simp
next
  case False
  then have "minfo_next (infos ! i) = -1" using assms by (simp add: chain_def)
  moreover have "minfo_id x \<noteq> -1" if "x \<in> set infos" for x
    using assms(1) that by (force simp: chain_def in_set_conv_nth)
  ultimately show ?thesis using False by (simp add: find_None_iff)
qed

lemma chain_unlinked:
  assumes "chain infos"
  shows "unlinked infos \<le> 1"
proof -
  let ?P = "\<lambda>mi. find (\<lambda>x. minfo_id x = minfo_next mi) infos = None"
  have ne: "infos \<noteq> []" using assms by (simp add: chain_def)
  have "\<not> ?P x" if x: "x \<in> set (butlast infos)" for x
  proof -
    obtain i where i: "i < length (butlast infos)" "x = butlast infos ! i" using x by (auto simp: in_set_conv_nth)
    then have "x = infos ! i" "Suc i < length infos" by (auto simp: nth_butlast)
    then show ?thesis using find_chain [OF assms, of i] by simp
  qed
  then have "filter ?P (butlast infos) = []" unfolding filter_empty_conv by blast
  then have "filter ?P (butlast infos @ [last infos]) = filter ?P [last infos]" by simp
  then have "length (filter ?P infos) \<le> 1" using ne by simp
  then show ?thesis by (simp add: unlinked_def)
qed

lemma chain_map_fits:
  assumes "chain_description pd infos"
  shows "map_fits (pipeline_map pd) \<and> 0 \<le> sint (memory_get_size (pipeline_map pd))"
proof -
  have "0 < length infos" "length infos \<le> 4" using assms by (auto simp: chain_description_def chain_def)
  then have n: "length infos = 1 \<or> length infos = 2 \<or> length infos = 3 \<or> length infos = 4" by linarith
  have "pipeline_map pd = memory_map_create (3 + int (length infos)) 2208 512 256 1 16384"
    using assms by (simp add: chain_description_def pipeline_map_def int_of_size_def size_of_int_def PROCESS_INFO_SIZE_def
        DESCRIPTOR_DATA_MAX_LEN_def)
  then show ?thesis using n
    by (auto simp: map_fits_def memory_map_create_def part_size_def memory_get_size_def MEMORY_MAP_SIZE_value MEMORY_ALIGN_def size_of_int_def)
qed

lemma named_description:
  assumes "create_pipeline_description name None = Some (Some pd)"
  shows "\<exists>infos. chain_description pd infos"
proof -
  consider "create_empty_pipeline_description = Some pd" | "create_minimal_pipeline_description = Some pd"
    | "create_demo_pipeline_description = Some pd" | "create_default_pipeline_description = Some pd"
    using assms by (auto simp: create_pipeline_description_def split: if_splits)
  then have "pd_minfos pd = Some (map Some (map the (the (pd_minfos pd)))) \<and> chain_description pd (map the (the (pd_minfos pd)))"
  proof cases
    case 1
    then show ?thesis
      by (auto simp: create_empty_pipeline_description_def procsegment_Some put_module_def numeral_2_eq_2 chain_description_def
          chain_def module_infos less_Suc_eq pipeline_description_create_def)
  next
    case 2
    then show ?thesis
      by (auto simp: create_minimal_pipeline_description_def procsegment_Some put_module_def eval_nat_numeral chain_description_def
          chain_def module_infos less_Suc_eq pipeline_description_create_def)
  next
    case 3
    then show ?thesis
      by (auto simp: create_demo_pipeline_description_def procsegment_Some put_module_def eval_nat_numeral chain_description_def
          chain_def module_infos less_Suc_eq pipeline_description_create_def)
  next
    case 4
    then show ?thesis
      by (auto simp: create_default_pipeline_description_def procsegment_Some put_module_def eval_nat_numeral chain_description_def
          chain_def module_infos less_Suc_eq pipeline_description_create_def)
  qed
  then show ?thesis by blast
qed

subsection \<open>Properties\<close>

text \<open>The named descriptions can be used: whichever of the names is given, \<open>pipeline_init\<close> succeeds with the description, and the
  modules hand on to each other in the order of the description, the last one to none.\<close>

theorem named_pipelines_set_up:
  assumes "list_laws L" "create_pipeline_description name None = Some (Some pd)"
  shows "\<exists>infos pl os' h'. pipeline_init L no_faults None (Some pd) os h = Some (0, Some pl, os', h') \<and>
    pd_minfos pd = Some (map Some infos) \<and>
    list_walk L (pl_modules_list pl) = [mh_fresh h..<mh_fresh h + length infos] \<and>
    (\<forall>i < length infos. \<exists>m. mh_store h' (mh_fresh h + i) = Some m \<and> md_minfo m = Some (infos ! i) \<and>
       map_option (\<lambda>b. infos ! (b - mh_fresh h)) (md_next m) = (if Suc i < length infos then Some (infos ! Suc i) else None))"
proof -
  obtain infos where c: "chain_description pd infos" using named_description [OF assms(2)] by blast
  then have pd: "pd_shmpath pd = Some ''/procsegment''" "pd_use_common_shmem pd = 0" "pd_minfos pd = Some (map Some infos)"
      "pd_modules_cnt pd = int (length infos)" and ch: "chain infos"
    by (simp_all add: chain_description_def)
  obtain pl os' h' where i: "pipeline_init L no_faults None (Some pd) os h = Some (0, Some pl, os', h')"
      "list_walk L (pl_modules_list pl) = [mh_fresh h..<mh_fresh h + length infos]"
      "\<forall>i < length infos. \<exists>m. mh_store h' (mh_fresh h + i) = Some m \<and> md_minfo m = Some (infos ! i) \<and>
         md_method m = module_method (infos ! i) \<and>
         map_option (\<lambda>b. infos ! (b - mh_fresh h)) (md_next m) = find (\<lambda>x. minfo_id x = minfo_next (infos ! i)) infos"
    using pipeline_init_linked [OF assms(1) pd chain_unlinked [OF ch] chain_map_fits [OF c, THEN conjunct1]
        chain_map_fits [OF c, THEN conjunct2], of os h] by blast
  have "\<exists>m. mh_store h' (mh_fresh h + i) = Some m \<and> md_minfo m = Some (infos ! i) \<and>
      map_option (\<lambda>b. infos ! (b - mh_fresh h)) (md_next m) = (if Suc i < length infos then Some (infos ! Suc i) else None)"
    if "i < length infos" for i
    using i(3) that unfolding find_chain [OF ch that, symmetric] by blast
  then show ?thesis using i(1,2) pd(3) by blast
qed

text \<open>The description with the module for the database cannot be used, which is why the name \<open>pg\<close> gives the default one: its third
  place is empty, and no set-up with it succeeds.\<close>

theorem pg_pipeline_never_set_up:
  assumes "create_pg_pipeline_description = Some pd"
    and "pipeline_init L flt None (Some pd) os h = Some (rc, p, os', h')"
  shows "rc \<noteq> 0"
proof -
  have pd: "pd_minfos pd = Some [Some (create_first_module_info 0 1 [''bin/tmk-first'']), Some (create_middle_module_info 1 2 [''bin/tmk-pg'']),
      None, Some (create_middle_module_info 2 3 [''bin/tmk-last''])]" "pd_modules_cnt pd = 4"
    using assms(1) by (auto simp: create_pg_pipeline_description_def procsegment_Some put_module_def eval_nat_numeral)
  have "pipeline_init_modules L pd pl os h = None" for pl os h
    by (auto simp: pipeline_init_modules_def pd eval_nat_numeral pipeline_module_add_def Let_def bind_eq_None_conv)
  then show ?thesis using assms(2)
    by (auto simp: pipeline_init_def Let_def bind_eq_Some_conv split: if_splits option.splits)
qed

subsection \<open>Witnesses\<close>

theorem named_pipelines_set_up_witness:
  "\<exists>pd infos pl os' h'. create_pipeline_description ''demo'' None = Some (Some pd) \<and>
     pipeline_init list_instance no_faults None (Some pd) no_shm empty_heap = Some (0, Some pl, os', h') \<and>
     pd_minfos pd = Some (map Some infos)"
proof -
  obtain pd where p: "create_pipeline_description ''demo'' None = Some (Some pd)"
    by (simp add: create_pipeline_description_def create_demo_pipeline_description_def procsegment_Some put_module_def)
  from named_pipelines_set_up [OF list_instance_laws p, of no_shm empty_heap] p show ?thesis by blast
qed

theorem pg_pipeline_never_set_up_witness:
  "\<exists>pd. create_pg_pipeline_description = Some pd \<and>
     (\<forall>rc p os' h'. pipeline_init list_instance no_faults None (Some pd) no_shm empty_heap = Some (rc, p, os', h') \<longrightarrow> rc \<noteq> 0)"
proof -
  obtain pd where p: "create_pg_pipeline_description = Some pd"
    by (simp add: create_pg_pipeline_description_def procsegment_Some put_module_def)
  from pg_pipeline_never_set_up [OF p] p show ?thesis by blast
qed

end
