(* ===== verification/PipelineWriter.thy ===== *)
theory PipelineWriter imports ModuleDescription begin

section \<open>Writing a pipeline description\<close>

text \<open>
  \<^verbatim>\<open>description/examples/rw_pl_descriptor.c\<close>: the functions that turn the description of a pipeline into JSON, and the program that loads
  a description from a file, writes it to a buffer, reads the buffer and saves what it has read. The parsers are in
  \<^verbatim>\<open>ModuleDescription\<close>. The pointers the functions get are NULL, as in the program; printing is not modelled.
\<close>

subsection \<open>From the description to JSON\<close>

text \<open>The loop over the modules; without the array of modules a positive count is a NULL access.\<close>

fun add_modules_json :: "'j json_ops \<Rightarrow> pipeline_module_info option list \<Rightarrow> 'j \<Rightarrow> 'j option" where
  "add_modules_json J [] jarr = Some jarr"
| "add_modules_json J (m # ms) jarr = do {
     jobj \<leftarrow> fill_module_json J None m;
     add_modules_json J ms (case jobj of None \<Rightarrow> jarr | Some j \<Rightarrow> json_array_add J jarr j) }"

definition counted_modules :: "pipeline_description \<Rightarrow> pipeline_module_info option list option" where
  "counted_modules pdesc =
     (if pd_modules_cnt pdesc \<le> 0 then Some []
      else do {
        ms \<leftarrow> pd_minfos pdesc;
        if nat (pd_modules_cnt pdesc) \<le> length ms then Some (take (nat (pd_modules_cnt pdesc)) ms) else None })"

text \<open>The results of these two are the pointers behind \<open>p_modules_json\<close> and \<open>p_pl_json\<close>.\<close>

definition fill_modules_json :: "'j json_ops \<Rightarrow> 'j option \<Rightarrow> pipeline_description option \<Rightarrow> 'j option option" where
  "fill_modules_json J p_modules_json p_desc =
     (case p_desc of
        None \<Rightarrow> Some p_modules_json
      | Some pdesc \<Rightarrow> do {
          ms \<leftarrow> counted_modules pdesc;
          jarr \<leftarrow> add_modules_json J ms (json_new_array J);
          Some (Some jarr) })"

definition fill_pl_json :: "'j json_ops \<Rightarrow> 'j option \<Rightarrow> pipeline_description option \<Rightarrow> 'j option option" where
  "fill_pl_json J p_pl_json p_desc =
     (case p_desc of
        None \<Rightarrow> Some p_pl_json
      | Some pdesc \<Rightarrow>
          let jobj = json_new_object J;
              pl_jobj = json_new_object J;
              pl_jobj = (case pd_id_string pdesc of
                  None \<Rightarrow> pl_jobj | Some s \<Rightarrow> json_object_add J pl_jobj ''id_string'' (Some (json_new_string J s)))
          in (case pd_shmpath pdesc of
                None \<Rightarrow> Some p_pl_json
              | Some path \<Rightarrow> do {
                  let pl_jobj = json_object_add J pl_jobj ''shmem_segment_name'' (Some (json_new_string J path));
                  let pl_jobj = json_object_add J pl_jobj ''data_chunk_size'' (Some (json_new_int J (int_of_size (pd_data_size pdesc))));
                  let pl_jobj = json_object_add J pl_jobj ''data_chunk_count'' (Some (json_new_int J (pd_data_cnt pdesc)));
                  m_jarr \<leftarrow> fill_modules_json J None p_desc;
                  let pl_jobj = json_object_add J pl_jobj ''modules'' m_jarr;
                  Some (Some (json_object_add J jobj ''pipeline'' (Some pl_jobj))) }))"

text \<open>The text, with its length; no text and the length 0 when there is no object.\<close>

definition write_pipeline_description_to_buffer ::
  "'j json_ops \<Rightarrow> pipeline_description option \<Rightarrow> (u64 \<times> string option) option" where
  "write_pipeline_description_to_buffer J p_desc = do {
     pl_json \<leftarrow> fill_pl_json J None p_desc;
     Some (case pl_json of
         None \<Rightarrow> (0, None)
       | Some j \<Rightarrow> let buffer = json_to_string J j in (of_nat (length buffer), Some buffer)) }"

definition pipeline_description_get_size :: "'j json_ops \<Rightarrow> pipeline_description option \<Rightarrow> u64 option" where
  "pipeline_description_get_size J p_desc = map_option fst (write_pipeline_description_to_buffer J p_desc)"

text \<open>The object that is written to the file.\<close>

definition save_pipeline_configuration :: "'j json_ops \<Rightarrow> pipeline_description option \<Rightarrow> 'j option option" where
  "save_pipeline_configuration J p_desc = fill_pl_json J (Some (json_new_object J)) p_desc"

subsection \<open>The program\<close>

text \<open>What \<open>out_pipeline_description\<close> of the library reads: the modules by their count.\<close>

definition out_pipeline_description :: "pipeline_description option \<Rightarrow> unit option" where
  "out_pipeline_description p_desc =
     (case p_desc of None \<Rightarrow> Some () | Some desc \<Rightarrow> map_option (\<lambda>ms. ()) (counted_modules desc))"

text \<open>
  \<open>main\<close> with both names given: the object it writes to the destination. Without a text the NULL pointer goes to
  \<open>json_tokener_parse\<close> and \<open>strlen\<close>.
\<close>

definition rw_main :: "'j json_ops \<Rightarrow> (string \<Rightarrow> bool) \<Rightarrow> string \<Rightarrow> 'j option option" where
  "rw_main J exists' src = do {
     pdesc \<leftarrow> load_pipeline_configuration_from_file J exists' src;
     _ \<leftarrow> out_pipeline_description pdesc;
     (n, buffer) \<leftarrow> write_pipeline_description_to_buffer J pdesc;
     _ \<leftarrow> pipeline_description_destroy pdesc;
     text \<leftarrow> buffer;
     (n, pdesc) \<leftarrow> load_pipeline_configuration_from_buffer J text;
     _ \<leftarrow> out_pipeline_description pdesc;
     save_pipeline_configuration J pdesc }"

subsection \<open>Library\<close>

text \<open>A module that can be written, and what is left of a description: the modules with a command line.\<close>

definition writable :: "pipeline_module_info \<Rightarrow> bool" where
  "writable m \<longleftrightarrow> minfo_type m \<in> {MT_FIRST, MT_MIDDLE, MT_LAST} \<and> minfo_argv m \<noteq> Some [] \<and>
     (minfo_argv m \<noteq> None \<longrightarrow> minfo_mode m = MT_MODE_EXTERNAL) \<and>
     minfo_id m \<in> {- (2 ^ 31)..<2 ^ 31} \<and> minfo_next m \<in> {- (2 ^ 31)..<2 ^ 31}"

definition external_modules :: "pipeline_module_info list \<Rightarrow> pipeline_module_info list" where
  "external_modules ms = filter (\<lambda>m. minfo_argv m \<noteq> None) ms"

definition described :: "string option \<Rightarrow> string \<Rightarrow> int \<Rightarrow> int \<Rightarrow> pipeline_module_info list \<Rightarrow> pipeline_description" where
  "described id_string path chunk_size cnt ms = pipeline_description_create\<lparr>pd_id_string := id_string, pd_shmpath := Some path,
     pd_data_size := size_of_int chunk_size, pd_data_cnt := cnt, pd_modules_cnt := int (length ms), pd_minfos := Some (map Some ms)\<rparr>"

lemma module_written:
  assumes "json_laws J" "writable m"
  shows "(minfo_argv m = None \<longrightarrow> fill_module_json J None (Some m) = Some None) \<and>
    (minfo_argv m \<noteq> None \<longrightarrow> (\<exists>jobj. fill_module_json J None (Some m) = Some (Some jobj) \<and>
       parse_module_json J (Some jobj) None = Some (Some m)))"
proof (cases "minfo_argv m")
  case None
  have "get_type_str (minfo_type m) \<noteq> None" using assms(2) by (auto simp: writable_def get_type_str_def mt_defs)
  then show ?thesis using None by (auto simp: fill_module_json_def)
next
  case (Some argv)
  then obtain name args where "minfo_argv m = Some (name # args)" using assms(2) by (cases argv) (auto simp: writable_def)
  from module_json_roundtrip [OF assms(1) _ this] assms(2) Some show ?thesis by (auto simp: writable_def)
qed

lemma parse_module_list_append:
  "parse_module_list J (xs @ ys) = do { a \<leftarrow> parse_module_list J xs; b \<leftarrow> parse_module_list J ys; Some (a @ b) }"
  by (induction xs) (auto split: bind_splits)

lemma modules_written:
  assumes "json_laws J"
  shows "list_all writable ms \<Longrightarrow> json_is_array J (Some jarr) \<Longrightarrow> parse_module_list J (json_items J jarr) = Some done \<Longrightarrow>
    \<exists>arr. add_modules_json J (map Some ms) jarr = Some arr \<and> json_is_array J (Some arr) \<and>
      length (json_items J arr) = length (json_items J jarr) + length (external_modules ms) \<and>
      parse_module_list J (json_items J arr) = Some (done @ map Some (external_modules ms))"
proof (induction ms arbitrary: jarr "done")
  case Nil
  then show ?case by (simp add: external_modules_def)
next
  case (Cons m ms)
  have m: "writable m" "list_all writable ms" using Cons.prems(1) by simp_all
  show ?case
  proof (cases "minfo_argv m")
    case None
    then have "fill_module_json J None (Some m) = Some None" using module_written [OF assms m(1)] by simp
    then show ?thesis using Cons.IH [OF m(2) Cons.prems(2,3)] None by (simp add: external_modules_def)
  next
    case (Some argv)
    then obtain j where j: "fill_module_json J None (Some m) = Some (Some j)" "parse_module_json J (Some j) None = Some (Some m)"
      using module_written [OF assms m(1)] by auto
    have items: "json_items J (json_array_add J jarr j) = json_items J jarr @ [Some j]" by (rule json_lawsD(10) [OF assms])
    have p: "parse_module_list J (json_items J (json_array_add J jarr j)) = Some (done @ [Some m])"
      by (simp add: items parse_module_list_append Cons.prems(3) j(2))
    from Cons.IH [OF m(2) json_lawsD(9) [OF assms Cons.prems(2)] p] show ?thesis
      using j(1) Some by (simp add: external_modules_def items)
  qed
qed

lemma modules_array:
  assumes "json_laws J" "list_all writable ms"
  obtains arr where "add_modules_json J (map Some ms) (json_new_array J) = Some arr" "json_is_array J (Some arr)"
    "length (json_items J arr) = length (external_modules ms)"
    "parse_module_list J (json_items J arr) = Some (map Some (external_modules ms))"
  using modules_written [OF assms json_lawsD(7) [OF assms(1)], of "[]"] json_lawsD(8) [OF assms(1)] by auto

text \<open>An object with the fields of a pipeline is parsed to its description.\<close>

lemma parse_described:
  assumes "json_laws J" "- (2 ^ 31) \<le> chunk_size" "chunk_size < 2 ^ 31" "- (2 ^ 31) \<le> cnt" "cnt < 2 ^ 31"
    and "json_is_array J (Some arr)" "length (json_items J arr) = length ms"
    and "parse_module_list J (json_items J arr) = Some (map Some ms)"
    and "json_get J (Some p) ''id_string'' = map_option (json_new_string J) id_string"
    and "json_get J (Some p) ''shmem_segment_name'' = Some (json_new_string J path)"
    and "json_get J (Some p) ''data_chunk_size'' = Some (json_new_int J chunk_size)"
    and "json_get J (Some p) ''data_chunk_count'' = Some (json_new_int J cnt)"
    and "json_get J (Some p) ''modules'' = Some arr"
  shows "parse_pipeline_json J (Some p) (Some pipeline_description_create) = Some (0, Some (described id_string path chunk_size cnt ms))"
  using assms(2-) json_lawsD(4,5) [OF assms(1)]
  by (cases id_string)
    (simp_all add: parse_pipeline_json_def parse_modules_json_def described_def Let_def pipeline_description_create_def)

lemma fill_pl_json_object:
  assumes "json_laws J" "pd_shmpath pd = Some path" "pd_minfos pd = Some (map Some ms)" "pd_modules_cnt pd = int (length ms)"
    and "list_all writable ms" "- (2 ^ 31) \<le> pd_data_cnt pd" "pd_data_cnt pd < 2 ^ 31"
  obtains jobj p where "fill_pl_json J j0 (Some pd) = Some (Some jobj)" "json_get J (Some jobj) ''pipeline'' = Some p"
    "\<And>k. k \<noteq> ''pipeline'' \<Longrightarrow> json_get J (Some jobj) k = None"
    "parse_pipeline_json J (Some p) (Some pipeline_description_create) =
      Some (0, Some (described (pd_id_string pd) path (int_of_size (pd_data_size pd)) (pd_data_cnt pd) (external_modules ms)))"
proof -
  obtain arr where arr: "add_modules_json J (map Some ms) (json_new_array J) = Some arr" "json_is_array J (Some arr)"
    "length (json_items J arr) = length (external_modules ms)"
    "parse_module_list J (json_items J arr) = Some (map Some (external_modules ms))"
    using modules_array [OF assms(1,5)] by blast
  have c: "counted_modules pd = Some (map Some ms)" using assms(3,4) by (simp add: counted_modules_def)
  have sz: "- (2 ^ 31) \<le> int_of_size (pd_data_size pd)" "int_of_size (pd_data_size pd) < 2 ^ 31"
    using sint_greater_eq [of "ucast (pd_data_size pd) :: u32"] sint_less [of "ucast (pd_data_size pd) :: u32"]
    by (simp_all add: int_of_size_def)
  let ?p0 = "case pd_id_string pd of None \<Rightarrow> json_new_object J
    | Some s \<Rightarrow> json_object_add J (json_new_object J) ''id_string'' (Some (json_new_string J s))"
  let ?p = "json_object_add J (json_object_add J (json_object_add J (json_object_add J ?p0
      ''shmem_segment_name'' (Some (json_new_string J path)))
      ''data_chunk_size'' (Some (json_new_int J (int_of_size (pd_data_size pd)))))
      ''data_chunk_count'' (Some (json_new_int J (pd_data_cnt pd)))) ''modules'' (Some arr)"
  note get = json_lawsD(2,3) [OF assms(1)]
  have "parse_pipeline_json J (Some ?p) (Some pipeline_description_create) =
      Some (0, Some (described (pd_id_string pd) path (int_of_size (pd_data_size pd)) (pd_data_cnt pd) (external_modules ms)))"
    by (rule parse_described [OF assms(1) sz assms(6,7) arr(2-4)]) (simp_all add: get split: option.split)
  moreover have "fill_pl_json J j0 (Some pd) = Some (Some (json_object_add J (json_new_object J) ''pipeline'' (Some ?p)))"
    by (simp add: fill_pl_json_def fill_modules_json_def assms(2) c arr(1) Let_def)
  moreover have "json_get J (Some (json_object_add J (json_new_object J) ''pipeline'' (Some ?p))) k =
      (if k = ''pipeline'' then Some ?p else None)" for k by (simp add: get)
  ultimately show thesis by (intro that [of "json_object_add J (json_new_object J) ''pipeline'' (Some ?p)" ?p]) simp_all
qed

subsection \<open>Properties\<close>


text \<open>The program loses the description: it writes the pipeline under a key of its own but reads the buffer as if the fields of
  the pipeline were at its top, so whatever description it has loaded, the file it saves holds an empty object.\<close>

theorem rw_descriptor_saves_nothing:
  assumes "json_laws J" "exists' src" "parse_pipeline_json J (json_from_file J src) (Some pipeline_description_create) = Some (0, Some pd)"
    and "pd_shmpath pd = Some path" "pd_minfos pd = Some (map Some ms)" "pd_modules_cnt pd = int (length ms)"
    and "list_all writable ms" "- (2 ^ 31) \<le> pd_data_cnt pd" "pd_data_cnt pd < 2 ^ 31"
    and "\<And>j. fill_pl_json J None (Some pd) = Some (Some j) \<Longrightarrow> json_tokener_parse J (json_to_string J j) = Some j"
  shows "rw_main J exists' src = Some (Some (json_new_object J))"
proof -
  obtain jobj where j: "fill_pl_json J None (Some pd) = Some (Some jobj)" "\<And>k. k \<noteq> ''pipeline'' \<Longrightarrow> json_get J (Some jobj) k = None"
    using fill_pl_json_object [OF assms(1,4-9)] by metis
  have l: "load_pipeline_configuration_from_file J exists' src = Some (Some pd)"
    using assms(2,3) by (simp add: load_pipeline_configuration_from_file_def)
  have o: "out_pipeline_description (Some pd) = Some ()" "pipeline_description_destroy (Some pd) \<noteq> None"
    using assms(5,6) by (simp_all add: out_pipeline_description_def counted_modules_def pipeline_description_destroy_def)
  have b: "load_pipeline_configuration_from_buffer J (json_to_string J jobj) =
      Some (of_nat (length (json_to_string J jobj)), Some pipeline_description_create)"
    by (simp add: load_pipeline_configuration_from_buffer_def assms(10) [OF j(1)] parse_pipeline_json_def j(2))
  have e: "out_pipeline_description (Some pipeline_description_create) = Some ()"
    "save_pipeline_configuration J (Some pipeline_description_create) = Some (Some (json_new_object J))"
    by (simp_all add: out_pipeline_description_def counted_modules_def save_pipeline_configuration_def fill_pl_json_def
        pipeline_description_create_def)
  obtain freed where d: "pipeline_description_destroy (Some pd) = Some freed" using o(2) by auto
  show ?thesis by (simp add: rw_main_def l o(1) d write_pipeline_description_to_buffer_def j(1) b e Let_def)
qed

subsection \<open>Witnesses\<close>

definition written_modules :: "pipeline_module_info list" where
  "written_modules =
     [\<lparr>minfo_id = 0, minfo_type = MT_FIRST, minfo_mode = MT_MODE_EXTERNAL, minfo_next = 1, minfo_argv = Some [''bin/first'', ''-v'']\<rparr>,
      \<lparr>minfo_id = 1, minfo_type = MT_LAST, minfo_mode = MT_MODE_INTERNAL, minfo_next = -1, minfo_argv = None\<rparr>]"

definition written_description :: pipeline_description where
  "written_description = pipeline_description_create\<lparr>pd_shmpath := Some ''/pl'', pd_data_size := 256, pd_data_cnt := 512,
     pd_modules_cnt := 2, pd_minfos := Some (map Some written_modules)\<rparr>"

lemma written_ok:
  "pd_shmpath written_description = Some ''/pl''" "pd_minfos written_description = Some (map Some written_modules)"
  "pd_modules_cnt written_description = int (length written_modules)" "list_all writable written_modules"
  "pd_data_cnt written_description = 512" "pd_data_size written_description = 256"
  by (simp_all add: written_description_def written_modules_def writable_def mt_defs pipeline_description_create_def)


text \<open>A file with a pipeline, and a parser that gives what is written of it.\<close>

definition pipeline_file :: json where
  "pipeline_file = JObject [(''shmem_segment_name'', Some (JText ''/pl'')), (''modules'', Some (JArray []))]"

definition file_description :: pipeline_description where
  "file_description = pipeline_description_create\<lparr>pd_shmpath := Some ''/pl'', pd_minfos := Some []\<rparr>"

definition writer_library :: "json json_ops" where
  "writer_library = (json_instance [''pl.json'' \<mapsto> pipeline_file])\<lparr>json_tokener_parse :=
     (\<lambda>_. the (fill_pl_json (json_instance Map.empty) None (Some file_description)))\<rparr>"

lemma writer_library_laws: "json_laws writer_library"
  using json_instance_laws [of "[''pl.json'' \<mapsto> pipeline_file]"] by (simp add: json_laws_def writer_library_def)

lemma writer_library_fill:
  "fill_pl_json writer_library None (Some file_description) = fill_pl_json (json_instance Map.empty) None (Some file_description)"
  by (simp add: fill_pl_json_def fill_modules_json_def counted_modules_def file_description_def pipeline_description_create_def
      writer_library_def json_instance_def Let_def)

theorem rw_descriptor_saves_nothing_witness:
  "rw_main writer_library (\<lambda>f. True) ''pl.json'' = Some (Some (JObject []))"
proof -
  have p: "parse_pipeline_json writer_library (json_from_file writer_library ''pl.json'') (Some pipeline_description_create) =
      Some (0, Some file_description)"
    by (simp add: writer_library_def json_instance_def pipeline_file_def parse_pipeline_json_def parse_modules_json_def Let_def
        file_description_def pipeline_description_create_def)
  have "rw_main writer_library (\<lambda>f. True) ''pl.json'' = Some (Some (json_new_object writer_library))"
  proof (rule rw_descriptor_saves_nothing [OF writer_library_laws _ p, where path = "''/pl''" and ms = "[]"])
    fix j
    assume "fill_pl_json writer_library None (Some file_description) = Some (Some j)"
    then show "json_tokener_parse writer_library (json_to_string writer_library j) = Some j"
      unfolding writer_library_fill by (simp add: writer_library_def)
  qed (simp_all add: file_description_def pipeline_description_create_def)
  then show ?thesis by (simp add: writer_library_def json_instance_def)
qed

end
