(* ===== verification/PipelineDialog.thy ===== *)
theory PipelineDialog imports PipelineWriter SystemDialog begin

section \<open>The dialog for one pipeline\<close>

text \<open>
  \<^verbatim>\<open>description/examples/pipeline_big_json.c\<close>: a program that asks for a pipeline on the terminal, saves it as JSON, reads the file again
  and prints what it holds. Its dialog is the one \<^verbatim>\<open>SystemDialog\<close> has for the library, but here the scanner of a module stores its
  object where the caller looks for it. As there, \<open>None\<close> is a call that waits for more input; standard output is a list of lines.
\<close>

subsection \<open>The dialog\<close>

text \<open>The questions of \<open>scan_module_json\<close> are those of the library; the object is stored behind the pointer.\<close>

definition scan_module_into :: "'j json_ops \<Rightarrow> int \<Rightarrow> string \<Rightarrow> ('j option \<times> string) option" where
  "scan_module_into J junk inp = map_option (\<lambda>(jobj, inp). (Some jobj, inp)) (scan_module_json J junk inp)"

function scan_modules_into :: "'j json_ops \<Rightarrow> int \<Rightarrow> 'j \<Rightarrow> string \<Rightarrow> ('j \<times> string) option" where
  "scan_modules_into J junk jarr inp = do {
     (str, inp) \<leftarrow> scan_word inp;
     (jarr, inp) \<leftarrow>
       (if is_yes str
        then do {
          (jobj, inp) \<leftarrow> scan_module_into J junk inp;
          Some (case jobj of Some j \<Rightarrow> (json_array_add J jarr j, inp) | None \<Rightarrow> (jarr, inp)) }
        else Some (jarr, inp));
     if is_no str then Some (jarr, inp) else scan_modules_into J junk jarr inp }"
  by pat_completeness auto

termination
  by (relation "measure (\<lambda>(J, junk, jarr, inp). length inp)")
    (auto simp: scan_module_into_def dest!: scan_word_shrinks(1) scan_module_shrinks split: if_splits bind_splits)

declare scan_modules_into.simps [simp del]

text \<open>The pipeline after a \<open>N\<close>; \<open>has_config\<close> is 0 there, and \<open>junk\<close> is also the uninitialised number.\<close>

definition scan_pl_part :: "'j json_ops \<Rightarrow> int \<Rightarrow> string \<Rightarrow> ('j \<times> string) option" where
  "scan_pl_part J junk inp = do {
     (str, inp) \<leftarrow> scan_word inp;
     let pl_jobj = json_object_add J (json_new_object J) ''id_string'' (Some (json_new_string J str));
     (str, inp) \<leftarrow> scan_word inp;
     (str, inp) \<leftarrow> scan_shmpath str inp;
     (pl_jobj, inp) \<leftarrow>
       (if length str > 1
        then do {
          let pl_jobj = json_object_add J pl_jobj ''shmem_segment_name'' (Some (json_new_string J str));
          (val, inp) \<leftarrow> scan_int junk inp;
          let pl_jobj = json_object_add J pl_jobj ''data_chunk_size'' (Some (json_new_int J val));
          (val, inp) \<leftarrow> scan_int val inp;
          Some (json_object_add J pl_jobj ''data_chunk_count'' (Some (json_new_int J val)), inp) }
        else Some (pl_jobj, inp));
     (m_jarr, inp) \<leftarrow> scan_modules_into J junk (json_new_array J) inp;
     Some (json_object_add J pl_jobj ''modules'' (Some m_jarr), inp) }"

definition scan_pl_json :: "'j json_ops \<Rightarrow> int \<Rightarrow> string \<Rightarrow> ('j \<times> string) option" where
  "scan_pl_json J junk inp =
     scan_part J ''pipeline_config'' ''pipeline'' (scan_pl_part J junk) (json_new_object J) inp"

subsection \<open>Printing\<close>

text \<open>\<open>%s\<close> of a missing string prints \<open>(null)\<close>.\<close>

definition print_int_field :: "'j json_ops \<Rightarrow> 'j option \<Rightarrow> string \<Rightarrow> string \<Rightarrow> string" where
  "print_int_field J jobj key title =
     (case json_get J jobj key of None \<Rightarrow> [] | Some c \<Rightarrow> title @ dec_int (json_get_int J c) @ [NL])"

definition print_string_field :: "'j json_ops \<Rightarrow> 'j option \<Rightarrow> string \<Rightarrow> string \<Rightarrow> string" where
  "print_string_field J jobj key title =
     (case json_get J jobj key of None \<Rightarrow> [] | Some c \<Rightarrow> title @ json_get_string J c @ [NL])"

definition TAB :: char where "TAB = CHR 0x09"

definition print_module :: "'j json_ops \<Rightarrow> 'j option \<Rightarrow> string" where
  "print_module J module_json =
     (if module_json = None then []
      else print_int_field J module_json ''id'' (TAB # ''id: '') @
        print_string_field J module_json ''name'' (TAB # ''name: '') @
        (let current = json_get J module_json ''parameters'' in
         case current of
           None \<Rightarrow> []
         | Some arr \<Rightarrow>
             if json_is_array J current
             then [TAB, TAB] @ ''Found '' @ dec_int (int (length (json_items J arr))) @ '' parameters: '' @
               concat (map (\<lambda>param. case param of None \<Rightarrow> [] | Some p \<Rightarrow> json_get_string J p @ '' '') (json_items J arr)) @ [NL]
             else []) @
        print_string_field J module_json ''type'' (TAB # ''type: '') @
        (case json_get J module_json ''next'' of
           None \<Rightarrow> TAB # ''next: '' @ dec_int (-1) @ [NL]
         | Some c \<Rightarrow> TAB # ''next: '' @ dec_int (json_get_int J c) @ [NL]))"

definition print_modules :: "'j json_ops \<Rightarrow> 'j option \<Rightarrow> string" where
  "print_modules J modules_json =
     (case modules_json of
        None \<Rightarrow> []
      | Some arr \<Rightarrow>
          if json_is_array J modules_json
          then ''Found '' @ dec_int (int (length (json_items J arr))) @ '' modules'' @ [NL] @
            concat (map (\<lambda>(i, m). ''['' @ dec_int (int i) @ '']: '' @ print_module J m) (enumerate 0 (json_items J arr)))
          else [])"

definition print_pl :: "'j json_ops \<Rightarrow> 'j option \<Rightarrow> string" where
  "print_pl J pl_json =
     print_string_field J pl_json ''id_string'' ''id_string: '' @
     print_string_field J pl_json ''shmem_segment_name'' ''shmem_segment_name: '' @
     print_int_field J pl_json ''data_chunk_size'' ''data_chunk_size: '' @
     print_int_field J pl_json ''data_chunk_count'' ''data_chunk_count: '' @
     print_modules J (json_get J pl_json ''modules'')"

subsection \<open>The program\<close>

text \<open>
  \<open>test_read_json\<close>: the text it prints before the pipeline's own JSON, and whether it can give its objects back.
  \<open>json_object_object_get_ex\<close> lends an object that stays in the one it was found in; giving back what was only lent frees it
  under its owner, who gives it back again.
\<close>

definition test_read_json :: "'j json_ops \<Rightarrow> string \<Rightarrow> string \<times> bool" where
  "test_read_json J fname =
     (let jobj = json_from_file J fname;
          pl_config_json = json_get J jobj ''pipeline_config'';
          lent = json_get J jobj ''pipeline'';
          pl_json = (if lent = None \<and> pl_config_json \<noteq> None
            then Option.bind pl_config_json (\<lambda>c. json_from_file J (json_get_string J c)) else lent)
      in (''Pipeline config: '' @ (case pl_config_json of None \<Rightarrow> ''(null)'' | Some c \<Rightarrow> json_get_string J c) @ [NL] @ ''---'' @ [NL] @
            print_pl J pl_json,
          lent = None \<and> pl_config_json = None))"

text \<open>\<open>main\<close>: the dialog, whose object becomes the content of the file, and the reading.\<close>

definition big_json_main :: "'j json_ops \<Rightarrow> int \<Rightarrow> string \<Rightarrow> string \<Rightarrow> (string \<times> bool) option" where
  "big_json_main J junk fname inp = do {
     (pl_json, rest) \<leftarrow> scan_pl_json J junk inp;
     Some (test_read_json (J\<lparr>json_from_file := (json_from_file J)(fname \<mapsto> pl_json)\<rparr>) fname) }"

text \<open>
  \<open>get_parsed_json\<close>, which \<open>main\<close> does not use: the file is mapped into memory, where zeros follow it up to the end of its last page
  (4096 bytes), and the mapping is parsed as a string. A file that cannot be opened or is empty, which cannot be mapped, ends the program.
\<close>

datatype 'j mapped_file = ExitsProgram | Parsed "'j option"

definition get_parsed_json :: "'j json_ops \<Rightarrow> string option \<Rightarrow> 'j mapped_file option" where
  "get_parsed_json J file =
     (case file of
        None \<Rightarrow> Some ExitsProgram
      | Some content \<Rightarrow>
          if content = [] then Some ExitsProgram
          else do {
            str \<leftarrow> cstr (content @ replicate ((4096 - length content mod 4096) mod 4096) NUL);
            Some (Parsed (json_tokener_parse J str)) })"

subsection \<open>What is typed\<close>

definition word_ok :: "string \<Rightarrow> bool" where
  "word_ok w \<longleftrightarrow> w \<noteq> [] \<and> (\<forall>c \<in> set w. \<not> is_space c)"

definition line :: "string \<Rightarrow> string" where "line w = w @ [NL]"

fun typed_words :: "string list \<Rightarrow> string" where
  "typed_words [] = []"
| "typed_words [w] = line w"
| "typed_words (w # ws) = w @ CHR '' '' # typed_words ws"

text \<open>The answers for a module: its number, name, parameters, type, the number of the next module, the name of a file.\<close>

definition typed_module :: "string \<Rightarrow> pipeline_module_info \<Rightarrow> string" where
  "typed_module config m = line ''yes'' @ line (dec_int (minfo_id m)) @ line (hd (the (minfo_argv m))) @
     typed_words (tl (the (minfo_argv m))) @ line (the (get_type_str (minfo_type m))) @ line (dec_int (minfo_next m)) @ line config"

definition typed_pipeline :: "string \<Rightarrow> string \<Rightarrow> string \<Rightarrow> int \<Rightarrow> int \<Rightarrow> pipeline_module_info list \<Rightarrow> string" where
  "typed_pipeline config id_string path chunk_size cnt ms = line ''no'' @ line id_string @ line path @ line (dec_int chunk_size) @
     line (dec_int cnt) @ concat (map (typed_module config) ms) @ line ''no''"

definition typeable :: "pipeline_module_info \<Rightarrow> bool" where
  "typeable m \<longleftrightarrow> writable m \<and> (\<exists>name args. minfo_argv m = Some (name # args) \<and> args \<noteq> [] \<and> (\<forall>w \<in> set (name # args). word_ok w))"

subsection \<open>Library\<close>

lemma is_space_NL: "is_space NL" and is_space_blank: "is_space (CHR '' '')"
  by (simp_all add: is_space_def NL_def)

text \<open>Reading one typed answer, after at most the white space left by the last one.\<close>

definition spaces :: "string \<Rightarrow> bool" where "spaces sp \<longleftrightarrow> (\<forall>c \<in> set sp. is_space c)"

lemma spaces_simps [simp]: "spaces []" "spaces [NL]" "is_space c \<Longrightarrow> spaces [c]"
  by (simp_all add: spaces_def is_space_NL)

lemma dropWhile_spaces: "spaces sp \<Longrightarrow> \<not> is_space c \<Longrightarrow> dropWhile is_space (sp @ c # s) = c # s"
  by (induction sp) (simp_all add: spaces_def)

lemma scan_word_typed:
  assumes "spaces sp" "word_ok w" "is_space c"
  shows "scan_word (sp @ w @ c # rest) = Some (w, c # rest)"
proof -
  obtain x xs where w: "w = x # xs" "\<not> is_space x" using assms(2) by (cases w) (auto simp: word_ok_def)
  have d: "dropWhile is_space (sp @ w @ c # rest) = w @ c # rest" using dropWhile_spaces [OF assms(1) w(2)] by (simp add: w(1))
  have n: "\<forall>y \<in> set w. \<not> is_space y" using assms(2) by (simp add: word_ok_def)
  then have "dropWhile (\<lambda>c. \<not> is_space c) (w @ c # rest) = c # rest" "takeWhile (\<lambda>c. \<not> is_space c) (w @ c # rest) = w"
    using assms(3) by (induction w) simp_all
  then show ?thesis using assms(3) unfolding scan_word_def d Let_def by simp
qed

lemma scan_digits_stop: "\<not> is_digit c \<Longrightarrow> scan_digits acc (ds @ c # rest) = scan_digits acc ds"
  by (induction ds arbitrary: acc) simp_all

lemma scan_nat_typed: "scan_nat (dec_nat n @ c # rest) = Some n" if "\<not> is_digit c"
proof -
  obtain x xs where x: "dec_nat n = x # xs" "is_digit x"
    using dec_nat_nonempty [of n] dec_nat_digits [of n] by (cases "dec_nat n") auto
  then show ?thesis using scan_digits_stop [OF that, of 0 "dec_nat n" rest] scan_digits_dec_nat [of n] by (simp add: scan_nat_def)
qed

lemma space_no_digit: "is_space c \<Longrightarrow> \<not> is_digit c"
  using digit_not_special by blast

text \<open>A printed number, as a sign and digits.\<close>

lemma dec_int_typed:
  assumes "\<not> is_digit c"
  obtains x xs where "dec_int i @ c # rest = x # xs" "\<not> is_space x"
    "(if x = CHR ''+'' \<or> x = CHR ''-'' then xs else x # xs) = dec_nat (nat \<bar>i\<bar>) @ c # rest" "x = CHR ''-'' \<longleftrightarrow> i < 0" "x \<noteq> CHR ''+''"
proof -
  obtain y ys where y: "dec_nat (nat \<bar>i\<bar>) = y # ys" "\<not> is_space y" "y \<noteq> CHR ''-''" "y \<noteq> CHR ''+''"
    using dec_nat_nonempty [of "nat \<bar>i\<bar>"] dec_nat_digits [of "nat \<bar>i\<bar>"] digit_not_special
    by (cases "dec_nat (nat \<bar>i\<bar>)") auto
  show thesis
  proof (cases "i < 0")
    case True
    have "\<not> is_space (CHR ''-'')" by (simp add: is_space_def)
    then show thesis using True by (intro that [of "CHR ''-''"]) (simp_all add: dec_int_def)
  next
    case False
    then show thesis using y by (intro that [of y]) (simp_all add: dec_int_def)
  qed
qed

lemma scan_int_typed:
  assumes "spaces sp" "- (2 ^ 31) \<le> i" "i < 2 ^ 31" "is_space c"
  shows "scan_int old (sp @ dec_int i @ c # rest) = Some (i, c # rest)"
proof -
  have nd: "\<not> is_digit c" by (rule space_no_digit [OF assms(4)])
  obtain x xs where x: "dec_int i @ c # rest = x # xs" "\<not> is_space x"
    "(if x = CHR ''+'' \<or> x = CHR ''-'' then xs else x # xs) = dec_nat (nat \<bar>i\<bar>) @ c # rest" "x = CHR ''-'' \<longleftrightarrow> i < 0" "x \<noteq> CHR ''+''"
    using dec_int_typed [OF nd] by blast
  have s: "dropWhile is_space (sp @ x # xs) = x # xs" "dropWhile is_space (x # xs) = x # xs"
    using dropWhile_spaces [OF assms(1) x(2)] x(2) by simp_all
  have n: "scan_nat (dec_nat (nat \<bar>i\<bar>) @ c # rest) = Some (nat \<bar>i\<bar>)" by (rule scan_nat_typed [OF nd])
  have sg: "scan_signed (x # xs) = Some (i < 0, nat \<bar>i\<bar>)"
    using n x(2-5) by (auto simp: scan_signed_def split: if_splits)
  have "sint (word_of_int i :: u32) = i" using assms(2,3) by (simp add: sint_sbintrunc' signed_take_bit_int_eq_self)
  then have v: "scan_d (x # xs) = Some i"
    using assms(2,3) by (auto simp: scan_d_def sg max_def min_def)
  have "dropWhile is_digit (dec_nat (nat \<bar>i\<bar>) @ c # rest) = c # rest"
    using dec_nat_digits [of "nat \<bar>i\<bar>"] nd by (simp add: dropWhile_append2)
  then show ?thesis using v x(3) unfolding x(1) scan_int_def Let_def s by simp
qed

text \<open>The parameters up to the end of their line.\<close>

lemma scan_parameters_typed:
  assumes "json_laws J"
  shows "ws \<noteq> [] \<Longrightarrow> \<forall>w \<in> set ws. word_ok w \<Longrightarrow> spaces sp \<Longrightarrow>
    scan_parameters J jarr (sp @ typed_words ws @ rest) = Some (add_parameters J ws jarr, rest)"
proof (induction ws arbitrary: jarr sp rule: typed_words.induct)
  case (2 w)
  then have "scan_word (sp @ w @ NL # rest) = Some (w, NL # rest)" by (intro scan_word_typed) (simp_all add: is_space_NL)
  then show ?case by (subst scan_parameters.simps) (simp add: line_def add_parameters_def)
next
  case (3 w v ws)
  then have "scan_word (sp @ w @ CHR '' '' # typed_words (v # ws) @ rest) = Some (w, CHR '' '' # typed_words (v # ws) @ rest)"
    by (intro scan_word_typed) (simp_all add: is_space_blank)
  moreover have "CHR '' '' \<noteq> NL" by (simp add: NL_def)
  moreover have "scan_parameters J (json_array_add J jarr (json_new_string J w)) ([] @ typed_words (v # ws) @ rest) =
      Some (add_parameters J (v # ws) (json_array_add J jarr (json_new_string J w)), rest)"
    using "3.prems" by (intro "3.IH") simp_all
  ultimately show ?case by (subst scan_parameters.simps) (simp add: add_parameters_def)
qed simp

lemma type_words: "word_ok ''FIRST''" "word_ok ''MIDDLE''" "word_ok ''LAST''" "word_ok ''yes''" "word_ok ''no''"
  by (simp_all add: word_ok_def is_space_def)

text \<open>The object of a typed module is parsed to the module.\<close>

lemma scan_module_typed:
  assumes J: "json_laws J" and m: "typeable m" and config: "word_ok config"
  obtains answers jobj where "\<And>sp. spaces sp \<Longrightarrow> scan_word (sp @ typed_module config m @ rest) = Some (''yes'', NL # answers)"
    "scan_module_json J junk (NL # answers) = Some (jobj, NL # rest)"
    "parse_module_json J (Some jobj) None = Some (Some m)"
proof -
  obtain name args where a: "minfo_argv m = Some (name # args)" "args \<noteq> []" "word_ok name" "\<forall>w \<in> set args. word_ok w"
    using m by (auto simp: typeable_def)
  obtain ty where ty: "get_type_str (minfo_type m) = Some ty" "word_ok ty"
    using m type_words by (auto simp: typeable_def writable_def get_type_str_def mt_defs)
  have r: "minfo_mode m = MT_MODE_EXTERNAL" "- (2 ^ 31) \<le> minfo_id m" "minfo_id m < 2 ^ 31"
    "- (2 ^ 31) \<le> minfo_next m" "minfo_next m < 2 ^ 31"
    using m a(1) by (simp_all add: typeable_def writable_def)
  let ?t5 = "line config @ rest" and ?t4 = "line (dec_int (minfo_next m)) @ line config @ rest"
  let ?t3 = "line ty @ line (dec_int (minfo_next m)) @ line config @ rest"
  let ?t2 = "typed_words args @ line ty @ line (dec_int (minfo_next m)) @ line config @ rest"
  let ?t1 = "line name @ typed_words args @ line ty @ line (dec_int (minfo_next m)) @ line config @ rest"
  let ?t = "line (dec_int (minfo_id m)) @ line name @ typed_words args @ line ty @ line (dec_int (minfo_next m)) @ line config @ rest"
  have t: "typed_module config m @ rest = ''yes'' @ NL # ?t" by (simp add: typed_module_def a(1) ty(1) line_def)
  have y: "scan_word (sp @ typed_module config m @ rest) = Some (''yes'', NL # ?t)" if "spaces sp" for sp
    unfolding t by (rule scan_word_typed [OF that type_words(4) is_space_NL])
  show thesis
  proof (rule that [OF y])
    let ?arr = "add_parameters J args (json_new_array J)"
    let ?j = "json_object_add J (json_object_add J (json_object_add J (json_object_add J (json_object_add J (json_object_add J
        (json_new_object J) ''id'' (Some (json_new_int J (minfo_id m)))) ''name'' (Some (json_new_string J name)))
        ''parameters'' (Some ?arr)) ''type'' (Some (json_new_string J ty))) ''next'' (Some (json_new_int J (minfo_next m))))
        ''config'' (Some (json_new_string J config))"
    have s: "scan_int junk ([NL] @ dec_int (minfo_id m) @ NL # ?t1) = Some (minfo_id m, NL # ?t1)"
      "scan_word ([NL] @ name @ NL # ?t2) = Some (name, NL # ?t2)"
      "scan_parameters J (json_new_array J) ([NL] @ ?t2) = Some (?arr, ?t3)"
      "scan_word ([] @ ty @ NL # ?t4) = Some (ty, NL # ?t4)"
      "scan_int (minfo_id m) ([NL] @ dec_int (minfo_next m) @ NL # ?t5) = Some (minfo_next m, NL # ?t5)"
      "scan_word ([NL] @ config @ NL # rest) = Some (config, NL # rest)"
      by (rule scan_int_typed scan_word_typed scan_parameters_typed [OF J]; use r in \<open>simp add: a ty config is_space_NL\<close>)+
    show "scan_module_json J junk (NL # ?t) = Some (?j, NL # rest)"
      using s by (simp add: scan_module_json_def line_def Let_def)
    have "json_is_array J (Some ?arr)" "json_items J ?arr = map (\<lambda>s. Some (json_new_string J s)) args"
      using add_parameters_items [OF J json_lawsD(7) [OF J]] json_lawsD(8) [OF J] by simp_all
    then show "parse_module_json J (Some ?j) None = Some (Some m)"
      using a(1) r get_type_val_str [OF ty(1)]
      by (cases m) (simp add: parse_module_json_def Let_def zero_module_info_def json_lawsD(2-5) [OF J] parse_parameters_strings [OF J])
  qed
qed

lemma scan_modules_typed:
  assumes J: "json_laws J" and config: "word_ok config"
  shows "list_all typeable ms \<Longrightarrow> spaces sp \<Longrightarrow> json_is_array J (Some jarr) \<Longrightarrow> parse_module_list J (json_items J jarr) = Some done \<Longrightarrow>
    \<exists>arr. scan_modules_into J junk jarr (sp @ concat (map (typed_module config) ms) @ line ''no'' @ rest) = Some (arr, NL # rest) \<and>
      json_is_array J (Some arr) \<and> length (json_items J arr) = length (json_items J jarr) + length ms \<and>
      parse_module_list J (json_items J arr) = Some (done @ map Some ms)"
proof (induction ms arbitrary: sp jarr "done")
  case Nil
  then have "scan_word (sp @ ''no'' @ NL # rest) = Some (''no'', NL # rest)"
    by (intro scan_word_typed) (simp_all add: is_space_NL type_words)
  then show ?case using Nil by (subst scan_modules_into.simps) (simp add: line_def is_yes_def is_no_def)
next
  case (Cons m ms)
  let ?rest = "concat (map (typed_module config) ms) @ line ''no'' @ rest"
  have m: "typeable m" "list_all typeable ms" using Cons.prems(1) by simp_all
  obtain answers jobj where j: "\<And>sp. spaces sp \<Longrightarrow> scan_word (sp @ typed_module config m @ ?rest) = Some (''yes'', NL # answers)"
    "scan_module_json J junk (NL # answers) = Some (jobj, NL # ?rest)"
    "parse_module_json J (Some jobj) None = Some (Some m)"
    using scan_module_typed [OF J m(1) config] by blast
  have items: "json_items J (json_array_add J jarr jobj) = json_items J jarr @ [Some jobj]" by (rule json_lawsD(10) [OF J])
  have p: "parse_module_list J (json_items J (json_array_add J jarr jobj)) = Some (done @ [Some m])"
    by (simp add: items parse_module_list_append Cons.prems(4) j(3))
  obtain arr where arr: "scan_modules_into J junk (json_array_add J jarr jobj) ([NL] @ ?rest) = Some (arr, NL # rest)"
    "json_is_array J (Some arr)" "length (json_items J arr) = length (json_items J (json_array_add J jarr jobj)) + length ms"
    "parse_module_list J (json_items J arr) = Some ((done @ [Some m]) @ map Some ms)"
    using Cons.IH [OF m(2) _ json_lawsD(9) [OF J Cons.prems(3)] p, of "[NL]"] by auto
  have "scan_modules_into J junk jarr (sp @ typed_module config m @ ?rest) = Some (arr, NL # rest)"
    using j(1) [OF Cons.prems(2)] j(2) arr(1) by (subst scan_modules_into.simps) (simp add: scan_module_into_def is_yes_def is_no_def)
  then show ?case using arr(2-4) by (simp add: items)
qed

lemma scan_pl_part_typed:
  assumes J: "json_laws J" and words: "word_ok config" "word_ok id_string" "word_ok path"
    and path: "hd path = CHR ''/''" "length path > 1"
    and r: "- (2 ^ 31) \<le> chunk_size" "chunk_size < 2 ^ 31" "- (2 ^ 31) \<le> cnt" "cnt < 2 ^ 31"
    and ms: "list_all typeable ms"
  obtains p where "scan_pl_part J junk (NL # line id_string @ line path @ line (dec_int chunk_size) @ line (dec_int cnt) @
      concat (map (typed_module config) ms) @ line ''no'') = Some (p, [NL])"
    "parse_pipeline_json J (Some p) (Some pipeline_description_create) = Some (0, Some (described (Some id_string) path chunk_size cnt ms))"
proof -
  let ?t4 = "concat (map (typed_module config) ms) @ line ''no''"
  let ?t3 = "line (dec_int cnt) @ ?t4" and ?t2 = "line (dec_int chunk_size) @ line (dec_int cnt) @ ?t4"
  let ?t1 = "line path @ line (dec_int chunk_size) @ line (dec_int cnt) @ ?t4"
  have s: "scan_word ([NL] @ id_string @ NL # ?t1) = Some (id_string, NL # ?t1)"
    "scan_word ([NL] @ path @ NL # ?t2) = Some (path, NL # ?t2)"
    "scan_int junk ([NL] @ dec_int chunk_size @ NL # ?t3) = Some (chunk_size, NL # ?t3)"
    "scan_int chunk_size ([NL] @ dec_int cnt @ NL # ?t4) = Some (cnt, NL # ?t4)"
    by (rule scan_int_typed scan_word_typed; use r in \<open>simp add: words is_space_NL\<close>)+
  have sh: "scan_shmpath path inp = Some (path, inp)" for inp
    using path by (subst scan_shmpath.simps) auto
  obtain arr where arr: "scan_modules_into J junk (json_new_array J) ([NL] @ ?t4) = Some (arr, [NL])"
    "json_is_array J (Some arr)" "length (json_items J arr) = length ms" "parse_module_list J (json_items J arr) = Some (map Some ms)"
    using scan_modules_typed [OF J words(1) ms, of "[NL]" "json_new_array J" "[]" junk "[]"] json_lawsD(7,8) [OF J] by auto
  let ?p = "json_object_add J (json_object_add J (json_object_add J (json_object_add J (json_object_add J (json_new_object J)
      ''id_string'' (Some (json_new_string J id_string))) ''shmem_segment_name'' (Some (json_new_string J path)))
      ''data_chunk_size'' (Some (json_new_int J chunk_size))) ''data_chunk_count'' (Some (json_new_int J cnt))) ''modules'' (Some arr)"
  have "parse_pipeline_json J (Some ?p) (Some pipeline_description_create) = Some (0, Some (described (Some id_string) path chunk_size cnt ms))"
    by (rule parse_described [OF J r arr(2-4)]) (simp_all add: json_lawsD(2,3) [OF J])
  moreover have "scan_pl_part J junk (NL # line id_string @ ?t1) = Some (?p, [NL])"
    using s sh path(2) arr(1) by (simp add: scan_pl_part_def line_def Let_def)
  ultimately show thesis by (intro that [of ?p]) simp_all
qed

subsection \<open>Properties\<close>


text \<open>The program always gives back an object that was only lent to it: whatever is typed, a dialog that ends has named a file or
  holds a pipeline, and the reader frees either under the object it is in.\<close>

theorem dialog_object_freed_twice:
  assumes "json_laws J" "big_json_main J junk fname inp = Some (text, ok)"
  shows "\<not> ok"
proof -
  obtain jobj rest where j: "scan_pl_json J junk inp = Some (jobj, rest)"
    "(text, ok) = test_read_json (J\<lparr>json_from_file := (json_from_file J)(fname \<mapsto> jobj)\<rparr>) fname"
    using assms(2) by (auto simp: big_json_main_def split: bind_splits)
  have "json_get J (Some jobj) ''pipeline_config'' \<noteq> None \<or> json_get J (Some jobj) ''pipeline'' \<noteq> None"
    using scan_part_result(2) [OF assms(1) j(1) [unfolded scan_pl_json_def] json_lawsD(11) [OF assms(1)]]
    by (auto simp: json_lawsD(3) [OF assms(1)])
  then show ?thesis using j(2) by (auto simp: test_read_json_def Let_def)
qed

text \<open>Exactly which files are read past their mapping: those that fill their last page and hold no NUL.\<close>

theorem mapped_file_undefined_iff:
  "get_parsed_json J content = None \<longleftrightarrow>
     (case content of None \<Rightarrow> False | Some s \<Rightarrow> s \<noteq> [] \<and> NUL \<notin> set s \<and> 4096 dvd length s)"
proof (cases content)
  case (Some s)
  have "(4096 - r) mod 4096 = 0 \<longleftrightarrow> r = 0" if "r < 4096" for r :: nat using that by (cases "r = 0") simp_all
  then have "(4096 - n mod 4096) mod 4096 = 0 \<longleftrightarrow> 4096 dvd n" for n :: nat by (simp add: dvd_eq_mod_eq_0)
  then show ?thesis using Some by (auto simp: get_parsed_json_def cstr_def)
qed (simp add: get_parsed_json_def)

subsection \<open>Witnesses\<close>

definition answered_module :: pipeline_module_info where
  "answered_module = \<lparr>minfo_id = 0, minfo_type = MT_FIRST, minfo_mode = MT_MODE_EXTERNAL, minfo_next = -1, minfo_argv = Some [''mod'', ''-v'', ''x'']\<rparr>"

lemma answered_typeable: "list_all typeable [answered_module]" "word_ok ''pl''" "word_ok ''/pl''" "word_ok ''-''"
  by (simp_all add: typeable_def writable_def answered_module_def mt_defs word_ok_def is_space_def)


theorem dialog_object_freed_twice_witness:
  "\<exists>printed. big_json_main (json_instance (\<lambda>f. None)) 0 ''out'' (''Y pl.json'' @ [NL]) = Some (printed, False)"
proof -
  have d: "scan_pl_json (json_instance (\<lambda>f. None)) 0 (''Y pl.json'' @ [NL]) \<noteq> None"
    by (simp add: scan_pl_json_def scan_part_def scan_answer.simps scan_word_def is_yes_def is_no_def is_space_def NL_def)
  then have "big_json_main (json_instance (\<lambda>f. None)) 0 ''out'' (''Y pl.json'' @ [NL]) \<noteq> None"
    by (auto simp: big_json_main_def split: bind_splits)
  then obtain printed ok where m: "big_json_main (json_instance (\<lambda>f. None)) 0 ''out'' (''Y pl.json'' @ [NL]) = Some (printed, ok)"
    by (metis option.exhaust surj_pair)
  from dialog_object_freed_twice [OF json_instance_laws this] m show ?thesis by simp
qed

end
