(* ===== verification/StandaloneCollector.thy ===== *)
theory StandaloneCollector imports Collector SystemJson Decimal begin

section \<open>A collector without a pipeline\<close>

text \<open>
  \<^verbatim>\<open>collector/examples/simple_collector_json.c\<close> and \<^verbatim>\<open>simple_collector.c\<close>: programs that set up a collector and take its objects
  themselves, one after the other, and the callbacks for frames that they share with \<^verbatim>\<open>dclcomponents/examples_c/first_block.c\<close>. The
  loop is a function of what it sees of the collector's thread, the exit flag at the head of each action; the wait for an object
  is over when the thread has posted it. What is asked of the object storage is a list of calls; names are generated by the
  \<^verbatim>\<open>misc\<close> library and are arguments.
\<close>

subsection \<open>Calls of the storage\<close>

datatype storage_call =
    DestroyStorage string | InitStorage string u64 | NewObject string string int | AnalyzeObject string string | FreeObject string string
  | AddFrame string string int int

text \<open>
  \<open>sl_memory\<close> are the 512 chunks for names that the collector has, \<open>sl_data\<close> the string in the array of \<open>main\<close>.
\<close>

record 'r standalone =
  sl_collector :: "'r data_collector"
  sl_memory :: string
  sl_data :: string
  sl_status :: int
  sl_calls :: "storage_call list"

subsection \<open>The two actions\<close>

definition collector_action :: "'r ring_ops \<Rightarrow> int \<Rightarrow> string \<Rightarrow> 'r standalone \<Rightarrow> 'r standalone option" where
  "collector_action R exit_flag name s = do {
     let c = sl_collector s;
     empty_ready \<leftarrow> co_empty_ready c;
     if exit_flag \<noteq> 0
     then Some (s\<lparr>sl_collector := c\<lparr>co_empty_ready := Some (Suc empty_ready)\<rparr>, sl_status := 0\<rparr>)
     else do {
       mem \<leftarrow> region_write (sl_memory s) (unat (co_dataoffset c)) (co_data c @ [NUL]);
       let c = c\<lparr>co_data_ring := ring_push R (co_data_ring c) (co_dataoffset c),
         co_dataoffset := (co_dataoffset c + co_chunk_size c) mod (co_chunk_cnt c * co_chunk_size c)\<rparr>;
       obj_name \<leftarrow> strcpy_buf 256 name;
       let calls = sl_calls s @ [NewObject (co_boost_path c) obj_name (co_sources_cnt c)];
       data \<leftarrow> strcpy_buf MAX_SHMEM_NAME_LEN obj_name;
       Some (s\<lparr>sl_collector := c\<lparr>co_data := data, co_empty_ready := Some (Suc empty_ready)\<rparr>, sl_memory := mem, sl_calls := calls,
         sl_status := 0\<rparr>) } }"

text \<open>The oldest name of the ring; from an empty ring \<open>ring_buffer_pop\<close> does not return.\<close>

definition after_collector_action :: "'r ring_ops \<Rightarrow> 'r standalone \<Rightarrow> 'r standalone call_result option" where
  "after_collector_action R s =
     (case ring_pop R (co_data_ring (sl_collector s)) of
        None \<Rightarrow> Some Hangs
      | Some (dataoffset, ring) \<Rightarrow> do {
          obj_name \<leftarrow> cstr (drop (unat dataoffset) (sl_memory s));
          let s = s\<lparr>sl_collector := (sl_collector s)\<lparr>co_data_ring := ring\<rparr>\<rparr>;
          if length obj_name > 0
          then do {
            data \<leftarrow> strcpy_buf 256 obj_name;
            Some (Returns (s\<lparr>sl_data := data, sl_status := 0\<rparr>)) }
          else Some (Returns (s\<lparr>sl_status := 1\<rparr>)) })"

subsection \<open>The programs\<close>

text \<open>One round for each pair of the exit flag and the next name; the result is the state after these rounds.\<close>

fun standalone_rounds :: "'r ring_ops \<Rightarrow> (int \<times> string) list \<Rightarrow> 'r standalone \<Rightarrow> 'r standalone call_result option" where
  "standalone_rounds R [] s = Some (Returns s)"
| "standalone_rounds R ((exit_flag, name) # rounds) s = do {
     s \<leftarrow> collector_action R exit_flag name s;
     r \<leftarrow> after_collector_action R s;
     (case r of
        Hangs \<Rightarrow> Some Hangs
      | Returns s \<Rightarrow>
          let path = co_boost_path (sl_collector s) in
          standalone_rounds R rounds (s\<lparr>sl_calls := sl_calls s @ [AnalyzeObject path (sl_data s), FreeObject path (sl_data s)]\<rparr>)) }"

text \<open>The callbacks of every source: frames are added to the object and saved.\<close>

fun set_saving :: "nat \<Rightarrow> nat \<Rightarrow> data_source option list \<Rightarrow> data_source option list option" where
  "set_saving i 0 srcs = Some srcs"
| "set_saving i (Suc n) srcs =
     (if i < length srcs then do {
        s \<leftarrow> srcs ! i;
        set_saving (Suc i) n (srcs[i := Some (s\<lparr>so_detect := None, so_add := True, so_save := True\<rparr>)]) }
      else None)"

definition standalone_start :: "string \<Rightarrow> string \<Rightarrow> 'r data_collector \<Rightarrow> 'r standalone option" where
  "standalone_start memory name c = do {
     srcs \<leftarrow> set_saving 0 (nat (co_sources_cnt c)) (co_sources c);
     data \<leftarrow> strcpy_buf MAX_SHMEM_NAME_LEN name;
     let c = c\<lparr>co_sources := srcs, co_data := data\<rparr>;
     Some \<lparr>sl_collector = c, sl_memory = memory, sl_data = [], sl_status = 0,
       sl_calls = (if co_use_boost_shmem c \<noteq> 0
         then [DestroyStorage (co_boost_path c), InitStorage (co_boost_path c) (co_boost_size c),
           NewObject (co_boost_path c) data (co_sources_cnt c)] else [])\<rparr> }"

text \<open>
  \<open>main\<close> of \<open>simple_collector_json.c\<close> with the name of a configuration, over its first rounds. A collector that could not be set up is
  reported and then used.
\<close>

definition standalone_main ::
  "'j json_ops \<Rightarrow> 'r ring_ops \<Rightarrow> (nat \<Rightarrow> byte list) \<Rightarrow> data_source \<Rightarrow> (nat \<Rightarrow> source_answers) \<Rightarrow> bool \<Rightarrow> bool \<Rightarrow> 'r \<Rightarrow> string \<Rightarrow> string \<Rightarrow> string \<Rightarrow>
     (int \<times> string) list \<Rightarrow> 'r standalone call_result option" where
  "standalone_main J R junk fresh ans sem_data sem_empty ring memory config name rounds = do {
     desc \<leftarrow> parse_collector_json J (get_collector_json J (load_object_json J config)) collector_description_create;
     p \<leftarrow> collector_init junk fresh ans True sem_data sem_empty ring (Some desc);
     c \<leftarrow> p;
     s \<leftarrow> standalone_start memory name c;
     standalone_rounds R rounds s }"

text \<open>
  The description \<open>simple_collector.c\<close> makes instead of reading one: TCP senders on ports that go up by 10. \<open>fresh i\<close> is the memory
  of the new description of a source.
\<close>

fun create_test_sources :: "(nat \<Rightarrow> source_description) \<Rightarrow> nat list \<Rightarrow> source_description option list option" where
  "create_test_sources fresh [] = Some []"
| "create_test_sources fresh (i # is) = do {
     port \<leftarrow> strcpy_buf 11 (dec_int (9000 + int i * 10));
     d \<leftarrow> create_tcp_source_description (fresh i) ''localhost'' port None;
     ds \<leftarrow> create_test_sources fresh is;
     Some (Some d # ds) }"

definition create_test_collector_description :: "(nat \<Rightarrow> source_description) \<Rightarrow> int \<Rightarrow> collector_description option" where
  "create_test_collector_description fresh sources_cnt = do {
     ds \<leftarrow> create_test_sources fresh [0..<nat sources_cnt];
     path \<leftarrow> strcpy_buf MAX_SHMEM_NAME_LEN ''boostsegment'';
     size' \<leftarrow> calculate_boostmem_size sources_cnt (2048 * 2448 * 1) 1000;
     Some (collector_description_create\<lparr>cd_sources_cnt := sources_cnt, cd_sdescs := Some ds, cd_use_boost_shmem := 1,
       cd_boost_path := path, cd_boost_size := size'\<rparr>) }"

text \<open>Two cameras with their addresses, and 30 gigabytes for their objects.\<close>

definition create_demo_collector_description :: "(nat \<Rightarrow> source_description) \<Rightarrow> collector_description option" where
  "create_demo_collector_description fresh = do {
     d0 \<leftarrow> create_gige_source_description (fresh 0) ''10.0.0.2'' None;
     d1 \<leftarrow> create_gige_source_description (fresh 1) ''10.0.0.3'' None;
     path \<leftarrow> strcpy_buf MAX_SHMEM_NAME_LEN ''boostsegment'';
     Some (collector_description_create\<lparr>cd_sources_cnt := 2, cd_sdescs := Some [Some d0, Some d1], cd_use_boost_shmem := 1,
       cd_boost_path := path, cd_boost_size := 30000000000\<rparr>) }"

subsection \<open>Callbacks for frames\<close>

text \<open>The description of a source; the collector, the source and its description have to be there.\<close>

definition callback_source :: "'r data_collector \<Rightarrow> int \<Rightarrow> (data_source \<times> source_description) option" where
  "callback_source c source_id =
     (if 0 \<le> source_id \<and> nat source_id < length (co_sources c) then do {
        src \<leftarrow> co_sources c ! nat source_id;
        sdesc \<leftarrow> so_sdesc src;
        Some (src, sdesc) }
      else None)"

text \<open>\<open>add_frame_callback\<close>: the frame goes to the object whose name the source has.\<close>

definition add_frame_callback :: "'r data_collector option \<Rightarrow> int \<Rightarrow> int \<Rightarrow> storage_call list option" where
  "add_frame_callback p_collector source_id frame_id =
     (case p_collector of
        None \<Rightarrow> Some []
      | Some c \<Rightarrow> do {
          (src, sdesc) \<leftarrow> callback_source c source_id;
          Some [AddFrame (co_boost_path c) (so_data src) source_id frame_id] })"

text \<open>\<open>save_frame_callback\<close> of \<open>simple_collector_json.c\<close>: the name of the file it writes, if it writes one; \<open>postfix\<close> is generated.\<close>

definition save_frame_callback :: "'r data_collector option \<Rightarrow> int \<Rightarrow> string \<Rightarrow> string option option" where
  "save_frame_callback p_collector source_id postfix =
     (case p_collector of
        None \<Rightarrow> Some None
      | Some c \<Rightarrow> do {
          (src, sdesc) \<leftarrow> callback_source c source_id;
          if length (sd_output_path sdesc) < 1 then Some None
          else map_option Some (strcpy_buf 2048
            (sd_output_path sdesc @ ''/frame_'' @ dec_int source_id @ ''_'' @ postfix @ ''.bmp'')) })"

subsection \<open>Library\<close>

text \<open>The state between two rounds: an empty ring and room for the next name.\<close>

definition between_rounds :: "('r \<Rightarrow> u64 multiset) \<Rightarrow> 'r standalone \<Rightarrow> bool" where
  "between_rounds elems s \<longleftrightarrow>
     (let c = sl_collector s in
      elems (co_data_ring c) = {#} \<and> co_chunk_cnt c = 512 \<and> co_chunk_size c = 256 \<and> length (sl_memory s) = 512 * 256 \<and>
      256 dvd unat (co_dataoffset c) \<and> unat (co_dataoffset c) < 512 * 256 \<and> co_empty_ready c \<noteq> None \<and>
      length (co_data c) < 256 \<and> co_data c \<noteq> [] \<and> NUL \<notin> set (co_data c))"

definition name_ok :: "string \<Rightarrow> bool" where
  "name_ok n \<longleftrightarrow> length n < 256 \<and> n \<noteq> [] \<and> NUL \<notin> set n"

definition round_calls :: "string \<Rightarrow> int \<Rightarrow> string \<Rightarrow> string \<Rightarrow> storage_call list" where
  "round_calls path cnt current next = [NewObject path next cnt, AnalyzeObject path current, FreeObject path current]"

lemma next_offset:
  assumes "256 dvd unat (off :: u64)" "unat off < 512 * 256"
  shows "unat ((off + 256) mod (512 * 256)) < 512 * 256 \<and> 256 dvd unat ((off + 256) mod (512 * 256))"
proof -
  have "unat (off + 256) = unat off + 256" using assms(2) by (subst unat_add_small) simp_all
  then have "unat ((off + 256) mod (512 * 256)) = (unat off + 256) mod (512 * 256)" by (simp add: unat_mod_distrib)
  moreover have "256 dvd (unat off + 256) mod (512 * 256)" using assms(1) by (simp add: dvd_mod_iff)
  ultimately show ?thesis by simp
qed

lemma standalone_round:
  assumes R: "ring_laws R elems" and s: "between_rounds elems s" and n: "name_ok name"
  shows "\<exists>s1 s2. collector_action R 0 name s = Some s1 \<and> after_collector_action R s1 = Some (Returns s2) \<and> between_rounds elems s2 \<and>
    sl_data s2 = co_data (sl_collector s) \<and> co_data (sl_collector s2) = name \<and>
    co_boost_path (sl_collector s2) = co_boost_path (sl_collector s) \<and> co_sources_cnt (sl_collector s2) = co_sources_cnt (sl_collector s) \<and>
    sl_calls s2 = sl_calls s @ [NewObject (co_boost_path (sl_collector s)) name (co_sources_cnt (sl_collector s))]"
proof -
  let ?c = "sl_collector s"
  obtain v where v: "co_empty_ready ?c = Some v" using s by (auto simp: between_rounds_def Let_def)
  have c: "elems (co_data_ring ?c) = {#}" "co_chunk_cnt ?c = 512" "co_chunk_size ?c = 256" "length (sl_memory s) = 512 * 256"
    "256 dvd unat (co_dataoffset ?c)" "unat (co_dataoffset ?c) < 512 * 256" "length (co_data ?c) < 256" "co_data ?c \<noteq> []"
    "NUL \<notin> set (co_data ?c)"
    using s by (simp_all add: between_rounds_def Let_def)
  have room: "unat (co_dataoffset ?c) + 256 \<le> length (sl_memory s)"
    using c(4,5,6) by (auto elim!: dvdE)
  then obtain mem where mem: "region_write (sl_memory s) (unat (co_dataoffset ?c)) (co_data ?c @ [NUL]) = Some mem"
    using c(7) region_write_Some [of "unat (co_dataoffset ?c)" "co_data ?c @ [NUL]" "sl_memory s"] by auto
  have read: "cstr (drop (unat (co_dataoffset ?c)) mem) = Some (co_data ?c)"
    using mem cstr_terminated [OF c(9)] by (auto simp: region_write_def split: if_splits)
  have ring: "elems (ring_push R (co_data_ring ?c) (co_dataoffset ?c)) = {#co_dataoffset ?c#}"
    using ring_lawsD(4) [OF R] c(1) by simp
  then obtain ring' where pop: "ring_pop R (ring_push R (co_data_ring ?c) (co_dataoffset ?c)) = Some (co_dataoffset ?c, ring')"
    "elems ring' = {#}"
    using ring_lawsD(2,3) [OF R] by (cases "ring_pop R (ring_push R (co_data_ring ?c) (co_dataoffset ?c))") fastforce+
  show ?thesis
    using n c v mem read pop next_offset [OF c(5,6)] region_write_length [OF mem]
    by (simp add: collector_action_def after_collector_action_def strcpy_buf_def MAX_SHMEM_NAME_LEN_def name_ok_def between_rounds_def Let_def)
qed

lemma standalone_objects_run:
  assumes R: "ring_laws R elems"
  shows "between_rounds elems s \<Longrightarrow> list_all name_ok names \<Longrightarrow>
    \<exists>s'. between_rounds elems s' \<and> sl_calls s' = sl_calls s @ concat (map2 (round_calls (co_boost_path (sl_collector s)) (co_sources_cnt (sl_collector s)))
        (co_data (sl_collector s) # names) names) \<and>
      (\<forall>rest. standalone_rounds R (map (Pair 0) names @ rest) s = standalone_rounds R rest s')"
proof (induction names arbitrary: s)
  case Nil
  then show ?case by (intro exI [of _ s]) simp
next
  case (Cons name names)
  have n: "name_ok name" "list_all name_ok names" using Cons.prems(2) by simp_all
  obtain s1 s2 where r: "collector_action R 0 name s = Some s1" "after_collector_action R s1 = Some (Returns s2)" "between_rounds elems s2"
    "sl_data s2 = co_data (sl_collector s)" "co_data (sl_collector s2) = name"
    "co_boost_path (sl_collector s2) = co_boost_path (sl_collector s)" "co_sources_cnt (sl_collector s2) = co_sources_cnt (sl_collector s)"
    "sl_calls s2 = sl_calls s @ [NewObject (co_boost_path (sl_collector s)) name (co_sources_cnt (sl_collector s))]"
    using standalone_round [OF R Cons.prems(1) n(1)] by metis
  let ?path = "co_boost_path (sl_collector s)"
  let ?s3 = "s2\<lparr>sl_calls := sl_calls s2 @ [AnalyzeObject ?path (sl_data s2), FreeObject ?path (sl_data s2)]\<rparr>"
  have b: "between_rounds elems ?s3" using r(3) by (simp add: between_rounds_def Let_def)
  obtain s' where s': "between_rounds elems s'" "sl_calls s' = sl_calls ?s3 @ concat (map2 (round_calls ?path (co_sources_cnt (sl_collector s)))
        (name # names) names)" "\<forall>rest. standalone_rounds R (map (Pair 0) names @ rest) ?s3 = standalone_rounds R rest s'"
    using Cons.IH [OF b n(2)] r(5,6,7) by auto
  show ?case
    by (intro exI [of _ s']) (use s' r in \<open>simp add: round_calls_def\<close>)
qed

text \<open>A collector that has been set up has all its sources, so their callbacks can be set.\<close>

lemma init_sources_all:
  "init_sources junk fresh ans name i ds srcs = Some srcs' \<Longrightarrow>
     length srcs' = length srcs \<and> (ds \<noteq> [] \<longrightarrow> i + length ds \<le> length srcs) \<and> (\<forall>k < i. srcs' ! k = srcs ! k) \<and>
     (\<forall>k. i \<le> k \<and> k < i + length ds \<longrightarrow> srcs' ! k \<noteq> None)"
proof (induction ds arbitrary: i srcs)
  case (Cons d ds)
  then obtain fd s where s: "i < length srcs" "init_sources junk fresh ans name (Suc i) ds
      (srcs[i := Some (s\<lparr>so_fd := fd, so_sid := int i, so_data := name\<rparr>)]) = Some srcs'"
    by (auto split: if_splits bind_splits)
  from Cons.IH [OF s(2)] s(1) have r: "length srcs' = length srcs" "srcs' ! i \<noteq> None" "ds \<noteq> [] \<longrightarrow> Suc i + length ds \<le> length srcs"
    "\<forall>k < i. srcs' ! k = srcs ! k" "\<forall>k. Suc i \<le> k \<and> k < Suc i + length ds \<longrightarrow> srcs' ! k \<noteq> None"
    by auto
  have "srcs' ! k \<noteq> None" if "i \<le> k" "k < i + length (d # ds)" for k
    using r(2,5) that by (cases "k = i") auto
  moreover have "i + length (d # ds) \<le> length srcs" using r(3) s(1) by (cases ds) auto
  ultimately show ?case using r by simp
qed auto

lemma set_saving_all:
  "i + n \<le> length srcs \<Longrightarrow> \<forall>k. i \<le> k \<and> k < i + n \<longrightarrow> srcs ! k \<noteq> None \<Longrightarrow> set_saving i n srcs \<noteq> None"
proof (induction i n srcs rule: set_saving.induct)
  case (2 i n srcs)
  then obtain s where "i < length srcs" "srcs ! i = Some s" by force
  then show ?case using 2 by (auto simp: nth_list_update)
qed simp

lemma collector_set_up:
  assumes "collector_init junk fresh ans True sem_data sem_empty ring (Some desc) = Some (Some c)"
  shows "co_data_ring c = ring \<and> co_chunk_cnt c = 512 \<and> co_chunk_size c = 256 \<and> co_dataoffset c = 0 \<and> co_empty_ready c = Some 0 \<and>
    set_saving 0 (nat (co_sources_cnt c)) (co_sources c) \<noteq> None"
proof -
  obtain sdescs srcs where i: "(if nat (cd_sources_cnt desc) = 0 then Some [] else cd_sdescs desc) = Some sdescs"
    "nat (cd_sources_cnt desc) \<le> length sdescs"
    "init_sources junk fresh ans [] 0 (take (nat (cd_sources_cnt desc)) sdescs) (replicate 5 None) = Some srcs"
    "co_data_ring c = ring \<and> co_chunk_cnt c = 512 \<and> co_chunk_size c = 256 \<and> co_dataoffset c = 0 \<and> co_empty_ready c = Some 0 \<and>
     co_sources_cnt c = cd_sources_cnt desc \<and> co_sources c = srcs"
    using assms
    by (auto simp: collector_init_def collector_create_def collector_set_boost_shmem_def MAX_SOURCES_NUMBER_def Let_def
        split: if_splits bind_splits)
  have "set_saving 0 (nat (cd_sources_cnt desc)) srcs \<noteq> None"
    using init_sources_all [OF i(3)] i(2) by (intro set_saving_all) (cases "nat (cd_sources_cnt desc) = 0"; auto)+
  then show ?thesis using i(4) by simp
qed

lemma standalone_started:
  assumes "ring_laws R elems" "elems ring = {#}" "length memory = 512 * 256" "name_ok name"
    and "collector_init junk fresh ans True sem_data sem_empty ring (Some desc) = Some (Some c)"
  obtains s where "standalone_start memory name c = Some s" "between_rounds elems s" "co_data (sl_collector s) = name"
    "co_boost_path (sl_collector s) = co_boost_path c" "co_sources_cnt (sl_collector s) = co_sources_cnt c"
    "sl_calls s = (if co_use_boost_shmem c \<noteq> 0 then [DestroyStorage (co_boost_path c), InitStorage (co_boost_path c) (co_boost_size c),
       NewObject (co_boost_path c) name (co_sources_cnt c)] else [])"
proof -
  note c = collector_set_up [OF assms(5)]
  then obtain srcs where "set_saving 0 (nat (co_sources_cnt c)) (co_sources c) = Some srcs" by auto
  then obtain s where s: "standalone_start memory name c = Some s"
    using assms(4) by (simp add: standalone_start_def strcpy_buf_def MAX_SHMEM_NAME_LEN_def name_ok_def Let_def)
  show thesis
    using c assms(2-4) s
    by (intro that [OF s])
      (auto simp: standalone_start_def strcpy_buf_def MAX_SHMEM_NAME_LEN_def name_ok_def between_rounds_def Let_def split: bind_splits)
qed

text \<open>The test description.\<close>

lemma test_sources:
  assumes "\<forall>i \<in> set is. i < 10000"
  shows "\<exists>ds. create_test_sources fresh is = Some ds \<and> length ds = length is \<and> (\<forall>k < length ds. \<exists>d. ds ! k = Some d \<and> sd_type d = STYPE_TCP)"
  using assms
proof (induction "is")
  case (Cons i "is")
  then obtain ds where ds: "create_test_sources fresh is = Some ds" "length ds = length is"
    "\<forall>k < length ds. \<exists>d. ds ! k = Some d \<and> sd_type d = STYPE_TCP" by auto
  have l: "length (dec_int (9000 + int i * 10)) \<le> 6"
  proof -
    have "i < 10000" using Cons.prems by simp
    then have "9000 + int i * 10 < 1000000" by linarith
    then have "nat (9000 + int i * 10) < 10 ^ 6" by simp
    from dec_nat_length [OF this] show ?thesis by (simp add: dec_int_def)
  qed
  from l have p: "strcpy_buf 11 (dec_int (9000 + int i * 10)) = Some (dec_int (9000 + int i * 10))"
    "strcpy_buf 8 (dec_int (9000 + int i * 10)) = Some (dec_int (9000 + int i * 10))"
    by (simp_all add: strcpy_buf_def)
  show ?case
    by (simp add: ds(1) p create_tcp_source_description_def Let_def strcpy_buf_def ds(2))
      (use l ds(3) in \<open>auto simp: nth_Cons ds(2) split: nat.split\<close>)
qed simp

subsection \<open>Properties\<close>


text \<open>The programs never end: when the collector's exit flag is set, the first action gives nothing to the ring, and the second one waits
  for ever for a name; the storage is not destroyed.\<close>

theorem standalone_exit_hangs:
  assumes "ring_laws R elems" "elems ring = {#}" "length memory = 512 * 256" "list_all name_ok (name # names)"
    and "parse_collector_json J (get_collector_json J (load_object_json J config)) collector_description_create = Some desc"
    and "collector_init junk fresh ans True sem_data sem_empty ring (Some desc) = Some (Some c)" "exit_flag \<noteq> 0"
  shows "standalone_main J R junk fresh ans sem_data sem_empty ring memory config name
    (map (Pair 0) names @ (exit_flag, next) # rest) = Some Hangs"
proof -
  have n: "name_ok name" "list_all name_ok names" using assms(4) by simp_all
  obtain s where s: "standalone_start memory name c = Some s" "between_rounds elems s"
    using standalone_started [OF assms(1-3) n(1) assms(6)] by blast
  obtain s' where s': "between_rounds elems s'" "\<forall>rest. standalone_rounds R (map (Pair 0) names @ rest) s = standalone_rounds R rest s'"
    using standalone_objects_run [OF assms(1) s(2) n(2)] by blast
  have "elems (co_data_ring (sl_collector s')) = {#}" "co_empty_ready (sl_collector s') \<noteq> None"
    using s'(1) by (simp_all add: between_rounds_def Let_def)
  then have "standalone_rounds R ((exit_flag, next) # rest) s' = Some Hangs"
    using ring_lawsD(2) [OF assms(1), of "co_data_ring (sl_collector s')"] assms(7)
    by (auto simp: collector_action_def after_collector_action_def Let_def split: option.split)
  then show ?thesis using s'(2) s(1) by (simp add: standalone_main_def assms(5,6))
qed

text \<open>The description of the older program can be used exactly when all its senders, up to 5, take the connection.\<close>

theorem test_collector_set_up:
  assumes "0 < n" "n \<le> 1000"
  shows "\<exists>desc ds. create_test_collector_description fresh (int n) = Some desc \<and> cd_sdescs desc = Some ds \<and> length ds = n \<and>
    ((\<exists>c. collector_init junk fresh' ans True sem_data sem_empty ring (Some desc) = Some c) \<longleftrightarrow>
      n \<le> 5 \<and> (\<forall>i < n. sa_resolved (ans i) \<and> source_connect (sa_sockets (ans i)) \<noteq> None \<and> sa_sem_data (ans i) \<and> sa_sem_empty (ans i)))"
proof -
  obtain ds where ds: "create_test_sources fresh [0..<n] = Some ds" "length ds = n" "\<forall>k < n. \<exists>d. ds ! k = Some d \<and> sd_type d = STYPE_TCP"
    using test_sources [of "[0..<n]" fresh] assms(2) by auto
  obtain size' where "calculate_boostmem_size (int n) (2048 * 2448 * 1) 1000 = Some size'"
    using assms(2) by (simp add: calculate_boostmem_size_def Let_def)
  then obtain desc where desc: "create_test_collector_description fresh (int n) = Some desc" "cd_sdescs desc = Some ds" "cd_sources_cnt desc = int n"
    "cd_boost_path desc = ''boostsegment''"
    using ds(1) by (simp add: create_test_collector_description_def strcpy_buf_def MAX_SHMEM_NAME_LEN_def)
  have wf: "collector_wf (desc\<lparr>cd_sinfos := Some (replicate n None)\<rparr>)" using desc(2,3) ds(2) by (simp add: collector_wf_def)
  have "collector_init junk fresh' ans True sem_data sem_empty ring (Some (desc\<lparr>cd_sinfos := Some (replicate n None)\<rparr>)) =
      collector_init junk fresh' ans True sem_data sem_empty ring (Some desc)"
    by (simp add: collector_init_def)
  with collector_init_defined_iff [OF wf, of junk fresh' ans sem_data sem_empty ring]
  have "(\<exists>c. collector_init junk fresh' ans True sem_data sem_empty ring (Some desc) = Some c) \<longleftrightarrow> n \<le> 5 \<and> sources_open ans 0 ds"
    by (simp add: desc)
  moreover have "sources_open ans 0 ds \<longleftrightarrow> (\<forall>i < n. sa_resolved (ans i) \<and> source_connect (sa_sockets (ans i)) \<noteq> None \<and>
      sa_sem_data (ans i) \<and> sa_sem_empty (ans i))"
    using ds(2,3) by (fastforce simp: sources_open_def source_opens_def)
  ultimately show ?thesis using desc(1,2) ds(2) by blast
qed

subsection \<open>Witnesses\<close>

definition no_sources_files :: "string \<Rightarrow> json option" where
  "no_sources_files f = Some (JObject [(''collector'', Some (JObject []))])"

lemma no_sources:
  "parse_collector_json (json_instance no_sources_files) (get_collector_json (json_instance no_sources_files)
     (load_object_json (json_instance no_sources_files) ''c.json'')) collector_description_create = Some collector_description_create"
  by (simp add: parse_collector_json_def parse_boost_def get_collector_json_def load_object_json_def json_instance_def no_sources_files_def
      Let_def)

lemma no_sources_init:
  "\<exists>c. collector_init (\<lambda>n. []) blank_source sample_answers True True True [] (Some collector_description_create) = Some (Some c) \<and>
     co_boost_path c = [] \<and> co_sources_cnt c = 0 \<and> co_use_boost_shmem c = 0"
  by (simp add: collector_init_def collector_create_def collector_set_boost_shmem_def collector_description_create_def)

lemma some_names: "list_all name_ok [''a'', ''b'', ''c'']"
  by (simp add: name_ok_def NUL_def)


theorem standalone_exit_hangs_witness:
  "standalone_main (json_instance no_sources_files) ring_instance (\<lambda>n. []) blank_source sample_answers True True [] (replicate 131072 NUL)
     ''c.json'' ''a'' [(0, ''b''), (0, ''c''), (1, ''d'')] = Some Hangs"
proof -
  obtain c :: "u64 list data_collector" where
    c: "collector_init (\<lambda>n. []) blank_source sample_answers True True True [] (Some collector_description_create) = Some (Some c)"
    using no_sources_init by blast
  from standalone_exit_hangs [OF ring_instance_laws _ _ some_names no_sources c(1), of "replicate 131072 NUL" 1 "''d''" "[]"]
  show ?thesis by simp
qed

theorem test_collector_set_up_witness:
  "\<exists>desc. create_test_collector_description (\<lambda>i. source_description_create) 1 = Some desc \<and>
     (\<exists>c. collector_init (\<lambda>n. replicate n 0) blank_source sample_answers True True True () (Some desc) = Some c)"
  using test_collector_set_up [of 1 "\<lambda>i. source_description_create" "\<lambda>n. replicate n 0" blank_source sample_answers True True "()"]
  by (auto simp: sample_answers_def)

end
