(* ===== verification/EnvironmentTools.thy ===== *)
theory EnvironmentTools imports SharedMemory begin

section \<open>Setting the announcement of a segment aside\<close>

text \<open>
  \<^verbatim>\<open>shmem/tools/env_manipulations.cpp\<close>: two functions that take the announcement of a segment out of the environment and put it
  back. A \<open>char **\<close> is an option for the pointer itself and one for the pointer it points to; the environment is a map.
\<close>

type_synonym environment = "string \<Rightarrow> string option"

text \<open>The same for each of the two variables: a value is taken out only when there is a place for it.\<close>

definition store_and_clean :: "string \<Rightarrow> string option option \<Rightarrow> environment \<Rightarrow> string option option \<times> environment" where
  "store_and_clean key old env =
     (case (env key, old) of
        (Some v, Some p) \<Rightarrow> (Some (Some v), env(key := None))
      | _ \<Rightarrow> (old, env))"

definition restore_variable :: "string \<Rightarrow> string option option \<Rightarrow> environment \<Rightarrow> environment" where
  "restore_variable key old env = env(key := (case old of Some (Some v) \<Rightarrow> Some v | _ \<Rightarrow> None))"

definition storeAndCleanEnv ::
  "string option option \<Rightarrow> string option option \<Rightarrow> environment \<Rightarrow> string option option \<times> string option option \<times> environment" where
  "storeAndCleanEnv path_old size_old env =
     (case store_and_clean SHMEM_NAME_ENV path_old env of (path_old, env) \<Rightarrow>
      case store_and_clean SHMEM_SIZE_ENV size_old env of (size_old, env) \<Rightarrow> (path_old, size_old, env))"

definition restoreEnv :: "string option option \<Rightarrow> string option option \<Rightarrow> environment \<Rightarrow> environment" where
  "restoreEnv path_old size_old env =
     restore_variable SHMEM_SIZE_ENV size_old (restore_variable SHMEM_NAME_ENV path_old env)"

subsection \<open>Properties\<close>

text \<open>What was set aside comes back: with places that hold NULL, the environment in between has neither variable, and whatever is
  announced in between, restoring gives the environment of before, also when one or both variables were not set.\<close>

theorem environment_restored:
  assumes "storeAndCleanEnv (Some None) (Some None) env = (path_old, size_old, env1)"
    and "\<forall>k. k \<noteq> SHMEM_NAME_ENV \<and> k \<noteq> SHMEM_SIZE_ENV \<longrightarrow> env2 k = env1 k"
  shows "env1 SHMEM_NAME_ENV = None \<and> env1 SHMEM_SIZE_ENV = None \<and> restoreEnv path_old size_old env2 = env"
proof -
  have d: "SHMEM_NAME_ENV \<noteq> SHMEM_SIZE_ENV" by (simp add: SHMEM_NAME_ENV_def SHMEM_SIZE_ENV_def)
  then have "restoreEnv path_old size_old env2 k = env k" for k
    using assms by (cases "k = SHMEM_NAME_ENV"; cases "k = SHMEM_SIZE_ENV"; cases "env SHMEM_NAME_ENV"; cases "env SHMEM_SIZE_ENV")
      (auto simp: storeAndCleanEnv_def store_and_clean_def restoreEnv_def restore_variable_def)
  then have r: "restoreEnv path_old size_old env2 = env" by blast
  show ?thesis
    using assms d r by (cases "env SHMEM_NAME_ENV"; cases "env SHMEM_SIZE_ENV") (auto simp: storeAndCleanEnv_def store_and_clean_def)
qed

text \<open>Without places the variables are lost: nothing is set aside, but restoring unsets both.\<close>

theorem environment_lost_without_places:
  "storeAndCleanEnv None None env = (None, None, env) \<and>
     restoreEnv None None env = env(SHMEM_NAME_ENV := None, SHMEM_SIZE_ENV := None)"
  by (simp add: storeAndCleanEnv_def store_and_clean_def restoreEnv_def restore_variable_def split: option.split)

subsection \<open>Witnesses\<close>

theorem environment_restored_witness:
  "\<exists>p s env1. storeAndCleanEnv (Some None) (Some None) [SHMEM_NAME_ENV \<mapsto> ''/shm''] = (p, s, env1) \<and> env1 SHMEM_NAME_ENV = None \<and>
     restoreEnv p s (env1(SHMEM_NAME_ENV \<mapsto> ''/other'', SHMEM_SIZE_ENV \<mapsto> ''9'')) = [SHMEM_NAME_ENV \<mapsto> ''/shm'']"
proof -
  obtain p s env1 where e: "storeAndCleanEnv (Some None) (Some None) [SHMEM_NAME_ENV \<mapsto> ''/shm''] = (p, s, env1)"
    by (metis prod.exhaust)
  from environment_restored [OF this, of "env1(SHMEM_NAME_ENV \<mapsto> ''/other'', SHMEM_SIZE_ENV \<mapsto> ''9'')"] e show ?thesis by auto
qed

end
