(* ===== verification/DatabaseModule.thy ===== *)
theory DatabaseModule imports DemoPrograms begin

section \<open>The database module\<close>

text \<open>
  \<^verbatim>\<open>dclcomponents/examples_cpp/pgmiddle.cpp\<close>: a module of the type \<open>MIDDLE\<close> that writes a row to a database for every object. The
  library \<^verbatim>\<open>pqxx\<close> is a record of operations on a database \<open>'d\<close>: opening a connection, quoting a string, executing a statement,
  committing. An exception is a value of \<open>db_error\<close>; a \<open>work\<close> that is left before its commit is rolled back. Printing is
  not modelled.
\<close>

subsection \<open>Statements\<close>

datatype db_error = SqlError | OtherException

text \<open>The database \<open>'d\<close> also holds what decides whether a call fails, so a failed call can change it too.\<close>

record ('d, 'r) database_ops =
  db_connect :: "'d \<Rightarrow> db_error option \<times> 'd"
  db_quote :: "string \<Rightarrow> string"
  db_exec :: "string \<Rightarrow> 'd \<Rightarrow> (db_error + 'r) \<times> 'd"
  db_commit :: "'d \<Rightarrow> db_error option \<times> 'd"

text \<open>What every function does with its statement: one connection, one transaction.\<close>

definition transact :: "('d, 'r) database_ops \<Rightarrow> string \<Rightarrow> 'd \<Rightarrow> (db_error + 'r) \<times> 'd" where
  "transact Q statement d = (case db_connect Q d of
     (Some e, d1) \<Rightarrow> (Inl e, d1)
   | (None, d1) \<Rightarrow> (case db_exec Q statement d1 of
       (Inl e, d2) \<Rightarrow> (Inl e, d2)
     | (Inr r, d2) \<Rightarrow> (case db_commit Q d2 of (Some e, d3) \<Rightarrow> (Inl e, d3) | (None, d3) \<Rightarrow> (Inr r, d3))))"

definition insert_object :: "('d, 'r) database_ops \<Rightarrow> string \<Rightarrow> 'd \<Rightarrow> (db_error + 'r) \<times> 'd" where
  "insert_object Q obj_name = transact Q
     (''INSERT INTO objects VALUES (DEFAULT, (SELECT object_types.id FROM object_types WHERE object_types.name = '' @
      [CHR 0x27] @ ''mandrel'' @ [CHR 0x27] @ ''), '' @ [CHR 0x27] @ ''----'' @ [CHR 0x27] @ '','' @ db_quote Q obj_name @ '');'')"

definition select_objects :: "('d, 'r) database_ops \<Rightarrow> 'd \<Rightarrow> (db_error + 'r) \<times> 'd" where
  "select_objects Q = transact Q ''SELECT * FROM objects LIMIT 10;''"

definition select_count_objects :: "('d, 'r) database_ops \<Rightarrow> 'd \<Rightarrow> (db_error + 'r) \<times> 'd" where
  "select_count_objects Q = transact Q ''SELECT count(*) FROM objects;''"

definition mandrel_statement :: "(string \<Rightarrow> string) \<Rightarrow> string \<Rightarrow> string \<Rightarrow> string \<Rightarrow> string" where
  "mandrel_statement quote obj_name obj_number diameter_str =
     ''CALL insert_mandrel_ok('' @ quote obj_name @ '','' @ quote obj_number @ '', '' @ quote diameter_str @ '');''"

definition insert_mandrel_ok :: "('d, 'r) database_ops \<Rightarrow> string \<Rightarrow> string \<Rightarrow> string \<Rightarrow> 'd \<Rightarrow> (db_error + 'r) \<times> 'd" where
  "insert_mandrel_ok Q obj_name obj_number diameter_str =
     transact Q (mandrel_statement (db_quote Q) obj_name obj_number diameter_str)"

definition billet_statement ::
  "(string \<Rightarrow> string) \<Rightarrow> string \<Rightarrow> string \<Rightarrow> string \<Rightarrow> string \<Rightarrow> string \<Rightarrow> string \<Rightarrow> string" where
  "billet_statement quote obj_name obj_number length_str diameter1_str diameter2_str diameter3_str =
     ''CALL insert_billet('' @ quote obj_name @ '', '' @ quote obj_number @ '', '' @ quote length_str @ '', '' @
     quote diameter1_str @ '', '' @ quote diameter2_str @ '', '' @ quote diameter3_str @ '');''"

definition insert_billet ::
  "('d, 'r) database_ops \<Rightarrow> string \<Rightarrow> string \<Rightarrow> string \<Rightarrow> string \<Rightarrow> string \<Rightarrow> string \<Rightarrow> 'd \<Rightarrow> (db_error + 'r) \<times> 'd" where
  "insert_billet Q obj_name obj_number length_str diameter1_str diameter2_str diameter3_str =
     transact Q (billet_statement (db_quote Q) obj_name obj_number length_str diameter1_str diameter2_str diameter3_str)"

subsection \<open>Sizes and numbers\<close>

text \<open>\<open>rnd\<close> is what \<open>rand()\<close> returns after the generator has been set to the time; its results are not negative.\<close>

definition c_int :: "int \<Rightarrow> int option" where
  "c_int i = (if - (2 ^ 31) \<le> i \<and> i < 2 ^ 31 then Some i else None)"

definition generate_parameter :: "int \<Rightarrow> int \<Rightarrow> int \<Rightarrow> int option" where
  "generate_parameter rnd real_size max_diff =
     do { product \<leftarrow> c_int (rnd mod 2 * max_diff);
          x \<leftarrow> c_int (product - max_diff);
          c_int (real_size - x) }"

text \<open>The remainder of C, which is undefined for the divisor 0.\<close>

definition generate_obj_number :: "int \<Rightarrow> int \<Rightarrow> int \<Rightarrow> int option" where
  "generate_obj_number rnd min_n max_n =
     do { range \<leftarrow> c_int (max_n - min_n);
          if range = 0 then None else c_int (min_n + rnd mod \<bar>range\<bar>) }"

subsection \<open>The module\<close>

text \<open>For an object: the database after it and the copies that are not freed, because an exception has skipped their \<open>free\<close>.\<close>

definition work_with_object :: "('d, 'r) database_ops \<Rightarrow> int \<Rightarrow> string \<Rightarrow> 'd \<Rightarrow> ('d \<times> string list) option" where
  "work_with_object Q rnd obj_name d =
     do { diameter \<leftarrow> generate_parameter rnd 600 30;
          let obj_number = [CHR 0x27] @ ''0000'' @ [CHR 0x27];
              diameter_str = dec_int diameter in
          case insert_mandrel_ok Q obj_name obj_number diameter_str d of
            (Inl e, d1) \<Rightarrow> Some (d1, [obj_number, diameter_str])
          | (Inr ri, d1) \<Rightarrow> Some (snd (select_count_objects Q d1), []) }"

fun work_with_objects :: "('d, 'r) database_ops \<Rightarrow> (int \<times> string) list \<Rightarrow> 'd \<Rightarrow> ('d \<times> string list) option" where
  "work_with_objects Q [] d = Some (d, [])"
| "work_with_objects Q ((rnd, obj_name) # objs) d =
     do { (d1, kept) \<leftarrow> work_with_object Q rnd obj_name d;
          (d2, kept') \<leftarrow> work_with_objects Q objs d1;
          Some (d2, kept @ kept') }"

text \<open>\<open>main\<close>: as the other middle module, with a text as its data.\<close>

definition database_main ::
  "'j json_ops \<Rightarrow> shm_faults \<Rightarrow> 'r get_answers \<Rightarrow> byte \<Rightarrow> string \<Rightarrow> u64 \<Rightarrow> shm_os \<Rightarrow> ('l, 'r, string) module_result option" where
  "database_main J flt ans junk tail size0 os = do {
     (p, os') \<leftarrow> dclprocessor_get J flt ans junk tail size0 2 os;
     Some (attach_to_pipeline p (Some ''user data'') True, os') }"

subsection \<open>What the database is asked\<close>

text \<open>
  A call as the database reads it: the name of the procedure up to the parenthesis and the literals between commas. \<open>rd\<close> is the
  database's reader of one literal.
\<close>

type_synonym literal_reader = "string \<Rightarrow> (string \<times> string) option"

definition skip_blank :: "string \<Rightarrow> string" where
  "skip_blank s = dropWhile (\<lambda>c. c = CHR '' '') s"

primrec read_arguments :: "literal_reader \<Rightarrow> nat \<Rightarrow> string \<Rightarrow> string list option" where
  "read_arguments rd 0 s = None"
| "read_arguments rd (Suc n) s =
     do { (x, s) \<leftarrow> rd (skip_blank s);
          if s = '');'' then Some [x]
          else if s \<noteq> [] \<and> hd s = CHR '','' then do { xs \<leftarrow> read_arguments rd n (List.tl s); Some (x # xs) }
          else None }"

definition read_call :: "literal_reader \<Rightarrow> nat \<Rightarrow> string \<Rightarrow> (string \<times> string list) option" where
  "read_call rd n s =
     (if take 5 s = ''CALL '' then
        (let name = takeWhile (\<lambda>c. c \<noteq> CHR ''('') (drop 5 s) in
         do { xs \<leftarrow> read_arguments rd n (drop (6 + length name) s); Some (name, xs) })
      else None)"

text \<open>The law of \<open>quote\<close>: a quoted string is a literal for the string, when no further quote follows, and starts with its quote.\<close>

definition quote_law :: "(string \<Rightarrow> string) \<Rightarrow> literal_reader \<Rightarrow> bool" where
  "quote_law quote rd \<longleftrightarrow> (\<forall>s. (\<exists>xs. quote s = CHR 0x27 # xs) \<and>
     (\<forall>c rest. c \<noteq> CHR 0x27 \<longrightarrow> rd (quote s @ c # rest) = Some (s, c # rest)))"

lemma quote_read: "quote_law quote rd \<Longrightarrow> c \<noteq> CHR 0x27 \<Longrightarrow> rd (quote s @ c # rest) = Some (s, c # rest)"
  by (simp add: quote_law_def)

lemma quote_skip: "quote_law quote rd \<Longrightarrow> skip_blank (quote s @ xs) = quote s @ xs"
  unfolding quote_law_def skip_blank_def by (elim allE [of _ s] conjE exE) simp

lemma skip_blank_one: "skip_blank (CHR '' '' # s) = skip_blank s"
  by (simp add: skip_blank_def)

lemma read_more:
  assumes "quote_law quote rd"
  shows "read_arguments rd (Suc n) (quote s @ CHR '','' # rest) = map_option (Cons s) (read_arguments rd n rest)"
    and "read_arguments rd (Suc n) (CHR '' '' # quote s @ CHR '','' # rest) = map_option (Cons s) (read_arguments rd n rest)"
    and "read_arguments rd (Suc n) (CHR '' '' # quote s @ CHR '')'' # CHR '';'' # []) = Some [s]"
  by (simp_all add: quote_read [OF assms] quote_skip [OF assms] skip_blank_one map_option_case split: option.split)

lemma mandrel_call:
  assumes "quote_law quote rd"
  shows "read_call rd 3 (mandrel_statement quote n k s) = Some (''insert_mandrel_ok'', [n, k, s])"
proof -
  have "read_arguments rd 3 (quote n @ CHR '','' # quote k @ CHR '','' # CHR '' '' # quote s @ CHR '')'' # CHR '';'' # []) = Some [n, k, s]"
    unfolding numeral_3_eq_3 by (simp add: read_more [OF assms] del: read_arguments.simps)
  then show ?thesis by (simp add: read_call_def mandrel_statement_def)
qed

lemma billet_call:
  assumes "quote_law quote rd"
  shows "read_call rd 6 (billet_statement quote n k l d1 d2 d3) = Some (''insert_billet'', [n, k, l, d1, d2, d3])"
proof -
  have six: "(6 :: nat) = Suc (Suc (Suc 3))" by simp
  have "read_arguments rd 6 (quote n @ CHR '','' # CHR '' '' # quote k @ CHR '','' # CHR '' '' # quote l @ CHR '','' # CHR '' '' #
    quote d1 @ CHR '','' # CHR '' '' # quote d2 @ CHR '','' # CHR '' '' # quote d3 @ CHR '')'' # CHR '';'' # []) = Some [n, k, l, d1, d2, d3]"
    unfolding six numeral_3_eq_3 by (simp add: read_more [OF assms] del: read_arguments.simps)
  then show ?thesis by (simp add: read_call_def billet_statement_def)
qed

text \<open>
  \<open>calls\<close> are the calls a database has carried out for good. A statement that fails, and a failed commit, leave none behind; what a
  statement has done is there once it is committed.
\<close>

definition database_laws :: "('d, 'r) database_ops \<Rightarrow> literal_reader \<Rightarrow> ('d \<Rightarrow> (string \<times> string list) list) \<Rightarrow> bool" where
  "database_laws Q rd calls \<longleftrightarrow> quote_law (db_quote Q) rd \<and>
     (\<forall>d. calls (snd (db_connect Q d)) = calls d) \<and>
     (\<forall>s d. calls (snd (db_exec Q s d)) = calls d) \<and>
     (\<forall>s d r d1. db_exec Q s d = (Inr r, d1) \<longrightarrow>
        calls (snd (db_commit Q d1)) = calls d @
          (if fst (db_commit Q d1) = None then (case read_call rd 3 s of Some c \<Rightarrow> [c] | None \<Rightarrow> []) else []))"

lemma transact_calls:
  assumes "database_laws Q rd calls"
  shows "calls (snd (transact Q s d)) = calls d @
    (case fst (transact Q s d) of Inl e \<Rightarrow> [] | Inr r \<Rightarrow> (case read_call rd 3 s of Some c \<Rightarrow> [c] | None \<Rightarrow> []))"
proof -
  obtain e1 d1 where 1: "db_connect Q d = (e1, d1)" by fastforce
  obtain r d2 where 2: "db_exec Q s d1 = (r, d2)" by fastforce
  obtain e3 d3 where 3: "db_commit Q d2 = (e3, d3)" by fastforce
  have "calls d1 = calls d" "calls d2 = calls d1"
    using assms 1 2 unfolding database_laws_def by (metis snd_conv)+
  moreover have "calls d3 = calls d1 @ (if e3 = None then (case read_call rd 3 s of Some c \<Rightarrow> [c] | None \<Rightarrow> []) else [])" if "r = Inr x" for x
    using assms 2 3 that unfolding database_laws_def by (metis fst_conv snd_conv)
  ultimately show ?thesis
    using 1 2 3 by (cases e1; cases r; cases e3) (simp_all add: transact_def)
qed

lemma count_no_call: "read_call rd 3 ''SELECT count(*) FROM objects;'' = None"
  by (simp add: read_call_def)

definition object_number :: string where "object_number = [CHR 0x27] @ ''0000'' @ [CHR 0x27]"

definition object_call :: "int \<times> string \<Rightarrow> string \<times> string list" where
  "object_call = (\<lambda>(rnd, obj_name). (''insert_mandrel_ok'', [obj_name, object_number, if rnd mod 2 = 0 then ''630'' else ''600'']))"

lemma diameters: "dec_int 600 = ''600''" "dec_int 630 = ''630''"
  by (simp_all add: dec_int_def dec_nat.simps digit_char_def char_of_def bit_iff_odd)

lemma usual_diameter: "generate_parameter rnd 600 30 = Some (if rnd mod 2 = 0 then 630 else 600)"
  by (cases "rnd mod 2 = 0") (simp_all add: generate_parameter_def c_int_def not_mod_2_eq_0_eq_1)

lemma object_worked:
  assumes "database_laws Q rd calls"
  obtains d1 ok where "work_with_object Q rnd obj_name d = Some (d1, if ok then [] else [object_number, snd (object_call (rnd, obj_name)) ! 2])"
    "calls d1 = calls d @ (if ok then [object_call (rnd, obj_name)] else [])"
proof -
  define diameter where "diameter = (if rnd mod 2 = 0 then ''630'' else ''600'')"
  obtain r d1 where i: "insert_mandrel_ok Q obj_name object_number diameter d = (r, d1)" by fastforce
  have c: "calls d1 = calls d @ (case r of Inl e \<Rightarrow> [] | Inr x \<Rightarrow> [(''insert_mandrel_ok'', [obj_name, object_number, diameter])])"
    using transact_calls [OF assms, of "mandrel_statement (db_quote Q) obj_name object_number diameter" d] i
      mandrel_call [of "db_quote Q" rd obj_name object_number diameter] assms
    by (simp add: insert_mandrel_ok_def database_laws_def split: sum.splits)
  have s: "calls (snd (select_count_objects Q d1)) = calls d1"
    using transact_calls [OF assms] by (simp add: select_count_objects_def count_no_call split: sum.splits)
  have w: "work_with_object Q rnd obj_name d = Some (case r of
      Inl e \<Rightarrow> (d1, [object_number, diameter]) | Inr x \<Rightarrow> (snd (select_count_objects Q d1), []))"
    using i by (cases r) (auto simp: work_with_object_def usual_diameter diameters diameter_def object_number_def Let_def)
  show thesis
    using c s w
    by (intro that [of "case r of Inl e \<Rightarrow> d1 | Inr x \<Rightarrow> snd (select_count_objects Q d1)" "\<not> isl r"])
      (auto simp: object_call_def diameter_def split: sum.splits)
qed

subsection \<open>Properties\<close>

text \<open>What the module leaves in the database: whatever fails, for a subset of the objects, in their order, exactly one call with the name of the
  object, the number 0000 in quotes of its own, and the diameter 600 or 630; two copies are lost for each of the others.\<close>

theorem objects_recorded:
  assumes "database_laws Q rd calls"
  shows "\<exists>d' kept oks. work_with_objects Q objs d = Some (d', kept) \<and> length oks = length objs \<and>
    calls d' = calls d @ map (object_call \<circ> fst) (filter snd (zip objs oks)) \<and> length kept = 2 * length (filter Not oks)"
proof (induction objs arbitrary: d)
  case (Cons obj objs)
  obtain rnd obj_name where obj: "obj = (rnd, obj_name)" by fastforce
  from object_worked [OF assms] obtain d1 ok where
    w: "work_with_object Q rnd obj_name d = Some (d1, if ok then [] else [object_number, snd (object_call (rnd, obj_name)) ! 2])"
      "calls d1 = calls d @ (if ok then [object_call (rnd, obj_name)] else [])" by blast
  from Cons [of d1] obtain d' kept oks where
    r: "work_with_objects Q objs d1 = Some (d', kept)" "length oks = length objs"
      "calls d' = calls d1 @ map (object_call \<circ> fst) (filter snd (zip objs oks))" "length kept = 2 * length (filter Not oks)" by blast
  show ?case
    by (rule exI [of _ d'], rule exI [of _ "(if ok then [] else [object_number, snd (object_call (rnd, obj_name)) ! 2]) @ kept"],
        rule exI [of _ "ok # oks"]) (simp add: obj w r)
qed simp

text \<open>Numbers of objects lie between their limits, and are undefined when the limits are the same.\<close>

theorem obj_number_range:
  assumes "0 \<le> rnd" "0 \<le> min_n" "min_n \<le> max_n" "max_n < 2 ^ 31"
  shows "(generate_obj_number rnd min_n max_n = None \<longleftrightarrow> min_n = max_n) \<and>
    (\<forall>n. generate_obj_number rnd min_n max_n = Some n \<longrightarrow> min_n \<le> n \<and> n < max_n)"
proof (cases "min_n = max_n")
  case True
  then show ?thesis by (simp add: generate_obj_number_def c_int_def)
next
  case False
  then obtain x where x: "rnd mod (max_n - min_n) = x" "0 \<le> x" "x < max_n - min_n" using assms by simp
  then have "c_int (max_n - min_n) = Some (max_n - min_n)" "c_int (min_n + x) = Some (min_n + x)"
    using assms by (simp_all add: c_int_def)
  then show ?thesis using x assms False by (simp add: generate_obj_number_def)
qed

subsection \<open>Witnesses\<close>

text \<open>A database that is a list of calls; quoting doubles the quotes.\<close>

fun sql_quoted :: "string \<Rightarrow> string" where
  "sql_quoted [] = [CHR 0x27]"
| "sql_quoted (c # s) = (if c = CHR 0x27 then [c, c] else [c]) @ sql_quoted s"

fun sql_rest :: "string \<Rightarrow> (string \<times> string) option" where
  "sql_rest [] = None"
| "sql_rest (c # s) =
     (if c \<noteq> CHR 0x27 then map_option (map_prod (Cons c) id) (sql_rest s)
      else case s of
        [] \<Rightarrow> Some ([], [])
      | c' # s' \<Rightarrow> if c' = CHR 0x27 then map_option (map_prod (Cons c) id) (sql_rest s') else Some ([], s))"

definition sql_literal :: literal_reader where
  "sql_literal s = (case s of [] \<Rightarrow> None | c # s \<Rightarrow> if c = CHR 0x27 then sql_rest s else None)"

lemma sql_rest_quoted: "c \<noteq> CHR 0x27 \<Longrightarrow> sql_rest (sql_quoted s @ c # rest) = Some (s, c # rest)"
  by (induction s) simp_all

definition call_database :: "(nat \<times> (string \<times> string list) list \<times> (string \<times> string list) list, unit) database_ops" where
  "call_database = \<lparr>
     db_connect = (\<lambda>(n, cs, _). (if n = 1 then Some OtherException else None, n + 1, cs, cs)),
     db_quote = (\<lambda>s. CHR 0x27 # sql_quoted s),
     db_exec = (\<lambda>s (n, cs, _). (Inr (), n, cs, cs @ (case read_call sql_literal 3 s of Some c \<Rightarrow> [c] | None \<Rightarrow> []))),
     db_commit = (\<lambda>(n, cs, cs'). (None, n, cs', cs')) \<rparr>"

lemma call_database_laws: "database_laws call_database sql_literal (fst \<circ> snd)"
  by (auto simp: database_laws_def call_database_def quote_law_def sql_literal_def sql_rest_quoted)

theorem objects_recorded_witness:
  "\<exists>d' kept oks. work_with_objects call_database [(0, ''a''), (1, ''b'')] (0, [], []) = Some (d', kept) \<and> length oks = 2 \<and>
     fst (snd d') = map (object_call \<circ> fst) (filter snd (zip [(0, ''a''), (1, ''b'')] oks)) \<and> length kept = 2 * length (filter Not oks)"
  using objects_recorded [OF call_database_laws, of "[(0, ''a''), (1, ''b'')]" "(0, [], [])"]
  by (simp add: numeral_2_eq_2 del: work_with_objects.simps)

theorem obj_number_range_witness: "generate_obj_number 17 3 8 = Some 5"
  using obj_number_range [of 17 3 8] by (simp add: generate_obj_number_def c_int_def)

end
