(* ===== verification/Spec2Isabelle.thy ===== *)
theory Spec2Isabelle imports Decimal MemoryMap SharedMemory ProcessMngr External ModuleDescription
  PipelineModule PipelineClient PipelineServer PipelineProtocol PipelineSafety Pipeline CString
  Message TcpServer TcpClient SourceDescription SystemJson SystemDialog Source Collector
  CollectorThread Gvcp Discovery DeviceSearch GigeCamera Gvsp Dclprocessor SignalThread
  ObjectDetection FakeGenerator CvCollector CameraTools DemoPrograms DemoDescriptions PipelineWriter
  PipelineDialog StandaloneCollector EnvironmentTools DatabaseModule
begin

section \<open>The verification of dclprocessor\<close>

text \<open>
  A verification development for \<^verbatim>\<open>dclprocessor_demo\<close>, a C program that collects frames from
  cameras and TCP senders and passes them through a pipeline of modules, each a thread or a client
  process that works on chunks of one shared memory segment.

  \<^bold>\<open>The parts of the program and their theories.\<close>
  \<^item> Shared memory (\<^verbatim>\<open>dclprocessor/shmem\<close>): \<^verbatim>\<open>MemoryMap\<close> has the layout of a segment (process
    table, data chunks, description zones), \<^verbatim>\<open>SharedMemory\<close> the life of a segment on the side of server and client,
    its announcement in the environment and the reads and writes of its three parts.
  \<^item> Processes (\<^verbatim>\<open>dclprocessor/process\<close>): \<^verbatim>\<open>ProcessMngr\<close> has the process table, \<^verbatim>\<open>process_start\<close> on both sides of the
    fork, \<^verbatim>\<open>process_kill_all\<close> and the signal thread.
  \<^item> Descriptions (\<^verbatim>\<open>dclprocessor/description\<close>): \<^verbatim>\<open>ModuleDescription\<close> (modules and the pipeline),
    \<^verbatim>\<open>SourceDescription\<close> (sources and the collector), \<^verbatim>\<open>SystemJson\<close> (the parts of a system, the object with all
    parts, the processor) and \<^verbatim>\<open>SystemDialog\<close> (the dialogs that build a description).
  \<^item> The pipeline (\<^verbatim>\<open>dclprocessor/pipeline\<close>): \<^verbatim>\<open>PipelineModule\<close> (the modules and their linking), \<^verbatim>\<open>PipelineClient\<close> (a
    client process and one of its commands), \<^verbatim>\<open>PipelineServer\<close> (the four kinds of module threads as steps
    of an interleaving semantics), \<^verbatim>\<open>PipelineProtocol\<close> (the invariant of that semantics), \<^verbatim>\<open>PipelineSafety\<close> (what
    follows from it) and \<^verbatim>\<open>Pipeline\<close> (the pipeline object, its commands, start and end).
  \<^item> TCP messages (\<^verbatim>\<open>dclprocessor/tcp\<close>): \<^verbatim>\<open>Message\<close> (buffers of a connection and the parser of requests),
    \<^verbatim>\<open>TcpServer\<close> and \<^verbatim>\<open>TcpClient\<close> (connections, epoll loops, commands, the proxy).
  \<^item> Shared by all: \<^verbatim>\<open>Prelude\<close> (words, memory regions, strings in fixed buffers, bytes of integers), \<^verbatim>\<open>Decimal\<close>
    (numbers as \<open>printf\<close> and \<open>scanf\<close> treat them), \<^verbatim>\<open>CString\<close> (NUL-terminated arrays), \<^verbatim>\<open>External\<close> (json-c, the
    list and the ring of the \<^verbatim>\<open>misc\<close> library, as records of operations with their documented laws).
  \<^item> The collector (\<^verbatim>\<open>dclprocessor/collector\<close>): \<^verbatim>\<open>Source\<close> (one source of frames and the loop that reads them from a
    TCP sender), \<^verbatim>\<open>Collector\<close> (set-up and end) and \<^verbatim>\<open>CollectorThread\<close> (the thread of the collector, those of its
    sources and \<^verbatim>\<open>first_action\<close> of the processor, interleaved).
  \<^item> The camera library (\<^verbatim>\<open>libcapture/GigE\<close>): \<^verbatim>\<open>Gvcp\<close> (packets of the control protocol, register accesses, setting up a
    camera), \<^verbatim>\<open>Discovery\<close> (interfaces and the search for devices) with \<^verbatim>\<open>DeviceSearch\<close> (what it finds), \<^verbatim>\<open>GigeCamera\<close> (the
    operations of the known cameras, opening and testing one) and \<^verbatim>\<open>Gvsp\<close> (packets of the stream and the thread
    that puts them together to frames).
  \<^item> The processor (\<^verbatim>\<open>dclprocessor/processor\<close>): \<^verbatim>\<open>Dclprocessor\<close> (the server that starts the system, a module that attaches to
    it, the actions of a module).
  \<^item> Around these parts: \<^verbatim>\<open>SignalThread\<close> (life of the signal thread), \<^verbatim>\<open>ObjectDetection\<close> (where a source starts objects, and
    the interface both detectors implement), \<^verbatim>\<open>FakeGenerator\<close> and \<^verbatim>\<open>CvCollector\<close> (\<^verbatim>\<open>libcapture/FakeTCP\<close>: the sender of test
    frames and a collector that finds objects by itself), \<^verbatim>\<open>CameraTools\<close> (\<^verbatim>\<open>libcapture/GigE/tools\<close>), \<^verbatim>\<open>DemoPrograms\<close>
    (\<^verbatim>\<open>dclcomponents\<close>: the server and the modules of the demo), \<^verbatim>\<open>DatabaseModule\<close> (its module that writes to a database),
    \<^verbatim>\<open>DemoDescriptions\<close> (\<^verbatim>\<open>pipeline/examples/pipeline_examples.c\<close>: pipelines by name), \<^verbatim>\<open>PipelineWriter\<close> and \<^verbatim>\<open>PipelineDialog\<close>
    (\<^verbatim>\<open>description/examples\<close>: the description of a pipeline to JSON, and the dialog for one), \<^verbatim>\<open>StandaloneCollector\<close>
    (\<^verbatim>\<open>collector/examples\<close>: a collector without a pipeline) and \<^verbatim>\<open>EnvironmentTools\<close> (\<^verbatim>\<open>shmem/tools\<close>).
  \<^bold>\<open>How they interact.\<close> A description is read from JSON and says which modules a pipeline has and how large its
  chunks are. The pipeline computes the map of its segment from it, creates the segment, announces it in the
  environment and starts a process for each external module; the process attaches to the segment it finds
  in its environment. A thread per module hands chunks on through the mailbox of the next module and, for
  an external module, through the entry of the process table in the shared segment. The commands of the
  pipeline set the states of the modules, which their threads read.

  \<^bold>\<open>Conventions.\<close> The result \<open>None\<close> of an operation means that the C code has no defined behaviour there;
  error codes are ordinary values. A C \<open>int\<close> is an \<open>int\<close>, a \<open>size_t\<close> a 64-bit word that wraps; a pointer that may
  be NULL is an option; allocated structures that others point to live in a store from addresses; what a
  system call answers is an argument. A call that may wait for ever has a result \<open>Hangs\<close>, a step that blocks
  is \<open>Blocked\<close>, a step that crashes \<open>Crash\<close>; in \<^verbatim>\<open>SystemDialog\<close> only, \<open>None\<close> is a call that still waits for input.
  There is no fuel: loops over input recurse on the length of the input, loops over lists on the list, and the
  threads are an inductive step relation.

  \<^bold>\<open>What is shown.\<close>
  \<^item> Threads of a pipeline: chunks are conserved and have one owner, mailboxes and process entries have one user, no
    reachable state crashes or deadlocks (while clients do not end themselves), the stop command arrives last.
  \<^item> Commands: the pipeline's states refine a small state machine; a stop is final; a set-up and a start succeed under
    stated conditions; chunks lie apart in the segment.
  \<^item> Shared memory: reads return what was written, segments are isolated, layout and alignment, server and client
    agree on the segment, nothing is left behind by a failed set-up.
  \<^item> Processes: ids are never handed out twice, initialisation is all or nothing.
  \<^item> Descriptions: writing and parsing are inverse, exactly which inputs overflow a buffer, parsed descriptions are
    well formed and can be destroyed, the full object keeps all parts, two dialogs never end.
  \<^item> TCP: connections stay well formed, the parser equals a table of keywords, the list, the allocated connections, the
    descriptors and the epoll set of a server agree in every run, exactly which events are undefined.
  \<^item> Collector: frames are delivered once and in order, the name of an object is never written while it is read, every
    frame goes to the current object, no object gets more frames than the limit, which descriptions can be set up,
    when the end of a source makes the collector wait for ever.
  \<^item> Cameras: sequences of register accesses refine their effect on a table of registers, what opening a camera leaves in
    it, control is kept from start to stop, requests have different ids, late answers shift all that follow, a
    discovery answer is read into its strings, the two searches for devices agree, the frames of a stream are the runs of
    its packets, and exactly which streams overflow the frame buffer.
  \<^item> Processor: a module gets the description the server was started with; a text that is too long, and a module's buffer
    that has no NUL, are undefined; the common segment outlives the processor.
  \<^item> Programs: the frames the generator sends are those a source receives (once its counter is no longer negative), the objects the
    stand-alone collector finds, the reader it shares with a source, the server and a module of the demo together, named
    pipelines are set up, the signal thread ends and handles what it took, what the camera tools leave behind, pipelines that are
    written or typed are parsed back, objects without a pipeline are taken once and in order, what the database module records.
  \<^bold>\<open>Not modelled.\<close> Printing and logging; the tests and the other programs under the \<^verbatim>\<open>examples\<close> directories
  (\<^verbatim>\<open>system_json.c\<close> is an older copy of the dialogs of the library, the rest call the library with fixed arguments or copy programs of the
  demo); the C++ wrapper \<^verbatim>\<open>DCLProcessor.cpp\<close>, which uses an interface that is not there any more; the callbacks that only pass
  images to the libraries for images and objects; the copy of the message header under \<^verbatim>\<open>tcp/include/messenger\<close>; the creation of threads by the operating system, whose steps are interleaved
  instead; the code of \<open>json-c\<close> and of the \<^verbatim>\<open>misc\<close> library, which is not part of the repository. The functions
  that print packets, devices and descriptions are modelled only where they read memory that may not be there
  (\<^verbatim>\<open>out_dclprocessor_description\<close>). Counters of packets are unbounded; in \<^verbatim>\<open>Gvcp\<close> the result \<open>None\<close> is also a call that an
  endless stream of short datagrams keeps from returning.
\<close>

end
